(* ===== verification/GPS_Prelude.thy ===== *)
theory GPS_Prelude
  imports Main "HOL-Library.Word" "HOL-Library.Monad_Syntax"
begin

text \<open>
  What every component of the speedometer shares: the machine types, C strings, C's checked
  32-bit signed arithmetic and the lemmas about lists, options and words the component
  theories use.

  A C string is a \<^typ>\<open>string\<close>: the bytes in front of the terminating NUL. A pointer into
  it is the suffix it points at, and reading through it (\<open>c_peek\<close>) yields NUL at the end
  of the suffix, as the terminator does.

  The result type \<^typ>\<open>'a option\<close> of an operation that computes with pointers or signed
  integers has \<^term>\<open>None\<close> for the executions the C standard leaves undefined (an access
  outside an object, a signed overflow, a division by zero); errors that the code itself reports
  are values of the result.
\<close>

unbundle bit_operations_syntax

type_synonym u8 = "8 word"
type_synonym u16 = "16 word"
type_synonym u32 = "32 word"

named_theorems c_simps "defining equations of C primitives, for evaluation and case splits"
named_theorems word_nat "rules that move word arithmetic to natural numbers"

section \<open>Characters and C strings\<close>

abbreviation NUL :: char where "NUL \<equiv> CHR 0x00"
abbreviation LF :: char where "LF \<equiv> CHR 0x0A"
abbreviation CR :: char where "CR \<equiv> CHR 0x0D"

definition char_code :: "char \<Rightarrow> nat" where
  "char_code c = of_char c"

lemma char_code_less [simp]: "char_code c < 256"
  by (simp add: char_code_def)

lemma char_code_inject [simp]: "char_code c = char_code d \<longleftrightarrow> c = d"
  by (simp add: char_code_def)

definition byte_of :: "char \<Rightarrow> u8" where
  "byte_of c = of_char c"

lemma byte_of_inject [simp]: "byte_of c = byte_of d \<longleftrightarrow> c = d"
proof
  assume "byte_of c = byte_of d"
  then have "unat (of_char c :: u8) = unat (of_char d :: u8)" by (simp add: byte_of_def)
  moreover have "unat (of_char e :: u8) = of_char e" for e
  proof -
    have "(of_char e :: u8) = word_of_nat (of_char e)"
      by (rule of_nat_of_char [symmetric])
    moreover have "(of_char e :: nat) < 256" by simp
    ultimately show ?thesis by (simp add: unat_of_nat)
  qed
  ultimately show "c = d" by simp
qed simp

definition c_isprint :: "char \<Rightarrow> bool" where
  "c_isprint c = (32 \<le> char_code c \<and> char_code c < 127)"

definition c_isdigit :: "char \<Rightarrow> bool" where
  "c_isdigit c = (48 \<le> char_code c \<and> char_code c \<le> 57)"

definition c_isspace :: "char \<Rightarrow> bool" where
  "c_isspace c = (char_code c = 32 \<or> (9 \<le> char_code c \<and> char_code c \<le> 13))"

definition digit_val :: "char \<Rightarrow> int" where
  "digit_val c = int (char_code c) - 48"

lemma digit_val_range: "c_isdigit c \<Longrightarrow> 0 \<le> digit_val c \<and> digit_val c \<le> 9"
  by (auto simp: c_isdigit_def digit_val_def)

lemma isdigit_isprint: "c_isdigit c \<Longrightarrow> c_isprint c"
  by (simp add: c_isdigit_def c_isprint_def)

lemma not_isprint_NUL [simp]: "\<not> c_isprint NUL"
  by (simp add: c_isprint_def char_code_def)

lemma not_isdigit_NUL [simp]: "\<not> c_isdigit NUL"
  by (simp add: c_isdigit_def char_code_def)

lemma not_isspace_NUL [simp]: "\<not> c_isspace NUL"
  by (simp add: c_isspace_def char_code_def)

text \<open>Reading through a pointer: the byte at the head of the suffix, NUL at its end.\<close>

definition c_peek :: "string \<Rightarrow> char" where
  "c_peek s = (case s of [] \<Rightarrow> NUL | c # _ \<Rightarrow> c)"

lemma c_peek_simps [simp]: "c_peek [] = NUL" "c_peek (c # s) = c"
  by (simp_all add: c_peek_def)

definition c_peek_at :: "string \<Rightarrow> nat \<Rightarrow> char" where
  "c_peek_at s n = c_peek (drop n s)"

text \<open>The string a buffer holds: what stands in front of its first NUL.\<close>

definition c_str :: "string \<Rightarrow> string" where
  "c_str s = takeWhile (\<lambda>c. c \<noteq> NUL) s"

definition c_strlen :: "string \<Rightarrow> nat" where
  "c_strlen s = length (c_str s)"

definition c_streq :: "string \<Rightarrow> string \<Rightarrow> bool" where
  "c_streq s t = (c_str s = c_str t)"

lemma c_str_Nil [simp]: "c_str [] = []"
  by (simp add: c_str_def)

lemma c_str_Cons [simp]: "c_str (c # s) = (if c = NUL then [] else c # c_str s)"
  by (simp add: c_str_def)

lemma NUL_notin_c_str [simp]: "NUL \<notin> set (c_str s)"
  by (auto simp: c_str_def dest: set_takeWhileD)

lemma c_str_id: "NUL \<notin> set s \<Longrightarrow> c_str s = s"
  by (induction s) auto

section \<open>C arithmetic\<close>

text \<open>Division truncates towards zero; a result outside \<open>int32_t\<close> is undefined.\<close>

definition c_div :: "int \<Rightarrow> int \<Rightarrow> int" where
  "c_div a b = sgn a * sgn b * (\<bar>a\<bar> div \<bar>b\<bar>)"

definition c_mod :: "int \<Rightarrow> int \<Rightarrow> int" where
  "c_mod a b = a - b * c_div a b"

definition int32_max :: int where "int32_max = 2147483647"
definition int32_min :: int where "int32_min = - 2147483648"

definition chk32 :: "int \<Rightarrow> int option" where
  "chk32 x = (if int32_min \<le> x \<and> x \<le> int32_max then Some x else None)"

lemma chk32_Some_iff: "chk32 x = Some y \<longleftrightarrow> y = x \<and> int32_min \<le> x \<and> x \<le> int32_max"
  by (auto simp: chk32_def)

lemma c_div_pos: "0 \<le> a \<Longrightarrow> 0 < b \<Longrightarrow> c_div a b = a div b"
  by (cases "a = 0") (auto simp: c_div_def)

lemma c_div_neg: "a \<le> 0 \<Longrightarrow> 0 < b \<Longrightarrow> c_div a b = - ((- a) div b)"
  by (cases "a = 0") (auto simp: c_div_def)

section \<open>Lists and options\<close>

lemma bind_Some_iff: "Option.bind x f = Some y \<longleftrightarrow> (\<exists>z. x = Some z \<and> f z = Some y)"
  by (cases x) auto

lemma dropWhile_length: "length (dropWhile P xs) \<le> length xs"
  by (induction xs) auto

text \<open>An \<open>if\<close> without \<open>else\<close>, and a loop over a list, of operations that may fail.\<close>

definition doif :: "bool \<Rightarrow> ('s \<Rightarrow> 's option) \<Rightarrow> 's \<Rightarrow> 's option" where
  "doif b f s = (if b then f s else Some s)"

primrec foldo :: "('s \<Rightarrow> 'a \<Rightarrow> 's option) \<Rightarrow> 'a list \<Rightarrow> 's \<Rightarrow> 's option" where
  "foldo f [] s = Some s"
| "foldo f (x # xs) s = Option.bind (f s x) (foldo f xs)"

lemma foldo_fun:
  "foldo f [] = Some" "foldo f (x # xs) = (\<lambda>s. Option.bind (f s x) (foldo f xs))"
  by auto

lemma foldo_append: "foldo f (xs @ ys) s = Option.bind (foldo f xs s) (foldo f ys)"
  by (induction xs arbitrary: s) (auto split: bind_splits)

end
