(* ===== verification/Minmea_Check.thy ===== *)
theory Minmea_Check
  imports GPS_Prelude
begin

text \<open>
  libs/minmea/minmea.c, the frame check: \<open>hex2int\<close>, \<open>minmea_checksum\<close> and \<open>minmea_check\<close>.
  The two loops over the sentence are structural recursions on the suffix the pointer is at.
  The specification \<open>valid_frame\<close> is the grammar of a frame; the lemmas show that the check
  decides it, accepts every frame a sender builds and detects a changed character.
\<close>

section \<open>Definitions\<close>

definition MINMEA_MAX_LENGTH :: nat where
  "MINMEA_MAX_LENGTH = 80"

definition hex2int :: "char \<Rightarrow> int" where
  "hex2int c =
     (let n = int (char_code c) in
      if 48 \<le> n \<and> n \<le> 57 then n - 48
      else if 65 \<le> n \<and> n \<le> 70 then n - 65 + 10
      else if 97 \<le> n \<and> n \<le> 102 then n - 97 + 10
      else - 1)"

fun checksum_loop :: "string \<Rightarrow> u8 \<Rightarrow> u8" where
  "checksum_loop [] checksum = checksum"
| "checksum_loop (c # s) checksum =
     (if c \<noteq> NUL \<and> c \<noteq> CHR ''*'' then checksum_loop s (checksum XOR byte_of c) else checksum)"

definition minmea_checksum :: "string \<Rightarrow> u8" where
  "minmea_checksum sentence =
     (let sentence = (if c_peek sentence = CHR ''$'' then tl sentence else sentence)
      in checksum_loop sentence 0)"

text \<open>The loop of \<open>minmea_check\<close> also stops at a byte that is not printable; it returns the
  pointer it stopped at and the checksum.\<close>

fun check_loop :: "string \<Rightarrow> u8 \<Rightarrow> string \<times> u8" where
  "check_loop [] checksum = ([], checksum)"
| "check_loop (c # s) checksum =
     (if c \<noteq> NUL \<and> c \<noteq> CHR ''*'' \<and> c_isprint c then check_loop s (checksum XOR byte_of c)
      else (c # s, checksum))"

text \<open>The test for the rest of the line, behind the checksum.\<close>

definition check_eol :: "string \<Rightarrow> bool" where
  "check_eol sentence =
     (\<not> (c_peek sentence \<noteq> NUL \<and> \<not> c_streq sentence [LF] \<and> \<not> c_streq sentence [CR, LF]))"

definition minmea_check :: "string \<Rightarrow> bool \<Rightarrow> bool" where
  "minmea_check sentence strict =
     (if c_strlen sentence > MINMEA_MAX_LENGTH + 3 then False
      else if c_peek sentence \<noteq> CHR ''$'' then False
      else (case check_loop (tl sentence) 0 of (sentence, checksum) \<Rightarrow>
        if c_peek sentence = CHR ''*'' then
          (let sentence = tl sentence; upper = hex2int (c_peek sentence) in
           if upper = - 1 then False
           else let sentence = tl sentence; lower = hex2int (c_peek sentence) in
             if lower = - 1 then False
             else if uint checksum \<noteq> (push_bit 4 upper OR lower) then False
             else check_eol (tl sentence))
        else if strict then False
        else check_eol sentence))"

section \<open>The grammar of a frame\<close>

definition body_char :: "char \<Rightarrow> bool" where
  "body_char c = (c_isprint c \<and> c \<noteq> CHR ''*'')"

definition xor_sum :: "string \<Rightarrow> u8" where
  "xor_sum s = fold (\<lambda>c acc. acc XOR byte_of c) s 0"

definition eol :: "string \<Rightarrow> bool" where
  "eol s = (s = [] \<or> s = [LF] \<or> s = [CR, LF])"

definition frame_tail :: "bool \<Rightarrow> string \<Rightarrow> string \<Rightarrow> bool" where
  "frame_tail strict body rest =
     ((\<exists>u l e. rest = CHR ''*'' # u # l # e \<and> 0 \<le> hex2int u \<and> 0 \<le> hex2int l \<and>
         uint (xor_sum body) = 16 * hex2int u + hex2int l \<and> eol e) \<or>
      (\<not> strict \<and> eol rest))"

definition valid_frame :: "string \<Rightarrow> bool \<Rightarrow> bool" where
  "valid_frame s strict =
     (length s \<le> 83 \<and>
      (\<exists>body rest. s = CHR ''$'' # body @ rest \<and> list_all body_char body \<and>
         frame_tail strict body rest))"

text \<open>The frame a sender builds: upper-case hexadecimal checksum, CR LF.\<close>

definition hex_digit :: "nat \<Rightarrow> char" where
  "hex_digit n = (''0123456789ABCDEF'' ! n)"

definition nmea_frame :: "string \<Rightarrow> string" where
  "nmea_frame body =
     CHR ''$'' # body @ [CHR ''*'', hex_digit (unat (xor_sum body) div 16),
       hex_digit (unat (xor_sum body) mod 16), CR, LF]"

section \<open>Lemmas\<close>

lemma body_char_not_NUL: "body_char c \<Longrightarrow> c \<noteq> NUL"
  by (auto simp: body_char_def)

lemma hex2int_range: "hex2int c = - 1 \<or> (0 \<le> hex2int c \<and> hex2int c \<le> 15)"
  by (auto simp: hex2int_def Let_def)

lemma hex2int_NUL [simp]: "hex2int NUL = - 1"
  by (simp add: hex2int_def char_code_def)

lemma hex2int_not_NUL: "0 \<le> hex2int c \<Longrightarrow> c \<noteq> NUL"
  by auto

lemma push_or_nibble:
  assumes "0 \<le> (l::int)" and "l \<le> 15"
  shows "push_bit 4 u OR l = 16 * u + l"
proof -
  have "l = take_bit 4 l" using assms by (simp add: take_bit_int_eq_self)
  moreover have "push_bit 4 u AND take_bit 4 l = 0"
    by (rule bit_eqI) (auto simp: bit_simps)
  ultimately have "push_bit 4 u AND l = 0" by metis
  then have "push_bit 4 u OR l = push_bit 4 u + l"
    using plus_and_or [of "push_bit 4 u" l] by simp
  then show ?thesis by (simp add: push_bit_eq_mult)
qed

lemma check_loop_split:
  "check_loop s acc = (rest, cks) \<Longrightarrow>
     \<exists>body. s = body @ rest \<and> list_all body_char body \<and> \<not> body_char (c_peek rest) \<and>
        cks = fold (\<lambda>c acc. acc XOR byte_of c) body acc"
proof (induction s acc rule: check_loop.induct)
  case (1 acc)
  then show ?case by (simp add: body_char_def)
next
  case (2 c s acc)
  show ?case
  proof (cases "body_char c")
    case True
    then have guard: "c \<noteq> NUL \<and> c \<noteq> CHR ''*'' \<and> c_isprint c"
      by (auto simp: body_char_def)
    with "2.prems" have "check_loop s (acc XOR byte_of c) = (rest, cks)" by simp
    from "2.IH" [OF guard this] obtain body where
      "s = body @ rest" "list_all body_char body" "\<not> body_char (c_peek rest)"
      "cks = fold (\<lambda>c acc. acc XOR byte_of c) body (acc XOR byte_of c)" by blast
    with True show ?thesis by (intro exI [of _ "c # body"]) simp
  next
    case False
    then have "\<not> (c \<noteq> NUL \<and> c \<noteq> CHR ''*'' \<and> c_isprint c)"
      by (auto simp: body_char_def)
    with "2.prems" have "rest = c # s \<and> cks = acc" by auto
    with False show ?thesis by (intro exI [of _ "[]"]) simp
  qed
qed

lemma check_loop_body:
  "list_all body_char body \<Longrightarrow> \<not> body_char (c_peek rest) \<Longrightarrow>
     check_loop (body @ rest) acc = (rest, fold (\<lambda>c acc. acc XOR byte_of c) body acc)"
proof (induction body arbitrary: acc)
  case Nil
  then show ?case by (cases rest) (auto simp: body_char_def)
next
  case (Cons c body)
  then show ?case by (auto simp: body_char_def)
qed

lemma eol_not_body: "eol e \<Longrightarrow> \<not> body_char (c_peek e)"
  by (auto simp: eol_def body_char_def c_isprint_def char_code_def)

lemma check_eol_iff: "NUL \<notin> set s \<Longrightarrow> check_eol s = eol s"
  by (cases s) (auto simp: check_eol_def eol_def c_streq_def c_str_id)

lemma c_strlen_id: "NUL \<notin> set s \<Longrightarrow> c_strlen s = length s"
  by (simp add: c_strlen_def c_str_id)

section \<open>The check decides the grammar\<close>

lemma in_set_tl: "x \<in> set (tl xs) \<Longrightarrow> x \<in> set xs"
  by (cases xs) auto

lemma xor_sum_unat: "unat (xor_sum s) < 256"
  using unsigned_less [of "xor_sum s"] by simp

lemma frame_tail_split:
  "frame_tail strict body rest =
    (if c_peek rest = CHR ''*'' then
       (0 \<le> hex2int (c_peek (tl rest)) \<and> 0 \<le> hex2int (c_peek (tl (tl rest))) \<and>
        uint (xor_sum body) = 16 * hex2int (c_peek (tl rest)) + hex2int (c_peek (tl (tl rest))) \<and>
        eol (tl (tl (tl rest))))
     else \<not> strict \<and> eol rest)"
  by (cases rest; cases "tl rest"; cases "tl (tl rest)") (auto simp: frame_tail_def eol_def)

lemma frame_tail_not_body: "frame_tail strict body rest \<Longrightarrow> \<not> body_char (c_peek rest)"
  by (auto simp: frame_tail_def eol_not_body) (simp add: body_char_def)

lemma minmea_check_after_loop:
  assumes nul: "NUL \<notin> set s" and len: "length s \<le> 83"
    and s: "s = CHR ''$'' # body @ rest" and body: "list_all body_char body"
    and rest: "\<not> body_char (c_peek rest)"
  shows "minmea_check s strict = frame_tail strict body rest"
proof -
  have loop: "check_loop (tl s) 0 = (rest, xor_sum body)"
    using check_loop_body [OF body rest, of 0] s by (simp add: xor_sum_def)
  have nul_rest: "NUL \<notin> set rest" "NUL \<notin> set (tl (tl (tl rest)))"
    using nul s by (auto dest!: in_set_tl)
  have len': "\<not> MINMEA_MAX_LENGTH + 3 < c_strlen s"
    using len nul by (simp add: c_strlen_id MINMEA_MAX_LENGTH_def)
  let ?u = "hex2int (c_peek (tl rest))" and ?l = "hex2int (c_peek (tl (tl rest)))"
  have u: "?u \<noteq> - 1 \<longleftrightarrow> 0 \<le> ?u" and l: "?l \<noteq> - 1 \<longleftrightarrow> 0 \<le> ?l"
    using hex2int_range [of "c_peek (tl rest)"] hex2int_range [of "c_peek (tl (tl rest))"] by auto
  have "0 \<le> ?l \<Longrightarrow> push_bit 4 ?u OR ?l = 16 * ?u + ?l"
    using hex2int_range [of "c_peek (tl (tl rest))"] by (intro push_or_nibble) auto
  then show ?thesis
    using loop len' s u l nul_rest
    by (auto simp: minmea_check_def frame_tail_split Let_def check_eol_iff)
qed

text \<open>Where the body ends is determined: a line splits into body and rest in one way.\<close>

lemma frame_split_unique:
  assumes "body @ rest = body' @ rest'" and "list_all body_char body" "list_all body_char body'"
    and "\<not> body_char (c_peek rest)" "\<not> body_char (c_peek rest')"
  shows "body = body' \<and> rest = rest'"
proof -
  have "rest = rest'"
    using check_loop_body [OF assms(2,4), of 0] check_loop_body [OF assms(3,5), of 0] assms(1)
    by simp
  with assms(1) show ?thesis by simp
qed

lemma fold_xor_acc: "fold (\<lambda>c acc. acc XOR byte_of c) s acc = acc XOR xor_sum s"
proof (induction s arbitrary: acc)
  case (Cons c s)
  show ?case using Cons [of "acc XOR byte_of c"] Cons [of "byte_of c"]
    by (simp add: xor_sum_def ac_simps)
qed (simp add: xor_sum_def)

lemma xor_sum_simps:
  "xor_sum [] = 0" "xor_sum (c # s) = byte_of c XOR xor_sum s"
  "xor_sum (s @ t) = xor_sum s XOR xor_sum t"
proof -
  show "xor_sum [] = 0" by (simp add: xor_sum_def)
  show "xor_sum (c # s) = byte_of c XOR xor_sum s"
    using fold_xor_acc [of s "byte_of c"] by (simp add: xor_sum_def)
  show "xor_sum (s @ t) = xor_sum s XOR xor_sum t"
    using fold_xor_acc [of t "xor_sum s"] by (simp add: xor_sum_def)
qed

lemma xor_sum_change:
  "xor_sum (pre @ c # post) = xor_sum (pre @ d # post) \<longleftrightarrow> byte_of c = byte_of d"
proof -
  have "a XOR b XOR e = a XOR b' XOR e \<longleftrightarrow> b = b'" for a b b' e :: u8
    by (auto simp: bit_eq_iff bit_simps)
  then show ?thesis by (simp add: xor_sum_simps xor.assoc)
qed

lemma checksum_loop_body:
  "list_all body_char body \<Longrightarrow>
     checksum_loop (body @ CHR ''*'' # t) acc = fold (\<lambda>c acc. acc XOR byte_of c) body acc"
  by (induction body arbitrary: acc) (auto simp: body_char_def)

lemma hex_digits: "list_all (\<lambda>n. hex2int (hex_digit n) = int n \<and> hex_digit n \<noteq> NUL) [0..<16]"
  by code_simp

lemma hex2int_hex_digit: "n < 16 \<Longrightarrow> hex2int (hex_digit n) = int n"
  using hex_digits unfolding list_all_iff by simp

lemma hex_digit_NUL: "n < 16 \<Longrightarrow> hex_digit n \<noteq> NUL"
  using hex_digits unfolding list_all_iff by auto

lemma uint_nat_split: "uint (w :: u8) = 16 * int (unat w div 16) + int (unat w mod 16)"
proof -
  have "uint w = int (unat w)" by simp
  then show ?thesis by presburger
qed

lemma valid_frameI:
  "length (CHR ''$'' # body @ rest) \<le> 83 \<Longrightarrow> list_all body_char body \<Longrightarrow>
     frame_tail strict body rest \<Longrightarrow> valid_frame (CHR ''$'' # body @ rest) strict"
  unfolding valid_frame_def by blast

lemma frame_tail_hex:
  "h < 16 \<Longrightarrow> l < 16 \<Longrightarrow> uint (xor_sum body) = 16 * int h + int l \<Longrightarrow> eol e \<Longrightarrow>
     frame_tail strict body (CHR ''*'' # hex_digit h # hex_digit l # e)"
  by (auto simp: frame_tail_def hex2int_hex_digit)

lemma minmea_check_decides:
  assumes "NUL \<notin> set s"
  shows "minmea_check s strict \<longleftrightarrow> valid_frame s strict"
proof (cases "length s \<le> 83 \<and> c_peek s = CHR ''$''")
  case False
  with assms show ?thesis
    by (auto simp: minmea_check_def valid_frame_def c_strlen_id MINMEA_MAX_LENGTH_def)
next
  case True
  then obtain t where t: "s = CHR ''$'' # t" by (cases s) auto
  obtain rest cks where "check_loop t 0 = (rest, cks)" by fastforce
  from check_loop_split [OF this] obtain body where
    b: "t = body @ rest" "list_all body_char body" "\<not> body_char (c_peek rest)" by blast
  have "minmea_check s strict = frame_tail strict body rest"
    using assms True t b by (intro minmea_check_after_loop) auto
  moreover have "valid_frame s strict = frame_tail strict body rest"
  proof
    assume "valid_frame s strict"
    then obtain body' rest' where v: "s = CHR ''$'' # body' @ rest'" "list_all body_char body'"
      "frame_tail strict body' rest'" unfolding valid_frame_def by blast
    from v(1) t b(1) have "body @ rest = body' @ rest'" by simp
    from frame_split_unique [OF this b(2) v(2) b(3) frame_tail_not_body [OF v(3)]] v(3)
    show "frame_tail strict body rest" by simp
  next
    assume "frame_tail strict body rest"
    with True t b show "valid_frame s strict"
      unfolding valid_frame_def by (intro conjI exI [of _ body] exI [of _ rest]) auto
  qed
  ultimately show ?thesis by simp
qed

text \<open>C6: \<open>minmea_check\<close> accepts a line exactly when it is a frame: at most 83 bytes, a dollar sign,
  a body of printable characters other than the asterisk, then an asterisk and two hexadecimal
  digits that spell the XOR of the body (or, outside strict mode, no checksum at all), then at
  most a line end. Every other line is rejected.\<close>

theorem minmea_check_iff_valid_frame:
  assumes "NUL \<notin> set s"
  shows "minmea_check s strict \<longleftrightarrow> valid_frame s strict"
  using assms by (rule minmea_check_decides)

theorem minmea_check_iff_valid_frame_witness:
  "NUL \<notin> set ''$GPGSV,4,4,13*7B'' \<and> valid_frame ''$GPGSV,4,4,13*7B'' True"
proof -
  have n: "NUL \<notin> set ''$GPGSV,4,4,13*7B''" by simp
  have "minmea_check ''$GPGSV,4,4,13*7B'' True" by code_simp
  with n minmea_check_iff_valid_frame [OF n, of True] show ?thesis by simp
qed

lemma nmea_frame_check:
  assumes "list_all body_char body" and "length body \<le> 77"
  shows "minmea_check (nmea_frame body) strict \<and> minmea_checksum (nmea_frame body) = xor_sum body"
proof
  let ?h = "hex_digit (unat (xor_sum body) div 16)" and ?l = "hex_digit (unat (xor_sum body) mod 16)"
  have "?h \<noteq> NUL" using xor_sum_unat [of body] by (intro hex_digit_NUL) simp
  moreover have "?l \<noteq> NUL" by (rule hex_digit_NUL) simp
  moreover have "NUL \<notin> set body"
    using assms(1) by (auto dest: body_char_not_NUL simp: list_all_iff)
  ultimately have nul: "NUL \<notin> set (nmea_frame body)"
    by (auto simp: nmea_frame_def)
  have tail: "frame_tail strict body [CHR ''*'', hex_digit (unat (xor_sum body) div 16),
       hex_digit (unat (xor_sum body) mod 16), CR, LF]"
  proof (rule frame_tail_hex)
    show "unat (xor_sum body) div 16 < 16" using xor_sum_unat [of body] by simp
    show "unat (xor_sum body) mod 16 < 16" by simp
    show "uint (xor_sum body) =
        16 * int (unat (xor_sum body) div 16) + int (unat (xor_sum body) mod 16)"
      by (rule uint_nat_split)
    show "eol [CR, LF]" by (simp add: eol_def)
  qed
  from tail assms have "valid_frame (nmea_frame body) strict"
    unfolding nmea_frame_def by (intro valid_frameI) simp_all
  with minmea_check_decides [OF nul] show "minmea_check (nmea_frame body) strict" by simp
  show "minmea_checksum (nmea_frame body) = xor_sum body"
    using assms(1) by (simp add: minmea_checksum_def nmea_frame_def checksum_loop_body xor_sum_def)
qed

text \<open>C37: every frame a sender builds from a printable body of at most 77 characters (dollar sign,
  body, asterisk, the two upper-case hexadecimal digits of the XOR of the body, CR LF) passes the
  strict check, and \<open>minmea_checksum\<close> of the whole line is the checksum it carries.\<close>

theorem nmea_frame_accepted:
  assumes "list_all body_char body" and "length body \<le> 77"
  shows "minmea_check (nmea_frame body) True \<and> minmea_checksum (nmea_frame body) = xor_sum body"
  using assms by (rule nmea_frame_check)

theorem nmea_frame_accepted_witness:
  "list_all body_char ''GPGSV,4,4,13'' \<and> nmea_frame ''GPGSV,4,4,13'' = ''$GPGSV,4,4,13*7B'' @ [CR, LF]
   \<and> minmea_check (nmea_frame ''GPGSV,4,4,13'') True"
proof -
  have b: "list_all body_char ''GPGSV,4,4,13''" by code_simp
  moreover have "nmea_frame ''GPGSV,4,4,13'' = ''$GPGSV,4,4,13*7B'' @ [CR, LF]" by code_simp
  moreover have "length ''GPGSV,4,4,13'' \<le> 77" by simp
  ultimately show ?thesis using nmea_frame_accepted [OF b] by simp
qed

text \<open>C38: the checksum detects every changed character: when one character of the body of a
  frame that passes the strict check is replaced by a different body character, the line no
  longer passes (in strict mode or outside it).\<close>

theorem minmea_check_detects_change:
  assumes "NUL \<notin> set (CHR ''$'' # pre @ c # post @ CHR ''*'' # tail)"
    and "list_all body_char (pre @ c # post)" and "body_char d" and "c \<noteq> d"
    and "minmea_check (CHR ''$'' # pre @ c # post @ CHR ''*'' # tail) strict"
  shows "\<not> minmea_check (CHR ''$'' # pre @ d # post @ CHR ''*'' # tail) strict'"
proof
  let ?f = "\<lambda>x. CHR ''$'' # (pre @ x # post) @ (CHR ''*'' # tail)"
  assume d: "minmea_check (CHR ''$'' # pre @ d # post @ CHR ''*'' # tail) strict'"
  have star: "\<not> body_char (c_peek (CHR ''*'' # tail))" by (simp add: body_char_def)
  have len: "length (?f c) \<le> 83"
    using assms(1,5) minmea_check_decides [of "?f c" strict] by (auto simp: valid_frame_def)
  have after: "minmea_check (?f x) b = frame_tail b (pre @ x # post) (CHR ''*'' # tail)"
    if "body_char x" for x b
    using assms(1,2) that len star
    by (intro minmea_check_after_loop) (auto dest: body_char_not_NUL simp: list_all_iff)
  have "body_char c" using assms(2) by simp
  from after [OF this] assms(5) after [OF assms(3)] d
  have "uint (xor_sum (pre @ c # post)) = uint (xor_sum (pre @ d # post))"
    by (auto simp: frame_tail_def eol_def)
  then have "xor_sum (pre @ c # post) = xor_sum (pre @ d # post)" by (simp add: word_uint_eq_iff)
  then have "byte_of c = byte_of d" by (simp add: xor_sum_change)
  with assms(4) show False by simp
qed

theorem minmea_check_detects_change_witness:
  "minmea_check ''$GPGLL,4815.20,N,01622.35,E,102030,A*21'' True \<and>
   \<not> minmea_check ''$GPGLL,4815.28,N,01622.35,E,102030,A*21'' False"
proof -
  have ok: "minmea_check (CHR ''$'' # ''GPGLL,4815.2'' @ CHR ''0'' # '',N,01622.35,E,102030,A'' @
      CHR ''*'' # ''21'') True"
    by code_simp
  have body: "list_all body_char (''GPGLL,4815.2'' @ CHR ''0'' # '',N,01622.35,E,102030,A'')"
    "body_char (CHR ''8'')" by code_simp+
  have "NUL \<notin> set (CHR ''$'' # ''GPGLL,4815.2'' @ CHR ''0'' # '',N,01622.35,E,102030,A'' @
      CHR ''*'' # ''21'')" by simp
  from minmea_check_detects_change [OF this body _ ok, of False] ok show ?thesis by simp
qed

end
