(* ===== verification/Minmea_Scan.thy ===== *)
theory Minmea_Scan
  imports Minmea_Check
begin

text \<open>
  libs/minmea/minmea.c, \<open>minmea_scan\<close>: the scanf-like processor of one sentence. Each conversion
  is a function of the field pointer (\<^term>\<open>None\<close> for the null pointer the code uses when no field is
  left) and gives the value it writes, a parse error, or undefined behaviour. The variable
  argument list is a list of destinations, each the store through one pointer argument, so that
  what a failed scan has already written is part of the result.
\<close>

section \<open>Data\<close>

record minmea_float =
  f_value :: int
  f_scale :: int

record minmea_date =
  d_day :: int
  d_month :: int
  d_year :: int

record minmea_time =
  t_hours :: int
  t_minutes :: int
  t_seconds :: int
  t_microseconds :: int

text \<open>What one conversion stores, by the type of the pointer argument it takes.\<close>

datatype scan_value =
    VChar char
  | VInt int
  | VFloat minmea_float
  | VStr string
  | VDate minmea_date
  | VTime minmea_time
  | VNone

type_synonym 'f dest = "scan_value \<Rightarrow> 'f \<Rightarrow> 'f"

text \<open>The outcome of a conversion: the value, \<open>goto parse_error\<close>, or undefined behaviour.\<close>

datatype 'a conv = Conv 'a | Parse_Error | Undefined

section \<open>Fields\<close>

definition minmea_isfield :: "char \<Rightarrow> bool" where
  "minmea_isfield c = (c_isprint c \<and> c \<noteq> CHR '','' \<and> c \<noteq> CHR ''*'')"

fun skip_field :: "string \<Rightarrow> string" where
  "skip_field [] = []"
| "skip_field (c # s) = (if minmea_isfield c then skip_field s else c # s)"

text \<open>The macro \<open>next_field\<close>: the new \<open>sentence\<close> and \<open>field\<close> pointers.\<close>

definition next_field :: "string \<Rightarrow> string \<times> string option" where
  "next_field sentence =
     (let sentence = skip_field sentence in
      if c_peek sentence = CHR '','' then (tl sentence, Some (tl sentence)) else (sentence, None))"

section \<open>Conversions\<close>

definition scan_c :: "string option \<Rightarrow> scan_value conv" where
  "scan_c field =
     (case field of Some f \<Rightarrow> if minmea_isfield (c_peek f) then Conv (VChar (c_peek f)) else Conv (VChar NUL)
      | None \<Rightarrow> Conv (VChar NUL))"

definition scan_d :: "string option \<Rightarrow> scan_value conv" where
  "scan_d field =
     (case field of
        Some f \<Rightarrow>
          if minmea_isfield (c_peek f) then
            (if c_peek f = CHR ''N'' \<or> c_peek f = CHR ''E'' then Conv (VInt 1)
             else if c_peek f = CHR ''S'' \<or> c_peek f = CHR ''W'' then Conv (VInt (- 1))
             else Parse_Error)
          else Conv (VInt 0)
      | None \<Rightarrow> Conv (VInt 0))"

text \<open>The loop of the fractional conversion over \<open>sign\<close>, \<open>value\<close> and \<open>scale\<close>; the leading
  \<open>break\<close> of the overflow test leaves the loop. The arithmetic on \<open>value\<close> and \<open>scale\<close> is signed and
  has 32 bits: a product or a sum outside \<open>int_least32_t\<close> is undefined.\<close>

fun float_loop :: "string \<Rightarrow> int \<Rightarrow> int \<Rightarrow> int \<Rightarrow> (int \<times> int \<times> int) conv" where
  "float_loop [] sign value scale = Conv (sign, value, scale)"
| "float_loop (c # field) sign value scale =
     (if \<not> minmea_isfield c then Conv (sign, value, scale)
      else if c = CHR ''+'' \<and> sign = 0 \<and> value = - 1 then float_loop field 1 value scale
      else if c = CHR ''-'' \<and> sign = 0 \<and> value = - 1 then float_loop field (- 1) value scale
      else if c_isdigit c then
        (let digit = digit_val c; value = (if value = - 1 then 0 else value) in
         if value > c_div (int32_max - digit) 10 then
           (if scale \<noteq> 0 then Conv (sign, value, scale) else Parse_Error)
         else
           (case Option.bind (chk32 (10 * value)) (\<lambda>value. chk32 (value + digit)) of
              None \<Rightarrow> Undefined
            | Some value \<Rightarrow>
                if scale \<noteq> 0 then
                  (case chk32 (scale * 10) of
                     Some scale \<Rightarrow> float_loop field sign value scale
                   | None \<Rightarrow> Undefined)
                else float_loop field sign value scale))
      else if c = CHR ''.'' \<and> scale = 0 then float_loop field sign value 1
      else if c = CHR '' '' then
        (if sign \<noteq> 0 \<or> value \<noteq> - 1 \<or> scale \<noteq> 0 then Parse_Error
         else float_loop field sign value scale)
      else Parse_Error)"

definition float_finish :: "int \<Rightarrow> int \<Rightarrow> int \<Rightarrow> scan_value conv" where
  "float_finish sign value scale =
     (if (sign \<noteq> 0 \<or> scale \<noteq> 0) \<and> value = - 1 then Parse_Error
      else
        (let (value, scale) =
           (if value = - 1 then (0, 0) else if scale = 0 then (value, 1) else (value, scale))
         in case (if sign \<noteq> 0 then chk32 (value * sign) else Some value) of
              Some value \<Rightarrow> Conv (VFloat \<lparr>f_value = value, f_scale = scale\<rparr>)
            | None \<Rightarrow> Undefined))"

definition scan_f :: "string option \<Rightarrow> scan_value conv" where
  "scan_f field =
     (case field of
        None \<Rightarrow> float_finish 0 (- 1) 0
      | Some f \<Rightarrow>
          (case float_loop f 0 (- 1) 0 of
             Conv (sign, value, scale) \<Rightarrow> float_finish sign value scale
           | Parse_Error \<Rightarrow> Parse_Error
           | Undefined \<Rightarrow> Undefined))"

text \<open>The library's \<open>strtol\<close> in base ten with a 32-bit \<open>long\<close>: white space, a sign, digits; the
  value clamped to the range, and the pointer behind the digits (the string itself when there
  are none).\<close>

fun strtol_digits :: "string \<Rightarrow> int \<Rightarrow> int \<times> string" where
  "strtol_digits [] acc = (acc, [])"
| "strtol_digits (c # s) acc =
     (if c_isdigit c then strtol_digits s (10 * acc + digit_val c) else (acc, c # s))"

definition c_strtol :: "string \<Rightarrow> int \<times> string" where
  "c_strtol s =
     (let t = dropWhile c_isspace s;
          neg = (c_peek t = CHR ''-'');
          t = (if c_peek t = CHR ''-'' \<or> c_peek t = CHR ''+'' then tl t else t)
      in if c_isdigit (c_peek t) then
           (let (n, e) = strtol_digits t 0;
                v = (if neg then - n else n)
            in (max int32_min (min int32_max v), e))
         else (0, s))"

definition scan_i :: "string option \<Rightarrow> scan_value conv" where
  "scan_i field =
     (case field of
        None \<Rightarrow> Conv (VInt 0)
      | Some f \<Rightarrow>
          (case c_strtol f of (value, endptr) \<Rightarrow>
             if minmea_isfield (c_peek endptr) then Parse_Error else Conv (VInt value)))"

fun copy_field :: "string \<Rightarrow> string" where
  "copy_field [] = []"
| "copy_field (c # s) = (if minmea_isfield c then c # copy_field s else [])"

text \<open>The string conversion copies the field as long as it is: it has no bound on the destination.
  No format of the library uses it, so no buffer of the program limits the text it stores.\<close>

definition scan_s :: "string option \<Rightarrow> scan_value conv" where
  "scan_s field = (case field of None \<Rightarrow> Conv (VStr []) | Some f \<Rightarrow> Conv (VStr (copy_field f)))"

definition scan_t :: "string option \<Rightarrow> scan_value conv" where
  "scan_t field =
     (case field of
        None \<Rightarrow> Parse_Error
      | Some f \<Rightarrow>
          if c_peek f \<noteq> CHR ''$'' then Parse_Error
          else if \<not> list_all (\<lambda>k. minmea_isfield (c_peek_at f (1 + k))) [0..<5] then Parse_Error
          else Conv (VStr (take 5 (drop 1 f))))"

text \<open>The two-digit arrays of the date and time conversions, read by \<open>strtol\<close>.\<close>

definition two_digits :: "string \<Rightarrow> nat \<Rightarrow> int" where
  "two_digits f k = fst (c_strtol [c_peek_at f k, c_peek_at f (k + 1)])"

definition scan_D :: "string option \<Rightarrow> scan_value conv" where
  "scan_D field =
     (case field of
        Some f \<Rightarrow>
          if minmea_isfield (c_peek f) then
            (if \<not> list_all (\<lambda>k. c_isdigit (c_peek_at f k)) [0..<6] then Parse_Error
             else Conv (VDate \<lparr>d_day = two_digits f 0, d_month = two_digits f 2,
               d_year = two_digits f 4\<rparr>))
          else Conv (VDate \<lparr>d_day = - 1, d_month = - 1, d_year = - 1\<rparr>)
      | None \<Rightarrow> Conv (VDate \<lparr>d_day = - 1, d_month = - 1, d_year = - 1\<rparr>))"

text \<open>The loop over the digits of the fractional seconds, with 32-bit arithmetic.\<close>

fun micro_loop :: "string \<Rightarrow> int \<Rightarrow> int \<Rightarrow> (int \<times> int) option" where
  "micro_loop [] value scale = Some (value, scale)"
| "micro_loop (c # field) value scale =
     (if c_isdigit c \<and> scale > 1 then
        (case Option.bind (chk32 (value * 10)) (\<lambda>value. chk32 (value + digit_val c)) of
           None \<Rightarrow> None
         | Some value \<Rightarrow> micro_loop field value (c_div scale 10))
      else Some (value, scale))"

definition scan_T :: "string option \<Rightarrow> scan_value conv" where
  "scan_T field =
     (let none = VTime \<lparr>t_hours = - 1, t_minutes = - 1, t_seconds = - 1, t_microseconds = - 1\<rparr> in
      case field of
        Some f \<Rightarrow>
          if minmea_isfield (c_peek f) then
            (if \<not> list_all (\<lambda>k. c_isdigit (c_peek_at f k)) [0..<6] then Parse_Error
             else
               (case (if c_peek_at f 6 = CHR ''.'' then
                        Option.bind (micro_loop (drop 7 f) 0 1000000)
                          (\<lambda>(value, scale). chk32 (value * scale))
                      else Some 0) of
                  None \<Rightarrow> Undefined
                | Some u \<Rightarrow>
                    Conv (VTime \<lparr>t_hours = two_digits f 0, t_minutes = two_digits f 2,
                      t_seconds = two_digits f 4, t_microseconds = u\<rparr>)))
          else Conv none
      | None \<Rightarrow> Conv none)"

text \<open>The switch over the conversion character.\<close>

definition scan_conv :: "char \<Rightarrow> string option \<Rightarrow> scan_value conv" where
  "scan_conv type field =
     (if type = CHR ''c'' then scan_c field
      else if type = CHR ''d'' then scan_d field
      else if type = CHR ''f'' then scan_f field
      else if type = CHR ''i'' then scan_i field
      else if type = CHR ''s'' then scan_s field
      else if type = CHR ''t'' then scan_t field
      else if type = CHR ''D'' then scan_D field
      else if type = CHR ''T'' then scan_T field
      else if type = CHR ''_'' then Conv VNone
      else Parse_Error)"

section \<open>The scanner\<close>

text \<open>The loop over the format. \<open>ap\<close> is the rest of the argument list (\<open>'_'\<close> takes none; a missing
  argument is undefined); the result is the function's result and the store.\<close>

fun scan_loop ::
  "string \<Rightarrow> string \<Rightarrow> string option \<Rightarrow> bool \<Rightarrow> 'f dest list \<Rightarrow> 'f \<Rightarrow> (bool \<times> 'f) option" where
  "scan_loop [] sentence field optional ap st = Some (True, st)"
| "scan_loop (type # format) sentence field optional ap st =
     (if type = CHR '';'' then scan_loop format sentence field True ap st
      else if field = None \<and> \<not> optional then Some (False, st)
      else
        (case scan_conv type field of
           Parse_Error \<Rightarrow> Some (False, st)
         | Undefined \<Rightarrow> None
         | Conv v \<Rightarrow>
             (case next_field sentence of (sentence, field) \<Rightarrow>
                if v = VNone then scan_loop format sentence field optional ap st
                else
                  (case ap of
                     [] \<Rightarrow> None
                   | dst # ap \<Rightarrow> scan_loop format sentence field optional ap (dst v st)))))"

definition minmea_scan :: "string \<Rightarrow> string \<Rightarrow> 'f dest list \<Rightarrow> 'f \<Rightarrow> (bool \<times> 'f) option" where
  "minmea_scan sentence format ap st = scan_loop format sentence (Some sentence) False ap st"

section \<open>Fields: the conversions see the text of their field only\<close>

lemma isfield_NUL [simp]: "\<not> minmea_isfield NUL"
  by (simp add: minmea_isfield_def)

lemma isfield_comma [simp]: "\<not> minmea_isfield (CHR '','')"
  by (simp add: minmea_isfield_def)

lemma isfield_star [simp]: "\<not> minmea_isfield (CHR ''*'')"
  by (simp add: minmea_isfield_def)

lemma digit_isfield: "c_isdigit c \<Longrightarrow> minmea_isfield c"
  by (auto simp: minmea_isfield_def isdigit_isprint)
    (auto simp: c_isdigit_def char_code_def)

lemma dot_isfield [simp]: "minmea_isfield (CHR ''.'')"
  by (simp add: minmea_isfield_def c_isprint_def char_code_def)

abbreviation field_text :: "string \<Rightarrow> bool" where
  "field_text f \<equiv> list_all minmea_isfield f"

abbreviation field_end :: "string \<Rightarrow> bool" where
  "field_end r \<equiv> \<not> minmea_isfield (c_peek r)"

lemma skip_field_text: "field_text f \<Longrightarrow> field_end r \<Longrightarrow> skip_field (f @ r) = r"
  by (induction f) (auto simp: c_peek_def split: list.splits)

lemma next_field_comma: "field_text f \<Longrightarrow> next_field (f @ CHR '','' # r) = (r, Some r)"
  by (simp add: next_field_def skip_field_text)

lemma next_field_last:
  "field_text f \<Longrightarrow> field_end r \<Longrightarrow> c_peek r \<noteq> CHR '','' \<Longrightarrow> next_field (f @ r) = (r, None)"
  by (simp add: next_field_def skip_field_text)

lemma copy_field_text: "field_text f \<Longrightarrow> field_end r \<Longrightarrow> copy_field (f @ r) = f"
  by (induction f) (auto simp: c_peek_def split: list.splits)

lemma float_loop_stop: "field_end r \<Longrightarrow> float_loop r sg v sc = Conv (sg, v, sc)"
  by (cases r) auto

lemma float_loop_local:
  "field_text f \<Longrightarrow> field_end r \<Longrightarrow> float_loop (f @ r) sg v sc = float_loop f sg v sc"
proof (induction f arbitrary: sg v sc)
  case Nil
  then show ?case by (simp add: float_loop_stop)
next
  case (Cons c f)
  then have IH: "float_loop (f @ r) sg v sc = float_loop f sg v sc" for sg v sc by simp
  show ?case unfolding append_Cons float_loop.simps(2) IH ..
qed

lemma c_peek_append: "c_peek (f @ r) = (if f = [] then c_peek r else c_peek f)"
  by (cases f) auto

lemma scan_f_local:
  "field_text f \<Longrightarrow> field_end r \<Longrightarrow> scan_f (Some (f @ r)) = scan_f (Some f)"
  by (simp add: scan_f_def float_loop_local)

lemma scan_c_local:
  "field_text f \<Longrightarrow> field_end r \<Longrightarrow> scan_c (Some (f @ r)) = scan_c (Some f)"
  by (cases f) (auto simp: scan_c_def)

lemma scan_d_local:
  "field_text f \<Longrightarrow> field_end r \<Longrightarrow> scan_d (Some (f @ r)) = scan_d (Some f)"
  by (cases f) (auto simp: scan_d_def)

section \<open>Decimal numbers\<close>

definition digits_from :: "int \<Rightarrow> string \<Rightarrow> int" where
  "digits_from a ds = foldl (\<lambda>a c. 10 * a + digit_val c) a ds"

abbreviation digits_val :: "string \<Rightarrow> int" where
  "digits_val ds \<equiv> digits_from 0 ds"

lemma digits_from_simps [simp]:
  "digits_from a [] = a"
  "digits_from a (c # ds) = digits_from (10 * a + digit_val c) ds"
  "digits_from a (ds @ es) = digits_from (digits_from a ds) es"
  by (simp_all add: digits_from_def)

lemma digits_from_mono: "list_all c_isdigit ds \<Longrightarrow> 0 \<le> a \<Longrightarrow> a \<le> digits_from a ds"
proof (induction ds arbitrary: a)
  case (Cons c ds)
  then have "0 \<le> digit_val c" using digit_val_range by auto
  with Cons.prems have "a \<le> 10 * a + digit_val c" "0 \<le> 10 * a + digit_val c" by auto
  with Cons show ?case by fastforce
qed simp

lemma sign_not_digit [simp]: "\<not> c_isdigit (CHR ''+'')" "\<not> c_isdigit (CHR ''-'')"
    "\<not> c_isdigit (CHR ''.'')" "\<not> c_isdigit (CHR '' '')"
  by (simp_all add: c_isdigit_def char_code_def)

lemma digit_not_sign: "c_isdigit c \<Longrightarrow> c \<noteq> CHR ''+'' \<and> c \<noteq> CHR ''-'' \<and> c \<noteq> CHR ''.'' \<and> c \<noteq> CHR '' ''"
  by auto

text \<open>The overflow test of the loop is exact: it fires when the next value would exceed
  \<open>INT_LEAST32_MAX\<close>.\<close>

lemma overflow_test_exact:
  assumes "0 \<le> d" and "d \<le> 9"
  shows "v > c_div (int32_max - d) 10 \<longleftrightarrow> 10 * v + d > int32_max"
proof -
  define x where "x = int32_max - d"
  have "0 \<le> x" using assms by (simp add: x_def int32_max_def)
  then have "c_div x 10 = x div 10" by (simp add: c_div_pos)
  moreover have "x = 10 * (x div 10) + x mod 10" "0 \<le> x mod 10" "x mod 10 < 10" by simp_all
  ultimately have "v > c_div x 10 \<longleftrightarrow> 10 * v > x" by linarith
  then show ?thesis by (auto simp: x_def)
qed

lemma power10_le_9: "k \<le> 9 \<Longrightarrow> (10::int) ^ k \<le> 10 ^ 9"
  by (rule power_increasing) auto

lemma chk32_power10:
  assumes "k \<le> 8"
  shows "chk32 (10 ^ k * 10) = Some (10 ^ Suc k)"
proof -
  have "(10::int) ^ Suc k \<le> 10 ^ 9" using assms by (intro power10_le_9) simp
  moreover have "- 2147483648 \<le> (10::int) ^ Suc k"
    by (rule order_trans [of _ 0]) simp_all
  moreover have "(10::int) ^ k * 10 = 10 ^ Suc k" by simp
  ultimately show ?thesis by (simp add: chk32_def int32_max_def int32_min_def del: power_Suc)
qed

declare float_loop.simps(2) [simp del]

text \<open>What the overflow test lets through is computed without an overflow.\<close>

lemma accumulate_in_range:
  assumes "0 \<le> v" and "0 \<le> d" and "10 * v + d \<le> int32_max"
  shows "Option.bind (chk32 (10 * v)) (\<lambda>x. chk32 (x + d)) = Some (10 * v + d)"
    and "Option.bind (chk32 (v * 10)) (\<lambda>x. chk32 (x + d)) = Some (10 * v + d)"
  using assms by (auto simp: chk32_def int32_min_def)

lemma float_loop_digit:
  assumes "c_isdigit c" and "v = - 1 \<or> 0 \<le> v"
    and "10 * max v 0 + digit_val c \<le> int32_max"
  shows "float_loop (c # r) sg v sc =
    (if sc = 0 then float_loop r sg (10 * max v 0 + digit_val c) 0
     else (case chk32 (sc * 10) of
         Some sc \<Rightarrow> float_loop r sg (10 * max v 0 + digit_val c) sc
       | None \<Rightarrow> Undefined))"
proof -
  have "max v 0 = (if v = - 1 then 0 else v)" using assms(2) by auto
  moreover have "\<not> max v 0 > c_div (int32_max - digit_val c) 10"
    using overflow_test_exact [of "digit_val c" "max v 0"] digit_val_range [OF assms(1)] assms(3)
    by auto
  ultimately show ?thesis
    using assms(1) digit_isfield [OF assms(1)] digit_not_sign [OF assms(1)]
      accumulate_in_range(1) [of "max v 0" "digit_val c"] digit_val_range [OF assms(1)] assms(3)
    by (cases "v = - 1") (simp_all add: float_loop.simps(2) Let_def cong: option.case_cong)
qed

lemma float_loop_int_digits:
  "list_all c_isdigit ds \<Longrightarrow> v = - 1 \<or> 0 \<le> v \<Longrightarrow> digits_from (max v 0) ds \<le> int32_max \<Longrightarrow>
     float_loop (ds @ r) sg v 0 = float_loop r sg (if ds = [] then v else digits_from (max v 0) ds) 0"
proof (induction ds arbitrary: v)
  case (Cons c ds)
  let ?v = "10 * max v 0 + digit_val c"
  have v: "0 \<le> ?v" and d: "c_isdigit c" using Cons.prems digit_val_range [of c] by auto
  have "?v \<le> int32_max"
    using digits_from_mono [of ds ?v] v Cons.prems by auto
  from float_loop_digit [OF d Cons.prems(2) this, of "ds @ r" sg 0] Cons.IH [of ?v] Cons.prems v
  show ?case by simp
qed simp

lemma float_loop_frac_digits:
  "list_all c_isdigit ds \<Longrightarrow> v = - 1 \<or> 0 \<le> v \<Longrightarrow> digits_from (max v 0) ds \<le> int32_max \<Longrightarrow>
     k + length ds \<le> 9 \<Longrightarrow>
     float_loop (ds @ r) sg v (10 ^ k) =
       float_loop r sg (if ds = [] then v else digits_from (max v 0) ds) (10 ^ (k + length ds))"
proof (induction ds arbitrary: v k)
  case (Cons c ds)
  let ?v = "10 * max v 0 + digit_val c"
  have v: "0 \<le> ?v" and d: "c_isdigit c" using Cons.prems digit_val_range [of c] by auto
  have "?v \<le> int32_max"
    using digits_from_mono [of ds ?v] v Cons.prems by auto
  from float_loop_digit [OF d Cons.prems(2) this, of "ds @ r" sg "10 ^ k"]
    Cons.IH [of ?v "Suc k"] Cons.prems v chk32_power10 [of k]
  show ?case by (simp del: power_Suc)
qed simp

section \<open>The fractional conversion\<close>

definition float_inv :: "int \<Rightarrow> int \<Rightarrow> int \<Rightarrow> bool" where
  "float_inv sg v sc =
     (sg \<in> {- 1, 0, 1} \<and> - 1 \<le> v \<and> v \<le> int32_max \<and> (sc = 0 \<or> (\<exists>k \<le> 9. sc = 10 ^ k)))"

lemma chk32_scale_inv:
  assumes "\<exists>k \<le> 9. sc = (10::int) ^ k" and "chk32 (sc * 10) = Some sc'"
  shows "\<exists>k \<le> 9. sc' = 10 ^ k"
proof -
  from assms(1) obtain k where k: "k \<le> 9" "sc = 10 ^ k" by blast
  have "k \<noteq> 9" using assms(2) k by (auto simp: chk32_def int32_max_def split: if_splits)
  with k have "k \<le> 8" by simp
  from chk32_power10 [OF this] assms(2) k have "sc' = 10 ^ Suc k" by simp
  with \<open>k \<le> 8\<close> show ?thesis by (intro exI [of _ "Suc k"]) simp
qed

lemma float_loop_inv:
  "float_inv sg v sc \<Longrightarrow> float_loop f sg v sc = Conv (sg', v', sc') \<Longrightarrow> float_inv sg' v' sc'"
proof (induction f arbitrary: sg v sc)
  case Nil
  then show ?case by simp
next
  case (Cons c f)
  show ?case
  proof (cases "minmea_isfield c \<and> c_isdigit c")
    case True
    let ?v = "if v = - 1 then 0 else v" and ?d = "digit_val c"
    have d: "0 \<le> ?d" "?d \<le> 9" using True digit_val_range by auto
    have inv': "float_inv sg ?v sc" using Cons.prems(1) by (auto simp: float_inv_def int32_max_def)
    show ?thesis
    proof (cases "?v > c_div (int32_max - ?d) 10")
      case over: True
      with Cons.prems(2) True digit_not_sign [of c] inv' show ?thesis
        by (auto simp: float_loop.simps(2) Let_def split: if_splits)
    next
      case False
      with overflow_test_exact [OF d, of ?v] have le: "10 * ?v + ?d \<le> int32_max" by simp
      have "0 \<le> ?v" using inv' by (auto simp: float_inv_def)
      note acc = accumulate_in_range(1) [OF this d(1) le]
      have ge: "- 1 \<le> 10 * ?v + ?d" using d Cons.prems(1) by (auto simp: float_inv_def)
      have "float_loop (c # f) sg v sc =
          (if sc \<noteq> 0 then (case chk32 (sc * 10) of
              Some sc \<Rightarrow> float_loop f sg (10 * ?v + ?d) sc | None \<Rightarrow> Undefined)
           else float_loop f sg (10 * ?v + ?d) sc)"
        using True False digit_not_sign [of c] acc
        by (cases "v = - 1") (simp_all add: float_loop.simps(2) Let_def cong: option.case_cong)
      with Cons.prems(2) obtain sc'' where
        "float_loop f sg (10 * ?v + ?d) sc'' = Conv (sg', v', sc')"
        and "sc = 0 \<and> sc'' = 0 \<or> sc \<noteq> 0 \<and> chk32 (sc * 10) = Some sc''"
        by (cases "sc = 0") (auto split: option.splits)
      moreover from this(2) have "float_inv sg (10 * ?v + ?d) sc''"
        using inv' le ge chk32_scale_inv [of sc sc''] by (auto simp: float_inv_def)
      ultimately show ?thesis using Cons.IH by blast
    qed
  next
    case False
    have one: "float_inv sg'' v sc \<Longrightarrow> float_inv sg'' v 1" for sg''
      by (auto simp: float_inv_def intro: exI [of _ 0])
    from False Cons.prems show ?thesis
      using Cons.IH [of sg v sc] Cons.IH [of sg v 1] Cons.IH [of 1 v sc] Cons.IH [of "- 1" v sc]
        one [of sg]
      by (auto simp: float_loop.simps(2) float_inv_def split: if_splits)
  qed
qed

lemma scan_f_cases:
  assumes "scan_f field = Conv w"
  obtains sg v sc where "float_inv sg v sc" "float_finish sg v sc = Conv w"
proof (cases field)
  case None
  then have "float_finish 0 (- 1) 0 = Conv w" using assms by (simp add: scan_f_def)
  then show thesis by (intro that [of 0 "- 1" 0]) (auto simp: float_inv_def int32_max_def)
next
  case (Some f)
  with assms obtain sg v sc where loop: "float_loop f 0 (- 1) 0 = Conv (sg, v, sc)"
    and "float_finish sg v sc = Conv w"
    by (auto simp: scan_f_def split: conv.splits)
  moreover have "float_inv sg v sc"
    using float_loop_inv [OF _ loop] by (auto simp: float_inv_def int32_max_def)
  ultimately show thesis by (intro that)
qed

definition float_in_range :: "minmea_float \<Rightarrow> bool" where
  "float_in_range x = (\<bar>f_value x\<bar> \<le> int32_max \<and>
     (f_scale x = 0 \<and> f_value x = 0 \<or> (\<exists>k \<le> 9. f_scale x = 10 ^ k)))"

lemma chk32_pos_neg:
  "0 \<le> v \<Longrightarrow> v \<le> int32_max \<Longrightarrow> chk32 v = Some v"
  "0 \<le> v \<Longrightarrow> v \<le> int32_max \<Longrightarrow> chk32 (- v) = Some (- v)"
  by (simp_all add: chk32_def int32_max_def int32_min_def)

text \<open>The end of the conversion: a parse error, or a number in range; applying the sign cannot
  overflow.\<close>

lemma float_finish_range:
  assumes "float_inv sg v sc"
  shows "float_finish sg v sc = Parse_Error \<or>
    (\<exists>x. float_finish sg v sc = Conv (VFloat x) \<and> float_in_range x)"
proof -
  have one: "\<exists>k \<le> 9. (1::int) = 10 ^ k" by (rule exI [of _ 0]) simp
  have sg: "sg = - 1 \<or> sg = 0 \<or> sg = 1" and v: "v = - 1 \<or> 0 \<le> v" "v \<le> int32_max"
    and sc: "sc = 0 \<or> (\<exists>k \<le> 9. sc = 10 ^ k)"
    using assms by (auto simp: float_inv_def)
  show ?thesis
  proof (cases "v = - 1")
    case True
    with sg show ?thesis by (auto simp: float_finish_def float_in_range_def int32_max_def)
  next
    case False
    then have "0 \<le> v" using v by simp
    note chk32_pos_neg [OF this v(2)]
    with sg sc one \<open>0 \<le> v\<close> v(2) show ?thesis
      by (auto simp: float_finish_def float_in_range_def)
  qed
qed

lemma scan_f_range:
  assumes "scan_f field = Conv w"
  obtains x where "w = VFloat x" and "float_in_range x"
proof -
  from assms obtain sg v sc where "float_inv sg v sc" and fin: "float_finish sg v sc = Conv w"
    by (rule scan_f_cases)
  from float_finish_range [OF this(1)] fin that show thesis by auto
qed



text \<open>A decimal number in a field: an optional sign, digits, and a point with more digits.\<close>

definition sign_text :: "int \<Rightarrow> string" where
  "sign_text sg = (if sg = 1 then ''+'' else if sg = - 1 then ''-'' else [])"

definition decimal_text :: "int \<Rightarrow> string \<Rightarrow> string \<Rightarrow> string" where
  "decimal_text sg ds1 ds2 = sign_text sg @ ds1 @ CHR ''.'' # ds2"

definition apply_sign :: "int \<Rightarrow> int \<Rightarrow> int" where
  "apply_sign sg v = (if sg = - 1 then - v else v)"

lemma float_loop_sign:
  "sg \<in> {- 1, 0, 1} \<Longrightarrow> float_loop (sign_text sg @ f) 0 (- 1) 0 = float_loop f sg (- 1) 0"
  by (auto simp: sign_text_def float_loop.simps(2) minmea_isfield_def c_isprint_def char_code_def)

lemma float_loop_dot: "float_loop (CHR ''.'' # f) sg v 0 = float_loop f sg v 1"
  by (simp add: float_loop.simps(2))

lemma digits_val_nonneg: "list_all c_isdigit ds \<Longrightarrow> 0 \<le> digits_val ds"
  using digits_from_mono [of ds 0] by simp

lemma scan_f_decimal_text:
  assumes ds: "list_all c_isdigit ds1" "list_all c_isdigit ds2" "ds1 @ ds2 \<noteq> []"
    and fits: "length ds2 \<le> 9" "digits_val (ds1 @ ds2) \<le> int32_max"
    and sg: "sg \<in> {- 1, 0, 1}" and r: "field_end r"
  shows "scan_f (Some (decimal_text sg ds1 ds2 @ r)) =
    Conv (VFloat \<lparr>f_value = apply_sign sg (digits_val (ds1 @ ds2)), f_scale = 10 ^ length ds2\<rparr>)"
proof -
  let ?v1 = "if ds1 = [] then - 1 else digits_val ds1"
  have nn: "0 \<le> digits_val ds1" "0 \<le> digits_val (ds1 @ ds2)"
    using ds digits_val_nonneg [of ds1] digits_val_nonneg [of "ds1 @ ds2"] by auto
  have le1: "digits_val ds1 \<le> int32_max"
    using digits_from_mono [OF ds(2) nn(1)] fits(2) by simp
  have max1: "max ?v1 0 = digits_val ds1" using nn(1) by auto
  have "float_loop (decimal_text sg ds1 ds2 @ r) 0 (- 1) 0
      = float_loop (ds1 @ CHR ''.'' # ds2 @ r) sg (- 1) 0"
    using float_loop_sign [OF sg] by (simp add: decimal_text_def)
  also have "\<dots> = float_loop (CHR ''.'' # ds2 @ r) sg ?v1 0"
    using float_loop_int_digits [OF ds(1), of "- 1" "CHR ''.'' # ds2 @ r" sg] le1 by simp
  also have "\<dots> = float_loop (ds2 @ r) sg ?v1 (10 ^ 0)"
    by (simp add: float_loop_dot)
  also have "\<dots> = float_loop r sg (if ds2 = [] then ?v1 else digits_from (max ?v1 0) ds2) (10 ^ length ds2)"
    using float_loop_frac_digits [OF ds(2), of ?v1 0 r sg] fits max1 nn(1) by auto
  also have "\<dots> = Conv (sg, digits_val (ds1 @ ds2), 10 ^ length ds2)"
    using ds(3) max1 r by (auto simp: float_loop_stop)
  finally show ?thesis
    using nn(2) sg chk32_pos_neg [OF nn(2) fits(2)]
    by (auto simp: scan_f_def float_finish_def apply_sign_def)
qed

text \<open>C34: the fractional conversion reads decimal numbers correctly: for an optional sign, digits,
  a point and at most nine more digits, with all digits together below \<open>INT_LEAST32_MAX\<close>, the value
  is the number the digits spell and the scale is ten to the number of digits behind the point,
  whatever follows the field.\<close>

theorem scan_f_decimal:
  assumes ds: "list_all c_isdigit ds1" "list_all c_isdigit ds2" "ds1 @ ds2 \<noteq> []"
    and fits: "length ds2 \<le> 9" "digits_val (ds1 @ ds2) \<le> int32_max"
    and sg: "sg \<in> {- 1, 0, 1}" and r: "field_end r"
  shows "scan_f (Some (decimal_text sg ds1 ds2 @ r)) =
    Conv (VFloat \<lparr>f_value = apply_sign sg (digits_val (ds1 @ ds2)), f_scale = 10 ^ length ds2\<rparr>)"
  using assms by (rule scan_f_decimal_text)

theorem scan_f_decimal_witness:
  "scan_f (Some (decimal_text (- 1) ''04807'' ''038'' @ '',N,01131.000'')) =
    Conv (VFloat \<lparr>f_value = - 4807038, f_scale = 1000\<rparr>)"
proof -
  have d: "list_all c_isdigit ''04807''" "list_all c_isdigit ''038''" "''04807'' @ ''038'' \<noteq> []"
    by code_simp+
  have l: "length ''038'' \<le> 9" by simp
  have v: "digits_val (''04807'' @ ''038'') = 4807038" by code_simp
  then have m: "digits_val (''04807'' @ ''038'') \<le> int32_max" by (simp add: int32_max_def)
  have s: "(- 1 :: int) \<in> {- 1, 0, 1}" and r: "field_end '',N,01131.000''" by simp_all
  show ?thesis using scan_f_decimal [OF d l m s r] v by (simp add: apply_sign_def)
qed

text \<open>Ten digits behind the point overflow the scale. When the digits up to the tenth one
  behind the point still fit the value (a number such as 0.0000000001), the multiplication of the
  scale exceeds \<open>int_least32_t\<close>, which is undefined behaviour in C; the overflow test in front of
  it looks at the value only.\<close>

theorem scan_f_scale_overflow:
  assumes ds: "list_all c_isdigit ds1" "list_all c_isdigit ds2"
    and long: "10 \<le> length ds2" and fits: "digits_val (ds1 @ take 10 ds2) \<le> int32_max"
  shows "scan_f (Some (ds1 @ CHR ''.'' # ds2 @ r)) = Undefined"
proof -
  define e9 where "e9 = take 9 ds2"
  obtain c rest where cr: "drop 9 ds2 = c # rest"
    using long by (cases "drop 9 ds2") auto
  have ds2: "ds2 = e9 @ c # rest"
    using append_take_drop_id [of 9 ds2] unfolding cr e9_def by simp
  have len9: "length e9 = 9" using long by (simp add: e9_def)
  have split: "ds2 = e9 @ c # rest" "take 10 ds2 = e9 @ [c]"
    by (simp_all add: ds2 len9)
  have e9: "list_all c_isdigit e9" "c_isdigit c" "length e9 = 9" "e9 \<noteq> []"
    using ds(2) len9 by (auto simp: ds2)
  let ?v1 = "if ds1 = [] then - 1 else digits_val ds1"
  have nn: "0 \<le> digits_val ds1" "0 \<le> digits_val (ds1 @ e9)"
    using ds(1) e9(1) digits_val_nonneg [of ds1] digits_val_nonneg [of "ds1 @ e9"] by auto
  have le10: "10 * digits_val (ds1 @ e9) + digit_val c \<le> int32_max"
    using fits split(2) by simp
  have le9: "digits_val (ds1 @ e9) \<le> int32_max"
    using le10 nn(2) digit_val_range [OF e9(2)] by linarith
  have le1: "digits_val ds1 \<le> int32_max"
    using digits_from_mono [OF e9(1) nn(1)] le9 by simp
  have max1: "max ?v1 0 = digits_val ds1" using nn(1) by auto
  have "float_loop (ds1 @ CHR ''.'' # ds2 @ r) 0 (- 1) 0 = float_loop (ds2 @ r) 0 ?v1 (10 ^ 0)"
    using float_loop_int_digits [OF ds(1), of "- 1" "CHR ''.'' # ds2 @ r" 0] le1
    by (simp add: float_loop_dot)
  also have "\<dots> = float_loop (c # rest @ r) 0 (digits_val (ds1 @ e9)) (10 ^ 9)"
    using float_loop_frac_digits [OF e9(1), of ?v1 0 "c # rest @ r" 0] le9 max1 nn(1) e9(3,4) split(1)
    by auto
  also have "\<dots> = Undefined"
    using float_loop_digit [OF e9(2), of "digits_val (ds1 @ e9)" "rest @ r" 0 "10 ^ 9"] le10 nn(2)
    by (simp add: chk32_def int32_max_def)
  finally show ?thesis by (simp add: scan_f_def)
qed

theorem scan_f_scale_overflow_witness:
  "minmea_check ''$GPVTG,0.0000000000,T,0,M,0,N,0,K*60'' True \<and>
   scan_f (Some ''0.0000000000,T,0,M,0,N,0,K*60'') = Undefined"
proof -
  have d: "list_all c_isdigit ''0''" "list_all c_isdigit ''0000000000''"
      "10 \<le> length ''0000000000''" "digits_val (''0'' @ take 10 ''0000000000'') \<le> int32_max"
    by code_simp+
  have "minmea_check ''$GPVTG,0.0000000000,T,0,M,0,N,0,K*60'' True" by code_simp
  with scan_f_scale_overflow [OF d, of "'',T,0,M,0,N,0,K*60''"] show ?thesis by simp
qed

section \<open>When the fractional conversion is defined\<close>

text \<open>No point in the sentence is followed, in its field, by more than nine digits.\<close>

fun short_fractions :: "string \<Rightarrow> bool" where
  "short_fractions [] = True"
| "short_fractions (c # s) =
     ((c = CHR ''.'' \<longrightarrow> length (filter c_isdigit (copy_field s)) \<le> 9) \<and> short_fractions s)"

lemma float_loop_defined:
  "float_inv sg v sc \<Longrightarrow>
     (sc = 0 \<and> short_fractions f) \<or>
     (\<exists>k. sc = 10 ^ k \<and> k + length (filter c_isdigit (copy_field f)) \<le> 9) \<Longrightarrow>
   float_loop f sg v sc \<noteq> Undefined"
proof (induction f arbitrary: sg v sc)
  case Nil
  then show ?case by simp
next
  case (Cons c f)
  note IH = Cons.IH
  show ?case
  proof (cases "minmea_isfield c \<and> c_isdigit c")
    case True
    let ?v = "max v 0" and ?d = "digit_val c"
    have v: "v = - 1 \<or> 0 \<le> v" using Cons.prems(1) by (auto simp: float_inv_def)
    have d: "0 \<le> ?d" "?d \<le> 9" using True digit_val_range by auto
    from True have dot: "c \<noteq> CHR ''.''" using digit_not_sign [of c] by auto
    show ?thesis
    proof (cases "10 * ?v + ?d \<le> int32_max")
      case False
      with True v overflow_test_exact [OF d, of ?v] digit_not_sign [of c] show ?thesis
        by (cases "v = - 1") (auto simp: float_loop.simps(2) Let_def)
    next
      case le: True
      have ge: "- 1 \<le> 10 * ?v + ?d" using d by simp
      from Cons.prems(2) consider (int) "sc = 0" "short_fractions f"
        | (frac) k where "sc = 10 ^ k" "k + Suc (length (filter c_isdigit (copy_field f))) \<le> 9"
        using True dot by auto
      then show ?thesis
      proof cases
        case int
        have "float_inv sg (10 * ?v + ?d) 0"
          using Cons.prems(1) ge le by (simp add: float_inv_def)
        from IH [OF this] int float_loop_digit [OF conjunct2 [OF True] v le] show ?thesis by simp
      next
        case frac
        then have k: "k \<le> 8" by simp
        have "float_inv sg (10 * ?v + ?d) (10 ^ Suc k)"
          using Cons.prems(1) ge le k unfolding float_inv_def
          by (intro conjI disjI2 exI [of _ "Suc k"]) auto
        from IH [OF this disjI2 [OF exI [of _ "Suc k"]]] frac chk32_power10 [OF k]
          float_loop_digit [OF conjunct2 [OF True] v le] show ?thesis
          by (simp del: power_Suc)
      qed
    qed
  next
    case False
    have suf: "sc = 0 \<and> short_fractions f \<or>
        (\<exists>k. sc = 10 ^ k \<and> k + length (filter c_isdigit (copy_field f)) \<le> 9)" if "minmea_isfield c"
      using Cons.prems(2) False that by auto
    have inv: "float_inv sg' v sc" if "sg' \<in> {1, - 1}" for sg'
      using Cons.prems(1) that by (auto simp: float_inv_def)
    have "float_inv sg v 1"
      using Cons.prems(1) by (auto simp: float_inv_def intro: exI [of _ 0])
    then have dot: "float_loop f sg v 1 \<noteq> Undefined" if "c = CHR ''.''" "sc = 0"
      using Cons.prems(2) that by (intro IH disjI2 exI [of _ 0]) auto
    show ?thesis
      using False IH [of _ v sc] suf dot inv Cons.prems(1) by (auto simp: float_loop.simps(2))
  qed
qed

lemma scan_f_defined:
  assumes "\<And>f. field = Some f \<Longrightarrow> short_fractions f"
  shows "scan_f field \<noteq> Undefined"
proof -
  have start: "float_inv 0 (- 1) 0" by (simp add: float_inv_def int32_max_def)
  show ?thesis
  proof (cases field)
    case None
    then show ?thesis using float_finish_range [OF start] by (auto simp: scan_f_def)
  next
    case (Some f)
    show ?thesis
    proof (cases "float_loop f 0 (- 1) 0")
      case (Conv t)
      obtain sg v sc where t: "t = (sg, v, sc)" by (cases t)
      from float_finish_range [OF float_loop_inv [OF start Conv [unfolded t]]] Conv Some t
      show ?thesis by (auto simp: scan_f_def)
    next
      case Undefined
      with float_loop_defined [OF start] assms [OF Some] show ?thesis by blast
    qed (simp add: Some scan_f_def)
  qed
qed

section \<open>Dates and times\<close>

lemma digit_not_space: "c_isdigit c \<Longrightarrow> \<not> c_isspace c"
  by (auto simp: c_isdigit_def c_isspace_def)

lemma c_strtol_two:
  assumes "c_isdigit a" and "c_isdigit b"
  shows "c_strtol [a, b] = (10 * digit_val a + digit_val b, [])"
proof -
  have "0 \<le> digit_val a \<and> digit_val a \<le> 9" "0 \<le> digit_val b \<and> digit_val b \<le> 9"
    using assms by (auto dest: digit_val_range)
  then show ?thesis
    using assms digit_not_space [of a] digit_not_sign [of a]
    by (simp add: c_strtol_def Let_def int32_max_def int32_min_def)
qed

lemma two_digits_range:
  assumes "c_isdigit (c_peek_at f k)" and "c_isdigit (c_peek_at f (k + 1))"
  shows "0 \<le> two_digits f k \<and> two_digits f k \<le> 99"
  using c_strtol_two [OF assms] digit_val_range [OF assms(1)] digit_val_range [OF assms(2)]
  by (simp add: two_digits_def)

lemma scaled_bound:
  assumes "0 \<le> v" and "v \<le> (10::int) ^ k - 1" and "k + n = 6"
  shows "0 \<le> v * 10 ^ n \<and> v * 10 ^ n \<le> 999999"
proof -
  have "v * 10 ^ n \<le> (10 ^ k - 1) * 10 ^ n" using assms by (intro mult_right_mono) auto
  also have "\<dots> = 10 ^ (k + n) - 10 ^ n" by (simp add: algebra_simps power_add)
  also have "\<dots> \<le> 999999" using assms(3) by simp
  finally show ?thesis using assms(1) by simp
qed

text \<open>One digit of the fractional seconds: six digits never leave 32 bits.\<close>

lemma micro_step:
  assumes c: "c_isdigit c" and v: "0 \<le> v" "v \<le> 10 ^ k - 1" and k: "k \<le> 5"
  shows "Option.bind (chk32 (v * 10)) (\<lambda>x. chk32 (x + digit_val c)) = Some (10 * v + digit_val c)"
    and "0 \<le> 10 * v + digit_val c" and "10 * v + digit_val c \<le> 10 ^ Suc k - 1"
proof -
  have d: "0 \<le> digit_val c" "digit_val c \<le> 9" using digit_val_range [OF c] by auto
  show le: "10 * v + digit_val c \<le> 10 ^ Suc k - 1" using v(2) d(2) by simp
  have "(10::int) ^ Suc k \<le> 10 ^ 6" using k by (intro power_increasing) auto
  with le have "10 * v + digit_val c \<le> int32_max" by (simp add: int32_max_def)
  from accumulate_in_range(2) [OF v(1) d(1) this]
  show "Option.bind (chk32 (v * 10)) (\<lambda>x. chk32 (x + digit_val c)) = Some (10 * v + digit_val c)" .
  show "0 \<le> 10 * v + digit_val c" using v(1) d(1) by simp
qed

lemma micro_loop_value:
  "list_all c_isdigit ds \<Longrightarrow> length ds \<le> n \<Longrightarrow> \<not> c_isdigit (c_peek r) \<or> length ds = n \<Longrightarrow>
     0 \<le> v \<Longrightarrow> v \<le> 10 ^ k - 1 \<Longrightarrow> k + n = 6 \<Longrightarrow>
     micro_loop (ds @ r) v (10 ^ n) = Some (digits_from v ds, 10 ^ (n - length ds))"
proof (induction ds arbitrary: v n k)
  case Nil
  then show ?case by (cases r) auto
next
  case (Cons c ds)
  then obtain m where m: "n = Suc m" by (cases n) auto
  have "c_div (10 ^ Suc m) 10 = (10::int) ^ m" by (simp add: c_div_pos)
  moreover have "(1::int) < 10 ^ Suc m" by (rule one_less_power) auto
  moreover note micro_step [of c v k]
  ultimately show ?case
    using Cons.IH [of m "10 * v + digit_val c" "Suc k"] Cons.prems m by (simp del: power_Suc)
qed

lemma micro_loop_bound:
  assumes "0 \<le> v" and "v \<le> 10 ^ k - 1" and "k + n = 6"
  shows "\<exists>v' sc. micro_loop f v (10 ^ n) = Some (v', sc) \<and> 0 \<le> v' * sc \<and> v' * sc \<le> 999999"
  using assms
proof (induction f arbitrary: v k n)
  case Nil
  then show ?case using scaled_bound [of v k n] by simp
next
  case (Cons c f)
  show ?case
  proof (cases "c_isdigit c \<and> 1 < (10::int) ^ n")
    case True
    then obtain m where m: "n = Suc m" by (cases n) auto
    have "c_div (10 ^ n) 10 = (10::int) ^ m" by (simp add: c_div_pos m)
    with Cons.IH [of "10 * v + digit_val c" "Suc k" m] Cons.prems m True
      micro_step [of c v k]
    show ?thesis by (simp del: power_Suc)
  next
    case False
    then show ?thesis using Cons.prems scaled_bound [of v k n] by auto
  qed
qed

text \<open>The time conversion is defined, and its parts are in range.\<close>

lemma micro_part:
  "\<exists>u. Option.bind (micro_loop f 0 1000000) (\<lambda>(value, scale). chk32 (value * scale)) = Some u \<and>
     0 \<le> u \<and> u \<le> 999999"
proof -
  from micro_loop_bound [of 0 0 6 f] obtain v sc where
    "micro_loop f 0 1000000 = Some (v, sc)" "0 \<le> v * sc" "v * sc \<le> 999999" by auto
  then show ?thesis by (simp add: chk32_def int32_max_def int32_min_def)
qed

lemma scan_T_defined: "scan_T field \<noteq> Undefined"
proof (cases field)
  case (Some f)
  then show ?thesis using micro_part [of "drop 7 f"] by (auto simp: scan_T_def)
qed (simp add: scan_T_def)

definition time_in_range :: "minmea_time \<Rightarrow> bool" where
  "time_in_range t =
     (t = \<lparr>t_hours = - 1, t_minutes = - 1, t_seconds = - 1, t_microseconds = - 1\<rparr> \<or>
      t_hours t \<in> {0..99} \<and> t_minutes t \<in> {0..99} \<and> t_seconds t \<in> {0..99} \<and>
      t_microseconds t \<in> {0..999999})"

definition date_in_range :: "minmea_date \<Rightarrow> bool" where
  "date_in_range d =
     (d = \<lparr>d_day = - 1, d_month = - 1, d_year = - 1\<rparr> \<or>
      d_day d \<in> {0..99} \<and> d_month d \<in> {0..99} \<and> d_year d \<in> {0..99})"

lemma two_digits_in:
  "list_all (\<lambda>k. c_isdigit (c_peek_at f k)) [0..<6] \<Longrightarrow> k \<in> {0, 2, 4} \<Longrightarrow> two_digits f k \<in> {0..99}"
  using two_digits_range [of f k] by (auto simp: list_all_iff)

lemma scan_T_range:
  assumes "scan_T field = Conv w"
  obtains t where "w = VTime t" and "time_in_range t"
proof -
  have "\<exists>t. w = VTime t \<and> time_in_range t"
  proof (cases field)
    case None
    with assms show ?thesis by (auto simp: scan_T_def time_in_range_def)
  next
    case (Some f)
    with assms two_digits_in [of f] micro_part [of "drop 7 f"] show ?thesis
      by (auto simp: scan_T_def time_in_range_def split: if_splits)
  qed
  then show thesis using that by blast
qed

lemma scan_D_range:
  assumes "scan_D field = Conv w"
  obtains d where "w = VDate d" and "date_in_range d"
proof -
  have "\<exists>d. w = VDate d \<and> date_in_range d"
  proof (cases field)
    case None
    with assms show ?thesis by (auto simp: scan_D_def date_in_range_def)
  next
    case (Some f)
    with assms two_digits_in [of f] show ?thesis
      by (auto simp: scan_D_def date_in_range_def split: if_splits)
  qed
  then show thesis using that by blast
qed

text \<open>C36: times and dates come out in range: a time is \<open>-1\<close> in all four parts (empty field) or has
  two-digit hours, minutes and seconds and 0 to 999999 microseconds; a date is \<open>-1\<close> in all three
  parts or has two-digit parts.\<close>

theorem scan_time_date_range:
  "(scan_T field = Conv w \<longrightarrow>
      (\<exists>t. w = VTime t \<and>
        (t = \<lparr>t_hours = - 1, t_minutes = - 1, t_seconds = - 1, t_microseconds = - 1\<rparr> \<or>
         t_hours t \<in> {0..99} \<and> t_minutes t \<in> {0..99} \<and> t_seconds t \<in> {0..99} \<and>
         t_microseconds t \<in> {0..999999}))) \<and>
   (scan_D field = Conv w \<longrightarrow>
      (\<exists>d. w = VDate d \<and>
        (d = \<lparr>d_day = - 1, d_month = - 1, d_year = - 1\<rparr> \<or>
         d_day d \<in> {0..99} \<and> d_month d \<in> {0..99} \<and> d_year d \<in> {0..99})))"
  using scan_T_range [of field w] scan_D_range [of field w]
  unfolding time_in_range_def date_in_range_def by metis

theorem scan_time_date_range_witness:
  "scan_T (Some ''235959.999999,'') =
     Conv (VTime \<lparr>t_hours = 23, t_minutes = 59, t_seconds = 59, t_microseconds = 999999\<rparr>) \<and>
   (999999 :: int) \<in> {0..999999}"
proof -
  have "scan_T (Some ''235959.999999,'') =
     Conv (VTime \<lparr>t_hours = 23, t_minutes = 59, t_seconds = 59, t_microseconds = 999999\<rparr>)"
    by code_simp
  with scan_time_date_range [of "Some ''235959.999999,''"] show ?thesis by auto
qed

text \<open>The text of a time with a fraction of up to six digits.\<close>

lemma scan_T_text:
  assumes hms: "list_all c_isdigit [h1, h2, m1, m2, s1, s2]"
    and ds: "list_all c_isdigit ds" "length ds \<le> 6" and r: "field_end r"
  shows "scan_T (Some ([h1, h2, m1, m2, s1, s2] @ CHR ''.'' # ds @ r)) =
    Conv (VTime \<lparr>t_hours = 10 * digit_val h1 + digit_val h2, t_minutes = 10 * digit_val m1 + digit_val m2,
      t_seconds = 10 * digit_val s1 + digit_val s2,
      t_microseconds = digits_val ds * 10 ^ (6 - length ds)\<rparr>)"
proof -
  have "\<not> c_isdigit (c_peek r)" using r digit_isfield by blast
  then have "micro_loop (ds @ r) 0 (10 ^ 6) = Some (digits_val ds, 10 ^ (6 - length ds))"
    using ds by (intro micro_loop_value [where k = 0]) auto
  with micro_part [of "ds @ r"]
  have "Option.bind (micro_loop (ds @ r) 0 1000000) (\<lambda>(value, scale). chk32 (value * scale)) =
      Some (digits_val ds * 10 ^ (6 - length ds))"
    by (auto simp: chk32_Some_iff)
  then show ?thesis
    using hms c_strtol_two [of h1 h2] c_strtol_two [of m1 m2] c_strtol_two [of s1 s2]
      digit_isfield [of h1]
    by (simp add: scan_T_def two_digits_def c_peek_at_def upt_rec numeral_eq_Suc)
qed

lemma scan_D_text:
  assumes "list_all c_isdigit [d1, d2, m1, m2, y1, y2]"
  shows "scan_D (Some ([d1, d2, m1, m2, y1, y2] @ r)) =
    Conv (VDate \<lparr>d_day = 10 * digit_val d1 + digit_val d2, d_month = 10 * digit_val m1 + digit_val m2,
      d_year = 10 * digit_val y1 + digit_val y2\<rparr>)"
  using assms c_strtol_two [of d1 d2] c_strtol_two [of m1 m2] c_strtol_two [of y1 y2]
    digit_isfield [of d1]
  by (simp add: scan_D_def two_digits_def c_peek_at_def upt_rec numeral_eq_Suc)

lemma c_peek_at_local:
  "field_text f \<Longrightarrow> k < length f \<Longrightarrow> c_peek_at (f @ r) k = c_peek_at f k"
  by (auto simp: c_peek_at_def c_peek_append)

lemma digit_at_local:
  assumes "field_text f" and "field_end r" and "k \<le> length f"
  shows "c_isdigit (c_peek_at (f @ r) k) = c_isdigit (c_peek_at f k)"
  using assms digit_isfield [of "c_peek r"] by (auto simp: c_peek_at_def c_peek_append)

text \<open>Whether the first six bytes are digits depends on the field only: a shorter field ends in a
  byte that is no digit.\<close>

lemma six_digits_local:
  assumes "field_text f" and "field_end r"
  shows "list_all (\<lambda>k. c_isdigit (c_peek_at (f @ r) k)) [0..<6] =
    list_all (\<lambda>k. c_isdigit (c_peek_at f k)) [0..<6]"
proof (cases "6 \<le> length f")
  case True
  then show ?thesis using digit_at_local [OF assms] by (auto simp: list_all_iff)
next
  case False
  then have "length f \<in> set [0..<6]" and "\<not> c_isdigit (c_peek_at f (length f))"
    by (auto simp: c_peek_at_def)
  with digit_at_local [OF assms, of "length f"] show ?thesis
    unfolding list_all_iff by blast
qed

lemma six_digits_length: "list_all (\<lambda>k. c_isdigit (c_peek_at f k)) [0..<6] \<Longrightarrow> 6 \<le> length f"
proof (rule ccontr)
  assume all: "list_all (\<lambda>k. c_isdigit (c_peek_at f k)) [0..<6]" and "\<not> 6 \<le> length f"
  then have "length f \<in> set [0..<6]" "\<not> c_isdigit (c_peek_at f (length f))"
    by (auto simp: c_peek_at_def)
  with all show False unfolding list_all_iff by blast
qed

lemma micro_loop_local:
  "field_text f \<Longrightarrow> field_end r \<Longrightarrow> micro_loop (f @ r) v sc = micro_loop f v sc"
proof (induction f arbitrary: v sc)
  case Nil
  then show ?case using digit_isfield [of "c_peek r"] by (cases r) auto
qed (auto cong: option.case_cong)

lemma two_digits_local:
  "field_text f \<Longrightarrow> k + 1 < length f \<Longrightarrow> two_digits (f @ r) k = two_digits f k"
  by (simp add: two_digits_def c_peek_at_local)

lemma scan_T_local:
  assumes "field_text f" and "field_end r"
  shows "scan_T (Some (f @ r)) = scan_T (Some f)"
proof (cases "list_all (\<lambda>k. c_isdigit (c_peek_at f k)) [0..<6]")
  case True
  then have len: "6 \<le> length f" by (rule six_digits_length)
  have dot: "c_peek_at (f @ r) 6 = CHR ''.'' \<longleftrightarrow> c_peek_at f 6 = CHR ''.''"
    using assms(2) len by (auto simp: c_peek_at_def c_peek_append dest: arg_cong [of _ _ minmea_isfield])
  have "drop 7 (f @ r) = drop 7 f @ r" if "c_peek_at f 6 = CHR ''.''"
    using that by (cases "7 \<le> length f") (auto simp: c_peek_at_def)
  then have micro: "c_peek_at f 6 = CHR ''.'' \<Longrightarrow>
      micro_loop (drop 7 (f @ r)) 0 1000000 = micro_loop (drop 7 f) 0 1000000"
    using assms micro_loop_local [of "drop 7 f" r] by (simp add: list_all_iff in_set_dropD)
  have two: "two_digits (f @ r) k = two_digits f k" if "k \<le> 4" for k
    using that len assms(1) by (intro two_digits_local) auto
  show ?thesis
    using True six_digits_local [OF assms] assms dot micro two [of 0] two [of 2] two [of 4] len
    by (auto simp: scan_T_def Let_def c_peek_append cong: option.case_cong)
next
  case False
  then show ?thesis
    using six_digits_local [OF assms] assms
    by (cases "f = []") (auto simp: scan_T_def Let_def c_peek_append)
qed

lemma scan_D_local:
  assumes "field_text f" and "field_end r"
  shows "scan_D (Some (f @ r)) = scan_D (Some f)"
proof (cases "list_all (\<lambda>k. c_isdigit (c_peek_at f k)) [0..<6]")
  case True
  then have len: "6 \<le> length f" by (rule six_digits_length)
  have two: "two_digits (f @ r) k = two_digits f k" if "k \<le> 4" for k
    using that len assms(1) by (intro two_digits_local) auto
  show ?thesis
    using True six_digits_local [OF assms] assms two [of 0] two [of 2] two [of 4] len
    by (auto simp: scan_D_def c_peek_append)
next
  case False
  then show ?thesis
    using six_digits_local [OF assms] assms
    by (cases "f = []") (auto simp: scan_D_def c_peek_append)
qed

section \<open>Steps of the scanner\<close>

text \<open>The conversions of one field: all but the integer conversion, whose \<open>strtol\<close> would skip
  white space behind an empty field.\<close>

lemma scan_conv_local:
  assumes "type \<in> set ''cdfDT''" and "field_text f" and "field_end r"
  shows "scan_conv type (Some (f @ r)) = scan_conv type (Some f)"
  using assms scan_c_local scan_d_local scan_f_local scan_T_local scan_D_local
  by (auto simp: scan_conv_def)

lemma scan_loop_step:
  assumes "type \<in> set ''cdfDT''" and "field_text f" and "scan_conv type (Some f) = Conv v"
    and "v \<noteq> VNone"
  shows "scan_loop (type # format) (f @ CHR '','' # r) (Some (f @ CHR '','' # r)) optional (dst # ap) st
    = scan_loop format r (Some r) optional ap (dst v st)"
  using assms scan_conv_local [of type f "CHR '','' # r"] by (auto simp: next_field_comma)

lemma scan_loop_last:
  assumes "type \<in> set ''cdfDT''" and "field_text f" and "scan_conv type (Some f) = Conv v"
    and "v \<noteq> VNone" and "field_end r" and "c_peek r \<noteq> CHR '',''"
  shows "scan_loop [type] (f @ r) (Some (f @ r)) optional (dst # ap) st = Some (True, dst v st)"
  using assms scan_conv_local [of type f r] by (auto simp: next_field_last)

lemma scan_t_text:
  assumes "field_text ident" and "length ident = 5"
  shows "scan_t (Some (CHR ''$'' # ident @ r)) = Conv (VStr ident)"
proof -
  have "minmea_isfield (c_peek_at (CHR ''$'' # ident @ r) (1 + k))" if "k < 5" for k
    using assms that
    by (simp add: c_peek_at_def c_peek_def list_all_length hd_drop_conv_nth Cons_nth_drop_Suc [symmetric])
  then show ?thesis using assms by (simp add: scan_t_def list_all_iff)
qed

lemma scan_loop_talker:
  assumes "field_text ident" and "length ident = 5"
  shows "scan_loop (CHR ''t'' # format) (CHR ''$'' # ident @ CHR '','' # r)
      (Some (CHR ''$'' # ident @ CHR '','' # r)) optional (dst # ap) st
    = scan_loop format r (Some r) optional ap (dst (VStr ident) st)"
proof -
  have "field_text (CHR ''$'' # ident)"
    using assms(1) by (simp add: minmea_isfield_def c_isprint_def char_code_def)
  from next_field_comma [OF this, of r]
  have "next_field (CHR ''$'' # ident @ CHR '','' # r) = (r, Some r)" by simp
  moreover have "scan_conv (CHR ''t'') (Some (CHR ''$'' # ident @ CHR '','' # r)) = Conv (VStr ident)"
    using scan_t_text [OF assms] by (simp add: scan_conv_def)
  ultimately show ?thesis by simp
qed

text \<open>What no destination changes, the scan does not change.\<close>

lemma scan_loop_unfold:
  assumes "type \<noteq> CHR '';''" and "\<not> (field = None \<and> \<not> optional)"
  shows "scan_loop (type # format) s field optional ap st =
    (case scan_conv type field of
       Parse_Error \<Rightarrow> Some (False, st)
     | Undefined \<Rightarrow> None
     | Conv v \<Rightarrow>
         if v = VNone then
           scan_loop format (fst (next_field s)) (snd (next_field s)) optional ap st
         else if ap = [] then None
         else scan_loop format (fst (next_field s)) (snd (next_field s)) optional (tl ap) (hd ap v st))"
  using assms by (auto split: conv.split list.split prod.split)

lemma scan_loop_preserves:
  assumes "\<forall>d \<in> set ap. \<forall>v st. g (d v st) = g st"
    and "scan_loop format s field optional ap st = Some (b, st')"
  shows "g st' = g st"
  using assms
proof (induction format arbitrary: s field optional ap st)
  case Nil
  then show ?case by simp
next
  case (Cons type format)
  show ?case
  proof (cases "type = CHR '';'' \<or> (field = None \<and> \<not> optional)")
    case True
    with Cons.prems Cons.IH [OF Cons.prems(1), of s field True st] show ?thesis
      by (auto split: if_splits)
  next
    case False
    let ?s = "fst (next_field s)" and ?fld = "snd (next_field s)"
    have "type \<noteq> CHR '';''" "\<not> (field = None \<and> \<not> optional)" using False by auto
    note unf = Cons.prems(2) [unfolded scan_loop_unfold [OF this]]
    show ?thesis
    proof (cases "scan_conv type field")
      case (Conv v)
      show ?thesis
      proof (cases "v = VNone")
        case True
        with Conv unf
        have "scan_loop format ?s ?fld optional ap st = Some (b, st')" by simp
        from Cons.IH [OF Cons.prems(1) this] show ?thesis .
      next
        case nN: False
        with Conv unf have ap: "ap \<noteq> []"
          and rec: "scan_loop format ?s ?fld optional (tl ap) (hd ap v st) = Some (b, st')"
          by (simp_all split: if_splits)
        have "\<forall>d \<in> set (tl ap). \<forall>v st. g (d v st) = g st"
          using Cons.prems(1) by (auto dest: list.set_sel(2) [OF ap])
        from Cons.IH [OF this rec] Cons.prems(1) ap show ?thesis by simp
      qed
    qed (use unf in simp_all)
  qed
qed

section \<open>The scanner as a whole\<close>

lemma scan_conv_defined:
  assumes "\<And>f. field = Some f \<Longrightarrow> short_fractions f"
  shows "scan_conv type field \<noteq> Undefined"
proof -
  have "scan_c field \<noteq> Undefined" "scan_d field \<noteq> Undefined" "scan_i field \<noteq> Undefined"
    "scan_s field \<noteq> Undefined" "scan_t field \<noteq> Undefined" "scan_D field \<noteq> Undefined"
    by (auto simp: scan_c_def scan_d_def scan_i_def scan_s_def scan_t_def scan_D_def
        Let_def split: option.split prod.split)
  with scan_f_defined [of field] assms scan_T_defined [of field] show ?thesis
    by (simp add: scan_conv_def)
qed

text \<open>What a value must be to fit the destination of its type.\<close>

fun value_fits :: "scan_value \<Rightarrow> bool" where
  "value_fits (VInt n) = (int32_min \<le> n \<and> n \<le> int32_max)"
| "value_fits (VFloat x) = float_in_range x"
| "value_fits (VDate d) = date_in_range d"
| "value_fits (VTime t) = time_in_range t"
| "value_fits (VStr s) = field_text s"
| "value_fits (VChar c) = (c = NUL \<or> minmea_isfield c)"
| "value_fits VNone = True"

lemma copy_field_field: "field_text (copy_field f)"
  by (induction f) auto

lemma c_strtol_range: "int32_min \<le> fst (c_strtol f) \<and> fst (c_strtol f) \<le> int32_max"
  by (auto simp: c_strtol_def Let_def int32_min_def int32_max_def split: prod.split)

lemma peek_at_field: "k < length f \<Longrightarrow> c_peek_at f k = f ! k"
  by (simp add: c_peek_at_def c_peek_def hd_drop_conv_nth Cons_nth_drop_Suc [symmetric])

lemma take_field_text:
  assumes "list_all (\<lambda>k. minmea_isfield (c_peek_at f (1 + k))) [0..<5]"
  shows "field_text (take 5 (drop 1 f))"
proof -
  have "minmea_isfield (f ! Suc k)" if "k < 5" "Suc k < length f" for k
    using assms that peek_at_field [of "Suc k" f] by (auto simp: list_all_iff dest: bspec [of _ _ k])
  then show ?thesis by (auto simp: list_all_length)
qed

lemma scan_conv_fits:
  assumes "scan_conv type field = Conv v"
  shows "value_fits v"
proof -
  have "scan_c field = Conv v \<Longrightarrow> value_fits v" "scan_d field = Conv v \<Longrightarrow> value_fits v"
    by (auto simp: scan_c_def scan_d_def int32_min_def int32_max_def split: option.splits if_splits)
  moreover have "scan_f field = Conv v \<Longrightarrow> value_fits v" "scan_D field = Conv v \<Longrightarrow> value_fits v"
    "scan_T field = Conv v \<Longrightarrow> value_fits v"
    by (auto elim: scan_f_range scan_D_range scan_T_range)
  moreover have "scan_i field = Conv v \<Longrightarrow> value_fits v"
    using c_strtol_range [of "the field"]
    by (auto simp: scan_i_def int32_min_def int32_max_def split: option.splits prod.splits if_splits)
  moreover have "scan_s field = Conv v \<Longrightarrow> value_fits v" "scan_t field = Conv v \<Longrightarrow> value_fits v"
    using copy_field_field take_field_text
    by (auto simp: scan_s_def scan_t_def simp del: upt.simps split: option.splits if_splits)
  ultimately show ?thesis using assms by (auto simp: scan_conv_def split: if_splits)
qed

definition storing :: "char \<Rightarrow> bool" where
  "storing type = (type \<noteq> CHR '';'' \<and> type \<noteq> CHR ''_'')"

lemma scan_conv_VNone: "scan_conv type field = Conv VNone \<Longrightarrow> \<not> storing type \<or> type = CHR '';''"
  by (auto simp: scan_conv_def storing_def scan_c_def scan_d_def scan_f_def float_finish_def
      scan_i_def scan_s_def scan_t_def scan_D_def scan_T_def Let_def
      split: option.splits if_splits conv.splits prod.splits)

lemma short_fractions_skip: "short_fractions s \<Longrightarrow> short_fractions (skip_field s)"
  by (induction s) auto

lemma short_fractions_tl: "short_fractions s \<Longrightarrow> short_fractions (tl s)"
  by (cases s) auto

lemma next_field_short:
  assumes "short_fractions s" and "next_field s = (s', fld)"
  shows "short_fractions s'" and "fld = Some f \<Longrightarrow> short_fractions f"
  using assms short_fractions_skip [OF assms(1)] short_fractions_tl
  by (auto simp: next_field_def Let_def split: if_splits)


text \<open>The fields of a sentence, without the pointers of the scanner: the texts behind its commas, up
  to the first byte that belongs to no field.\<close>

fun later_fields :: "string \<Rightarrow> string list" where
  "later_fields [] = []"
| "later_fields (c # s) =
     (if c = CHR '','' then s # later_fields s
      else if minmea_isfield c then later_fields s
      else [])"

text \<open>What a format asks of a list of fields: the verdict and the values to store, in order. A
  failing conversion or a missing field ends it, with the values so far.\<close>

fun scan_fields :: "string \<Rightarrow> string list \<Rightarrow> bool \<Rightarrow> bool \<times> scan_value list" where
  "scan_fields [] fs optional = (True, [])"
| "scan_fields (type # format) fs optional =
     (if type = CHR '';'' then scan_fields format fs True
      else if fs = [] \<and> \<not> optional then (False, [])
      else
        (case scan_conv type (if fs = [] then None else Some (hd fs)) of
           Conv v \<Rightarrow>
             (case scan_fields format (tl fs) optional of
                (b, vs) \<Rightarrow> (b, if v = VNone then vs else v # vs))
         | _ \<Rightarrow> (False, [])))"

definition store_all :: "'f dest list \<Rightarrow> scan_value list \<Rightarrow> 'f \<Rightarrow> 'f" where
  "store_all ap vs st = fold (\<lambda>(d, v) st. d v st) (zip ap vs) st"

lemma later_fields_skip: "later_fields (skip_field s) = later_fields s"
  by (induction s) auto

lemma next_field_later:
  assumes "next_field s = (s', fld)"
  shows "later_fields s = (case fld of None \<Rightarrow> [] | Some f \<Rightarrow> f # later_fields s')"
    and "fld = None \<Longrightarrow> later_fields s' = []"
proof -
  have "\<not> minmea_isfield (c_peek (skip_field s))" by (induction s) auto
  then show "later_fields s = (case fld of None \<Rightarrow> [] | Some f \<Rightarrow> f # later_fields s')"
    and "fld = None \<Longrightarrow> later_fields s' = []"
    using assms later_fields_skip [of s]
    by (cases "skip_field s"; auto simp: next_field_def Let_def split: if_splits)+
qed

lemma scan_loop_fields:
  "short_fractions s \<Longrightarrow> (\<And>f. field = Some f \<Longrightarrow> short_fractions f) \<Longrightarrow>
     length (filter storing format) \<le> length ap \<Longrightarrow>
     fs = (case field of None \<Rightarrow> [] | Some f \<Rightarrow> f # later_fields s) \<Longrightarrow>
     (field = None \<Longrightarrow> later_fields s = []) \<Longrightarrow>
     scan_fields format fs optional = (b, vs) \<Longrightarrow>
     scan_loop format s field optional ap st = Some (b, store_all ap vs st) \<and>
     length vs \<le> length (filter storing format) \<and> list_all value_fits vs"
proof (induction format arbitrary: s field optional ap st fs b vs)
  case Nil
  then show ?case by (simp add: store_all_def)
next
  case (Cons type format)
  have fld: "field = (if fs = [] then None else Some (hd fs))"
    and tl: "tl fs = later_fields s"
    using Cons.prems(4,5) by (auto split: option.splits)
  show ?case
  proof (cases "type = CHR '';'' \<or> (field = None \<and> \<not> optional)")
    case True
    have "length (filter storing format) \<le> length ap" using Cons.prems(3) by (auto split: if_splits)
    note IH = Cons.IH [OF Cons.prems(1,2) this Cons.prems(4,5), where optional = True and b = b and vs = vs and st = st]
    show ?thesis
    proof (cases "type = CHR '';''")
      case True
      with IH Cons.prems(6) show ?thesis by (auto simp: storing_def)
    next
      case False
      with True Cons.prems(4,6) show ?thesis by (auto simp: store_all_def)
    qed
  next
    case False
    then have type: "type \<noteq> CHR '';''" and go: "\<not> (field = None \<and> \<not> optional)" by auto
    obtain s' fld' where nf: "next_field s = (s', fld')" by fastforce
    note nx = next_field_short [OF Cons.prems(1) nf] and lf = next_field_later [OF nf]
    have go': "\<not> (fs = [] \<and> \<not> optional)" using go fld by (auto split: if_splits)
    note unf = scan_loop_unfold [OF type go, of format s ap st]
    show ?thesis
    proof (cases "scan_conv type field")
      case (Conv v)
      obtain b' vs' where rec: "scan_fields format (tl fs) optional = (b', vs')" by fastforce
      have bvs: "b = b'" "vs = (if v = VNone then vs' else v # vs')"
        using Cons.prems(6) Conv rec type go' fld by auto
      note IH = Cons.IH [OF nx(1) nx(2) _ _ lf(2), where fs = "tl fs" and optional = optional and b = b' and vs = vs']
      show ?thesis
      proof (cases "v = VNone")
        case True
        with Conv scan_conv_VNone [of type field] type have st: "\<not> storing type" by auto
        with Cons.prems(3) IH [where ap = ap and st = st] lf(1) tl rec bvs True Conv unf nf show ?thesis by simp
      next
        case v: False
        have st: "storing type" using Conv v type by (auto simp: storing_def scan_conv_def)
        with Cons.prems(3) obtain d ap' where ap: "ap = d # ap'"
          "length (filter storing format) \<le> length ap'" by (cases ap) auto
        with IH [where ap = ap' and st = "d v st"] lf(1) tl rec bvs v Conv unf nf st scan_conv_fits [OF Conv]
        show ?thesis by (simp add: store_all_def)
      qed
    next
      case Undefined
      with scan_conv_defined [of field type] Cons.prems(2) show ?thesis by blast
    next
      case Parse_Error
      with unf Cons.prems(6) type go' fld show ?thesis by (auto simp: store_all_def)
    qed
  qed
qed

text \<open>C19: \<open>minmea_scan\<close> is defined on every sentence whose numbers have at most nine digits behind
  the point, whatever its bytes are, and does what its format asks of the fields of the sentence:
  given a destination for each storing conversion, no arithmetic leaves 32 bits, the verdict is
  the one of the fields, the values the conversions before the first failure deliver are stored
  in order and nothing else is, and each of them fits the type of its destination. That the
  arithmetic stays in 32 bits is due to the overflow test of the fractional conversion.\<close>

theorem minmea_scan_defined:
  assumes "short_fractions s" and "length (filter storing format) \<le> length ap"
    and "scan_fields format (s # later_fields s) False = (b, vs)"
  shows "minmea_scan s format ap st = Some (b, store_all ap vs st) \<and>
    length vs \<le> length ap \<and> list_all value_fits vs"
  using scan_loop_fields [of s "Some s" format ap "s # later_fields s" False b vs st] assms
  by (simp add: minmea_scan_def)

text \<open>A sentence with a number too long for 32 bits in front of its point: the scan fails there and
  keeps what it has stored before.\<close>

theorem minmea_scan_defined_witness:
  "minmea_scan ''$GPVTG,054.7,T,99999999999.1,N*00'' ''tfc;fc''
      (replicate 5 (\<lambda>v st. v # st)) [] =
    Some (False, [VChar (CHR ''T''), VFloat \<lparr>f_value = 547, f_scale = 10\<rparr>, VStr ''GPVTG''])"
proof -
  let ?s = "''$GPVTG,054.7,T,99999999999.1,N*00''" and ?ap = "replicate 5 (\<lambda>v st :: scan_value list. v # st)"
  have a: "short_fractions ?s" by code_simp
  have l: "length (filter storing ''tfc;fc'') \<le> length ?ap" by code_simp
  have f: "scan_fields ''tfc;fc'' (?s # later_fields ?s) False =
      (False, [VStr ''GPVTG'', VFloat \<lparr>f_value = 547, f_scale = 10\<rparr>, VChar (CHR ''T'')])"
    by code_simp
  from minmea_scan_defined [OF a l f, of "[]"] show ?thesis
    by (simp add: store_all_def numeral_eq_Suc)
qed

end
