(* ===== verification/Minmea_Parse.thy ===== *)
theory Minmea_Parse
  imports Minmea_Scan
begin

text \<open>
  libs/minmea/minmea.c and minmea.h on top of the scanner: the sentence identifier, the seven
  sentence parsers, \<open>minmea_gettime\<close> and \<open>minmea_rescale\<close>. A parser stores into the caller's
  frame and into its own local variables; both are the store of the scan, so that a rejected
  sentence may leave a partly written frame, as in the code. The local variables start with
  arbitrary contents, a parameter of the model.
\<close>

section \<open>Data\<close>

datatype minmea_sentence_id =
    MINMEA_INVALID
  | MINMEA_UNKNOWN
  | MINMEA_SENTENCE_RMC
  | MINMEA_SENTENCE_GGA
  | MINMEA_SENTENCE_GSA
  | MINMEA_SENTENCE_GLL
  | MINMEA_SENTENCE_GST
  | MINMEA_SENTENCE_GSV
  | MINMEA_SENTENCE_VTG

record minmea_sentence_rmc =
  rmc_time :: minmea_time
  rmc_valid :: bool
  rmc_latitude :: minmea_float
  rmc_longitude :: minmea_float
  rmc_speed :: minmea_float
  rmc_course :: minmea_float
  rmc_date :: minmea_date
  rmc_variation :: minmea_float

record minmea_sentence_gga =
  gga_time :: minmea_time
  gga_latitude :: minmea_float
  gga_longitude :: minmea_float
  gga_fix_quality :: int
  gga_satellites_tracked :: int
  gga_hdop :: minmea_float
  gga_altitude :: minmea_float
  gga_altitude_units :: char
  gga_height :: minmea_float
  gga_height_units :: char
  gga_dgps_age :: int

record minmea_sentence_gll =
  gll_latitude :: minmea_float
  gll_longitude :: minmea_float
  gll_time :: minmea_time
  gll_status :: char
  gll_mode :: char

record minmea_sentence_gst =
  gst_time :: minmea_time
  gst_rms_deviation :: minmea_float
  gst_semi_major_deviation :: minmea_float
  gst_semi_minor_deviation :: minmea_float
  gst_semi_major_orientation :: minmea_float
  gst_latitude_error_deviation :: minmea_float
  gst_longitude_error_deviation :: minmea_float
  gst_altitude_error_deviation :: minmea_float

record minmea_sentence_gsa =
  gsa_mode :: char
  gsa_fix_type :: int
  gsa_sats :: "int list"
  gsa_pdop :: minmea_float
  gsa_hdop :: minmea_float
  gsa_vdop :: minmea_float

record minmea_sat_info =
  sat_nr :: int
  sat_elevation :: int
  sat_azimuth :: int
  sat_snr :: int

record minmea_sentence_gsv =
  gsv_total_msgs :: int
  gsv_msg_nr :: int
  gsv_total_sats :: int
  gsv_sats :: "minmea_sat_info list"

record minmea_sentence_vtg =
  vtg_true_track_degrees :: minmea_float
  vtg_magnetic_track_degrees :: minmea_float
  vtg_speed_knots :: minmea_float
  vtg_speed_kph :: minmea_float
  vtg_faa_mode :: char

text \<open>The local variables of the parsers, next to the frame they fill.\<close>

record 'frame parse_store =
  frame :: 'frame
  l_type :: string
  l_validity :: char
  l_latitude_direction :: int
  l_longitude_direction :: int
  l_variation_direction :: int
  l_chars :: "char list"

section \<open>Destinations\<close>

text \<open>A destination stores a value of its conversion's type; a value of another type (a format
  that does not fit its arguments) does not occur in this file's calls.\<close>

definition to_float :: "(minmea_float \<Rightarrow> 'f \<Rightarrow> 'f) \<Rightarrow> 'f dest" where
  "to_float upd v st = (case v of VFloat x \<Rightarrow> upd x st | _ \<Rightarrow> st)"

definition to_int :: "(int \<Rightarrow> 'f \<Rightarrow> 'f) \<Rightarrow> 'f dest" where
  "to_int upd v st = (case v of VInt x \<Rightarrow> upd x st | _ \<Rightarrow> st)"

definition to_char :: "(char \<Rightarrow> 'f \<Rightarrow> 'f) \<Rightarrow> 'f dest" where
  "to_char upd v st = (case v of VChar x \<Rightarrow> upd x st | _ \<Rightarrow> st)"

definition to_str :: "(string \<Rightarrow> 'f \<Rightarrow> 'f) \<Rightarrow> 'f dest" where
  "to_str upd v st = (case v of VStr x \<Rightarrow> upd x st | _ \<Rightarrow> st)"

definition to_date :: "(minmea_date \<Rightarrow> 'f \<Rightarrow> 'f) \<Rightarrow> 'f dest" where
  "to_date upd v st = (case v of VDate x \<Rightarrow> upd x st | _ \<Rightarrow> st)"

definition to_time :: "(minmea_time \<Rightarrow> 'f \<Rightarrow> 'f) \<Rightarrow> 'f dest" where
  "to_time upd v st = (case v of VTime x \<Rightarrow> upd x st | _ \<Rightarrow> st)"

lemmas dest_defs = to_float_def to_int_def to_char_def to_str_def to_date_def to_time_def

abbreviation in_frame :: "('a \<Rightarrow> 'frame \<Rightarrow> 'frame) \<Rightarrow> 'a \<Rightarrow> 'frame parse_store \<Rightarrow> 'frame parse_store" where
  "in_frame upd x st \<equiv> st\<lparr>frame := upd x (frame st)\<rparr>"

abbreviation "store_type \<equiv> to_str (\<lambda>x st. st\<lparr>l_type := x\<rparr>)"
abbreviation "store_latd \<equiv> to_int (\<lambda>x st. st\<lparr>l_latitude_direction := x\<rparr>)"
abbreviation "store_lond \<equiv> to_int (\<lambda>x st. st\<lparr>l_longitude_direction := x\<rparr>)"
abbreviation "store_vard \<equiv> to_int (\<lambda>x st. st\<lparr>l_variation_direction := x\<rparr>)"
abbreviation store_char :: "nat \<Rightarrow> 'frame parse_store dest" where
  "store_char k \<equiv> to_char (\<lambda>x st. st\<lparr>l_chars := (l_chars st)[k := x]\<rparr>)"

text \<open>The end of each parser: a failed scan or another sentence type is \<open>false\<close>, with the store
  as it is; otherwise the rest of the parser runs on the store.\<close>

definition finish_parse ::
  "string \<Rightarrow> ('frame parse_store \<Rightarrow> bool \<times> 'frame parse_store) \<Rightarrow>
   (bool \<times> 'frame parse_store) option \<Rightarrow> (bool \<times> 'frame) option" where
  "finish_parse ident rest r =
     (case r of
        None \<Rightarrow> None
      | Some (ok, st) \<Rightarrow>
          if \<not> ok then Some (False, frame st)
          else if \<not> c_streq (drop 2 (l_type st)) ident then Some (False, frame st)
          else (case rest st of (b, st) \<Rightarrow> Some (b, frame st)))"

text \<open>\<open>x.value *= direction\<close>.\<close>

definition signed_by :: "int \<Rightarrow> minmea_float \<Rightarrow> minmea_float" where
  "signed_by direction x = x\<lparr>f_value := f_value x * direction\<rparr>"

section \<open>Identifiers\<close>

definition minmea_talker_id :: "string \<Rightarrow> string \<Rightarrow> string \<Rightarrow> (bool \<times> string) option" where
  "minmea_talker_id type talker sentence =
     (case minmea_scan sentence ''t'' [to_str (\<lambda>x st. x)] type of
        None \<Rightarrow> None
      | Some (ok, type) \<Rightarrow> if \<not> ok then Some (False, talker) else Some (True, take 2 type))"

definition minmea_sentence_id :: "string \<Rightarrow> string \<Rightarrow> bool \<Rightarrow> minmea_sentence_id option" where
  "minmea_sentence_id type sentence strict =
     (if \<not> minmea_check sentence strict then Some MINMEA_INVALID
      else
        (case minmea_scan sentence ''t'' [to_str (\<lambda>x st. x)] type of
           None \<Rightarrow> None
         | Some (ok, type) \<Rightarrow>
             Some (if \<not> ok then MINMEA_INVALID
               else if c_streq (drop 2 type) ''RMC'' then MINMEA_SENTENCE_RMC
               else if c_streq (drop 2 type) ''GGA'' then MINMEA_SENTENCE_GGA
               else if c_streq (drop 2 type) ''GSA'' then MINMEA_SENTENCE_GSA
               else if c_streq (drop 2 type) ''GLL'' then MINMEA_SENTENCE_GLL
               else if c_streq (drop 2 type) ''GST'' then MINMEA_SENTENCE_GST
               else if c_streq (drop 2 type) ''GSV'' then MINMEA_SENTENCE_GSV
               else if c_streq (drop 2 type) ''VTG'' then MINMEA_SENTENCE_VTG
               else MINMEA_UNKNOWN)))"

section \<open>Sentence parsers\<close>

definition minmea_parse_rmc ::
  "minmea_sentence_rmc parse_store \<Rightarrow> string \<Rightarrow> (bool \<times> minmea_sentence_rmc) option" where
  "minmea_parse_rmc st sentence =
     finish_parse ''RMC''
       (\<lambda>st. (True, st\<lparr>frame := (frame st)\<lparr>
          rmc_valid := (l_validity st = CHR ''A''),
          rmc_latitude := signed_by (l_latitude_direction st) (rmc_latitude (frame st)),
          rmc_longitude := signed_by (l_longitude_direction st) (rmc_longitude (frame st)),
          rmc_variation := signed_by (l_variation_direction st) (rmc_variation (frame st))\<rparr>\<rparr>))
       (minmea_scan sentence ''tTcfdfdffDfd''
         [store_type,
          to_time (in_frame (\<lambda>x f. f\<lparr>rmc_time := x\<rparr>)),
          to_char (\<lambda>x st. st\<lparr>l_validity := x\<rparr>),
          to_float (in_frame (\<lambda>x f. f\<lparr>rmc_latitude := x\<rparr>)), store_latd,
          to_float (in_frame (\<lambda>x f. f\<lparr>rmc_longitude := x\<rparr>)), store_lond,
          to_float (in_frame (\<lambda>x f. f\<lparr>rmc_speed := x\<rparr>)),
          to_float (in_frame (\<lambda>x f. f\<lparr>rmc_course := x\<rparr>)),
          to_date (in_frame (\<lambda>x f. f\<lparr>rmc_date := x\<rparr>)),
          to_float (in_frame (\<lambda>x f. f\<lparr>rmc_variation := x\<rparr>)), store_vard]
         st)"

definition minmea_parse_gga ::
  "minmea_sentence_gga parse_store \<Rightarrow> string \<Rightarrow> (bool \<times> minmea_sentence_gga) option" where
  "minmea_parse_gga st sentence =
     finish_parse ''GGA''
       (\<lambda>st. (True, st\<lparr>frame := (frame st)\<lparr>
          gga_latitude := signed_by (l_latitude_direction st) (gga_latitude (frame st)),
          gga_longitude := signed_by (l_longitude_direction st) (gga_longitude (frame st))\<rparr>\<rparr>))
       (minmea_scan sentence ''tTfdfdiiffcfci_''
         [store_type,
          to_time (in_frame (\<lambda>x f. f\<lparr>gga_time := x\<rparr>)),
          to_float (in_frame (\<lambda>x f. f\<lparr>gga_latitude := x\<rparr>)), store_latd,
          to_float (in_frame (\<lambda>x f. f\<lparr>gga_longitude := x\<rparr>)), store_lond,
          to_int (in_frame (\<lambda>x f. f\<lparr>gga_fix_quality := x\<rparr>)),
          to_int (in_frame (\<lambda>x f. f\<lparr>gga_satellites_tracked := x\<rparr>)),
          to_float (in_frame (\<lambda>x f. f\<lparr>gga_hdop := x\<rparr>)),
          to_float (in_frame (\<lambda>x f. f\<lparr>gga_altitude := x\<rparr>)),
          to_char (in_frame (\<lambda>x f. f\<lparr>gga_altitude_units := x\<rparr>)),
          to_float (in_frame (\<lambda>x f. f\<lparr>gga_height := x\<rparr>)),
          to_char (in_frame (\<lambda>x f. f\<lparr>gga_height_units := x\<rparr>)),
          to_int (in_frame (\<lambda>x f. f\<lparr>gga_dgps_age := x\<rparr>))]
         st)"

definition minmea_parse_gsa ::
  "minmea_sentence_gsa parse_store \<Rightarrow> string \<Rightarrow> (bool \<times> minmea_sentence_gsa) option" where
  "minmea_parse_gsa st sentence =
     finish_parse ''GSA'' (\<lambda>st. (True, st))
       (minmea_scan sentence ''tciiiiiiiiiiiiifff''
         ([store_type,
           to_char (in_frame (\<lambda>x f. f\<lparr>gsa_mode := x\<rparr>)),
           to_int (in_frame (\<lambda>x f. f\<lparr>gsa_fix_type := x\<rparr>))] @
          map (\<lambda>k. to_int (in_frame (\<lambda>x f. f\<lparr>gsa_sats := (gsa_sats f)[k := x]\<rparr>))) [0..<12] @
          [to_float (in_frame (\<lambda>x f. f\<lparr>gsa_pdop := x\<rparr>)),
           to_float (in_frame (\<lambda>x f. f\<lparr>gsa_hdop := x\<rparr>)),
           to_float (in_frame (\<lambda>x f. f\<lparr>gsa_vdop := x\<rparr>))])
         st)"

definition minmea_parse_gll ::
  "minmea_sentence_gll parse_store \<Rightarrow> string \<Rightarrow> (bool \<times> minmea_sentence_gll) option" where
  "minmea_parse_gll st sentence =
     finish_parse ''GLL''
       (\<lambda>st. (True, st\<lparr>frame := (frame st)\<lparr>
          gll_latitude := signed_by (l_latitude_direction st) (gll_latitude (frame st)),
          gll_longitude := signed_by (l_longitude_direction st) (gll_longitude (frame st))\<rparr>\<rparr>))
       (minmea_scan sentence ''tfdfdTc;c''
         [store_type,
          to_float (in_frame (\<lambda>x f. f\<lparr>gll_latitude := x\<rparr>)), store_latd,
          to_float (in_frame (\<lambda>x f. f\<lparr>gll_longitude := x\<rparr>)), store_lond,
          to_time (in_frame (\<lambda>x f. f\<lparr>gll_time := x\<rparr>)),
          to_char (in_frame (\<lambda>x f. f\<lparr>gll_status := x\<rparr>)),
          to_char (in_frame (\<lambda>x f. f\<lparr>gll_mode := x\<rparr>))]
         st)"

definition minmea_parse_gst ::
  "minmea_sentence_gst parse_store \<Rightarrow> string \<Rightarrow> (bool \<times> minmea_sentence_gst) option" where
  "minmea_parse_gst st sentence =
     finish_parse ''GST'' (\<lambda>st. (True, st))
       (minmea_scan sentence ''tTfffffff''
         [store_type,
          to_time (in_frame (\<lambda>x f. f\<lparr>gst_time := x\<rparr>)),
          to_float (in_frame (\<lambda>x f. f\<lparr>gst_rms_deviation := x\<rparr>)),
          to_float (in_frame (\<lambda>x f. f\<lparr>gst_semi_major_deviation := x\<rparr>)),
          to_float (in_frame (\<lambda>x f. f\<lparr>gst_semi_minor_deviation := x\<rparr>)),
          to_float (in_frame (\<lambda>x f. f\<lparr>gst_semi_major_orientation := x\<rparr>)),
          to_float (in_frame (\<lambda>x f. f\<lparr>gst_latitude_error_deviation := x\<rparr>)),
          to_float (in_frame (\<lambda>x f. f\<lparr>gst_longitude_error_deviation := x\<rparr>)),
          to_float (in_frame (\<lambda>x f. f\<lparr>gst_altitude_error_deviation := x\<rparr>))]
         st)"

definition upd_sat :: "nat \<Rightarrow> (minmea_sat_info \<Rightarrow> minmea_sat_info) \<Rightarrow> minmea_sentence_gsv \<Rightarrow> minmea_sentence_gsv" where
  "upd_sat k g f = f\<lparr>gsv_sats := (gsv_sats f)[k := g (gsv_sats f ! k)]\<rparr>"

definition minmea_parse_gsv ::
  "minmea_sentence_gsv parse_store \<Rightarrow> string \<Rightarrow> (bool \<times> minmea_sentence_gsv) option" where
  "minmea_parse_gsv st sentence =
     finish_parse ''GSV'' (\<lambda>st. (True, st))
       (minmea_scan sentence ''tiii;iiiiiiiiiiiiiiii''
         ([store_type,
           to_int (in_frame (\<lambda>x f. f\<lparr>gsv_total_msgs := x\<rparr>)),
           to_int (in_frame (\<lambda>x f. f\<lparr>gsv_msg_nr := x\<rparr>)),
           to_int (in_frame (\<lambda>x f. f\<lparr>gsv_total_sats := x\<rparr>))] @
          concat (map (\<lambda>k.
            [to_int (in_frame (\<lambda>x. upd_sat k (\<lambda>i. i\<lparr>sat_nr := x\<rparr>))),
             to_int (in_frame (\<lambda>x. upd_sat k (\<lambda>i. i\<lparr>sat_elevation := x\<rparr>))),
             to_int (in_frame (\<lambda>x. upd_sat k (\<lambda>i. i\<lparr>sat_azimuth := x\<rparr>))),
             to_int (in_frame (\<lambda>x. upd_sat k (\<lambda>i. i\<lparr>sat_snr := x\<rparr>)))]) [0..<4]))
         st)"

text \<open>\<open>l_chars\<close> holds \<open>c_true\<close>, \<open>c_magnetic\<close>, \<open>c_knots\<close>, \<open>c_kph\<close> and \<open>c_faa_mode\<close>.\<close>

definition minmea_parse_vtg ::
  "minmea_sentence_vtg parse_store \<Rightarrow> string \<Rightarrow> (bool \<times> minmea_sentence_vtg) option" where
  "minmea_parse_vtg st sentence =
     finish_parse ''VTG''
       (\<lambda>st.
          if l_chars st ! 0 \<noteq> CHR ''T'' \<or> l_chars st ! 1 \<noteq> CHR ''M'' \<or>
             l_chars st ! 2 \<noteq> CHR ''N'' \<or> l_chars st ! 3 \<noteq> CHR ''K'' then (False, st)
          else (True, st\<lparr>frame := (frame st)\<lparr>vtg_faa_mode := l_chars st ! 4\<rparr>\<rparr>))
       (minmea_scan sentence ''tfcfcfcfc;c''
         [store_type,
          to_float (in_frame (\<lambda>x f. f\<lparr>vtg_true_track_degrees := x\<rparr>)), store_char 0,
          to_float (in_frame (\<lambda>x f. f\<lparr>vtg_magnetic_track_degrees := x\<rparr>)), store_char 1,
          to_float (in_frame (\<lambda>x f. f\<lparr>vtg_speed_knots := x\<rparr>)), store_char 2,
          to_float (in_frame (\<lambda>x f. f\<lparr>vtg_speed_kph := x\<rparr>)), store_char 3,
          store_char 4]
         st)"

section \<open>Time stamps and scaling\<close>

record c_tm =
  tm_year :: int
  tm_mon :: int
  tm_mday :: int
  tm_hour :: int
  tm_min :: int
  tm_sec :: int

record c_timespec =
  tv_sec :: int
  tv_nsec :: int

text \<open>\<open>mktime\<close> belongs to the C library of the target and is a parameter.\<close>

definition minmea_gettime ::
  "(c_tm \<Rightarrow> int) \<Rightarrow> c_timespec \<Rightarrow> minmea_date \<Rightarrow> minmea_time \<Rightarrow> int \<times> c_timespec" where
  "minmea_gettime mktime ts date clock =
     (if d_year date = - 1 \<or> t_hours clock = - 1 then (- 1, ts)
      else
        (let tm = \<lparr>tm_year = 2000 + d_year date - 1900, tm_mon = d_month date - 1,
                    tm_mday = d_day date, tm_hour = t_hours clock, tm_min = t_minutes clock,
                    tm_sec = t_seconds clock\<rparr>;
             timestamp = mktime tm
         in if timestamp \<noteq> - 1 then
              (0, \<lparr>tv_sec = timestamp, tv_nsec = t_microseconds clock * 1000\<rparr>)
            else (- 1, ts)))"

text \<open>\<open>minmea_rescale\<close>, operator by operator: each product, sum and quotient of \<open>int_least32_t\<close>
  must fit, and no divisor may be zero.\<close>

definition quot32 :: "int \<Rightarrow> int \<Rightarrow> int option" where
  "quot32 a b = (if b = 0 then None else chk32 (c_div a b))"

definition minmea_rescale :: "minmea_float \<Rightarrow> int \<Rightarrow> int option" where
  "minmea_rescale f new_scale =
     (if f_scale f = 0 then Some 0
      else if f_scale f = new_scale then Some (f_value f)
      else if f_scale f > new_scale then do {
        s \<leftarrow> chk32 (sgn (f_value f) * f_scale f);
        h \<leftarrow> quot32 s new_scale;
        h \<leftarrow> quot32 h 2;
        n \<leftarrow> chk32 (f_value f + h);
        q \<leftarrow> quot32 (f_scale f) new_scale;
        quot32 n q
      }
      else do {
        q \<leftarrow> quot32 new_scale (f_scale f);
        chk32 (f_value f * q)
      })"

section \<open>A parser accepts the sentences of its type only\<close>

definition keeps_type :: "'frame parse_store dest \<Rightarrow> bool" where
  "keeps_type d = (\<forall>v st. l_type (d v st) = l_type st)"

lemma keeps_type_dests [simp]:
  "\<forall>x st. l_type (fu x st) = l_type st \<Longrightarrow> keeps_type (to_float fu)"
  "\<forall>x st. l_type (iu x st) = l_type st \<Longrightarrow> keeps_type (to_int iu)"
  "\<forall>x st. l_type (cu x st) = l_type st \<Longrightarrow> keeps_type (to_char cu)"
  "\<forall>x st. l_type (du x st) = l_type st \<Longrightarrow> keeps_type (to_date du)"
  "\<forall>x st. l_type (tu x st) = l_type st \<Longrightarrow> keeps_type (to_time tu)"
  by (simp_all add: keeps_type_def dest_defs split: scan_value.split)

lemma scan_t_cases:
  assumes "scan_t field = r"
  obtains ident where "r = Conv (VStr ident)" | "r = Parse_Error"
  using assms by (auto simp: scan_t_def split: option.splits if_splits)

lemma scan_conv_t [simp]: "scan_conv (CHR ''t'') = scan_t"
  by (rule ext) (simp add: scan_conv_def)

lemma parser_type:
  assumes "finish_parse ident rest (minmea_scan s (CHR ''t'' # format) (store_type # ap) st) = Some (True, f)"
    and "list_all keeps_type ap"
  obtains type where "scan_t (Some s) = Conv (VStr type)" and "c_streq (drop 2 type) ident"
proof -
  from assms(1) obtain st' where scan: "minmea_scan s (CHR ''t'' # format) (store_type # ap) st = Some (True, st')"
    and id: "c_streq (drop 2 (l_type st')) ident"
    by (auto simp: finish_parse_def split: option.splits if_splits)
  obtain type where type: "scan_t (Some s) = Conv (VStr type)"
    using scan by (cases "Some s" rule: scan_t_cases [OF refl]) (simp_all add: minmea_scan_def)
  with scan have "scan_loop format (fst (next_field s)) (snd (next_field s)) False ap
      (store_type (VStr type) st) = Some (True, st')"
    by (simp add: minmea_scan_def split_beta)
  moreover have "\<forall>d \<in> set ap. \<forall>v st. l_type (d v st) = l_type st"
    using assms(2) by (auto simp: list_all_iff keeps_type_def)
  ultimately have "l_type st' = l_type (store_type (VStr type) st)"
    by (rule scan_loop_preserves [rotated, where g = l_type])
  then have "l_type st' = type" by (simp add: to_str_def)
  with id type that show ?thesis by blast
qed

lemma sentence_id_type:
  "scan_t (Some s) = Conv (VStr ident) \<Longrightarrow> minmea_check s strict \<Longrightarrow>
   minmea_sentence_id type s strict = Some (
     if c_streq (drop 2 ident) ''RMC'' then MINMEA_SENTENCE_RMC
     else if c_streq (drop 2 ident) ''GGA'' then MINMEA_SENTENCE_GGA
     else if c_streq (drop 2 ident) ''GSA'' then MINMEA_SENTENCE_GSA
     else if c_streq (drop 2 ident) ''GLL'' then MINMEA_SENTENCE_GLL
     else if c_streq (drop 2 ident) ''GST'' then MINMEA_SENTENCE_GST
     else if c_streq (drop 2 ident) ''GSV'' then MINMEA_SENTENCE_GSV
     else if c_streq (drop 2 ident) ''VTG'' then MINMEA_SENTENCE_VTG
     else MINMEA_UNKNOWN)"
  by (simp add: minmea_sentence_id_def minmea_scan_def to_str_def split: prod.split)

text \<open>C20: the parsers and the identifier agree: when the parser of a sentence type returns true on
  a line that passes the check, \<open>minmea_sentence_id\<close> gives that type; so no line is accepted by
  two parsers.\<close>

theorem minmea_parser_identifies:
  assumes "minmea_check s strict"
  shows
    "(minmea_parse_rmc strmc s = Some (True, rmc) \<longrightarrow>
        minmea_sentence_id type s strict = Some MINMEA_SENTENCE_RMC) \<and>
     (minmea_parse_gga stgga s = Some (True, gga) \<longrightarrow>
        minmea_sentence_id type s strict = Some MINMEA_SENTENCE_GGA) \<and>
     (minmea_parse_gsa stgsa s = Some (True, gsa) \<longrightarrow>
        minmea_sentence_id type s strict = Some MINMEA_SENTENCE_GSA) \<and>
     (minmea_parse_gll stgll s = Some (True, gll) \<longrightarrow>
        minmea_sentence_id type s strict = Some MINMEA_SENTENCE_GLL) \<and>
     (minmea_parse_gst stgst s = Some (True, gst) \<longrightarrow>
        minmea_sentence_id type s strict = Some MINMEA_SENTENCE_GST) \<and>
     (minmea_parse_gsv stgsv s = Some (True, gsv) \<longrightarrow>
        minmea_sentence_id type s strict = Some MINMEA_SENTENCE_GSV) \<and>
     (minmea_parse_vtg stvtg s = Some (True, vtg) \<longrightarrow>
        minmea_sentence_id type s strict = Some MINMEA_SENTENCE_VTG)"
    (is "(?rmc \<longrightarrow> _) \<and> (?gga \<longrightarrow> _) \<and> (?gsa \<longrightarrow> _) \<and> (?gll \<longrightarrow> _) \<and> (?gst \<longrightarrow> _) \<and>
        (?gsv \<longrightarrow> _) \<and> (?vtg \<longrightarrow> _)")
proof (intro conjI impI)
  note idt = sentence_id_type [OF _ assms, of _ type] c_streq_def list_all_iff
  show "minmea_sentence_id type s strict = Some MINMEA_SENTENCE_RMC" if ?rmc
    using that unfolding minmea_parse_rmc_def by (rule parser_type) (auto simp: idt)
  show "minmea_sentence_id type s strict = Some MINMEA_SENTENCE_GGA" if ?gga
    using that unfolding minmea_parse_gga_def by (rule parser_type) (auto simp: idt)
  show "minmea_sentence_id type s strict = Some MINMEA_SENTENCE_GSA" if ?gsa
    using that unfolding minmea_parse_gsa_def append_Cons by (rule parser_type) (auto simp: idt)
  show "minmea_sentence_id type s strict = Some MINMEA_SENTENCE_GLL" if ?gll
    using that unfolding minmea_parse_gll_def by (rule parser_type) (auto simp: idt)
  show "minmea_sentence_id type s strict = Some MINMEA_SENTENCE_GST" if ?gst
    using that unfolding minmea_parse_gst_def by (rule parser_type) (auto simp: idt)
  show "minmea_sentence_id type s strict = Some MINMEA_SENTENCE_GSV" if ?gsv
    using that unfolding minmea_parse_gsv_def append_Cons by (rule parser_type) (auto simp: idt)
  show "minmea_sentence_id type s strict = Some MINMEA_SENTENCE_VTG" if ?vtg
    using that unfolding minmea_parse_vtg_def by (rule parser_type) (auto simp: idt)
qed

definition vtg_start :: "minmea_sentence_vtg parse_store" where
  "vtg_start = \<lparr>frame = \<lparr>vtg_true_track_degrees = \<lparr>f_value = 7, f_scale = 7\<rparr>,
     vtg_magnetic_track_degrees = \<lparr>f_value = 7, f_scale = 7\<rparr>,
     vtg_speed_knots = \<lparr>f_value = 7, f_scale = 7\<rparr>, vtg_speed_kph = \<lparr>f_value = 7, f_scale = 7\<rparr>,
     vtg_faa_mode = CHR ''x''\<rparr>, l_type = ''xxxxx'', l_validity = CHR ''x'', l_latitude_direction = 7,
     l_longitude_direction = 7, l_variation_direction = 7, l_chars = replicate 5 (CHR ''x'')\<rparr>"

theorem minmea_parser_identifies_witness:
  "\<exists>f. minmea_parse_vtg vtg_start ''$GPVTG,188.36,T,,M,0.820,N,1.519,K,A*3F'' = Some (True, f) \<and>
     minmea_sentence_id ''xxxxx'' ''$GPVTG,188.36,T,,M,0.820,N,1.519,K,A*3F'' True = Some MINMEA_SENTENCE_VTG"
proof -
  let ?s = "''$GPVTG,188.36,T,,M,0.820,N,1.519,K,A*3F''"
  have c: "minmea_check ?s True" by code_simp
  have "case minmea_parse_vtg vtg_start ?s of Some (b, f) \<Rightarrow> b | None \<Rightarrow> False" by code_simp
  then obtain f where "minmea_parse_vtg vtg_start ?s = Some (True, f)"
    by (auto split: option.splits)
  with minmea_parser_identifies [OF c, where stvtg = vtg_start and vtg = f and type = "''xxxxx''"]
  show ?thesis by blast
qed

section \<open>Position reports\<close>

text \<open>What a receiver puts into an RMC sentence, as text, and the sentence it sends.\<close>

record rmc_report =
  r_talker :: string
  r_time :: string
  r_fraction :: string
  r_validity :: char
  r_latitude :: "string \<times> string"
  r_ns :: char
  r_longitude :: "string \<times> string"
  r_ew :: char
  r_speed :: "string \<times> string"
  r_course :: "string \<times> string"
  r_date :: string
  r_variation :: "string \<times> string"
  r_vew :: char

definition number_text :: "string \<times> string \<Rightarrow> string" where
  "number_text n = decimal_text 0 (fst n) (snd n)"

definition number_of :: "string \<times> string \<Rightarrow> minmea_float" where
  "number_of n = \<lparr>f_value = digits_val (fst n @ snd n), f_scale = 10 ^ length (snd n)\<rparr>"

definition number_ok :: "string \<times> string \<Rightarrow> bool" where
  "number_ok n = (list_all c_isdigit (fst n) \<and> list_all c_isdigit (snd n) \<and> fst n @ snd n \<noteq> [] \<and>
     length (snd n) \<le> 9 \<and> digits_val (fst n @ snd n) \<le> int32_max)"

definition pair_at :: "string \<Rightarrow> nat \<Rightarrow> int" where
  "pair_at s k = 10 * digit_val (s ! k) + digit_val (s ! (k + 1))"

definition six_digit_text :: "string \<Rightarrow> bool" where
  "six_digit_text s = (length s = 6 \<and> list_all c_isdigit s)"

definition direction_of :: "char \<Rightarrow> int" where
  "direction_of c = (if c = CHR ''N'' \<or> c = CHR ''E'' then 1 else - 1)"

definition report_ok :: "rmc_report \<Rightarrow> bool" where
  "report_ok r =
     (field_text (r_talker r) \<and> length (r_talker r) = 2 \<and>
      six_digit_text (r_time r) \<and> list_all c_isdigit (r_fraction r) \<and> length (r_fraction r) \<le> 6 \<and>
      minmea_isfield (r_validity r) \<and>
      number_ok (r_latitude r) \<and> r_ns r \<in> set ''NS'' \<and>
      number_ok (r_longitude r) \<and> r_ew r \<in> set ''EW'' \<and>
      number_ok (r_speed r) \<and> number_ok (r_course r) \<and> six_digit_text (r_date r) \<and>
      number_ok (r_variation r) \<and> r_vew r \<in> set ''EW'')"

definition report_body :: "rmc_report \<Rightarrow> string" where
  "report_body r =
     (r_talker r @ ''RMC'') @ CHR '','' # (r_time r @ CHR ''.'' # r_fraction r) @ CHR '','' #
     [r_validity r] @ CHR '','' # number_text (r_latitude r) @ CHR '','' # [r_ns r] @ CHR '','' #
     number_text (r_longitude r) @ CHR '','' # [r_ew r] @ CHR '','' #
     number_text (r_speed r) @ CHR '','' # number_text (r_course r) @ CHR '','' #
     r_date r @ CHR '','' # number_text (r_variation r) @ CHR '','' # [r_vew r]"

definition report_frame :: "rmc_report \<Rightarrow> minmea_sentence_rmc" where
  "report_frame r =
     \<lparr>rmc_time = \<lparr>t_hours = pair_at (r_time r) 0, t_minutes = pair_at (r_time r) 2,
        t_seconds = pair_at (r_time r) 4,
        t_microseconds = digits_val (r_fraction r) * 10 ^ (6 - length (r_fraction r))\<rparr>,
      rmc_valid = (r_validity r = CHR ''A''),
      rmc_latitude = signed_by (direction_of (r_ns r)) (number_of (r_latitude r)),
      rmc_longitude = signed_by (direction_of (r_ew r)) (number_of (r_longitude r)),
      rmc_speed = number_of (r_speed r), rmc_course = number_of (r_course r),
      rmc_date = \<lparr>d_day = pair_at (r_date r) 0, d_month = pair_at (r_date r) 2,
        d_year = pair_at (r_date r) 4\<rparr>,
      rmc_variation = signed_by (direction_of (r_vew r)) (number_of (r_variation r))\<rparr>"

text \<open>A field that reads as a value, wherever the field ends.\<close>

definition reads :: "char \<Rightarrow> string \<Rightarrow> scan_value \<Rightarrow> bool" where
  "reads type f v = (type \<in> set ''cdfDT'' \<and> field_text f \<and> scan_conv type (Some f) = Conv v \<and> v \<noteq> VNone)"

lemma scan_reads:
  "reads type f v \<Longrightarrow>
    scan_loop (type # format) (f @ CHR '','' # r) (Some (f @ CHR '','' # r)) optional (dst # ap) st
      = scan_loop format r (Some r) optional ap (dst v st)"
  unfolding reads_def by (elim conjE) (rule scan_loop_step)

lemma scan_reads_end:
  assumes "reads type f v" and "field_end r"
  shows "scan_loop [type] (f @ r) (Some (f @ r)) optional [dst] st = Some (True, dst v st)"
  using assms scan_conv_local [of type f r] by (auto simp: reads_def split: prod.split)

lemma digits_field_text: "list_all c_isdigit ds \<Longrightarrow> field_text ds"
  by (auto simp: list_all_iff digit_isfield)

lemma reads_number:
  assumes "number_ok n"
  shows "reads (CHR ''f'') (number_text n) (VFloat (number_of n))"
proof -
  have "field_text (number_text n)"
    using assms by (auto simp: number_ok_def number_text_def decimal_text_def sign_text_def digits_field_text)
  moreover have "scan_f (Some (number_text n)) = Conv (VFloat (number_of n))"
    using assms scan_f_decimal_text [of "fst n" "snd n" 0 "[]"]
    by (simp add: number_ok_def number_text_def number_of_def apply_sign_def)
  ultimately show ?thesis by (simp add: reads_def scan_conv_def)
qed

lemma six_digit_textE:
  assumes "six_digit_text s"
  obtains a b c d e f where "s = [a, b, c, d, e, f]" "list_all c_isdigit [a, b, c, d, e, f]"
  using assms by (auto simp: six_digit_text_def numeral_eq_Suc length_Suc_conv)

lemma reads_time:
  assumes "six_digit_text s" and "list_all c_isdigit ds" "length ds \<le> 6"
  shows "reads (CHR ''T'') (s @ CHR ''.'' # ds)
    (VTime \<lparr>t_hours = pair_at s 0, t_minutes = pair_at s 2, t_seconds = pair_at s 4,
       t_microseconds = digits_val ds * 10 ^ (6 - length ds)\<rparr>)"
proof -
  obtain h1 h2 m1 m2 s1 s2 where s: "s = [h1, h2, m1, m2, s1, s2]"
    and d: "list_all c_isdigit [h1, h2, m1, m2, s1, s2]"
    using assms(1) by (rule six_digit_textE)
  have "scan_T (Some (s @ CHR ''.'' # ds)) = Conv (VTime \<lparr>t_hours = pair_at s 0,
      t_minutes = pair_at s 2, t_seconds = pair_at s 4,
      t_microseconds = digits_val ds * 10 ^ (6 - length ds)\<rparr>)"
    using scan_T_text [OF d assms(2,3), of "[]"] by (simp add: s pair_at_def)
  moreover have "field_text (s @ CHR ''.'' # ds)"
    using digits_field_text [OF d] digits_field_text [OF assms(2)] s by simp
  ultimately show ?thesis by (simp add: reads_def scan_conv_def)
qed

lemma reads_date:
  assumes "six_digit_text s"
  shows "reads (CHR ''D'') s
    (VDate \<lparr>d_day = pair_at s 0, d_month = pair_at s 2, d_year = pair_at s 4\<rparr>)"
proof -
  obtain a b c d e f where s: "s = [a, b, c, d, e, f]"
    and d: "list_all c_isdigit [a, b, c, d, e, f]"
    using assms(1) by (rule six_digit_textE)
  show ?thesis
    using scan_D_text [OF d, of "[]"] digits_field_text [OF d]
    by (simp add: s pair_at_def reads_def scan_conv_def)
qed

lemma reads_char: "minmea_isfield c \<Longrightarrow> reads (CHR ''c'') [c] (VChar c)"
  by (simp add: reads_def scan_conv_def scan_c_def)

lemma letters_isfield: "list_all minmea_isfield ''ABCDEFGHIJKLMNOPQRSTUVWXYZ''"
  by code_simp

lemma reads_direction: "c \<in> set ''NSEW'' \<Longrightarrow> reads (CHR ''d'') [c] (VInt (direction_of c))"
  using letters_isfield by (auto simp: reads_def scan_conv_def scan_d_def direction_of_def)

lemma scan_rmc_fields:
  assumes "field_text ident" "length ident = 5"
    and "reads (CHR ''T'') f1 v1" "reads (CHR ''c'') f2 v2" "reads (CHR ''f'') f3 v3"
    and "reads (CHR ''d'') f4 v4" "reads (CHR ''f'') f5 v5" "reads (CHR ''d'') f6 v6"
    and "reads (CHR ''f'') f7 v7" "reads (CHR ''f'') f8 v8" "reads (CHR ''D'') f9 v9"
    and "reads (CHR ''f'') f10 v10" "reads (CHR ''d'') f11 v11" and "field_end tail"
  shows "minmea_scan (CHR ''$'' # ident @ CHR '','' # f1 @ CHR '','' # f2 @ CHR '','' # f3 @ CHR '','' #
      f4 @ CHR '','' # f5 @ CHR '','' # f6 @ CHR '','' # f7 @ CHR '','' # f8 @ CHR '','' # f9 @ CHR '','' #
      f10 @ CHR '','' # f11 @ tail) ''tTcfdfdffDfd'' [d0, d1, d2, d3, d4, d5, d6, d7, d8, d9, d10, d11] st
    = Some (True, d11 v11 (d10 v10 (d9 v9 (d8 v8 (d7 v7 (d6 v6 (d5 v5 (d4 v4 (d3 v3 (d2 v2
        (d1 v1 (d0 (VStr ident) st))))))))))))"
  unfolding minmea_scan_def
  by (simp only: scan_loop_talker [OF assms(1,2)] assms(3-12) [THEN scan_reads]
      scan_reads_end [OF assms(13,14)])

lemma minmea_parse_rmc_report:
  assumes ok: "report_ok r" and tail: "field_end tail"
  shows "minmea_parse_rmc st (CHR ''$'' # report_body r @ tail) = Some (True, report_frame r)"
proof -
  have id: "field_text (r_talker r @ ''RMC'')" "length (r_talker r @ ''RMC'') = 5"
    using ok letters_isfield by (auto simp: report_ok_def)
  have drop: "drop 2 (r_talker r @ ''RMC'') = ''RMC''" using ok by (simp add: report_ok_def)
  have "minmea_scan (CHR ''$'' # report_body r @ tail) ''tTcfdfdffDfd'' [d0, d1, d2, d3, d4, d5, d6,
      d7, d8, d9, d10, d11] st =
    Some (True,
      d11 (VInt (direction_of (r_vew r))) (d10 (VFloat (number_of (r_variation r)))
      (d9 (VDate (rmc_date (report_frame r)))
      (d8 (VFloat (number_of (r_course r))) (d7 (VFloat (number_of (r_speed r)))
      (d6 (VInt (direction_of (r_ew r))) (d5 (VFloat (number_of (r_longitude r)))
      (d4 (VInt (direction_of (r_ns r))) (d3 (VFloat (number_of (r_latitude r)))
      (d2 (VChar (r_validity r)) (d1 (VTime (rmc_time (report_frame r)))
      (d0 (VStr (r_talker r @ ''RMC'')) st))))))))))))"
    for d0 d1 d2 d3 d4 d5 d6 d7 d8 d9 d10 d11 and st :: "minmea_sentence_rmc parse_store"
    using ok scan_rmc_fields [OF id reads_time reads_char reads_number reads_direction
        reads_number reads_direction reads_number reads_number reads_date reads_number
        reads_direction tail, of "r_time r" "r_fraction r" "r_validity r" "r_latitude r" "r_ns r"
        "r_longitude r" "r_ew r" "r_speed r" "r_course r" "r_date r" "r_variation r" "r_vew r"]
    by (auto simp: report_body_def report_ok_def report_frame_def)
  then show ?thesis
    using drop
    by (simp add: minmea_parse_rmc_def finish_parse_def dest_defs c_streq_def report_frame_def)
qed

lemma isfield_body_char: "minmea_isfield c \<Longrightarrow> body_char c"
  by (auto simp: minmea_isfield_def body_char_def)

lemma report_body_chars:
  assumes "report_ok r"
  shows "list_all body_char (report_body r)"
proof -
  have comma: "body_char (CHR '','')" by code_simp
  have "field_text [r_ns r]" "field_text [r_ew r]" "field_text [r_vew r]"
    using assms letters_isfield by (auto simp: report_ok_def)
  moreover have "field_text ''RMC''" using letters_isfield by simp
  moreover have "field_text (number_text n)" if "number_ok n" for n
    using reads_number [OF that] by (simp add: reads_def)
  moreover have "field_text s" if "six_digit_text s" for s
    using that digits_field_text by (simp add: six_digit_text_def)
  moreover have "list_all body_char f" if "field_text f" for f
    using that isfield_body_char by (rule list.pred_mono_strong)
  ultimately show ?thesis
    using assms comma digits_field_text [of "r_fraction r"] letters_isfield
    by (simp add: report_body_def report_ok_def isfield_body_char)
qed

lemma report_sentence:
  assumes "report_ok r" and "length (report_body r) \<le> 77"
  shows "minmea_check (nmea_frame (report_body r)) strict"
    and "minmea_sentence_id type (nmea_frame (report_body r)) strict = Some MINMEA_SENTENCE_RMC"
    and "minmea_parse_rmc st (nmea_frame (report_body r)) = Some (True, report_frame r)"
proof -
  show check: "minmea_check (nmea_frame (report_body r)) strict"
    using nmea_frame_check [OF report_body_chars [OF assms(1)] assms(2)] by blast
  show parse: "minmea_parse_rmc st (nmea_frame (report_body r)) = Some (True, report_frame r)" for st
    unfolding nmea_frame_def by (rule minmea_parse_rmc_report [OF assms(1)]) simp
  from parse [of st] obtain ident where "scan_t (Some (nmea_frame (report_body r))) = Conv (VStr ident)"
    and "c_streq (drop 2 ident) ''RMC''"
    unfolding minmea_parse_rmc_def by (rule parser_type) auto
  then show "minmea_sentence_id type (nmea_frame (report_body r)) strict = Some MINMEA_SENTENCE_RMC"
    using sentence_id_type check by simp
qed

text \<open>C5: position reports survive the trip: the RMC sentence a receiver builds from a report with
  well-formed numbers passes the check, is identified as RMC, and is parsed into exactly the
  report's time, validity, signed position, speed, course, date and variation, whatever the frame
  and the parser's local variables held before.\<close>

theorem rmc_report_roundtrip:
  assumes "report_ok r" and "length (report_body r) \<le> 77"
  shows "minmea_check (nmea_frame (report_body r)) strict \<and>
    minmea_sentence_id type (nmea_frame (report_body r)) strict = Some MINMEA_SENTENCE_RMC \<and>
    minmea_parse_rmc st (nmea_frame (report_body r)) = Some (True, report_frame r)"
  using report_sentence [OF assms] by blast

definition sample_report :: rmc_report where
  "sample_report = \<lparr>r_talker = ''GP'', r_time = ''081836'', r_fraction = ''75'', r_validity = CHR ''A'',
     r_latitude = (''3751'', ''65''), r_ns = CHR ''S'', r_longitude = (''14507'', ''36''),
     r_ew = CHR ''E'', r_speed = (''000'', ''0''), r_course = (''360'', ''0''), r_date = ''130998'',
     r_variation = (''011'', ''3''), r_vew = CHR ''E''\<rparr>"

theorem rmc_report_roundtrip_witness:
  "nmea_frame (report_body sample_report) =
     ''$GPRMC,081836.75,A,3751.65,S,14507.36,E,000.0,360.0,130998,011.3,E*4E'' @ [CR, LF] \<and>
   (\<forall>st. minmea_parse_rmc st (nmea_frame (report_body sample_report)) = Some (True, report_frame sample_report)) \<and>
   rmc_latitude (report_frame sample_report) = \<lparr>f_value = - 375165, f_scale = 100\<rparr>"
proof -
  have ok: "report_ok sample_report" and len: "length (report_body sample_report) \<le> 77" by code_simp+
  have "nmea_frame (report_body sample_report) =
     ''$GPRMC,081836.75,A,3751.65,S,14507.36,E,000.0,360.0,130998,011.3,E*4E'' @ [CR, LF]" by code_simp
  moreover have "rmc_latitude (report_frame sample_report) = \<lparr>f_value = - 375165, f_scale = 100\<rparr>"
    by code_simp
  ultimately show ?thesis using rmc_report_roundtrip [OF ok len] by blast
qed

section \<open>Rescaling\<close>

lemma div_bounds:
  assumes "0 \<le> (a::int)" and "0 < b"
  shows "0 \<le> a div b" and "a div b \<le> a"
  using assms zdiv_mono2 [of a 1 b] by (auto simp: pos_imp_zdiv_nonneg_iff)

lemma quot32_pos: "0 \<le> a \<Longrightarrow> a \<le> int32_max \<Longrightarrow> 0 < b \<Longrightarrow> quot32 a b = Some (a div b)"
  using div_bounds [of a b] by (simp add: quot32_def c_div_pos chk32_def int32_min_def)

lemma quot32_neg: "0 \<le> a \<Longrightarrow> a \<le> int32_max \<Longrightarrow> 0 < b \<Longrightarrow> quot32 (- a) b = Some (- (a div b))"
  using div_bounds [of a b] by (simp add: quot32_def c_div_neg chk32_def int32_min_def int32_max_def)

lemma chk32_in: "int32_min \<le> x \<Longrightarrow> x \<le> int32_max \<Longrightarrow> chk32 x = Some x"
  by (simp add: chk32_def)

lemma int32_range_simps: "int32_min = - int32_max - 1" "0 < int32_max"
  by (simp_all add: int32_min_def int32_max_def)

lemma rescale_down_value:
  assumes "0 < new" "new < f_scale f" "f_scale f \<le> int32_max"
    and big: "\<bar>f_value f\<bar> + f_scale f div new div 2 \<le> int32_max"
  shows "minmea_rescale f new =
    Some (sgn (f_value f) * ((\<bar>f_value f\<bar> + f_scale f div new div 2) div (f_scale f div new)))"
proof -
  let ?v = "f_value f" and ?s = "f_scale f"
  let ?q = "?s div new"
  let ?h = "?q div 2"
  have q: "0 < ?q" using assms by (simp add: pos_imp_zdiv_pos_iff)
  have qs: "?q \<le> int32_max" using div_bounds [of ?s new] assms by simp
  have h: "0 \<le> ?h" using q by simp
  have qq: "quot32 ?s new = Some ?q" "quot32 ?q 2 = Some ?h"
    using assms q qs by (simp_all add: quot32_pos)
  have nq: "quot32 (- ?s) new = Some (- ?q)" "quot32 (- ?q) 2 = Some (- ?h)"
    using assms q qs by (simp_all add: quot32_neg)
  consider "?v = 0" | "0 < ?v" | "?v < 0" by linarith
  then show ?thesis
  proof cases
    case 1
    have "?h div ?q = 0" using q by (simp add: div_pos_pos_trivial)
    with 1 assms qq q show ?thesis
      by (simp add: minmea_rescale_def chk32_def int32_range_simps quot32_def c_div_def)
  next
    case 2
    then have n: "0 \<le> ?v + ?h" "?v + ?h \<le> int32_max" using big h by auto
    have c: "chk32 ?s = Some ?s" "chk32 (?v + ?h) = Some (?v + ?h)"
      using n assms by (auto intro!: chk32_in simp: int32_range_simps(1))
    show ?thesis using 2 assms qq c quot32_pos [OF n q] by (simp add: minmea_rescale_def)
  next
    case 3
    then have n: "0 \<le> - ?v + ?h" "- ?v + ?h \<le> int32_max" using big h by auto
    have c: "chk32 (- ?s) = Some (- ?s)" "chk32 (?v - ?h) = Some (?v - ?h)"
      using n assms by (auto intro!: chk32_in simp: int32_range_simps(1))
    show ?thesis using 3 assms qq nq c quot32_neg [OF n q] by (simp add: minmea_rescale_def)
  qed
qed

lemma round_half_up:
  assumes "0 < (q::int)"
  shows "\<bar>2 * ((a + q div 2) div q * q - a)\<bar> \<le> q"
    and "\<bar>2 * ((a + q div 2) div q * q - a)\<bar> = q \<longrightarrow> a < (a + q div 2) div q * q"
proof -
  let ?r = "(a + q div 2) div q" and ?m = "(a + q div 2) mod q"
  have m: "0 \<le> ?m" "?m < q" using assms by simp_all
  have e: "?r * q - a = q div 2 - ?m"
    using div_mult_mod_eq [of "a + q div 2" q] by linarith
  have h: "2 * (q div 2) \<le> q" "q \<le> 2 * (q div 2) + 1" by presburger+
  have bound: "\<bar>2 * (x - y)\<bar> \<le> q"
    if "0 \<le> y" "y < q" "2 * x \<le> q" "q \<le> 2 * x + 1" for x y
    using that by presburger
  have tie: "\<bar>2 * (x - y)\<bar> = q \<longrightarrow> y < x"
    if "0 \<le> y" "y < q" "2 * x \<le> q" "q \<le> 2 * x + 1" for x y
    using that by presburger
  show "\<bar>2 * (?r * q - a)\<bar> \<le> q" unfolding e by (rule bound [OF m h])
  show "\<bar>2 * (?r * q - a)\<bar> = q \<longrightarrow> a < ?r * q"
  proof
    assume "\<bar>2 * (?r * q - a)\<bar> = q"
    then have "?m < q div 2" using tie [OF m h] unfolding e by blast
    then have "0 < ?r * q - a" unfolding e by (simp only: diff_gt_0_iff_gt)
    then show "a < ?r * q" by (simp only: diff_gt_0_iff_gt)
  qed
qed

lemma signed_round:
  assumes "0 \<le> (x::int)" and "0 < q" and "\<bar>2 * (x - \<bar>v\<bar>)\<bar> \<le> q"
    and "\<bar>2 * (x - \<bar>v\<bar>)\<bar> = q \<longrightarrow> \<bar>v\<bar> < x"
  shows "\<bar>2 * (sgn v * x - v)\<bar> \<le> q \<and> (\<bar>2 * (sgn v * x - v)\<bar> = q \<longrightarrow> \<bar>v\<bar> < \<bar>sgn v * x\<bar>)"
proof -
  consider (zero) "v = 0" | (pos) "0 < v" | (neg) "v < 0" by linarith
  then show ?thesis
  proof cases
    case neg
    have "\<bar>2 * (- x - v)\<bar> = \<bar>2 * (x - (- v))\<bar>" by arith
    with neg assms show ?thesis by simp
  qed (use assms in simp_all)
qed

text \<open>Scaling down rounds to the nearest number, and a half away from zero: the result times the
  integer ratio of the scales is at most half the ratio away from the value, and at exactly half
  it is the larger of the two in size. (The comment on \<open>minmea_rescale\<close> in minmea.h says that it
  rounds towards zero.)\<close>

theorem minmea_rescale_down:
  assumes "0 < new" and "new < f_scale f" and "f_scale f \<le> int32_max"
    and "\<bar>f_value f\<bar> + f_scale f div new div 2 \<le> int32_max"
  shows "\<exists>r. minmea_rescale f new = Some r \<and>
    \<bar>2 * (r * (f_scale f div new) - f_value f)\<bar> \<le> f_scale f div new \<and>
    (\<bar>2 * (r * (f_scale f div new) - f_value f)\<bar> = f_scale f div new \<longrightarrow>
      \<bar>f_value f\<bar> < \<bar>r * (f_scale f div new)\<bar>)"
proof -
  let ?q = "f_scale f div new" and ?v = "f_value f"
  let ?m = "(\<bar>?v\<bar> + ?q div 2) div ?q"
  have q: "0 < ?q" using assms by (simp add: pos_imp_zdiv_pos_iff)
  have m: "0 \<le> ?m" using q by (simp add: pos_imp_zdiv_nonneg_iff)
  have "0 \<le> ?m * ?q" using m q by simp
  note this q round_half_up [OF q, of "\<bar>?v\<bar>"]
  note sr = signed_round [OF this, folded mult.assoc]
  show ?thesis
    using rescale_down_value [OF assms] sr [THEN conjunct1] sr [THEN conjunct2]
    by - (rule exI [of _ "sgn ?v * ?m"], intro conjI)
qed

theorem minmea_rescale_down_witness:
  "minmea_rescale \<lparr>f_value = - 15, f_scale = 10\<rparr> 1 = Some (- 2) \<and>
   \<bar>2 * (- 2 * (10 div 1) - (- 15))\<bar> \<le> (10 :: int)"
proof -
  have r: "minmea_rescale \<lparr>f_value = - 15, f_scale = 10\<rparr> 1 = Some (- 2)" by code_simp
  have "\<exists>r. minmea_rescale \<lparr>f_value = - 15, f_scale = 10\<rparr> 1 = Some r \<and>
      \<bar>2 * (r * 10 - (- 15))\<bar> \<le> (10::int)"
    using minmea_rescale_down [of 1 "\<lparr>f_value = - 15, f_scale = 10\<rparr>"] by (auto simp: int32_max_def)
  with r show ?thesis by auto
qed

text \<open>Scaling up multiplies by the integer ratio of the scales, exactly, as long as the product
  fits \<open>int_least32_t\<close>; the code has no check, and a product outside the range is a signed
  overflow.\<close>

theorem minmea_rescale_up:
  assumes "0 < f_scale f" and "f_scale f < new" and "new \<le> int32_max"
  shows "minmea_rescale f new =
    (if int32_min \<le> f_value f * (new div f_scale f) \<and> f_value f * (new div f_scale f) \<le> int32_max
     then Some (f_value f * (new div f_scale f)) else None)"
  using assms by (simp add: minmea_rescale_def quot32_pos chk32_def)

theorem minmea_rescale_up_witness:
  "minmea_rescale \<lparr>f_value = 173, f_scale = 10\<rparr> 1000 = Some 17300 \<and>
   minmea_rescale \<lparr>f_value = 21474837, f_scale = 10\<rparr> 1000 = None"
  using minmea_rescale_up [of "\<lparr>f_value = 173, f_scale = 10\<rparr>" 1000]
    minmea_rescale_up [of "\<lparr>f_value = 21474837, f_scale = 10\<rparr>" 1000]
  by (simp add: int32_max_def int32_min_def)

end
