(* ===== verification/Gps_Trigger.thy ===== *)
theory Gps_Trigger
  imports GPS_Prelude
begin

text \<open>
  src/hw/hw_gps.c, the acceleration timers: four limits, each a small state machine fed with the
  current speed once per position report. The tick counter \<open>xTaskGetTickCount\<close> is read at most once
  per call and limit, so that its value is a parameter of the step.
\<close>

section \<open>State and step\<close>

record trig_lim =
  sys_ticks :: u32
  trigged_ms :: u32
  status :: int

definition portTICK_PERIOD_MS :: u32 where
  "portTICK_PERIOD_MS = 1"

definition trig_one_limit :: "trig_lim \<Rightarrow> u32 \<Rightarrow> u16 \<Rightarrow> bool \<Rightarrow> u32 \<Rightarrow> trig_lim" where
  "trig_one_limit str current_speed trig_speed clr now =
     (let str = (if clr \<or> current_speed = 0 then str\<lparr>sys_ticks := 0, status := 0\<rparr> else str) in
      if clr then str\<lparr>trigged_ms := 0\<rparr>
      else if status str = 0 then
        (if current_speed = 0 then str\<lparr>status := 1\<rparr> else str)
      else if status str = 1 then
        (if current_speed > 0 then str\<lparr>trigged_ms := 0, sys_ticks := now, status := 2\<rparr> else str)
      else if status str = 2 then
        (if current_speed \<ge> ucast trig_speed then
           str\<lparr>trigged_ms := (now - sys_ticks str) * portTICK_PERIOD_MS, status := 0\<rparr>
         else str)
      else str\<lparr>status := 0\<rparr>)"

text \<open>The four limits and the result variables the display reads. \<open>ticks k\<close> is what the tick
  counter shows while limit \<open>k\<close> is updated.\<close>

record gps_triggers =
  trig_lim_str :: "trig_lim list"
  trigger_0_ms :: u32
  trigger_1_ms :: u32
  trigger_2_ms :: u32
  trigger_3_ms :: u32

definition MAX_TRIGGERS :: nat where
  "MAX_TRIGGERS = 4"

definition trig_lim_init :: trig_lim where
  "trig_lim_init = \<lparr>sys_ticks = 0, trigged_ms = 0, status = 0\<rparr>"

definition triggers_init :: gps_triggers where
  "triggers_init = \<lparr>trig_lim_str = replicate MAX_TRIGGERS trig_lim_init,
     trigger_0_ms = 0, trigger_1_ms = 0, trigger_2_ms = 0, trigger_3_ms = 0\<rparr>"

definition update_limit :: "nat \<Rightarrow> u32 \<Rightarrow> u16 \<Rightarrow> bool \<Rightarrow> u32 \<Rightarrow> gps_triggers \<Rightarrow> gps_triggers" where
  "update_limit k speed limit clr now g =
     g\<lparr>trig_lim_str := (trig_lim_str g)[k := trig_one_limit (trig_lim_str g ! k) speed limit clr now]\<rparr>"

definition check_and_apply_trigers :: "u32 \<Rightarrow> bool \<Rightarrow> (nat \<Rightarrow> u32) \<Rightarrow> gps_triggers \<Rightarrow> gps_triggers" where
  "check_and_apply_trigers current_speed_mul_thousen clr ticks g =
     (let speed_km_h = current_speed_mul_thousen div 1000;
          g = update_limit 0 speed_km_h 40 clr (ticks 0) g;
          g = g\<lparr>trigger_0_ms := trigged_ms (trig_lim_str g ! 0)\<rparr>;
          g = update_limit 1 speed_km_h 60 clr (ticks 1) g;
          g = g\<lparr>trigger_1_ms := trigged_ms (trig_lim_str g ! 1)\<rparr>;
          g = update_limit 2 speed_km_h 80 clr (ticks 2) g;
          g = g\<lparr>trigger_2_ms := trigged_ms (trig_lim_str g ! 2)\<rparr>;
          g = update_limit 3 speed_km_h 100 clr (ticks 3) g;
          g = g\<lparr>trigger_3_ms := trigged_ms (trig_lim_str g ! 3)\<rparr>
      in g)"

section \<open>Histories\<close>

text \<open>One call of a limit: the speed in km/h, whether the position is invalid (\<open>__clear\<close>), and the
  tick counter.\<close>

record sample =
  s_speed :: u32
  s_clear :: bool
  s_tick :: u32

definition feed :: "u16 \<Rightarrow> sample \<Rightarrow> trig_lim \<Rightarrow> trig_lim" where
  "feed limit s st = trig_one_limit st (s_speed s) limit (s_clear s) (s_tick s)"

definition feed_all :: "u16 \<Rightarrow> sample list \<Rightarrow> trig_lim \<Rightarrow> trig_lim" where
  "feed_all limit h st = fold (feed limit) h st"

definition standing :: "sample \<Rightarrow> bool" where
  "standing s = (\<not> s_clear s \<and> s_speed s = 0)"

definition moving :: "sample \<Rightarrow> bool" where
  "moving s = (\<not> s_clear s \<and> s_speed s > 0)"

definition slow :: "u16 \<Rightarrow> sample \<Rightarrow> bool" where
  "slow limit s = (moving s \<and> s_speed s < ucast limit)"

definition fast :: "u16 \<Rightarrow> sample \<Rightarrow> bool" where
  "fast limit s = (moving s \<and> s_speed s \<ge> ucast limit)"

text \<open>A run from rest to the limit: standing, the first moving sample, slow samples, and the first
  sample at the limit after it.\<close>

definition is_run :: "u16 \<Rightarrow> sample list \<Rightarrow> u32 \<Rightarrow> bool" where
  "is_run limit h ms =
     (\<exists>rest start mids goal. h = rest # start # mids @ [goal] \<and> standing rest \<and> moving start \<and>
        list_all (slow limit) mids \<and> fast limit goal \<and> ms = s_tick goal - s_tick start)"

lemma feed_all_simps [simp]:
  "feed_all limit [] st = st"
  "feed_all limit (s # h) st = feed_all limit h (feed limit s st)"
  "feed_all limit (h @ h') st = feed_all limit h' (feed_all limit h st)"
  by (simp_all add: feed_all_def)

lemma feed_clear: "s_clear s \<Longrightarrow> feed limit s st = \<lparr>sys_ticks = 0, trigged_ms = 0, status = 0\<rparr>"
  by (cases st) (simp add: feed_def trig_one_limit_def)

lemma feed_standing:
  "standing s \<Longrightarrow> feed limit s st = st\<lparr>sys_ticks := 0, status := 1\<rparr>"
  by (simp add: feed_def trig_one_limit_def standing_def)

lemma feed_start:
  "moving s \<Longrightarrow> status st = 1 \<Longrightarrow>
     feed limit s st = st\<lparr>trigged_ms := 0, sys_ticks := s_tick s, status := 2\<rparr>"
  by (auto simp: feed_def trig_one_limit_def moving_def)

lemma feed_slow: "slow limit s \<Longrightarrow> status st = 2 \<Longrightarrow> feed limit s st = st"
  by (auto simp: feed_def trig_one_limit_def moving_def slow_def)

lemma feed_fast:
  "fast limit s \<Longrightarrow> status st = 2 \<Longrightarrow>
     feed limit s st = st\<lparr>trigged_ms := s_tick s - sys_ticks st, status := 0\<rparr>"
  by (auto simp: feed_def trig_one_limit_def moving_def fast_def portTICK_PERIOD_MS_def)

lemma feed_done: "moving s \<Longrightarrow> status st = 0 \<Longrightarrow> feed limit s st = st"
  by (auto simp: feed_def trig_one_limit_def moving_def)

lemmas feed_rules = feed_clear feed_standing feed_start feed_slow feed_fast feed_done

lemma sample_cases:
  fixes limit :: u16
  obtains (clr) "s_clear s" | (stand) "standing s" | (slow) "slow limit s" "moving s"
    | (fast) "fast limit s" "moving s"
  by (cases "s_clear s"; cases "s_speed s = 0"; cases "ucast limit \<le> s_speed s")
    (auto simp: standing_def slow_def fast_def moving_def word_gt_0 not_le)

lemma feed_all_standing:
  "list_all standing h \<Longrightarrow> h \<noteq> [] \<Longrightarrow> feed_all limit h st = st\<lparr>sys_ticks := 0, status := 1\<rparr>"
proof (induction h arbitrary: st)
  case (Cons s h)
  then show ?case by (cases "h = []") (simp_all add: feed_standing)
qed simp

lemma feed_all_slow:
  "list_all (slow limit) h \<Longrightarrow> status st = 2 \<Longrightarrow> feed_all limit h st = st"
  by (induction h arbitrary: st) (auto simp: feed_slow)

lemma feed_all_done:
  "list_all moving h \<Longrightarrow> status st = 0 \<Longrightarrow> feed_all limit h st = st"
  by (induction h arbitrary: st) (auto simp: feed_done)

section \<open>What the timers measure\<close>

text \<open>C7: a limit measures the time from rest to its speed. From any state, after a standstill, the
  timer starts with the first moving sample, and the first later sample at or above the limit
  fixes the result, the difference of the two tick counts (modulo two to the 32), which then stays
  while the car keeps moving.\<close>

theorem trigger_measures_run:
  assumes "stand \<noteq> []" and "list_all standing stand" and "moving start"
    and "list_all (slow limit) mids" and "fast limit goal" and "list_all moving rest"
  shows "feed_all limit (stand @ start # mids @ goal # rest) st =
    \<lparr>sys_ticks = s_tick start, trigged_ms = s_tick goal - s_tick start, status = 0\<rparr>"
  using assms
  by (cases st) (simp add: feed_all_standing feed_start feed_all_slow feed_fast feed_all_done)

theorem trigger_measures_run_witness:
  "trigged_ms (feed_all 100
     ([\<lparr>s_speed = 0, s_clear = False, s_tick = 4294967200\<rparr>] @
      \<lparr>s_speed = 5, s_clear = False, s_tick = 4294967290\<rparr> #
      [\<lparr>s_speed = 99, s_clear = False, s_tick = 4\<rparr>] @
      \<lparr>s_speed = 100, s_clear = False, s_tick = 94\<rparr> # [])
     \<lparr>sys_ticks = 7, trigged_ms = 7, status = 0\<rparr>) = 100"
proof -
  have s: "list_all standing [\<lparr>s_speed = 0, s_clear = False, s_tick = 4294967200\<rparr>]"
    "moving \<lparr>s_speed = 5, s_clear = False, s_tick = 4294967290\<rparr>"
    "list_all (slow 100) [\<lparr>s_speed = 99, s_clear = False, s_tick = 4\<rparr>]"
    "fast 100 \<lparr>s_speed = 100, s_clear = False, s_tick = 94\<rparr>" "list_all moving []"
    by code_simp+
  from trigger_measures_run [OF _ s] show ?thesis by simp
qed

text \<open>The invariant of a limit with the history that produced it.\<close>

definition trig_inv :: "u16 \<Rightarrow> sample list \<Rightarrow> trig_lim \<Rightarrow> bool" where
  "trig_inv limit h st =
     (status st \<in> {0, 1, 2} \<and>
      (status st = 1 \<longrightarrow> (\<exists>pre rest. h = pre @ [rest] \<and> standing rest)) \<and>
      (status st = 2 \<longrightarrow> trigged_ms st = 0 \<and>
        (\<exists>pre rest start mids. h = pre @ rest # start # mids \<and> standing rest \<and> moving start \<and>
           list_all (slow limit) mids \<and> sys_ticks st = s_tick start)) \<and>
      (trigged_ms st \<noteq> 0 \<longrightarrow>
        (\<exists>pre run post. h = pre @ run @ post \<and> is_run limit run (trigged_ms st) \<and>
           list_all (\<lambda>s. \<not> s_clear s) post)))"

lemma is_run_append:
  "standing rest \<Longrightarrow> moving start \<Longrightarrow> list_all (slow limit) mids \<Longrightarrow> fast limit goal \<Longrightarrow>
     is_run limit (rest # start # mids @ [goal]) (s_tick goal - s_tick start)"
  unfolding is_run_def by blast

lemma trig_inv_feed:
  assumes inv: "trig_inv limit h st"
  shows "trig_inv limit (h @ [s]) (feed limit s st)"
proof -
  have old: "\<exists>pre run post. h @ [s] = pre @ run @ post \<and> is_run limit run (trigged_ms st) \<and>
      list_all (\<lambda>s. \<not> s_clear s) post" if nz: "trigged_ms st \<noteq> 0" and nc: "\<not> s_clear s"
  proof -
    from inv nz obtain pre run post where "h = pre @ run @ post" "is_run limit run (trigged_ms st)"
      "list_all (\<lambda>s. \<not> s_clear s) post" unfolding trig_inv_def by blast
    with nc have "h @ [s] = pre @ run @ (post @ [s]) \<and> is_run limit run (trigged_ms st) \<and>
      list_all (\<lambda>s. \<not> s_clear s) (post @ [s])" by simp
    then show ?thesis by blast
  qed
  have st: "status st = 0 \<or> status st = 1 \<or> status st = 2" using inv by (auto simp: trig_inv_def)
  have finished: ?thesis if "moving s" "status st = 0"
    using that old by (auto simp: feed_done trig_inv_def moving_def)
  have start: ?thesis if m: "moving s" and st1: "status st = 1"
  proof -
    from inv st1 obtain pre rest where "h = pre @ [rest]" "standing rest"
      by (auto simp: trig_inv_def)
    then have "h @ [s] = pre @ rest # s # []" "standing rest" by simp_all
    with m show ?thesis
      unfolding trig_inv_def feed_start [OF m st1]
      by (intro conjI impI exI [of _ pre] exI [of _ rest] exI [of _ s] exI [of _ "[]"]) simp_all
  qed
  show ?thesis
  proof (rule sample_cases [where s = s and limit = limit])
    assume "s_clear s"
    then show ?thesis by (simp add: feed_clear trig_inv_def)
  next
    assume "standing s"
    then show ?thesis using old by (auto simp: feed_standing trig_inv_def standing_def)
  next
    assume s: "slow limit s" "moving s"
    have "?thesis" if st2: "status st = 2"
    proof -
      from inv st2 obtain pre rest start mids where t: "trigged_ms st = 0"
        and h: "h = pre @ rest # start # mids" "standing rest" "moving start"
          "list_all (slow limit) mids" "sys_ticks st = s_tick start"
        by (auto simp: trig_inv_def)
      then have "h @ [s] = pre @ rest # start # (mids @ [s])" "list_all (slow limit) (mids @ [s])"
        using s by simp_all
      with t st2 h(2,3,5) show ?thesis
        unfolding trig_inv_def feed_slow [OF s(1) st2]
        by (intro conjI impI exI [of _ pre] exI [of _ rest] exI [of _ start] exI [of _ "mids @ [s]"])
          simp_all
    qed
    with st finished start s show ?thesis by blast
  next
    assume s: "fast limit s" "moving s"
    have "?thesis" if st2: "status st = 2"
    proof -
      from inv st2 obtain pre rest start mids where
        h: "h = pre @ rest # start # mids" "standing rest" "moving start"
          "list_all (slow limit) mids" "sys_ticks st = s_tick start"
        by (auto simp: trig_inv_def)
      from is_run_append [OF h(2-4) s(1)] h(1,5)
      have "h @ [s] = pre @ (rest # start # mids @ [s]) @ []"
        "is_run limit (rest # start # mids @ [s]) (s_tick s - sys_ticks st)" by simp_all
      then show ?thesis unfolding trig_inv_def feed_fast [OF s(1) st2]
        by (intro conjI impI exI [of _ pre] exI [of _ "rest # start # mids @ [s]"] exI [of _ "[]"])
          simp_all
    qed
    with st finished start s show ?thesis by blast
  qed
qed

lemma trig_inv_feed_all:
  "trig_inv limit h st \<Longrightarrow> trig_inv limit (h @ h') (feed_all limit h' st)"
proof (induction h' arbitrary: h st)
  case (Cons s h')
  from Cons.IH [OF trig_inv_feed [OF Cons.prems, of s]] show ?case by simp
qed simp

text \<open>C8: a timer never reports a time that was not measured: whatever the samples, a non-zero
  result after them is the tick difference of a run from rest to the limit that the samples
  contain (standing, start, slow samples, the first sample at the limit), with no invalid position
  after it; and the state of the machine stays in 0, 1, 2.\<close>

theorem trigger_reports_runs_only:
  "status (feed_all limit h trig_lim_init) \<in> {0, 1, 2} \<and>
    (trigged_ms (feed_all limit h trig_lim_init) \<noteq> 0 \<longrightarrow>
      (\<exists>pre run post. h = pre @ run @ post \<and> is_run limit run (trigged_ms (feed_all limit h trig_lim_init)) \<and>
         list_all (\<lambda>s. \<not> s_clear s) post))"
proof -
  have "trig_inv limit [] trig_lim_init" by (simp add: trig_inv_def trig_lim_init_def)
  from trig_inv_feed_all [OF this, of h] show ?thesis unfolding trig_inv_def by simp
qed

theorem trigger_reports_runs_only_witness:
  "\<exists>pre run post. [\<lparr>s_speed = 0, s_clear = False, s_tick = 10\<rparr>, \<lparr>s_speed = 41, s_clear = False, s_tick = 20\<rparr>,
       \<lparr>s_speed = 41, s_clear = False, s_tick = 50\<rparr>] = pre @ run @ post \<and> is_run 40 run 30 \<and>
     list_all (\<lambda>s. \<not> s_clear s) post"
proof -
  let ?h = "[\<lparr>s_speed = 0, s_clear = False, s_tick = 10\<rparr>, \<lparr>s_speed = 41, s_clear = False, s_tick = 20\<rparr>,
       \<lparr>s_speed = 41, s_clear = False, s_tick = 50\<rparr>] :: sample list"
  have "trigged_ms (feed_all 40 ?h trig_lim_init) = 30" by code_simp
  with trigger_reports_runs_only [of 40 ?h] show ?thesis by simp
qed

section \<open>The four limits together\<close>

lemma check_and_apply_trigers_lims:
  assumes "length (trig_lim_str g) = MAX_TRIGGERS"
  shows "check_and_apply_trigers v clr ticks g =
    (let f = (\<lambda>k limit. trig_one_limit (trig_lim_str g ! k) (v div 1000) limit clr (ticks k)) in
     \<lparr>trig_lim_str = [f 0 40, f 1 60, f 2 80, f 3 100],
      trigger_0_ms = trigged_ms (f 0 40), trigger_1_ms = trigged_ms (f 1 60),
      trigger_2_ms = trigged_ms (f 2 80), trigger_3_ms = trigged_ms (f 3 100)\<rparr>)"
proof -
  obtain a b c d where "trig_lim_str g = [a, b, c, d]"
    using assms by (auto simp: MAX_TRIGGERS_def numeral_eq_Suc length_Suc_conv)
  then show ?thesis by (cases g) (simp add: check_and_apply_trigers_def update_limit_def Let_def)
qed

text \<open>A report as all four limits see it: speed in thousandths of km/h, \<open>__clear\<close>, tick counts.\<close>

type_synonym speed_report = "u32 \<times> bool \<times> (nat \<Rightarrow> u32)"

definition report_sample :: "nat \<Rightarrow> speed_report \<Rightarrow> sample" where
  "report_sample k r = (case r of (v, clr, ticks) \<Rightarrow>
     \<lparr>s_speed = v div 1000, s_clear = clr, s_tick = ticks k\<rparr>)"

definition apply_reports :: "speed_report list \<Rightarrow> gps_triggers \<Rightarrow> gps_triggers" where
  "apply_reports rs g = fold (\<lambda>(v, clr, ticks). check_and_apply_trigers v clr ticks) rs g"

definition limit_of :: "nat \<Rightarrow> u16" where
  "limit_of k = [40, 60, 80, 100] ! k"

definition triggers_agree :: "(nat \<Rightarrow> trig_lim) \<Rightarrow> gps_triggers \<Rightarrow> bool" where
  "triggers_agree f g =
     (trig_lim_str g = [f 0, f 1, f 2, f 3] \<and>
      trigger_0_ms g = trigged_ms (f 0) \<and> trigger_1_ms g = trigged_ms (f 1) \<and>
      trigger_2_ms g = trigged_ms (f 2) \<and> trigger_3_ms g = trigged_ms (f 3))"

lemma triggers_agree_step:
  assumes "triggers_agree f g"
  shows "triggers_agree (\<lambda>k. feed (limit_of k) (report_sample k (v, clr, ticks)) (f k))
    (check_and_apply_trigers v clr ticks g)"
proof -
  have "length (trig_lim_str g) = MAX_TRIGGERS"
    using assms by (simp add: triggers_agree_def MAX_TRIGGERS_def)
  from check_and_apply_trigers_lims [OF this] assms show ?thesis
    by (simp add: triggers_agree_def feed_def report_sample_def limit_of_def Let_def numeral_eq_Suc)
qed

lemma triggers_agree_reports:
  "triggers_agree f g \<Longrightarrow>
     triggers_agree (\<lambda>k. feed_all (limit_of k) (map (report_sample k) rs) (f k)) (apply_reports rs g)"
proof (induction rs arbitrary: f g)
  case (Cons r rs)
  obtain v clr ticks where "r = (v, clr, ticks)" by (cases r)
  with Cons.IH [OF triggers_agree_step [OF Cons.prems, of v clr ticks]] show ?case
    by (simp add: apply_reports_def)
qed (simp add: apply_reports_def)

lemma triggers_agree_init: "triggers_agree (\<lambda>_. trig_lim_init) triggers_init"
  by (simp add: triggers_agree_def triggers_init_def trig_lim_init_def MAX_TRIGGERS_def numeral_eq_Suc)

lemma apply_reports_snoc:
  "apply_reports (rs @ [(v, clr, ticks)]) g = check_and_apply_trigers v clr ticks (apply_reports rs g)"
  by (simp add: apply_reports_def)

lemma apply_reports_clear: "apply_reports (rs @ [(v, True, ticks)]) triggers_init = triggers_init"
  using triggers_agree_reports [OF triggers_agree_init, of "rs @ [(v, True, ticks)]"]
  by (simp add: triggers_agree_def report_sample_def feed_clear triggers_init_def trig_lim_init_def
      MAX_TRIGGERS_def numeral_eq_Suc)

text \<open>The four limits are four independent timers for 40, 60, 80 and 100 km/h: after any
  sequence of reports each result variable holds what its own timer, fed with the speed in whole
  km/h, gives; and the invalid reports reset all four.\<close>

theorem triggers_independent:
  "trigger_0_ms (apply_reports rs triggers_init) =
     trigged_ms (feed_all 40 (map (report_sample 0) rs) trig_lim_init) \<and>
   trigger_1_ms (apply_reports rs triggers_init) =
     trigged_ms (feed_all 60 (map (report_sample 1) rs) trig_lim_init) \<and>
   trigger_2_ms (apply_reports rs triggers_init) =
     trigged_ms (feed_all 80 (map (report_sample 2) rs) trig_lim_init) \<and>
   trigger_3_ms (apply_reports rs triggers_init) =
     trigged_ms (feed_all 100 (map (report_sample 3) rs) trig_lim_init) \<and>
   apply_reports (rs @ [(v, True, ticks)]) triggers_init = triggers_init"
  using triggers_agree_reports [OF triggers_agree_init, of rs] apply_reports_clear
  by (simp add: triggers_agree_def limit_of_def numeral_eq_Suc)

end
