(* ===== verification/Gps_Task.thy ===== *)
theory Gps_Task
  imports Minmea_Parse Gps_Trigger
begin

text \<open>
  src/hw/hw_gps.c, the task: one UART event after the other, the line buffer of \<open>readLine\<close>, the
  published speed and validity, and the timers. The UART driver and the queue are outside: what
  \<open>uart_read_bytes\<close> delivers for a request is a parameter, with the law that a request for \<open>n\<close>
  bytes and no timeout delivers \<open>n\<close> bytes; so are the tick counter and the contents of
  uninitialised local variables.
\<close>

section \<open>The line buffer\<close>

definition LINE_SIZE :: nat where
  "LINE_SIZE = 256"

text \<open>The search of \<open>readLine\<close> for the line end from index \<open>i\<close>, with the write of the terminating
  NUL behind it; behind the last byte of the buffer that write is undefined. The result is the
  buffer and the returned string: the buffer up to its first NUL, or the empty string.\<close>

function find_line :: "string \<Rightarrow> nat \<Rightarrow> (string \<times> string) option" where
  "find_line line i =
     (if i < LINE_SIZE then
        (if line ! i = LF then
           (if i + 1 < LINE_SIZE then
              (let line = line[i + 1 := NUL] in Some (line, c_str line))
            else None)
         else find_line line (i + 1))
      else Some (line, []))"
  by auto
termination by (relation "measure (\<lambda>(line, i). LINE_SIZE - i)") auto

definition read_line :: "(nat \<Rightarrow> string) \<Rightarrow> string \<Rightarrow> nat \<Rightarrow> (string \<times> string) option" where
  "read_line uart_read line g_size =
     (let bytes = uart_read (g_size mod 256) in
      find_line (bytes @ drop (length bytes) line) 0)"

section \<open>The task\<close>

datatype uart_event = UART_DATA nat | UART_OTHER

record gps_task =
  line_buf :: string
  ext_speed :: u32
  gps_valid :: bool
  gps_trig :: gps_triggers

definition gps_task_init :: gps_task where
  "gps_task_init = \<lparr>line_buf = replicate LINE_SIZE NUL, ext_speed = 0, gps_valid = False,
     gps_trig = triggers_init\<rparr>"

text \<open>What one pass of the loop takes from outside.\<close>

record gps_env =
  e_read :: "nat \<Rightarrow> string"
  e_locals :: "minmea_sentence_rmc parse_store"
  e_ticks :: "nat \<Rightarrow> u32"

definition apply_rmc :: "(nat \<Rightarrow> u32) \<Rightarrow> minmea_sentence_rmc \<Rightarrow> gps_task \<Rightarrow> gps_task option" where
  "apply_rmc ticks fr g =
     (let g = g\<lparr>gps_valid := rmc_valid fr\<rparr> in
      case (if rmc_valid fr then map_option (\<lambda>v. (word_of_int v * 1852) div 1000) (minmea_rescale (rmc_speed fr) 1000)
            else Some 0) of
        None \<Rightarrow> None
      | Some v \<Rightarrow>
          Some (g\<lparr>ext_speed := v,
                  gps_trig := check_and_apply_trigers v (\<not> gps_valid g) ticks (gps_trig g)\<rparr>))"

definition gps_on_line :: "gps_env \<Rightarrow> string \<Rightarrow> gps_task \<Rightarrow> gps_task option" where
  "gps_on_line env line g =
     (case minmea_sentence_id (l_type (e_locals env)) line False of
        None \<Rightarrow> None
      | Some MINMEA_SENTENCE_RMC \<Rightarrow>
          (case minmea_parse_rmc (e_locals env) line of
             None \<Rightarrow> None
           | Some (ok, fr) \<Rightarrow> if ok then apply_rmc (e_ticks env) fr g else Some g)
      | Some _ \<Rightarrow> Some g)"

definition gps_on_event :: "gps_env \<Rightarrow> uart_event \<Rightarrow> gps_task \<Rightarrow> gps_task option" where
  "gps_on_event env ev g =
     (case ev of
        UART_DATA n \<Rightarrow>
          if n \<noteq> 0 then
            (case read_line (e_read env) (line_buf g) n of
               None \<Rightarrow> None
             | Some (buf, line) \<Rightarrow> gps_on_line env line (g\<lparr>line_buf := buf\<rparr>))
          else Some g
      | UART_OTHER \<Rightarrow> Some g)"

text \<open>The driver's contract, and the states the task can be in.\<close>

definition driver_ok :: "(nat \<Rightarrow> string) \<Rightarrow> bool" where
  "driver_ok uart_read = (\<forall>n. length (uart_read n) = n)"

inductive gps_step :: "gps_task \<Rightarrow> gps_task \<Rightarrow> bool" where
  event: "driver_ok (e_read env) \<Longrightarrow> gps_on_event env ev g = Some g' \<Longrightarrow> gps_step g g'"

inductive gps_reach :: "gps_task \<Rightarrow> bool" where
  init: "gps_reach gps_task_init"
| step: "gps_reach g \<Longrightarrow> gps_step g g' \<Longrightarrow> gps_reach g'"

inductive_cases gps_stepE: "gps_step g g'"

section \<open>Reading a line\<close>

declare find_line.simps [simp del]

lemma find_line_at:
  assumes "j < LINE_SIZE" and "i \<le> j" and "\<forall>k. i \<le> k \<and> k < j \<longrightarrow> line ! k \<noteq> LF" and "line ! j = LF"
  shows "find_line line i =
    (if j + 1 < LINE_SIZE then Some (line[j + 1 := NUL], c_str (line[j + 1 := NUL])) else None)"
  using assms
proof (induction "j - i" arbitrary: i)
  case 0
  then show ?case by (simp add: find_line.simps [of line i] Let_def)
next
  case (Suc n)
  then have "line ! i \<noteq> LF" by simp
  with Suc show ?case by (simp add: find_line.simps [of line i])
qed

lemma find_line_none:
  assumes "\<forall>k. i \<le> k \<and> k < LINE_SIZE \<longrightarrow> line ! k \<noteq> LF"
  shows "find_line line i = Some (line, [])"
  using assms
proof (induction "LINE_SIZE - i" arbitrary: i)
  case 0
  then show ?case by (simp add: find_line.simps [of line i])
next
  case (Suc n)
  then show ?case by (simp add: find_line.simps [of line i])
qed

lemma c_str_update_NUL:
  "k < length s \<Longrightarrow> c_str (s[k := NUL]) = c_str (take k s)"
  by (induction s arbitrary: k) (auto split: nat.splits)

lemma find_line_split:
  assumes "length pre + 2 \<le> LINE_SIZE" and "LF \<notin> set pre" and "length post + length pre + 1 = LINE_SIZE"
  shows "find_line (pre @ LF # post) 0 = Some (pre @ LF # NUL # tl post, c_str (pre @ [LF]))"
proof -
  have "post \<noteq> []" using assms by auto
  then have up: "(pre @ LF # post)[length pre + 1 := NUL] = pre @ LF # NUL # tl post"
    by (cases post) (auto simp: list_update_append)
  have tk: "take (length pre + 1) (pre @ LF # post) = pre @ [LF]" by simp
  have "find_line (pre @ LF # post) 0 =
      Some ((pre @ LF # post)[length pre + 1 := NUL], c_str ((pre @ LF # post)[length pre + 1 := NUL]))"
    using assms find_line_at [of "length pre" 0 "pre @ LF # post"]
    by (simp add: nth_append) (metis nth_mem)
  moreover have "c_str ((pre @ LF # post)[length pre + 1 := NUL]) = c_str (pre @ [LF])"
    using c_str_update_NUL [of "length pre + 1" "pre @ LF # post"] \<open>post \<noteq> []\<close> tk by simp
  ultimately show ?thesis using up by simp
qed

text \<open>C18: \<open>readLine\<close>, on every path. With the received bytes over the old buffer, the line is
  everything up to the first line feed; a line feed in the last byte of the buffer makes the code
  write the terminator one byte behind the buffer; without a line feed the result is empty and
  the buffer keeps the bytes.\<close>

theorem read_line_cases:
  assumes "length line = LINE_SIZE" and "driver_ok uart_read"
    and "b = uart_read (n mod 256) @ drop (n mod 256) line"
  shows "(LF \<notin> set b \<longrightarrow> read_line uart_read line n = Some (b, [])) \<and>
    (\<forall>pre post. b = pre @ LF # post \<and> LF \<notin> set pre \<longrightarrow>
       (if post = [] then read_line uart_read line n = None
        else read_line uart_read line n = Some (pre @ LF # NUL # tl post, c_str (pre @ [LF]))))"
proof (intro conjI allI impI)
  have len: "length (uart_read (n mod 256)) = n mod 256" using assms(2) by (simp add: driver_ok_def)
  have b: "read_line uart_read line n = find_line b 0"
    by (simp add: read_line_def len assms(3) Let_def)
  have lb: "length b = LINE_SIZE" using assms(1,3) len by (simp add: LINE_SIZE_def)
  show "read_line uart_read line n = Some (b, [])" if "LF \<notin> set b"
    unfolding b using that lb by (intro find_line_none) (metis nth_mem)
  show "if post = [] then read_line uart_read line n = None
        else read_line uart_read line n = Some (pre @ LF # NUL # tl post, c_str (pre @ [LF]))"
    if split: "b = pre @ LF # post \<and> LF \<notin> set pre" for pre post
  proof (cases "post = []")
    case True
    then have "length pre + 1 = LINE_SIZE" using lb split by simp
    then have "find_line b 0 = None"
      using split True find_line_at [of "length pre" 0 b] by (simp add: nth_append) (metis nth_mem)
    with True b show ?thesis by simp
  next
    case False
    then have "0 < length post" by simp
    moreover from lb split have n: "length post + length pre + 1 = LINE_SIZE" by simp
    ultimately have "length pre + 2 \<le> LINE_SIZE" by linarith
    note this n
    with False b split find_line_split [of pre post] show ?thesis by simp
  qed
qed

theorem read_line_cases_witness:
  "read_line (\<lambda>n. replicate n (CHR ''x'')) (replicate 255 (CHR ''a'') @ [LF]) 256 = None"
proof -
  let ?rd = "\<lambda>n. replicate n (CHR ''x'')"
  have l: "length (replicate 255 (CHR ''a'') @ [LF]) = LINE_SIZE" by (simp add: LINE_SIZE_def)
  have d: "driver_ok ?rd" by (simp add: driver_ok_def)
  have "replicate 255 (CHR ''a'') @ [LF] =
      ?rd (256 mod 256) @ drop (256 mod 256) (replicate 255 (CHR ''a'') @ [LF])" by simp
  from read_line_cases [OF l d this]
  show ?thesis by (elim conjE allE [of _ "replicate 255 (CHR ''a'')"] allE [of _ "[]"]) simp
qed

lemma read_line_first:
  assumes "length line = LINE_SIZE" and "driver_ok uart_read" and "n < 256"
    and "uart_read n = l @ LF # after" and "LF \<notin> set l" and "NUL \<notin> set l"
  shows "\<exists>buf. length buf = LINE_SIZE \<and> read_line uart_read line n = Some (buf, l @ [LF])"
proof -
  have n: "n = length l + length after + 1"
    using assms(2,4) unfolding driver_ok_def by (metis length_append length_Cons add.assoc add_Suc_right Suc_eq_plus1)
  let ?post = "after @ drop n line"
  have len: "length ?post + length l + 1 = LINE_SIZE"
    using n assms(1,3) by (simp add: LINE_SIZE_def)
  have pre: "length l + 2 \<le> LINE_SIZE" using n assms(3) by (simp add: LINE_SIZE_def)
  have "length (uart_read n) = n" using assms(2) by (simp add: driver_ok_def)
  then have "read_line uart_read line n = find_line (l @ LF # ?post) 0"
    using assms(3,4) by (simp add: read_line_def Let_def)
  also have "\<dots> = Some (l @ LF # NUL # tl ?post, c_str (l @ [LF]))"
    using pre assms(5) len by (rule find_line_split)
  finally have r: "read_line uart_read line n = Some (l @ LF # NUL # tl ?post, c_str (l @ [LF]))" .
  have "c_str (l @ [LF]) = l @ [LF]" using assms(6) by (intro c_str_id) simp
  moreover have "length (l @ LF # NUL # tl ?post) = LINE_SIZE"
    using len pre by (simp del: append_is_Nil_conv)
  ultimately show ?thesis using r by simp
qed

text \<open>A chunk that ends in the middle of a sentence is not kept for the next one: it is completed
  with what the buffer still holds from earlier sentences, up to the next line feed there, and the
  mixture is handed to the parser as one line.\<close>

theorem read_line_mixes_stale:
  assumes "length line = LINE_SIZE" and "driver_ok uart_read" and "n < 256"
    and "LF \<notin> set (uart_read n)" and "drop n line = old @ LF # rest" and "LF \<notin> set old"
    and "rest \<noteq> []"
  shows "read_line uart_read line n =
    Some (uart_read n @ old @ LF # NUL # tl rest, c_str (uart_read n @ old @ [LF]))"
proof -
  have len: "length (uart_read n) = n" using assms(2) by (simp add: driver_ok_def)
  have l: "length rest + length (uart_read n @ old) + 1 = LINE_SIZE"
    using arg_cong [OF assms(5), of length] assms(1,3) len by (simp add: LINE_SIZE_def)
  have "0 < length rest" using assms(7) by simp
  with l have p: "length (uart_read n @ old) + 2 \<le> LINE_SIZE" by linarith
  have "LF \<notin> set (uart_read n @ old)" using assms(4,6) by simp
  from find_line_split [OF p this l] show ?thesis
    using assms(3,5) len by (simp add: read_line_def Let_def)
qed

theorem read_line_mixes_stale_witness:
  "\<exists>buf. read_line (\<lambda>n. take n (''$GPGSV,2,1,0'' @ replicate n (CHR ''x'')))
     (''$GPRMC,081836,A,3751.65,S*12'' @ [LF] @ replicate 227 NUL) 12 =
     Some (buf, ''$GPGSV,2,1,06,A,3751.65,S*12'' @ [LF])"
proof -
  let ?rd = "\<lambda>n. take n (''$GPGSV,2,1,0'' @ replicate n (CHR ''x''))"
  let ?line = "''$GPRMC,081836,A,3751.65,S*12'' @ [LF] @ replicate 227 NUL"
  have l: "length ?line = LINE_SIZE" by (simp add: LINE_SIZE_def)
  have d: "driver_ok ?rd" by (simp add: driver_ok_def)
  have c: "LF \<notin> set (?rd 12)" by simp
  have o: "drop 12 ?line = ''6,A,3751.65,S*12'' @ LF # replicate 227 NUL" by simp
  have n: "LF \<notin> set ''6,A,3751.65,S*12''" "replicate 227 NUL \<noteq> []" "(12::nat) < 256" by simp_all
  from read_line_mixes_stale [OF l d n(3) c o n(1,2)] show ?thesis by simp
qed

section \<open>From a report to the published speed\<close>

lemma rescale_speed:
  assumes "number_ok n" and "length (snd n) \<le> 3"
    and "digits_val (fst n @ snd n) * 10 ^ (3 - length (snd n)) \<le> int32_max"
  shows "minmea_rescale (number_of n) 1000 =
    Some (digits_val (fst n @ snd n) * 10 ^ (3 - length (snd n)))"
proof -
  let ?v = "digits_val (fst n @ snd n)"
  have v: "0 \<le> ?v" using assms(1) digits_val_nonneg [of "fst n @ snd n"] by (simp add: number_ok_def)
  consider "length (snd n) = 0" | "length (snd n) = 1" | "length (snd n) = 2" | "length (snd n) = 3"
    using assms(2) by linarith
  then show ?thesis
    using v assms(3)
    by cases (simp_all add: number_of_def minmea_rescale_def quot32_pos chk32_def int32_range_simps(1)
        int32_max_def del: digits_from_simps)
qed

lemma hex2int_LF: "hex2int LF = - 1"
  by code_simp

lemma hex_digit_not_LF:
  assumes "n < 16"
  shows "hex_digit n \<noteq> LF"
proof
  assume "hex_digit n = LF"
  with hex2int_hex_digit [OF assms] have "hex2int LF = int n" by simp
  then show False unfolding hex2int_LF by simp
qed

lemma not_body_LF: "\<not> body_char LF" "\<not> body_char NUL"
  by code_simp+

lemma body_char_not_LF: "list_all body_char s \<Longrightarrow> LF \<notin> set s \<and> NUL \<notin> set s"
  using not_body_LF unfolding list_all_iff by blast

lemma report_line:
  assumes "report_ok r"
  shows "nmea_frame (report_body r) = butlast (nmea_frame (report_body r)) @ [LF]"
    and "LF \<notin> set (butlast (nmea_frame (report_body r)))"
    and "NUL \<notin> set (butlast (nmea_frame (report_body r)))"
proof -
  let ?b = "report_body r"
  have nib: "unat (xor_sum ?b) div 16 < 16" "unat (xor_sum ?b) mod 16 < 16"
    using xor_sum_unat [of ?b] by simp_all
  have e: "butlast (nmea_frame ?b) = CHR ''$'' # ?b @ [CHR ''*'',
      hex_digit (unat (xor_sum ?b) div 16), hex_digit (unat (xor_sum ?b) mod 16), CR]"
    by (simp add: nmea_frame_def butlast_append)
  show "nmea_frame ?b = butlast (nmea_frame ?b) @ [LF]" unfolding e by (simp add: nmea_frame_def)
  note nib [THEN hex_digit_not_LF] nib [THEN hex_digit_NUL]
    body_char_not_LF [OF report_body_chars [OF assms]]
  then show "LF \<notin> set (butlast (nmea_frame ?b))" "NUL \<notin> set (butlast (nmea_frame ?b))"
    unfolding e by simp_all
qed

lemma gps_on_report:
  assumes "report_ok r" and "length (report_body r) \<le> 77"
    and "length (line_buf g) = LINE_SIZE" and "driver_ok (e_read env)"
    and "0 < n" and "n < 256" and "e_read env n = nmea_frame (report_body r) @ after"
  shows "\<exists>buf. length buf = LINE_SIZE \<and> gps_on_event env (UART_DATA n) g =
    apply_rmc (e_ticks env) (report_frame r) (g\<lparr>line_buf := buf\<rparr>)"
proof -
  let ?f = "nmea_frame (report_body r)"
  have "e_read env n = butlast ?f @ LF # after"
    using assms(7) report_line(1) [OF assms(1)] by simp
  from read_line_first [OF assms(3,4,6) this report_line(2,3) [OF assms(1)]]
  obtain buf where buf: "length buf = LINE_SIZE" "read_line (e_read env) (line_buf g) n = Some (buf, ?f)"
    using report_line(1) [OF assms(1)] by auto
  then show ?thesis
    using assms(5) report_sentence [OF assms(1,2)]
    by (intro exI [of _ buf]) (simp add: gps_on_event_def gps_on_line_def)
qed

lemma word_scale:
  assumes "0 \<le> k" and "k * 1852 < 2 ^ 32"
  shows "uint ((word_of_int k * 1852 :: u32) div 1000) = k * 1852 div 1000"
proof -
  have "take_bit 32 k = k" using assms by (intro take_bit_int_eq_self) simp_all
  then have k: "uint (word_of_int k :: u32) = k" using assms by (simp add: unsigned_of_int)
  have "uint (word_of_int k * 1852 :: u32) = (k * 1852) mod 2 ^ 32"
    unfolding uint_word_ariths k by simp
  then have "uint (word_of_int k * 1852 :: u32) = k * 1852" using assms by simp
  then show ?thesis by (simp add: uint_div)
qed

lemma decimal_scale:
  assumes "d \<le> 3"
  shows "(v * 10 ^ (3 - d) * 1852) div 1000 = v * 1852 div (10 ^ d :: int)"
proof -
  have "v * 10 ^ (3 - d) * 1852 div 1000 = (10 ^ (3 - d) * (v * 1852)) div (10 ^ (3 - d) * 10 ^ d)"
    using assms by (simp add: power_add [symmetric] ac_simps)
  then show ?thesis by simp
qed

text \<open>C4: the published speed. When a chunk below 256 bytes starts with the RMC sentence of a valid
  report whose speed is given in knots with at most three decimals and is small enough for 32
  bits, the task publishes that speed in thousandths of km/h, rounded down, marks the position
  valid and feeds the timers with it; the report of an invalid position publishes zero, marks it
  invalid and resets the timers.\<close>

theorem gps_publishes_speed:
  assumes "report_ok r" and "length (report_body r) \<le> 77"
    and "length (line_buf g) = LINE_SIZE" and "driver_ok (e_read env)"
    and "0 < n" and "n < 256" and "e_read env n = nmea_frame (report_body r) @ after"
    and "length (snd (r_speed r)) \<le> 3"
    and "digits_val (fst (r_speed r) @ snd (r_speed r)) * 10 ^ (3 - length (snd (r_speed r))) * 1852 < 2 ^ 32"
  shows "\<exists>g'. gps_on_event env (UART_DATA n) g = Some g' \<and>
    gps_valid g' = (r_validity r = CHR ''A'') \<and>
    uint (ext_speed g') =
      (if r_validity r = CHR ''A''
       then digits_val (fst (r_speed r) @ snd (r_speed r)) * 1852 div 10 ^ length (snd (r_speed r))
       else 0) \<and>
    gps_trig g' = check_and_apply_trigers (ext_speed g') (r_validity r \<noteq> CHR ''A'') (e_ticks env) (gps_trig g)"
proof -
  let ?v = "digits_val (fst (r_speed r) @ snd (r_speed r))" and ?d = "length (snd (r_speed r))"
  let ?k = "?v * 10 ^ (3 - ?d)"
  have ok: "number_ok (r_speed r)" using assms(1) by (simp add: report_ok_def)
  have v: "0 \<le> ?v" using ok digits_val_nonneg [of "fst (r_speed r) @ snd (r_speed r)"]
    by (simp add: number_ok_def)
  have k: "0 \<le> ?k" "?k * 1852 < 2 ^ 32" using v assms(9) by simp_all
  then have "?k \<le> int32_max" by (simp add: int32_max_def)
  with ok assms(8) have resc: "minmea_rescale (number_of (r_speed r)) 1000 = Some ?k"
    by (rule rescale_speed)
  have "uint ((word_of_int ?k * 1852 :: u32) div 1000) = ?k * 1852 div 1000"
    using k by (rule word_scale)
  also have "\<dots> = ?v * 1852 div 10 ^ ?d"
    using assms(8) by (rule decimal_scale)
  finally have speed: "uint ((word_of_int ?k * 1852 :: u32) div 1000) = ?v * 1852 div 10 ^ ?d" .
  obtain buf where "gps_on_event env (UART_DATA n) g =
      apply_rmc (e_ticks env) (report_frame r) (g\<lparr>line_buf := buf\<rparr>)"
    using gps_on_report [OF assms(1-7)] by blast
  then show ?thesis
    using resc speed by (simp add: apply_rmc_def report_frame_def Let_def)
qed

definition speed_report :: rmc_report where
  "speed_report = sample_report\<lparr>r_speed := (''054'', ''7'')\<rparr>"

theorem gps_publishes_speed_witness:
  "\<forall>st ticks. \<exists>g'. gps_on_event \<lparr>e_read = \<lambda>n. take n (nmea_frame (report_body speed_report) @ replicate n NUL),
        e_locals = st, e_ticks = ticks\<rparr> (UART_DATA 71) gps_task_init = Some g' \<and>
     gps_valid g' \<and> uint (ext_speed g') = 101304"
proof (intro allI)
  fix st and ticks :: "nat \<Rightarrow> u32"
  let ?env = "\<lparr>e_read = \<lambda>n. take n (nmea_frame (report_body speed_report) @ replicate n NUL),
        e_locals = st, e_ticks = ticks\<rparr>"
  have r: "report_ok speed_report" "length (report_body speed_report) \<le> 77" by code_simp+
  have l: "length (line_buf gps_task_init) = LINE_SIZE" by (simp add: gps_task_init_def)
  have d: "driver_ok (e_read ?env)" by (auto simp: driver_ok_def min_def)
  have n: "(0::nat) < 71" "(71::nat) < 256" by simp_all
  have "take 71 (nmea_frame (report_body speed_report)) = nmea_frame (report_body speed_report)"
    "length (nmea_frame (report_body speed_report)) = 71" by code_simp+
  then have e: "e_read ?env 71 = nmea_frame (report_body speed_report) @ []" by simp
  have s: "length (snd (r_speed speed_report)) \<le> 3"
    "digits_val (fst (r_speed speed_report) @ snd (r_speed speed_report)) *
       10 ^ (3 - length (snd (r_speed speed_report))) * 1852 < 2 ^ 32" by code_simp+
  have v: "r_validity speed_report = CHR ''A''"
    "digits_val (fst (r_speed speed_report) @ snd (r_speed speed_report)) * 1852 div
       10 ^ length (snd (r_speed speed_report)) = 101304" by code_simp+
  from gps_publishes_speed [OF r l d n e s] v show "\<exists>g'. gps_on_event ?env (UART_DATA 71) gps_task_init = Some g' \<and>
     gps_valid g' \<and> uint (ext_speed g') = 101304" by auto
qed

section \<open>Reachable states\<close>

lemma find_line_length: "find_line line i = Some (buf, l) \<Longrightarrow> length buf = length line"
proof (induction line i rule: find_line.induct)
  case (1 line i)
  then show ?case
    by (simp add: find_line.simps [of line i] Let_def split: if_splits) force
qed

lemma apply_rmc_cases:
  assumes "apply_rmc ticks fr g = Some g'"
  shows "line_buf g' = line_buf g"
    and "gps_trig g' = check_and_apply_trigers (ext_speed g') (\<not> gps_valid g') ticks (gps_trig g)"
    and "\<not> gps_valid g' \<Longrightarrow> ext_speed g' = 0"
  using assms by (auto simp: apply_rmc_def Let_def split: option.splits if_splits)

lemma gps_on_line_cases:
  assumes "gps_on_line env line g = Some g'"
  shows "g' = g \<or> (\<exists>fr. apply_rmc (e_ticks env) fr g = Some g')"
proof (cases "minmea_sentence_id (l_type (e_locals env)) line False")
  case None
  with assms show ?thesis by (simp add: gps_on_line_def)
next
  case (Some ident)
  show ?thesis
  proof (cases "ident = MINMEA_SENTENCE_RMC")
    case True
    with Some assms show ?thesis
      by (auto simp: gps_on_line_def split: option.splits if_splits)
  next
    case False
    with Some assms show ?thesis by (cases ident) (simp_all add: gps_on_line_def)
  qed
qed

definition gps_inv :: "gps_task \<Rightarrow> bool" where
  "gps_inv g =
     (length (line_buf g) = LINE_SIZE \<and>
      (\<exists>rs. gps_trig g = apply_reports rs triggers_init) \<and>
      (\<not> gps_valid g \<longrightarrow> ext_speed g = 0 \<and> gps_trig g = triggers_init))"

lemma gps_inv_rmc:
  assumes "gps_inv g" and "apply_rmc ticks fr g = Some g'"
  shows "gps_inv g'"
proof -
  from assms(1) obtain rs where rs: "gps_trig g = apply_reports rs triggers_init"
    by (auto simp: gps_inv_def)
  then have t: "gps_trig g' = apply_reports (rs @ [(ext_speed g', \<not> gps_valid g', ticks)]) triggers_init"
    using apply_rmc_cases(2) [OF assms(2)] by (simp add: apply_reports_snoc)
  moreover have "gps_trig g' = triggers_init" if "\<not> gps_valid g'"
    using t that by (simp add: apply_reports_clear)
  ultimately show ?thesis
    using assms apply_rmc_cases(1,3) [OF assms(2)] unfolding gps_inv_def by auto
qed

lemma gps_inv_event:
  assumes "gps_inv g" and "driver_ok (e_read env)" and "gps_on_event env ev g = Some g'"
  shows "gps_inv g'"
proof (cases "\<exists>n. ev = UART_DATA n \<and> n \<noteq> 0")
  case False
  with assms show ?thesis by (auto simp: gps_on_event_def split: uart_event.splits if_splits)
next
  case True
  then obtain n where n: "ev = UART_DATA n" "n \<noteq> 0" by blast
  with assms(3) obtain buf line where rd: "read_line (e_read env) (line_buf g) n = Some (buf, line)"
    and on: "gps_on_line env line (g\<lparr>line_buf := buf\<rparr>) = Some g'"
    by (auto simp: gps_on_event_def split: option.splits)
  have "length (e_read env (n mod 256)) = n mod 256" using assms(2) by (simp add: driver_ok_def)
  then have "length buf = LINE_SIZE"
    using rd assms(1) find_line_length
    by (force simp: read_line_def Let_def gps_inv_def LINE_SIZE_def)
  then have "gps_inv (g\<lparr>line_buf := buf\<rparr>)" using assms(1) by (simp add: gps_inv_def)
  with gps_on_line_cases [OF on] gps_inv_rmc show ?thesis by blast
qed

lemma gps_reach_inv:
  assumes "gps_reach g"
  shows "gps_inv g"
  using assms
proof induction
  case init
  have "triggers_init = apply_reports [] triggers_init" by (simp add: apply_reports_def)
  then show ?case unfolding gps_inv_def gps_task_init_def by fastforce
next
  case (step g g')
  from step.hyps(2) show ?case by (rule gps_stepE) (use step.IH gps_inv_event in blast)
qed

text \<open>C3: in every state the task can reach, whatever bytes and events arrive, the line buffer has its
  256 bytes, the timers are the result of the reports so far (so the theorems on timers apply), and
  while the position is invalid the published speed is zero and all timers are reset.\<close>

theorem gps_reachable_inv:
  assumes "gps_reach g"
  shows "length (line_buf g) = LINE_SIZE \<and>
    (\<exists>rs. gps_trig g = apply_reports rs triggers_init) \<and>
    (\<not> gps_valid g \<longrightarrow> ext_speed g = 0 \<and> gps_trig g = triggers_init)"
  using gps_reach_inv [OF assms] by (simp add: gps_inv_def)

theorem gps_reachable_inv_witness:
  "gps_reach gps_task_init \<and> ext_speed gps_task_init = 0 \<and> gps_trig gps_task_init = triggers_init"
proof -
  have r: "gps_reach gps_task_init" by (rule gps_reach.init)
  have "\<not> gps_valid gps_task_init" by (simp add: gps_task_init_def)
  with gps_reachable_inv [OF r] r show ?thesis by blast
qed

end
