(* ===== verification/Gps_Board.thy ===== *)
theory Gps_Board
  imports Gps_Task
begin

text \<open>
  src/main.cpp, src/hw/hw_board.c and src/hw/hw_uart.c, and the parts of hw_gps.c and hw_display.c that
  create the tasks and set up the UART: what the firmware asks of the SDK from reset to the loop of the
  GPS task. The calls are a log of events; their results are ignored by the code. The loop itself runs
  over the results of \<open>xQueueReceive\<close>.
\<close>

section \<open>Calls of the SDK\<close>

abbreviation (input) "UART_NUM_1 \<equiv> (1 :: u8)"
abbreviation (input) "UART_PIN_NO_CHANGE \<equiv> (- 1 :: int)"
abbreviation (input) "UART_DATA_8_BITS \<equiv> (3 :: u8)"
abbreviation (input) "UART_PARITY_DISABLE \<equiv> (0 :: u8)"
abbreviation (input) "UART_STOP_BITS_1 \<equiv> (1 :: u8)"
abbreviation (input) "UART_HW_FLOWCTRL_DISABLE \<equiv> (0 :: u8)"

record uart_config_t =
  baud_rate :: int
  data_bits :: u8
  parity :: u8
  stop_bits :: u8
  flow_ctrl :: u8
  rx_flow_ctrl_thresh :: u8
  use_ref_tick :: bool

record gpio_config_t =
  pin_bit_mask :: "64 word"
  gpio_mode :: u8
  pull_up_en :: bool
  pull_down_en :: bool
  intr_type :: u8

datatype firmware_task = Task_lcd | Task_gps

text \<open>\<open>X_task_create\<close> has the procedure, its name, the size of its stack and its priority;
  \<open>Uart_set_pin\<close> the pins for TX, RX, RTS and CTS; \<open>Uart_driver_install\<close> the two buffer sizes, the
  length of the event queue and whether there is one.\<close>

datatype sdk_call =
    Esp_log_level_set string
  | Nvs_begin
  | X_task_create firmware_task string nat nat
  | Uart_param_config u8 uart_config_t
  | Uart_set_pin u8 int int int int
  | Uart_driver_install u8 nat nat nat bool
  | Gpio_reset_pin int
  | Gpio_set_config gpio_config_t

type_synonym sdk_log = "sdk_call list"

section \<open>Start of the firmware\<close>

definition display_init :: "sdk_log \<Rightarrow> int \<times> sdk_log" where
  "display_init log = (0, log @ [X_task_create Task_lcd ''lcd'' 2048 10])"

definition gps_init :: "sdk_log \<Rightarrow> int \<times> sdk_log" where
  "gps_init log = (0, log @ [X_task_create Task_gps ''gps'' 8048 100])"

definition hw_board_init :: "sdk_log \<Rightarrow> u32 \<times> sdk_log" where
  "hw_board_init log =
     (let (ret, log) = display_init log
      in if 0 > ret then (word_of_int ret, log)
         else
           let (ret, log) = gps_init log
           in if 0 > ret then (word_of_int ret, log) else (0, log))"

definition app_main :: "sdk_log \<Rightarrow> sdk_log" where
  "app_main log =
     (let log = log @ [Esp_log_level_set ''gpio''];
          log = log @ [Nvs_begin]
      in snd (hw_board_init log))"

section \<open>The debug UART\<close>

abbreviation (input) "DBG_UART_NUMBER \<equiv> UART_NUM_1"
abbreviation (input) "BUF_SIZE \<equiv> (1024 :: nat)"

definition DEBUG_TX :: int where
  "DEBUG_TX = 1"

definition uart_debug_init :: "sdk_log \<Rightarrow> sdk_log" where
  "uart_debug_init log =
     (let config = \<lparr>baud_rate = 115200, data_bits = UART_DATA_8_BITS, parity = UART_PARITY_DISABLE,
            stop_bits = UART_STOP_BITS_1, flow_ctrl = UART_HW_FLOWCTRL_DISABLE, rx_flow_ctrl_thresh = 0,
            use_ref_tick = False\<rparr>
      in log @ [Uart_param_config DBG_UART_NUMBER config,
           Uart_set_pin DBG_UART_NUMBER DEBUG_TX UART_PIN_NO_CHANGE UART_PIN_NO_CHANGE UART_PIN_NO_CHANGE,
           Uart_driver_install DBG_UART_NUMBER (BUF_SIZE * 2) 0 0 False])"

definition dbg_uart_sleep :: "sdk_log \<Rightarrow> sdk_log" where
  "dbg_uart_sleep log = log @ [Gpio_reset_pin DEBUG_TX]"

definition dbg_uart_wakeup :: "sdk_log \<Rightarrow> sdk_log" where
  "dbg_uart_wakeup log =
     log @ [Gpio_set_config \<lparr>pin_bit_mask = push_bit (nat DEBUG_TX) 1, gpio_mode = 0, pull_up_en = False,
              pull_down_en = False, intr_type = 0\<rparr>,
       Uart_set_pin DBG_UART_NUMBER DEBUG_TX UART_PIN_NO_CHANGE UART_PIN_NO_CHANGE UART_PIN_NO_CHANGE]"

section \<open>The GPS task from its start\<close>

abbreviation (input) "GPS_RX_PIN \<equiv> (34 :: int)"
abbreviation (input) "GPS_UART_NUM \<equiv> UART_NUM_1"

text \<open>The local variable \<open>myUartConfig\<close> has indeterminate contents before its fields are set.\<close>

definition task_gps_setup :: "uart_config_t \<Rightarrow> sdk_log \<Rightarrow> sdk_log" where
  "task_gps_setup myUartConfig log =
     (let c = myUartConfig\<lparr>baud_rate := 115200\<rparr>;
          c = c\<lparr>data_bits := UART_DATA_8_BITS\<rparr>;
          c = c\<lparr>parity := UART_PARITY_DISABLE\<rparr>;
          c = c\<lparr>stop_bits := UART_STOP_BITS_1\<rparr>;
          c = c\<lparr>flow_ctrl := UART_HW_FLOWCTRL_DISABLE\<rparr>;
          c = c\<lparr>rx_flow_ctrl_thresh := 120\<rparr>
      in log @ [Uart_param_config GPS_UART_NUM c,
           Uart_set_pin GPS_UART_NUM UART_PIN_NO_CHANGE GPS_RX_PIN UART_PIN_NO_CHANGE UART_PIN_NO_CHANGE,
           Uart_driver_install GPS_UART_NUM 2048 2048 120 True])"

text \<open>One pass of the endless loop for each result of \<open>xQueueReceive\<close>; without an event it does nothing.\<close>

definition task_gps_pass :: "gps_task \<Rightarrow> gps_env \<times> uart_event option \<Rightarrow> gps_task option" where
  "task_gps_pass g = (\<lambda>(env, ev). case ev of None \<Rightarrow> Some g | Some ev \<Rightarrow> gps_on_event env ev g)"

definition task_gps_loop :: "(gps_env \<times> uart_event option) list \<Rightarrow> gps_task \<Rightarrow> gps_task option" where
  "task_gps_loop = foldo task_gps_pass"

section \<open>What the start leaves behind\<close>

lemma boot_creates_tasks:
  "app_main [] = [Esp_log_level_set ''gpio'', Nvs_begin, X_task_create Task_lcd ''lcd'' 2048 10,
     X_task_create Task_gps ''gps'' 8048 100]"
  by (simp add: app_main_def hw_board_init_def display_init_def gps_init_def)

text \<open>The clock of the GPS UART is whatever the stack held: the field \<open>use_ref_tick\<close> is never set.\<close>

lemma gps_uart_clock_indeterminate:
  "\<exists>c. hd (task_gps_setup locals []) = Uart_param_config GPS_UART_NUM c \<and> baud_rate c = 115200 \<and>
     use_ref_tick c = use_ref_tick locals"
  by (simp add: task_gps_setup_def Let_def)

text \<open>Every state of a run of the task is one of the reachable states of the relation, and each pass
  keeps their invariant.\<close>

lemma task_gps_loop_reach:
  assumes "gps_reach g" and "list_all (\<lambda>(env, _). driver_ok (e_read env)) evs" and "task_gps_loop evs g = Some g'"
  shows "gps_reach g'"
  using assms
proof (induction evs arbitrary: g)
  case (Cons e evs)
  obtain env ev where e: "e = (env, ev)" by (cases e)
  from Cons.prems(3) obtain h where h: "task_gps_pass g e = Some h" "task_gps_loop evs h = Some g'"
    by (auto simp: task_gps_loop_def bind_eq_Some_conv)
  have "gps_reach h"
  proof (cases ev)
    case None
    then show ?thesis using h(1) Cons.prems(1) by (simp add: e task_gps_pass_def)
  next
    case (Some a)
    then show ?thesis using h(1) Cons.prems(1,2)
      by (auto simp: e task_gps_pass_def intro: gps_reach.step gps_step.event)
  qed
  then show ?case using Cons h(2) by simp
qed (simp add: task_gps_loop_def)

end
