(* ===== verification/U8g2_Types.thy ===== *)
theory U8g2_Types
  imports GPS_Prelude
begin

text \<open>
  libs/u8g2/csrc/u8x8.h and u8g2.h: the data the graphics library works on. The library is built
  without \<open>U8G2_16BIT\<close>, so that \<open>u8g2_uint_t\<close> is \<open>uint8_t\<close>; an \<open>int8_t\<close> is its 8-bit pattern, read
  with \<^const>\<open>sint\<close>. The function pointers of the structures are enumerations of the functions the
  library provides for them; the pixel buffer is a list of bytes.
\<close>

section \<open>Display descriptions\<close>

record u8x8_display_info =
  chip_enable_level :: u8
  chip_disable_level :: u8
  post_chip_enable_wait_ns :: u8
  pre_chip_disable_wait_ns :: u8
  reset_pulse_width_ms :: u8
  post_reset_wait_ms :: u8
  sda_setup_time_ns :: u8
  sck_pulse_width_ns :: u8
  sck_clock_hz :: u32
  spi_mode :: u8
  i2c_bus_clock_100kHz :: u8
  data_setup_time_ns :: u8
  write_pulse_width_ns :: u8
  tile_width :: u8
  tile_height :: u8
  default_x_offset :: u8
  flipmode_x_offset :: u8
  pixel_width :: u16
  pixel_height :: u16

text \<open>u8x8_d_ssd1306_128x64_noname.c: the description of the firmware's display.\<close>

definition u8x8_sh1106_128x64_noname_display_info :: u8x8_display_info where
  "u8x8_sh1106_128x64_noname_display_info = \<lparr>chip_enable_level = 0, chip_disable_level = 1,
     post_chip_enable_wait_ns = 20, pre_chip_disable_wait_ns = 10, reset_pulse_width_ms = 100,
     post_reset_wait_ms = 100, sda_setup_time_ns = 50, sck_pulse_width_ns = 50, sck_clock_hz = 4000000,
     spi_mode = 3, i2c_bus_clock_100kHz = 4, data_setup_time_ns = 40, write_pulse_width_ns = 150,
     tile_width = 16, tile_height = 8, default_x_offset = 2, flipmode_x_offset = 2,
     pixel_width = 128, pixel_height = 64\<rparr>"

section \<open>The board\<close>

text \<open>
  What lies outside the structures: the calls that leave the firmware, in order, and the static
  variables of the communication procedures. \<open>Gpio_call\<close> is a call of a pin procedure the library
  is given; the others are calls of the ESP-IDF (\<open>gpio_num_t\<close> is an \<^typ>\<open>int\<close>, -1 for no pin).
\<close>

datatype io_event =
    Gpio_call u8 u8
  | Gpio_set_level int u8
  | Gpio_config "64 word"
  | VTaskDelay u32
  | Spi_bus_initialize int int
  | Spi_bus_add_device int
  | Spi_device_transmit u32 "u8 list"
  | I2c_param_config int int
  | I2c_driver_install
  | I2c_cmd_link_create
  | I2c_master_start
  | I2c_master_write_byte u8
  | I2c_master_stop
  | I2c_master_cmd_begin u32
  | I2c_cmd_link_delete

record u8g2_esp32_hal_t =
  hal_clk :: int
  hal_mosi :: int
  hal_sda :: int
  hal_scl :: int
  hal_cs :: int
  hal_reset :: int
  hal_dc :: int

record board =
  io :: "io_event list"
  u8g2_esp32_hal :: u8g2_esp32_hal_t
  last_dc :: u8
  enable_pin :: u8
  ssd13xx_in_transfer :: u8
  ld7032_in_transfer :: u8
  uc16xx_in_transfer :: u8
  uc16xx_is_data :: u8

section \<open>The device structure\<close>

text \<open>
  u8x8.h, \<open>u8x8_struct\<close>. The message procedures its function pointers hold are arguments of the
  definitions that call them; the text procedures switch between two character decoders, which
  \<open>next_cb\<close> names. \<^term>\<open>None\<close> is a null pointer.
\<close>

datatype u8x8_char_cb = Ascii_Next | Utf8_Next

record u8x8 = board +
  display_info :: u8x8_display_info
  next_cb :: "u8x8_char_cb option"
  bus_clock :: u32
  x8_font :: "u8 list option"
  encoding :: u16
  x_offset :: u8
  is_font_inverse_mode :: u8
  i2c_address :: u8
  i2c_started :: u8
  device_address :: u8
  utf8_state :: u8
  gpio_result :: u8
  debounce_default_pin_state :: u8
  debounce_last_pin_state :: u8
  debounce_state :: u8
  debounce_result_msg :: u8

section \<open>The drawing state\<close>

datatype ll_hvline_fn = LL_Vertical_Top_Lsb | LL_Horizontal_Right_Lsb

datatype u8g2_cb = U8G2_R0 | U8G2_R1 | U8G2_R2 | U8G2_R3 | U8G2_MIRROR

datatype font_vref_fn = Vref_Font | Vref_Bottom | Vref_Top | Vref_Center

record u8g2_font_info =
  glyph_cnt :: u8
  bbx_mode :: u8
  bits_per_0 :: u8
  bits_per_1 :: u8
  bits_per_char_width :: u8
  bits_per_char_height :: u8
  bits_per_char_x :: u8
  bits_per_char_y :: u8
  bits_per_delta_x :: u8
  max_char_width :: u8
  max_char_height :: u8
  fi_x_offset :: u8
  fi_y_offset :: u8
  ascent_A :: u8
  descent_g :: u8
  ascent_para :: u8
  descent_para :: u8
  start_pos_upper_A :: u16
  start_pos_lower_a :: u16
  start_pos_unicode :: u16

text \<open>\<open>decode_ptr\<close> is the position in the font's bytes.\<close>

record u8g2_font_decode =
  decode_ptr :: nat
  target_x :: u8
  target_y :: u8
  fd_x :: u8
  fd_y :: u8
  glyph_width :: u8
  glyph_height :: u8
  decode_bit_pos :: u8
  is_transparent :: u8
  fg_color :: u8
  bg_color :: u8
  fd_dir :: u8

text \<open>\<open>u8g2_struct\<close> begins with a \<open>u8x8_struct\<close>: \<open>u8g2_GetU8x8\<close> is the view of its first fields.\<close>

record u8g2 = u8x8 +
  ll_hvline :: ll_hvline_fn
  cb :: u8g2_cb
  tile_buf :: "u8 list"
  tile_buf_height :: u8
  tile_curr_row :: u8
  pixel_buf_width :: u8
  pixel_buf_height :: u8
  pixel_curr_row :: u8
  buf_y0 :: u8
  buf_y1 :: u8
  width :: u8
  height :: u8
  user_x0 :: u8
  user_x1 :: u8
  user_y0 :: u8
  user_y1 :: u8
  clip_x0 :: u8
  clip_x1 :: u8
  clip_y0 :: u8
  clip_y1 :: u8
  font :: "u8 list option"
  font_calc_vref :: font_vref_fn
  font_decode :: u8g2_font_decode
  font_info :: u8g2_font_info
  is_page_clip_window_intersection :: u8
  font_height_mode :: u8
  font_ref_ascent :: u8
  font_ref_descent :: u8
  glyph_x_offset :: u8
  bitmap_transparency :: u8
  draw_color :: u8
  is_auto_page_clear :: u8

definition u8x8_display_info_zero :: u8x8_display_info where
  "u8x8_display_info_zero = \<lparr>chip_enable_level = 0, chip_disable_level = 0, post_chip_enable_wait_ns = 0,
     pre_chip_disable_wait_ns = 0, reset_pulse_width_ms = 0, post_reset_wait_ms = 0, sda_setup_time_ns = 0,
     sck_pulse_width_ns = 0, sck_clock_hz = 0, spi_mode = 0, i2c_bus_clock_100kHz = 0,
     data_setup_time_ns = 0, write_pulse_width_ns = 0, tile_width = 0, tile_height = 0,
     default_x_offset = 0, flipmode_x_offset = 0, pixel_width = 0, pixel_height = 0\<rparr>"

text \<open>u8x8_setup.c and u8x8_display.c: the values the structure starts with. (The library is not
  built with \<open>U8X8_USE_PINS\<close>.) The null pointer \<open>display_info\<close> holds until \<open>u8x8_SetupMemory\<close> is the
  all-zero description.\<close>

definition u8x8_SetupDefaults :: "'a u8x8_scheme \<Rightarrow> 'a u8x8_scheme" where
  "u8x8_SetupDefaults u = u\<lparr>display_info := u8x8_display_info_zero, is_font_inverse_mode := 0,
     device_address := 0, utf8_state := 0, bus_clock := 0, i2c_address := 255,
     debounce_default_pin_state := 255\<rparr>"

definition u8x8_d_helper_display_setup_memory ::
    "u8x8_display_info \<Rightarrow> 'a u8x8_scheme \<Rightarrow> 'a u8x8_scheme" where
  "u8x8_d_helper_display_setup_memory di u =
     (let u = u\<lparr>display_info := di\<rparr> in u\<lparr>x_offset := default_x_offset (display_info u)\<rparr>)"

text \<open>A drawing state with all bytes zero, as a static variable starts.\<close>

definition u8g2_zero :: u8g2 where
  "u8g2_zero = \<lparr>io = [], u8g2_esp32_hal = \<lparr>hal_clk = 0, hal_mosi = 0, hal_sda = 0, hal_scl = 0, hal_cs = 0,
       hal_reset = 0, hal_dc = 0\<rparr>, last_dc = 0, enable_pin = 0, ssd13xx_in_transfer = 0,
     ld7032_in_transfer = 0, uc16xx_in_transfer = 0, uc16xx_is_data = 0,
     display_info = u8x8_display_info_zero, next_cb = None, bus_clock = 0, x8_font = None, encoding = 0, x_offset = 0,
     is_font_inverse_mode = 0, i2c_address = 0, i2c_started = 0, device_address = 0, utf8_state = 0,
     gpio_result = 0, debounce_default_pin_state = 0, debounce_last_pin_state = 0, debounce_state = 0,
     debounce_result_msg = 0, ll_hvline = LL_Vertical_Top_Lsb, cb = U8G2_R0,
     tile_buf = [], tile_buf_height = 0, tile_curr_row = 0, pixel_buf_width = 0, pixel_buf_height = 0,
     pixel_curr_row = 0, buf_y0 = 0, buf_y1 = 0, width = 0, height = 0,
     user_x0 = 0, user_x1 = 0, user_y0 = 0, user_y1 = 0,
     clip_x0 = 0, clip_x1 = 0, clip_y0 = 0, clip_y1 = 0, font = None, font_calc_vref = Vref_Font,
     font_decode = \<lparr>decode_ptr = 0, target_x = 0, target_y = 0, fd_x = 0, fd_y = 0, glyph_width = 0,
       glyph_height = 0, decode_bit_pos = 0, is_transparent = 0, fg_color = 0, bg_color = 0, fd_dir = 0\<rparr>,
     font_info = \<lparr>glyph_cnt = 0, bbx_mode = 0, bits_per_0 = 0, bits_per_1 = 0, bits_per_char_width = 0,
       bits_per_char_height = 0, bits_per_char_x = 0, bits_per_char_y = 0, bits_per_delta_x = 0,
       max_char_width = 0, max_char_height = 0, fi_x_offset = 0, fi_y_offset = 0, ascent_A = 0,
       descent_g = 0, ascent_para = 0, descent_para = 0, start_pos_upper_A = 0, start_pos_lower_a = 0,
       start_pos_unicode = 0\<rparr>,
     is_page_clip_window_intersection = 0, font_height_mode = 0, font_ref_ascent = 0,
     font_ref_descent = 0, glyph_x_offset = 0, bitmap_transparency = 0, draw_color = 0,
     is_auto_page_clear = 0\<rparr>"

section \<open>Pictures\<close>

text \<open>What a draw colour does to a pixel: clear, set, or flip.\<close>

definition paint :: "u8 \<Rightarrow> bool \<Rightarrow> bool" where
  "paint color b = (if color = 0 then False else if color = 1 then True else \<not> b)"

type_synonym 'p picture = "'p \<Rightarrow> bool"

definition paint_on :: "u8 \<Rightarrow> 'p set \<Rightarrow> 'p picture \<Rightarrow> 'p picture" where
  "paint_on color S pic = (\<lambda>p. if p \<in> S then paint color (pic p) else pic p)"

lemma paint_on_simps [simp]:
  "paint_on color {} pic = pic"
  "color \<noteq> 0 \<Longrightarrow> color \<noteq> 1 \<Longrightarrow> A \<inter> B = {} \<Longrightarrow> paint_on color A (paint_on color B pic) = paint_on color (A \<union> B) pic"
  by (auto simp: paint_on_def fun_eq_iff)

lemma paint_on_disjoint:
  "A \<inter> B = {} \<Longrightarrow> paint_on color A (paint_on color B pic) = paint_on color (A \<union> B) pic"
  by (auto simp: paint_on_def fun_eq_iff)

lemma paint_on_solid:
  "color = 0 \<or> color = 1 \<Longrightarrow> paint_on color A (paint_on color B pic) = paint_on color (A \<union> B) pic"
  by (auto simp: paint_on_def paint_def fun_eq_iff)

section \<open>Bytes as words\<close>

text \<open>The counter of the library's \<open>do ... while ( len != 0 )\<close> loops.\<close>

lemma len_decreases:
  fixes n :: u8
  assumes "n - 1 \<noteq> 0"
  shows "unat (n - 1 - 1) < unat (n - 1)"
  using assms unat_minus_one [of "n - 1"] unat_gt_0 [of "n - 1"] by linarith

lemma len_decreases' [termination_simp]: "(n :: u8) \<noteq> 1 \<Longrightarrow> unat (n - 2) < unat (n - 1)"
  using len_decreases [of n] by simp

lemma u8_induct_down [case_names step]:
  fixes n :: u8
  assumes "\<And>n. (n - 1 \<noteq> 0 \<Longrightarrow> P (n - 1)) \<Longrightarrow> P n"
  shows "P n"
proof (induction "unat (n - 1)" arbitrary: n rule: less_induct)
  case less
  show ?case
  proof (rule assms)
    assume n: "n - 1 \<noteq> 0"
    show "P (n - 1)" by (rule less) (rule len_decreases [OF n])
  qed
qed

lemma unat_u8_less [simp]: "unat (x :: u8) < 256"
  using unsigned_less [of x] by simp

lemma unat_ucast_16 [simp]: "unat (ucast (y :: u8) :: u16) = unat y"
  by (simp add: unsigned_ucast_eq take_bit_nat_eq_self less_trans [OF unat_u8_less])

lemma uint_u8: "0 \<le> uint (x :: u8)" "uint (x :: u8) < 256"
  using unsigned_less [of x] by simp_all

lemma uint_u8_add: "uint ((a :: u8) + b) = (if 256 \<le> uint a + uint b then uint a + uint b - 256 else uint a + uint b)"
  by (simp add: uint_plus_if')

lemma uint_u8_sub: "uint ((a :: u8) - b) = (if uint b \<le> uint a then uint a - uint b else uint a - uint b + 256)"
  by (simp add: uint_sub_if')

lemmas u8_int = word_le_def word_less_def uint_u8_add uint_u8_sub word_uint_eq_iff

end
