(* ===== verification/U8g2_Lines.thy ===== *)
theory U8g2_Lines
  imports U8g2_Types
begin

text \<open>
  libs/u8g2/csrc/u8g2_ll_hvline.c: drawing a clipped horizontal or vertical line into the tile
  buffer, for the two byte layouts, as the firmware builds it (with the optimised procedures). An
  access outside the buffer is undefined (\<^term>\<open>None\<close>). The lemmas give each routine's meaning on
  pixels: exactly the pixels of the segment are painted in the draw colour.
\<close>

section \<open>The loops\<close>

definition upd_byte :: "nat \<Rightarrow> (u8 \<Rightarrow> u8) \<Rightarrow> u8 list \<Rightarrow> u8 list option" where
  "upd_byte ptr f buf = (if ptr < length buf then Some (buf[ptr := f (buf ! ptr)]) else None)"

text \<open>\<open>*ptr |= or_mask; *ptr ^= xor_mask\<close>, along a row and down a column.\<close>

function hloop :: "u8 list \<Rightarrow> nat \<Rightarrow> u8 \<Rightarrow> u8 \<Rightarrow> u8 \<Rightarrow> u8 list option" where
  "hloop buf ptr or_mask xor_mask len =
     (case upd_byte ptr (\<lambda>b. (b OR or_mask) XOR xor_mask) buf of
        None \<Rightarrow> None
      | Some buf \<Rightarrow>
          if len - 1 \<noteq> 0 then hloop buf (ptr + 1) or_mask xor_mask (len - 1) else Some buf)"
  by auto
termination
  by (relation "measure (\<lambda>(buf, ptr, or_mask, xor_mask, len). unat (len - 1))")
    (auto simp: len_decreases')

function vloop :: "u8 \<Rightarrow> u8 \<Rightarrow> u8 list \<Rightarrow> nat \<Rightarrow> u8 \<Rightarrow> u8 \<Rightarrow> u8 \<Rightarrow> u8 \<Rightarrow> u8 list option" where
  "vloop color buf_width buf ptr bit_pos or_mask xor_mask len =
     (case upd_byte ptr (\<lambda>b. (b OR or_mask) XOR xor_mask) buf of
        None \<Rightarrow> None
      | Some buf \<Rightarrow>
          (let bit_pos = (bit_pos + 1) AND 7;
               (ptr, or_mask, xor_mask) =
                 (if bit_pos = 0 then
                    (ptr + unat buf_width, if color \<le> 1 then 1 else or_mask,
                     if color \<noteq> 1 then 1 else xor_mask)
                  else (ptr, push_bit 1 or_mask, push_bit 1 xor_mask))
           in if len - 1 \<noteq> 0 then vloop color buf_width buf ptr bit_pos or_mask xor_mask (len - 1)
              else Some buf))"
  by auto
termination
  by (relation "measure (\<lambda>(color, buf_width, buf, ptr, bit_pos, or_mask, xor_mask, len). unat (len - 1))")
    (auto simp: len_decreases')

definition u8g2_ll_hvline_vertical_top_lsb :: "u8g2 \<Rightarrow> u8 \<Rightarrow> u8 \<Rightarrow> u8 \<Rightarrow> u8 \<Rightarrow> u8g2 option" where
  "u8g2_ll_hvline_vertical_top_lsb u x y len dir =
     (let bit_pos = y AND 7;
          pmask = push_bit (unat bit_pos) 1;
          or_mask = (if draw_color u \<le> 1 then pmask else 0);
          xor_mask = (if draw_color u \<noteq> 1 then pmask else 0);
          offset = (ucast y AND NOT 7) * ucast (tile_width (display_info u)) :: u16;
          ptr = unat offset + unat x
      in map_option (\<lambda>buf. u\<lparr>tile_buf := buf\<rparr>)
           (if dir = 0 then hloop (tile_buf u) ptr or_mask xor_mask len
            else vloop (draw_color u) (pixel_buf_width u) (tile_buf u) ptr bit_pos or_mask xor_mask len))"

definition color_byte :: "u8 \<Rightarrow> u8 \<Rightarrow> u8 \<Rightarrow> u8" where
  "color_byte color pmask b =
     (let b = (if color \<le> 1 then b OR pmask else b) in if color \<noteq> 1 then b XOR pmask else b)"

function hloop_right :: "u8 \<Rightarrow> u8 list \<Rightarrow> nat \<Rightarrow> u8 \<Rightarrow> u8 \<Rightarrow> u8 list option" where
  "hloop_right color buf ptr pmask len =
     (case upd_byte ptr (color_byte color pmask) buf of
        None \<Rightarrow> None
      | Some buf \<Rightarrow>
          (let (ptr, pmask) = (if drop_bit 1 pmask = 0 then (ptr + 1, 128) else (ptr, drop_bit 1 pmask))
           in if len - 1 \<noteq> 0 then hloop_right color buf ptr pmask (len - 1) else Some buf))"
  by auto
termination
  by (relation "measure (\<lambda>(color, buf, ptr, pmask, len). unat (len - 1))") (auto simp: len_decreases')

function vloop_right :: "u8 \<Rightarrow> u8 \<Rightarrow> u8 list \<Rightarrow> nat \<Rightarrow> u8 \<Rightarrow> u8 \<Rightarrow> u8 list option" where
  "vloop_right color tile_w buf ptr pmask len =
     (case upd_byte ptr (color_byte color pmask) buf of
        None \<Rightarrow> None
      | Some buf \<Rightarrow>
          if len - 1 \<noteq> 0 then vloop_right color tile_w buf (ptr + unat tile_w) pmask (len - 1)
          else Some buf)"
  by auto
termination
  by (relation "measure (\<lambda>(color, tile_w, buf, ptr, pmask, len). unat (len - 1))")
    (auto simp: len_decreases')

definition u8g2_ll_hvline_horizontal_right_lsb :: "u8g2 \<Rightarrow> u8 \<Rightarrow> u8 \<Rightarrow> u8 \<Rightarrow> u8 \<Rightarrow> u8g2 option" where
  "u8g2_ll_hvline_horizontal_right_lsb u x y len dir =
     (let tile_w = tile_width (display_info u);
          bit_pos = x AND 7;
          pmask = drop_bit (unat bit_pos) 128;
          offset = ucast y * ucast tile_w + ucast (drop_bit 3 x) :: u16;
          ptr = unat offset
      in map_option (\<lambda>buf. u\<lparr>tile_buf := buf\<rparr>)
           (if dir = 0 then hloop_right (draw_color u) (tile_buf u) ptr pmask len
            else vloop_right (draw_color u) tile_w (tile_buf u) ptr pmask len))"

definition u8g2_ll_hvline :: "u8g2 \<Rightarrow> u8 \<Rightarrow> u8 \<Rightarrow> u8 \<Rightarrow> u8 \<Rightarrow> u8g2 option" where
  "u8g2_ll_hvline u =
     (case ll_hvline u of
        LL_Vertical_Top_Lsb \<Rightarrow> u8g2_ll_hvline_vertical_top_lsb u
      | LL_Horizontal_Right_Lsb \<Rightarrow> u8g2_ll_hvline_horizontal_right_lsb u)"

declare hloop.simps [simp del] vloop.simps [simp del]
declare hloop_right.simps [simp del] vloop_right.simps [simp del]

section \<open>Pixels of the two layouts\<close>

text \<open>The bits that a draw colour sets and flips.\<close>

definition or_of :: "u8 \<Rightarrow> nat \<Rightarrow> u8" where
  "or_of color k = (if color \<le> 1 then push_bit k 1 else 0)"

definition xor_of :: "u8 \<Rightarrow> nat \<Rightarrow> u8" where
  "xor_of color k = (if color \<noteq> 1 then push_bit k 1 else 0)"

lemma u8_le_1: "(c :: u8) \<le> 1 \<longleftrightarrow> c = 0 \<or> c = 1"
  by (auto simp: word_le_nat_alt word_unat_eq_iff)

lemma bit_or_xor:
  "j < 8 \<Longrightarrow>
     bit ((b OR or_of color k) XOR xor_of color k) j = (if j = k then paint color (bit b j) else bit b j)"
  by (auto simp: or_of_def xor_of_def paint_def bit_simps u8_le_1)

definition pbit :: "nat \<Rightarrow> u8" where
  "pbit k = push_bit k 1"

lemma bit_pbit: "bit (pbit k) j \<longleftrightarrow> j = k \<and> k < 8"
  by (auto simp: pbit_def bit_simps)

lemma color_byte_eq:
  "color_byte color (pbit k) b = (b OR or_of color k) XOR xor_of color k"
  by (simp add: color_byte_def or_of_def xor_of_def pbit_def Let_def)

text \<open>Painting bits of a buffer: \<open>(i, j)\<close> is bit \<open>j\<close> of byte \<open>i\<close>.\<close>

definition painted :: "u8 \<Rightarrow> (nat \<times> nat) set \<Rightarrow> u8 list \<Rightarrow> u8 list \<Rightarrow> bool" where
  "painted color S buf buf' =
     (length buf' = length buf \<and>
      (\<forall>i j. j < 8 \<longrightarrow>
         bit (buf' ! i) j = (if (i, j) \<in> S then paint color (bit (buf ! i) j) else bit (buf ! i) j)))"

lemma painted_trans:
  "painted color S buf buf1 \<Longrightarrow> painted color T buf1 buf2 \<Longrightarrow> S \<inter> T = {} \<Longrightarrow>
     painted color (S \<union> T) buf buf2"
  by (auto simp: painted_def disjoint_iff)

lemma painted_one:
  assumes "i < length buf" and "\<And>j. j < 8 \<Longrightarrow> bit (f (buf ! i)) j = (if j = k then paint color (bit (buf ! i) j) else bit (buf ! i) j)"
  shows "painted color {(i, k)} buf (buf[i := f (buf ! i)])"
  using assms by (auto simp: painted_def nth_list_update)

section \<open>A loop that paints one bit per round\<close>

text \<open>The contract the four loops share: round \<open>k\<close> applies \<open>action k\<close> to the byte of cell \<open>k\<close>, which
  paints the cell's bit, and goes on while the decremented length is not zero.\<close>

locale paint_loop =
  fixes loop :: "nat \<Rightarrow> u8 list \<Rightarrow> u8 \<Rightarrow> u8 list option"
    and cell :: "nat \<Rightarrow> nat \<times> nat"
    and action :: "nat \<Rightarrow> u8 \<Rightarrow> u8"
    and color :: u8
  assumes unfold: "loop k buf len =
      (case upd_byte (fst (cell k)) (action k) buf of
         None \<Rightarrow> None
       | Some buf \<Rightarrow> if len - 1 \<noteq> 0 then loop (Suc k) buf (len - 1) else Some buf)"
    and paints: "j < 8 \<Longrightarrow>
      bit (action k b) j = (if j = snd (cell k) then paint color (bit b j) else bit b j)"
begin

lemma first:
  assumes "fst (cell k) < length buf"
  obtains buf1 where "upd_byte (fst (cell k)) (action k) buf = Some buf1"
    and "painted color {cell k} buf buf1"
proof
  show "upd_byte (fst (cell k)) (action k) buf =
      Some (buf[fst (cell k) := action k (buf ! fst (cell k))])"
    using assms by (simp add: upd_byte_def)
  show "painted color {cell k} buf (buf[fst (cell k) := action k (buf ! fst (cell k))])"
    using painted_one [OF assms, where f = "action k" and k = "snd (cell k)" and color = color] paints
    by simp
qed

lemma run:
  assumes "len \<noteq> 0" and "inj_on cell {k..<k + unat len}"
    and "\<forall>i \<in> {k..<k + unat len}. fst (cell i) < length buf"
  shows "\<exists>buf'. loop k buf len = Some buf' \<and> painted color (cell ` {k..<k + unat len}) buf buf'"
  using assms
proof (induction len arbitrary: k buf rule: u8_induct_down)
  case (step len)
  have pl: "unat len = Suc (unat (len - 1))"
    using step.prems(1) unat_minus_one [of len] unat_gt_0 [of len] by simp
  then have "fst (cell k) < length buf" using step.prems(3) by simp
  then obtain buf1 where up: "upd_byte (fst (cell k)) (action k) buf = Some buf1"
    and one: "painted color {cell k} buf buf1" by (rule first)
  have split: "{k..<k + unat len} = insert k {Suc k..<Suc k + unat (len - 1)}" using pl by auto
  show ?case
  proof (cases "len - 1 = 0")
    case True
    then have "loop k buf len = Some buf1" using up by (simp add: unfold [of k])
    moreover have "cell ` {k..<k + unat len} = {cell k}" using True split by simp
    ultimately show ?thesis using one by simp
  next
    case False
    have inj: "inj_on cell {Suc k..<Suc k + unat (len - 1)}"
      and fresh: "cell k \<notin> cell ` {Suc k..<Suc k + unat (len - 1)}"
      using step.prems(2) unfolding split by (auto simp: inj_on_insert)
    have "length buf1 = length buf" using one by (simp add: painted_def)
    then have "\<forall>i \<in> {Suc k..<Suc k + unat (len - 1)}. fst (cell i) < length buf1"
      using step.prems(3) unfolding split by simp
    from step.IH [OF False False inj this] obtain buf' where
      b: "loop (Suc k) buf1 (len - 1) = Some buf'"
        "painted color (cell ` {Suc k..<Suc k + unat (len - 1)}) buf1 buf'" by blast
    have "loop k buf len = Some buf'" using up b(1) False by (simp add: unfold [of k])
    moreover have "painted color (cell ` {k..<k + unat len}) buf buf'"
      using painted_trans [OF one b(2)] fresh unfolding split by simp
    ultimately show ?thesis by blast
  qed
qed

end

section \<open>The four loops meet the contract\<close>

interpretation hl: paint_loop
    "\<lambda>k buf len. hloop buf (ptr + k) (or_of color b) (xor_of color b) len"
    "\<lambda>k. (ptr + k, b)" "\<lambda>k x. (x OR or_of color b) XOR xor_of color b" color
  for color b ptr
proof
  show "hloop buf (ptr + k) (or_of color b) (xor_of color b) len =
      (case upd_byte (fst (ptr + k, b)) (\<lambda>x. (x OR or_of color b) XOR xor_of color b) buf of None \<Rightarrow> None
       | Some buf \<Rightarrow> if len - 1 \<noteq> 0 then hloop buf (ptr + Suc k) (or_of color b) (xor_of color b) (len - 1)
           else Some buf)" for k buf len
    by (simp add: hloop.simps [of buf] split: option.split)
qed (simp add: bit_or_xor)

lemma and_7: "(x :: u8) AND 7 = take_bit 3 x"
  by (simp add: take_bit_eq_mask mask_eq_exp_minus_1)

lemma u8_mod8_word: "(of_nat (n mod 8) + 1 :: u8) AND 7 = of_nat (Suc n mod 8)"
proof -
  have "(of_nat (n mod 8) + 1 :: u8) = of_nat (Suc (n mod 8))" by simp
  then have "(of_nat (n mod 8) + 1 :: u8) AND 7 = take_bit 3 (of_nat (Suc (n mod 8)))"
    by (simp only: and_7)
  also have "\<dots> = of_nat (take_bit 3 (Suc (n mod 8)))" by (rule take_bit_of_nat)
  also have "take_bit 3 (Suc (n mod 8)) = Suc n mod 8"
    by (simp add: take_bit_eq_mod mod_Suc_eq)
  finally show ?thesis .
qed

lemma u8_of_nat_mod8_0: "(of_nat (n mod 8) :: u8) = 0 \<longleftrightarrow> n mod 8 = 0"
proof -
  have "unat (of_nat (n mod 8) :: u8) = n mod 8" by (simp add: unat_of_nat)
  then show ?thesis by (metis unat_0 unat_eq_0)
qed

lemma or_of_push: "push_bit 1 (or_of color k) = or_of color (Suc k)"
  by (simp add: or_of_def)

lemma xor_of_push: "push_bit 1 (xor_of color k) = xor_of color (Suc k)"
  by (simp add: xor_of_def)

interpretation vl: paint_loop
    "\<lambda>k buf len. vloop color w buf (base + (y + k) div 8 * unat w) (of_nat ((y + k) mod 8))
       (or_of color ((y + k) mod 8)) (xor_of color ((y + k) mod 8)) len"
    "\<lambda>k. (base + (y + k) div 8 * unat w, (y + k) mod 8)"
    "\<lambda>k x. (x OR or_of color ((y + k) mod 8)) XOR xor_of color ((y + k) mod 8)" color
  for color w base y
proof
  fix k len and buf :: "u8 list"
  let ?n = "y + k"
  have nxt: "(if (of_nat (Suc ?n mod 8) :: u8) = 0
       then (base + ?n div 8 * unat w + unat w, if color \<le> 1 then 1 else or_of color (?n mod 8),
             if color \<noteq> 1 then 1 else xor_of color (?n mod 8))
       else (base + ?n div 8 * unat w, push_bit 1 (or_of color (?n mod 8)), push_bit 1 (xor_of color (?n mod 8)))) =
    (base + Suc ?n div 8 * unat w, or_of color (Suc ?n mod 8), xor_of color (Suc ?n mod 8))"
  proof (cases "Suc ?n mod 8 = 0")
    case True
    then have "Suc ?n div 8 = Suc (?n div 8)" by (simp add: div_Suc)
    with True show ?thesis by (simp add: or_of_def xor_of_def)
  next
    case False
    then have "Suc ?n div 8 = ?n div 8" "Suc ?n mod 8 = Suc (?n mod 8)"
      by (simp_all add: div_Suc mod_Suc split: if_splits)
    moreover have "(of_nat (Suc ?n mod 8) :: u8) \<noteq> 0"
      using False u8_of_nat_mod8_0 [of "Suc ?n"] by simp
    ultimately show ?thesis by (simp only: if_False or_of_push xor_of_push)
  qed
  show "vloop color w buf (base + ?n div 8 * unat w) (of_nat (?n mod 8)) (or_of color (?n mod 8))
       (xor_of color (?n mod 8)) len =
    (case upd_byte (fst (base + ?n div 8 * unat w, ?n mod 8))
         (\<lambda>x. (x OR or_of color (?n mod 8)) XOR xor_of color (?n mod 8)) buf of
       None \<Rightarrow> None
     | Some buf \<Rightarrow>
         if len - 1 \<noteq> 0 then vloop color w buf (base + (y + Suc k) div 8 * unat w)
           (of_nat ((y + Suc k) mod 8)) (or_of color ((y + Suc k) mod 8))
           (xor_of color ((y + Suc k) mod 8)) (len - 1)
         else Some buf)"
    unfolding vloop.simps [of color w buf] Let_def u8_mod8_word nxt
    by (simp del: of_nat_Suc split: option.split)
qed (simp add: bit_or_xor)

lemma drop_bit_pbit: "m < 8 \<Longrightarrow> drop_bit 1 (pbit m) = (if m = 0 then 0 else pbit (m - 1))"
  by (rule bit_word_eqI) (auto simp: bit_pbit bit_simps)

lemma pbit_eq_0: "pbit m = 0 \<longleftrightarrow> 8 \<le> m"
proof
  assume "pbit m = 0"
  then have "\<not> bit (pbit m) m" by simp
  then show "8 \<le> m" by (simp add: bit_pbit)
qed (rule bit_word_eqI, simp add: bit_pbit)

lemma pbit_7: "pbit 7 = 128"
  by (simp add: pbit_def push_bit_eq_mult)

interpretation hr: paint_loop
    "\<lambda>k buf len. hloop_right color buf (base + (x + k) div 8) (pbit (7 - (x + k) mod 8)) len"
    "\<lambda>k. (base + (x + k) div 8, 7 - (x + k) mod 8)"
    "\<lambda>k. color_byte color (pbit (7 - (x + k) mod 8))" color
  for color base x
proof
  fix k len and buf :: "u8 list"
  let ?n = "x + k"
  have nxt: "(if drop_bit 1 (pbit (7 - ?n mod 8)) = 0 then (base + ?n div 8 + 1, 128)
       else (base + ?n div 8, drop_bit 1 (pbit (7 - ?n mod 8)))) =
    (base + Suc ?n div 8, pbit (7 - Suc ?n mod 8))"
  proof (cases "Suc ?n mod 8 = 0")
    case True
    then have "?n mod 8 = 7" "Suc ?n div 8 = Suc (?n div 8)"
      by (simp_all add: mod_Suc div_Suc split: if_splits)
    with True show ?thesis by (simp add: pbit_7 drop_bit_pbit del: One_nat_def)
  next
    case False
    then have d: "Suc ?n div 8 = ?n div 8" "Suc ?n mod 8 = Suc (?n mod 8)"
      by (simp_all add: div_Suc mod_Suc split: if_splits)
    moreover have "?n mod 8 < 7" using d(2) mod_less_divisor [of 8 "Suc ?n"] by linarith
    ultimately show ?thesis by (simp add: drop_bit_pbit pbit_eq_0 del: One_nat_def)
  qed
  show "hloop_right color buf (base + ?n div 8) (pbit (7 - ?n mod 8)) len =
    (case upd_byte (fst (base + ?n div 8, 7 - ?n mod 8)) (color_byte color (pbit (7 - ?n mod 8))) buf of
       None \<Rightarrow> None
     | Some buf \<Rightarrow>
         if len - 1 \<noteq> 0 then hloop_right color buf (base + (x + Suc k) div 8)
           (pbit (7 - (x + Suc k) mod 8)) (len - 1)
         else Some buf)"
    unfolding hloop_right.simps [of color buf] nxt by (simp split: option.split)
qed (simp add: color_byte_eq bit_or_xor)

interpretation vr: paint_loop
    "\<lambda>k buf len. vloop_right color w buf (ptr + k * unat w) (pbit b) len"
    "\<lambda>k. (ptr + k * unat w, b)" "\<lambda>k. color_byte color (pbit b)" color
  for color w ptr b
proof
  show "vloop_right color w buf (ptr + k * unat w) (pbit b) len =
    (case upd_byte (fst (ptr + k * unat w, b)) (color_byte color (pbit b)) buf of None \<Rightarrow> None
     | Some buf \<Rightarrow> if len - 1 \<noteq> 0 then vloop_right color w buf (ptr + Suc k * unat w) (pbit b) (len - 1)
         else Some buf)" for k buf len
    by (simp add: vloop_right.simps [of color w buf] ac_simps split: option.split)
qed (simp add: color_byte_eq bit_or_xor)

section \<open>Lines on the picture\<close>

definition canvas_w :: "u8g2 \<Rightarrow> nat" where
  "canvas_w u = 8 * unat (tile_width (display_info u))"

definition canvas_h :: "u8g2 \<Rightarrow> nat" where
  "canvas_h u = 8 * unat (tile_buf_height u)"

lemma canvas_size_upd [simp]:
  "canvas_w (u\<lparr>tile_buf := buf\<rparr>) = canvas_w u" "canvas_h (u\<lparr>tile_buf := buf\<rparr>) = canvas_h u"
  by (simp_all add: canvas_w_def canvas_h_def)

definition canvas_ok :: "u8g2 \<Rightarrow> bool" where
  "canvas_ok u =
     (0 < canvas_w u \<and> canvas_w u < 256 \<and> pixel_buf_width u = of_nat (canvas_w u) \<and>
      8 * length (tile_buf u) = canvas_w u * canvas_h u)"

text \<open>The byte and the bit of the pixel in column \<open>x\<close> and row \<open>y\<close> of the buffer: in the
  vertical layout a byte holds eight rows, the top one in bit 0; in the horizontal layout a byte
  holds eight columns, the left one in bit 7.\<close>

definition cell_of :: "u8g2 \<Rightarrow> nat \<times> nat \<Rightarrow> nat \<times> nat" where
  "cell_of u = (\<lambda>(x, y).
     case ll_hvline u of
       LL_Vertical_Top_Lsb \<Rightarrow> (y div 8 * canvas_w u + x, y mod 8)
     | LL_Horizontal_Right_Lsb \<Rightarrow> (y * (canvas_w u div 8) + x div 8, 7 - x mod 8))"

definition pixel :: "u8g2 \<Rightarrow> (nat \<times> nat) picture" where
  "pixel u p = bit (tile_buf u ! fst (cell_of u p)) (snd (cell_of u p))"

definition segment :: "u8 \<Rightarrow> nat \<Rightarrow> nat \<Rightarrow> nat \<Rightarrow> (nat \<times> nat) set" where
  "segment dir x y n = (if dir = 0 then {x..<x + n} \<times> {y} else {x} \<times> {y..<y + n})"

definition canvas_area :: "u8g2 \<Rightarrow> (nat \<times> nat) set" where
  "canvas_area u = {..<canvas_w u} \<times> {..<canvas_h u}"

lemma div8_mod8_eq: "a div 8 = b div 8 \<Longrightarrow> a mod 8 = b mod 8 \<Longrightarrow> a = (b :: nat)"
  by (metis div_mult_mod_eq)

lemma cell_of_inj: "inj_on (cell_of u) ({..<canvas_w u} \<times> UNIV)"
proof (rule inj_onI)
  fix p q
  assume p: "p \<in> {..<canvas_w u} \<times> UNIV" and q: "q \<in> {..<canvas_w u} \<times> UNIV"
    and e: "cell_of u p = cell_of u q"
  obtain x y x' y' where pq: "p = (x, y)" "q = (x', y')" by fastforce
  have x: "x < canvas_w u" "x' < canvas_w u" using p q pq by auto
  have w8: "canvas_w u = 8 * (canvas_w u div 8)" by (simp add: canvas_w_def)
  have dm: "a = a' \<and> b = b'" if "a * n + b = a' * n + b'" "b < n" "b' < n" for a b a' b' n :: nat
  proof -
    have "(a * n + b) div n = a" using that(2) by simp
    moreover have "(a' * n + b') div n = a'" using that(3) by simp
    ultimately have "a = a'" using that(1) by simp
    with that(1) show ?thesis by simp
  qed
  show "p = q"
  proof (cases "ll_hvline u")
    case LL_Vertical_Top_Lsb
    with e pq have "y div 8 * canvas_w u + x = y' div 8 * canvas_w u + x'" "y mod 8 = y' mod 8"
      by (simp_all add: cell_of_def)
    with dm [OF this(1) x] have "x = x'" "y div 8 = y' div 8" "y mod 8 = y' mod 8" by auto
    with pq show ?thesis using div8_mod8_eq [of y y'] by simp
  next
    case LL_Horizontal_Right_Lsb
    with e pq have c: "y * (canvas_w u div 8) + x div 8 = y' * (canvas_w u div 8) + x' div 8"
      "7 - x mod 8 = 7 - x' mod 8" by (simp_all add: cell_of_def)
    have "x div 8 < canvas_w u div 8" "x' div 8 < canvas_w u div 8" using x w8 by auto
    with dm [OF c(1)] have "y = y'" "x div 8 = x' div 8" by auto
    moreover have "x mod 8 = x' mod 8"
      using c(2) mod_less_divisor [of 8 x] mod_less_divisor [of 8 x'] by linarith
    ultimately show ?thesis using pq div8_mod8_eq [of x x'] by simp
  qed
qed

lemma cell_of_bound:
  assumes "canvas_ok u" and "p \<in> canvas_area u"
  shows "fst (cell_of u p) < length (tile_buf u)" and "snd (cell_of u p) < 8"
proof -
  obtain x y where p: "p = (x, y)" "x < canvas_w u" "y < canvas_h u"
    using assms(2) by (auto simp: canvas_area_def)
  define w h where "w = unat (tile_width (display_info u))" and "h = unat (tile_buf_height u)"
  have len: "length (tile_buf u) = 8 * w * h"
    using assms(1) by (simp add: canvas_ok_def canvas_w_def canvas_h_def w_def h_def)
  have xy: "x < 8 * w" "y < 8 * h" using p by (simp_all add: canvas_w_def canvas_h_def w_def h_def)
  have "y div 8 * (8 * w) + x < 8 * w * h"
  proof -
    have "Suc (y div 8) \<le> h" using xy by auto
    then have "Suc (y div 8) * (8 * w) \<le> h * (8 * w)" by (rule mult_le_mono1)
    with xy show ?thesis by (simp add: ac_simps)
  qed
  moreover have "y * w + x div 8 < 8 * w * h"
  proof -
    have "Suc y \<le> 8 * h" using xy by auto
    then have "Suc y * w \<le> 8 * h * w" by (rule mult_le_mono1)
    moreover have "x div 8 < w" using xy by auto
    ultimately show ?thesis by (simp add: ac_simps)
  qed
  moreover have "7 - x mod 8 < (8 :: nat)" by linarith
  ultimately show "fst (cell_of u p) < length (tile_buf u)" and "snd (cell_of u p) < 8"
    unfolding p(1) cell_of_def len
    by (simp_all add: canvas_w_def flip: w_def split: ll_hvline_fn.split)
qed

lemma painted_pixels:
  assumes ok: "canvas_ok u" and S: "S \<subseteq> canvas_area u"
    and p: "painted color (cell_of u ` S) (tile_buf u) buf" and area: "q \<in> canvas_area u"
  shows "pixel (u\<lparr>tile_buf := buf\<rparr>) q = paint_on color S (pixel u) q"
proof -
  have "cell_of (u\<lparr>tile_buf := buf\<rparr>) = cell_of u"
    unfolding cell_of_def by (simp cong: ll_hvline_fn.case_cong)
  then have "pixel (u\<lparr>tile_buf := buf\<rparr>) q = bit (buf ! fst (cell_of u q)) (snd (cell_of u q))"
    by (simp add: pixel_def)
  also have "\<dots> = (if cell_of u q \<in> cell_of u ` S then paint color (pixel u q) else pixel u q)"
    using p cell_of_bound(2) [OF ok area] by (simp add: painted_def pixel_def)
  also have "cell_of u q \<in> cell_of u ` S \<longleftrightarrow> q \<in> S"
    using cell_of_inj [of u] S area unfolding canvas_area_def
    by (auto simp: inj_on_def) (blast+)?
  finally show ?thesis by (simp add: paint_on_def)
qed

definition seg_pt :: "u8 \<Rightarrow> nat \<Rightarrow> nat \<Rightarrow> nat \<Rightarrow> nat \<times> nat" where
  "seg_pt dir x y k = (if dir = 0 then (x + k, y) else (x, y + k))"

lemma segment_points: "segment dir x y n = seg_pt dir x y ` {0..<0 + n}"
proof (rule set_eqI)
  fix p
  show "p \<in> segment dir x y n \<longleftrightarrow> p \<in> seg_pt dir x y ` {0..<0 + n}"
    by (cases p) (auto simp: segment_def seg_pt_def image_iff intro: bexI [of _ "fst p - x"] bexI [of _ "snd p - y"])
qed

lemma segment_cells:
  assumes ok: "canvas_ok u" and seg: "segment dir x y n \<subseteq> canvas_area u"
    and c: "\<And>k. c k = cell_of u (seg_pt dir x y k)"
  shows "inj_on c {0..<0 + n}" and "\<forall>k \<in> {0..<0 + n}. fst (c k) < length (tile_buf u)"
    and "c ` {0..<0 + n} = cell_of u ` segment dir x y n"
proof -
  have "inj_on (cell_of u) (seg_pt dir x y ` {0..<0 + n})"
    using seg unfolding segment_points canvas_area_def
    by (intro inj_on_subset [OF cell_of_inj [of u]]) auto
  moreover have "inj_on (seg_pt dir x y) {0..<0 + n}" by (auto simp: inj_on_def seg_pt_def)
  moreover have e: "c = cell_of u \<circ> seg_pt dir x y" using c by auto
  ultimately show "inj_on c {0..<0 + n}" by (simp add: comp_inj_on)
  show "c ` {0..<0 + n} = cell_of u ` segment dir x y n"
    unfolding segment_points e by (simp add: image_comp)
  show "\<forall>k \<in> {0..<0 + n}. fst (c k) < length (tile_buf u)"
    using seg cell_of_bound(1) [OF ok] unfolding segment_points c by blast
qed

lemma unat_and_7: "unat ((x :: u8) AND 7) = unat x mod 8"
  by (simp add: and_7 take_bit_eq_mod unat_mod_distrib)

lemma and_7_of_nat: "(x :: u8) AND 7 = of_nat (unat x mod 8)"
  by (simp flip: unat_and_7)

lemma and_not_7: "(z :: u16) AND NOT 7 = push_bit 3 (drop_bit 3 z)"
proof -
  have "(7 :: u16) = mask 3" by (simp add: mask_eq_exp_minus_1)
  moreover have "z AND NOT (mask 3) = push_bit 3 (drop_bit 3 z)"
    by (rule bit_word_eqI) (auto simp: bit_simps)
  ultimately show ?thesis by simp
qed

lemma unat_and_not_7: "unat ((ucast (y :: u8) :: u16) AND NOT 7) = unat y div 8 * 8"
proof -
  have d: "unat (drop_bit 3 (ucast y :: u16)) = unat y div 8"
    by (simp add: drop_bit_eq_div unat_div_distrib)
  have "unat y div 8 * 8 < 65536" using unat_u8_less [of y] by linarith
  then show ?thesis
    unfolding and_not_7 push_bit_eq_mult unat_word_ariths d by simp
qed

lemma unat_tile_offset:
  assumes "unat y div 8 * 8 * unat tw < 65536"
  shows "unat (((ucast (y :: u8) :: u16) AND NOT 7) * ucast (tw :: u8)) = unat y div 8 * (8 * unat tw)"
  using assms unfolding unat_word_ariths unat_and_not_7 by (simp add: mult.assoc)

lemma unat_u8_le: "unat (x :: u8) \<le> 255"
  using unat_u8_less [of x] by linarith

lemma unat_tile_offset_canvas:
  assumes "canvas_ok u"
  shows "unat (((ucast (y :: u8) :: u16) AND NOT 7) * ucast (tile_width (display_info u))) = unat y div 8 * canvas_w u"
proof -
  define w where "w = unat (tile_width (display_info u))"
  have w: "w < 32" using assms by (simp add: canvas_w_def w_def canvas_ok_def)
  have "unat y div 8 * 8 \<le> 255" using unat_u8_le [of y] by linarith
  then have "unat y div 8 * 8 * w \<le> 255 * 31" using w by (intro mult_le_mono) auto
  then have "unat y div 8 * 8 * unat (tile_width (display_info u)) < 65536" unfolding w_def by linarith
  from unat_tile_offset [OF this] show ?thesis unfolding canvas_w_def .
qed

lemma ll_vertical_paints:
  assumes ok: "canvas_ok u" and ll: "ll_hvline u = LL_Vertical_Top_Lsb" and "len \<noteq> 0"
    and seg: "segment dir (unat x) (unat y) (unat len) \<subseteq> canvas_area u"
  shows "\<exists>buf. u8g2_ll_hvline_vertical_top_lsb u x y len dir = Some (u\<lparr>tile_buf := buf\<rparr>) \<and>
    painted (draw_color u) (cell_of u ` segment dir (unat x) (unat y) (unat len)) (tile_buf u) buf"
proof -
  note off = unat_tile_offset_canvas [OF ok, of y]
  have bw: "unat (pixel_buf_width u) = canvas_w u"
    using ok by (simp add: canvas_ok_def unat_of_nat)
  let ?om = "or_of (draw_color u) (unat y mod 8)" and ?xm = "xor_of (draw_color u) (unat y mod 8)"
  have masks: "(if draw_color u \<le> 1 then push_bit (unat (y AND 7)) 1 else 0) = ?om"
    "(if draw_color u \<noteq> 1 then push_bit (unat (y AND 7)) 1 else 0) = ?xm"
    by (simp_all add: or_of_def xor_of_def unat_and_7)
  show ?thesis
  proof (cases "dir = 0")
    case True
    let ?c = "\<lambda>k. (unat y div 8 * canvas_w u + unat x + k, unat y mod 8)"
    have c: "\<And>k. ?c k = cell_of u (seg_pt dir (unat x) (unat y) k)"
      using True ll by (simp add: cell_of_def seg_pt_def)
    note sc = segment_cells [OF ok seg c]
    from hl.run [OF assms(3) sc(1,2), of "draw_color u"] obtain buf where
      "hloop (tile_buf u) (unat y div 8 * canvas_w u + unat x + 0) ?om ?xm len = Some buf"
      "painted (draw_color u) (?c ` {0..<0 + unat len}) (tile_buf u) buf" by blast
    moreover from this(1) have "u8g2_ll_hvline_vertical_top_lsb u x y len dir = Some (u\<lparr>tile_buf := buf\<rparr>)"
      using True unfolding u8g2_ll_hvline_vertical_top_lsb_def Let_def off masks by (simp)
    ultimately show ?thesis unfolding sc(3) by blast
  next
    case False
    let ?c = "\<lambda>k. (unat x + (unat y + k) div 8 * unat (pixel_buf_width u), (unat y + k) mod 8)"
    have c: "\<And>k. ?c k = cell_of u (seg_pt dir (unat x) (unat y) k)"
      using False ll by (simp add: cell_of_def seg_pt_def bw)
    note sc = segment_cells [OF ok seg c]
    from vl.run [OF assms(3) sc(1,2), of "draw_color u"] obtain buf where
      "vloop (draw_color u) (pixel_buf_width u) (tile_buf u)
         (unat x + (unat y + 0) div 8 * unat (pixel_buf_width u)) (of_nat ((unat y + 0) mod 8))
         (or_of (draw_color u) ((unat y + 0) mod 8)) (xor_of (draw_color u) ((unat y + 0) mod 8)) len = Some buf"
      "painted (draw_color u) (?c ` {0..<0 + unat len}) (tile_buf u) buf" by blast
    moreover from this(1) have "u8g2_ll_hvline_vertical_top_lsb u x y len dir = Some (u\<lparr>tile_buf := buf\<rparr>)"
      using False unfolding u8g2_ll_hvline_vertical_top_lsb_def Let_def off masks by (simp add: bw and_7_of_nat [of y] add.commute)
    ultimately show ?thesis unfolding sc(3) by blast
  qed
qed

lemma unat_pixel_offset:
  assumes "unat y * unat tw + unat x div 8 < 65536"
  shows "unat (ucast (y :: u8) * ucast (tw :: u8) + ucast (drop_bit 3 (x :: u8)) :: u16) =
    unat y * unat tw + unat x div 8"
proof -
  have "unat x div 8 < 256" using unat_u8_less [of x] by linarith
  with assms show ?thesis by (simp add: unat_word_ariths drop_bit_eq_div unat_div_distrib)
qed

lemma drop_bit_128: "k < 8 \<Longrightarrow> drop_bit k (128 :: u8) = pbit (7 - k)"
proof -
  assume k: "k < 8"
  have "drop_bit k (pbit 7) = pbit (7 - k)"
    using k by (intro bit_word_eqI) (auto simp: bit_pbit bit_simps)
  then show ?thesis by (simp add: pbit_7)
qed

lemma unat_pixel_offset_canvas:
  assumes "canvas_ok u"
  shows "unat (ucast (y :: u8) * ucast (tile_width (display_info u)) + ucast (drop_bit 3 (x :: u8)) :: u16) =
    unat y * (canvas_w u div 8) + unat x div 8"
proof -
  define w where "w = unat (tile_width (display_info u))"
  have w: "canvas_w u div 8 = w" "w < 32" using assms by (simp_all add: canvas_w_def w_def canvas_ok_def)
  have "unat y * w \<le> 255 * 31" using w(2) unat_u8_le [of y] by (intro mult_le_mono) auto
  moreover have "unat x div 8 < 256" using unat_u8_less [of x] by linarith
  ultimately have "unat y * unat (tile_width (display_info u)) + unat x div 8 < 65536"
    unfolding w_def by linarith
  from unat_pixel_offset [OF this] show ?thesis unfolding w(1) unfolding w_def .
qed

lemma ll_horizontal_paints:
  assumes ok: "canvas_ok u" and ll: "ll_hvline u = LL_Horizontal_Right_Lsb" and "len \<noteq> 0"
    and seg: "segment dir (unat x) (unat y) (unat len) \<subseteq> canvas_area u"
  shows "\<exists>buf. u8g2_ll_hvline_horizontal_right_lsb u x y len dir = Some (u\<lparr>tile_buf := buf\<rparr>) \<and>
    painted (draw_color u) (cell_of u ` segment dir (unat x) (unat y) (unat len)) (tile_buf u) buf"
proof -
  define w where "w = canvas_w u div 8"
  note off = unat_pixel_offset_canvas [OF ok, of y x, folded w_def]
  have msk: "drop_bit (unat (x AND 7)) 128 = pbit (7 - unat x mod 8)"
    by (simp add: unat_and_7 drop_bit_128)
  show ?thesis
  proof (cases "dir = 0")
    case True
    let ?c = "\<lambda>k. (unat y * w + (unat x + k) div 8, 7 - (unat x + k) mod 8)"
    have c: "\<And>k. ?c k = cell_of u (seg_pt dir (unat x) (unat y) k)"
      using True ll by (simp add: cell_of_def seg_pt_def w_def)
    note sc = segment_cells [OF ok seg c]
    from hr.run [OF assms(3) sc(1,2), of "draw_color u"] obtain buf where
      "hloop_right (draw_color u) (tile_buf u) (unat y * w + (unat x + 0) div 8)
         (pbit (7 - (unat x + 0) mod 8)) len = Some buf"
      "painted (draw_color u) (?c ` {0..<0 + unat len}) (tile_buf u) buf" by blast
    moreover from this(1) have "u8g2_ll_hvline_horizontal_right_lsb u x y len dir = Some (u\<lparr>tile_buf := buf\<rparr>)"
      using True unfolding u8g2_ll_hvline_horizontal_right_lsb_def Let_def off msk by (simp)
    ultimately show ?thesis unfolding sc(3) by blast
  next
    case False
    let ?c = "\<lambda>k. (unat y * w + unat x div 8 + k * unat (tile_width (display_info u)), 7 - unat x mod 8)"
    have c: "\<And>k. ?c k = cell_of u (seg_pt dir (unat x) (unat y) k)"
      using False ll by (simp add: cell_of_def seg_pt_def w_def canvas_w_def algebra_simps)
    note sc = segment_cells [OF ok seg c]
    from vr.run [OF assms(3) sc(1,2), of "draw_color u"] obtain buf where
      "vloop_right (draw_color u) (tile_width (display_info u)) (tile_buf u)
         (unat y * w + unat x div 8 + 0 * unat (tile_width (display_info u)))
         (pbit (7 - unat x mod 8)) len = Some buf"
      "painted (draw_color u) (?c ` {0..<0 + unat len}) (tile_buf u) buf" by blast
    moreover from this(1) have "u8g2_ll_hvline_horizontal_right_lsb u x y len dir = Some (u\<lparr>tile_buf := buf\<rparr>)"
      using False unfolding u8g2_ll_hvline_horizontal_right_lsb_def Let_def off msk by (simp)
    ultimately show ?thesis unfolding sc(3) by blast
  qed
qed

lemma ll_hvline_paints:
  assumes ok: "canvas_ok u" and "len \<noteq> 0"
    and seg: "segment dir (unat x) (unat y) (unat len) \<subseteq> canvas_area u"
  shows "\<exists>buf. u8g2_ll_hvline u x y len dir = Some (u\<lparr>tile_buf := buf\<rparr>) \<and>
    length buf = length (tile_buf u) \<and>
    (\<forall>p \<in> canvas_area u. pixel (u\<lparr>tile_buf := buf\<rparr>) p =
       paint_on (draw_color u) (segment dir (unat x) (unat y) (unat len)) (pixel u) p)"
proof -
  obtain buf where r: "u8g2_ll_hvline u x y len dir = Some (u\<lparr>tile_buf := buf\<rparr>)"
    and p: "painted (draw_color u) (cell_of u ` segment dir (unat x) (unat y) (unat len)) (tile_buf u) buf"
    using ll_vertical_paints [OF ok _ assms(2) seg] ll_horizontal_paints [OF ok _ assms(2) seg]
    by (cases "ll_hvline u") (auto simp: u8g2_ll_hvline_def)
  with painted_pixels [OF ok seg p] show ?thesis by (auto simp: painted_def)
qed

end
