(* ===== verification/U8g2_Canvas.thy ===== *)
theory U8g2_Canvas
  imports U8g2_Lines
begin

text \<open>
  libs/u8g2/csrc: u8g2_intersection.c, u8g2_hvline.c and u8g2_setup.c, the part of the library
  between the drawing commands and the tile buffer: clipping to the user window, the four
  rotations and the mirror, and the windows they compute from the page and the clip window.
\<close>

section \<open>Intersections\<close>

definition u8g2_is_intersection_decision_tree :: "u8 \<Rightarrow> u8 \<Rightarrow> u8 \<Rightarrow> u8 \<Rightarrow> u8" where
  "u8g2_is_intersection_decision_tree a0 a1 v0 v1 =
     (if v0 < a1 then
        (if v1 > a0 then 1 else if v0 > v1 then 1 else 0)
      else
        (if v1 > a0 then (if v0 > v1 then 1 else 0) else 0))"

definition u8g2_IsIntersection :: "u8g2 \<Rightarrow> u8 \<Rightarrow> u8 \<Rightarrow> u8 \<Rightarrow> u8 \<Rightarrow> u8" where
  "u8g2_IsIntersection u x0 y0 x1 y1 =
     (if u8g2_is_intersection_decision_tree (user_y0 u) (user_y1 u) y0 y1 = 0 then 0
      else u8g2_is_intersection_decision_tree (user_x0 u) (user_x1 u) x0 x1)"

section \<open>Setup, pages and clip window\<close>

definition u8g2_update_dimension_common :: "u8g2 \<Rightarrow> u8g2" where
  "u8g2_update_dimension_common u =
     (let di = display_info u;
          u = u\<lparr>pixel_buf_height := tile_buf_height u * 8\<rparr>;
          t = tile_width di;
          t = (if t \<ge> 32 then 31 else t);
          u = u\<lparr>pixel_buf_width := t * 8\<rparr>;
          u = u\<lparr>pixel_curr_row := tile_curr_row u * 8\<rparr>;
          t = tile_buf_height u;
          t = (if unat t + unat (tile_curr_row u) > unat (tile_height di)
               then tile_height di - tile_curr_row u else t);
          t = t * 8;
          u = u\<lparr>buf_y0 := pixel_curr_row u\<rparr>;
          u = u\<lparr>buf_y1 := buf_y0 u + t\<rparr>;
          u = u\<lparr>width := 240\<rparr>;
          u = (if pixel_width di \<le> 240 then u\<lparr>width := ucast (pixel_width di)\<rparr> else u)
      in u\<lparr>height := ucast (pixel_height di)\<rparr>)"

definition u8g2_apply_clip_window :: "u8g2 \<Rightarrow> u8g2" where
  "u8g2_apply_clip_window u =
     (if u8g2_IsIntersection u (clip_x0 u) (clip_y0 u) (clip_x1 u) (clip_y1 u) = 0 then
        u\<lparr>is_page_clip_window_intersection := 0\<rparr>
      else
        (let u = u\<lparr>is_page_clip_window_intersection := 1\<rparr>;
             u = (if user_x0 u < clip_x0 u then u\<lparr>user_x0 := clip_x0 u\<rparr> else u);
             u = (if user_x1 u > clip_x1 u then u\<lparr>user_x1 := clip_x1 u\<rparr> else u);
             u = (if user_y0 u < clip_y0 u then u\<lparr>user_y0 := clip_y0 u\<rparr> else u)
         in if user_y1 u > clip_y1 u then u\<lparr>user_y1 := clip_y1 u\<rparr> else u))"

definition u8g2_update_dimension_r0 :: "u8g2 \<Rightarrow> u8g2" where
  "u8g2_update_dimension_r0 u = u8g2_update_dimension_common u"

definition u8g2_update_page_win_r0 :: "u8g2 \<Rightarrow> u8g2" where
  "u8g2_update_page_win_r0 u =
     u8g2_apply_clip_window
       (u\<lparr>user_x0 := 0, user_x1 := width u, user_y0 := buf_y0 u, user_y1 := buf_y1 u\<rparr>)"

definition u8g2_update_dimension_r1 :: "u8g2 \<Rightarrow> u8g2" where
  "u8g2_update_dimension_r1 u =
     (u8g2_update_dimension_common u)
       \<lparr>height := ucast (pixel_width (display_info u)), width := ucast (pixel_height (display_info u))\<rparr>"

definition u8g2_update_page_win_r1 :: "u8g2 \<Rightarrow> u8g2" where
  "u8g2_update_page_win_r1 u =
     u8g2_apply_clip_window
       (u\<lparr>user_x0 := buf_y0 u, user_x1 := buf_y1 u, user_y0 := 0, user_y1 := height u\<rparr>)"

definition u8g2_update_dimension_r2 :: "u8g2 \<Rightarrow> u8g2" where
  "u8g2_update_dimension_r2 u = u8g2_update_dimension_common u"

definition u8g2_update_page_win_r2 :: "u8g2 \<Rightarrow> u8g2" where
  "u8g2_update_page_win_r2 u =
     (let u = u\<lparr>user_x0 := 0, user_x1 := width u, user_y0 := 0\<rparr>;
          u = (if height u \<ge> buf_y1 u then u\<lparr>user_y0 := height u - buf_y1 u\<rparr> else u)
      in u8g2_apply_clip_window (u\<lparr>user_y1 := height u - buf_y0 u\<rparr>))"

definition u8g2_update_dimension_r3 :: "u8g2 \<Rightarrow> u8g2" where
  "u8g2_update_dimension_r3 u =
     (u8g2_update_dimension_common u)
       \<lparr>height := ucast (pixel_width (display_info u)), width := ucast (pixel_height (display_info u))\<rparr>"

definition u8g2_update_page_win_r3 :: "u8g2 \<Rightarrow> u8g2" where
  "u8g2_update_page_win_r3 u =
     (let u = u\<lparr>user_x0 := 0\<rparr>;
          u = (if width u \<ge> buf_y1 u then u\<lparr>user_x0 := width u - buf_y1 u\<rparr> else u)
      in u8g2_apply_clip_window
           (u\<lparr>user_x1 := width u - buf_y0 u, user_y0 := 0, user_y1 := height u\<rparr>))"

text \<open>The callback tables \<open>u8g2_cb_r0\<close> to \<open>u8g2_cb_r3\<close> and \<open>u8g2_cb_mirror\<close>.\<close>

definition update_dimension :: "u8g2 \<Rightarrow> u8g2" where
  "update_dimension u =
     (case cb u of
        U8G2_R0 \<Rightarrow> u8g2_update_dimension_r0 u
      | U8G2_R1 \<Rightarrow> u8g2_update_dimension_r1 u
      | U8G2_R2 \<Rightarrow> u8g2_update_dimension_r2 u
      | U8G2_R3 \<Rightarrow> u8g2_update_dimension_r3 u
      | U8G2_MIRROR \<Rightarrow> u8g2_update_dimension_r0 u)"

definition update_page_win :: "u8g2 \<Rightarrow> u8g2" where
  "update_page_win u =
     (case cb u of
        U8G2_R0 \<Rightarrow> u8g2_update_page_win_r0 u
      | U8G2_R1 \<Rightarrow> u8g2_update_page_win_r1 u
      | U8G2_R2 \<Rightarrow> u8g2_update_page_win_r2 u
      | U8G2_R3 \<Rightarrow> u8g2_update_page_win_r3 u
      | U8G2_MIRROR \<Rightarrow> u8g2_update_page_win_r0 u)"

definition u8g2_SetMaxClipWindow :: "u8g2 \<Rightarrow> u8g2" where
  "u8g2_SetMaxClipWindow u =
     update_page_win (u\<lparr>clip_x0 := 0, clip_y0 := 0, clip_x1 := NOT 0, clip_y1 := NOT 0\<rparr>)"

definition u8g2_SetClipWindow :: "u8 \<Rightarrow> u8 \<Rightarrow> u8 \<Rightarrow> u8 \<Rightarrow> u8g2 \<Rightarrow> u8g2" where
  "u8g2_SetClipWindow x0 y0 x1 y1 u =
     update_page_win (u\<lparr>clip_x0 := x0, clip_y0 := y0, clip_x1 := x1, clip_y1 := y1\<rparr>)"

definition u8g2_SetupBuffer :: "u8 list \<Rightarrow> u8 \<Rightarrow> ll_hvline_fn \<Rightarrow> u8g2_cb \<Rightarrow> u8g2 \<Rightarrow> u8g2" where
  "u8g2_SetupBuffer buf buf_height ll_hvline_cb u8g2_cb u =
     (let u = u\<lparr>font := None, ll_hvline := ll_hvline_cb, tile_buf := buf, tile_buf_height := buf_height,
            tile_curr_row := 0, font_decode := (font_decode u)\<lparr>is_transparent := 0\<rparr>,
            bitmap_transparency := 0, draw_color := 1, is_auto_page_clear := 1, cb := u8g2_cb\<rparr>;
          u = update_dimension u;
          u = u8g2_SetMaxClipWindow u;
          u = u\<lparr>font_calc_vref := Vref_Font\<rparr>
      in u\<lparr>font_decode := (font_decode u)\<lparr>fd_dir := 0\<rparr>\<rparr>)"

definition u8g2_SetDisplayRotation :: "u8g2_cb \<Rightarrow> u8g2 \<Rightarrow> u8g2" where
  "u8g2_SetDisplayRotation u8g2_cb u = update_page_win (update_dimension (u\<lparr>cb := u8g2_cb\<rparr>))"

definition u8g2_SetBufferCurrTileRow :: "u8 \<Rightarrow> u8g2 \<Rightarrow> u8g2" where
  "u8g2_SetBufferCurrTileRow row u = update_page_win (update_dimension (u\<lparr>tile_curr_row := row\<rparr>))"

text \<open>u8g2_d_setup.c and u8g2_d_memory.c: the firmware's display, with a full buffer of 16 by 8 tiles.\<close>

definition u8g2_m_16_8_f :: "u8 list \<times> u8" where
  "u8g2_m_16_8_f = (replicate 1024 0, 8)"

definition u8g2_Setup_sh1106_i2c_128x64_winstar_f :: "u8g2_cb \<Rightarrow> u8g2 \<Rightarrow> u8g2" where
  "u8g2_Setup_sh1106_i2c_128x64_winstar_f rotation u =
     (let u = u8x8_SetupDefaults u;
          u = u8x8_d_helper_display_setup_memory u8x8_sh1106_128x64_noname_display_info u;
          (buf, h) = u8g2_m_16_8_f
      in u8g2_SetupBuffer buf h LL_Vertical_Top_Lsb rotation u)"

section \<open>Clipping and drawing lines\<close>

definition u8g2_clip_intersection2 :: "u8 \<Rightarrow> u8 \<Rightarrow> u8 \<Rightarrow> u8 \<Rightarrow> (u8 \<times> u8) option" where
  "u8g2_clip_intersection2 a len c d =
     (let b = a + len;
          (a, b) = (if a > b then (if a < d then (a, d - 1) else (c, b)) else (a, b))
      in if a \<ge> d then None
         else if b \<le> c then None
         else
           (let a = (if a < c then c else a);
                b = (if b > d then d else b)
            in Some (a, b - a)))"

definition u8g2_draw_hv_line_2dir :: "u8g2 \<Rightarrow> u8 \<Rightarrow> u8 \<Rightarrow> u8 \<Rightarrow> u8 \<Rightarrow> u8g2 option" where
  "u8g2_draw_hv_line_2dir u x y len dir = u8g2_ll_hvline u x (y - pixel_curr_row u) len dir"

definition u8g2_draw_l90_r0 :: "u8g2 \<Rightarrow> u8 \<Rightarrow> u8 \<Rightarrow> u8 \<Rightarrow> u8 \<Rightarrow> u8g2 option" where
  "u8g2_draw_l90_r0 u x y len dir = u8g2_draw_hv_line_2dir u x y len dir"

definition u8g2_draw_l90_mirrorr_r0 :: "u8g2 \<Rightarrow> u8 \<Rightarrow> u8 \<Rightarrow> u8 \<Rightarrow> u8 \<Rightarrow> u8g2 option" where
  "u8g2_draw_l90_mirrorr_r0 u x y len dir =
     (let xx = width u - x;
          xx = (if dir AND 1 = 0 then xx - len else xx - 1)
      in u8g2_draw_hv_line_2dir u xx y len dir)"

definition u8g2_draw_l90_r1 :: "u8g2 \<Rightarrow> u8 \<Rightarrow> u8 \<Rightarrow> u8 \<Rightarrow> u8 \<Rightarrow> u8g2 option" where
  "u8g2_draw_l90_r1 u x y len dir =
     (let yy = x;
          xx = height u - y;
          xx = xx - 1;
          dir = dir + 1;
          (xx, dir) = (if dir = 2 then (xx - len + 1, 0) else (xx, dir))
      in u8g2_draw_hv_line_2dir u xx yy len dir)"

definition u8g2_draw_l90_r2 :: "u8g2 \<Rightarrow> u8 \<Rightarrow> u8 \<Rightarrow> u8 \<Rightarrow> u8 \<Rightarrow> u8g2 option" where
  "u8g2_draw_l90_r2 u x y len dir =
     (let yy = height u - y;
          xx = width u - x;
          (xx, yy) =
            (if dir = 0 then (xx - len, yy - 1) else if dir = 1 then (xx - 1, yy - len) else (xx, yy))
      in u8g2_draw_hv_line_2dir u xx yy len dir)"

definition u8g2_draw_l90_r3 :: "u8g2 \<Rightarrow> u8 \<Rightarrow> u8 \<Rightarrow> u8 \<Rightarrow> u8 \<Rightarrow> u8g2 option" where
  "u8g2_draw_l90_r3 u x y len dir =
     (let xx = y;
          yy = width u - x;
          (yy, dir) = (if dir = 0 then (yy - 1 - len + 1, 1) else (yy - 1, 0))
      in u8g2_draw_hv_line_2dir u xx yy len dir)"

definition draw_l90 :: "u8g2 \<Rightarrow> u8 \<Rightarrow> u8 \<Rightarrow> u8 \<Rightarrow> u8 \<Rightarrow> u8g2 option" where
  "draw_l90 u =
     (case cb u of
        U8G2_R0 \<Rightarrow> u8g2_draw_l90_r0 u
      | U8G2_R1 \<Rightarrow> u8g2_draw_l90_r1 u
      | U8G2_R2 \<Rightarrow> u8g2_draw_l90_r2 u
      | U8G2_R3 \<Rightarrow> u8g2_draw_l90_r3 u
      | U8G2_MIRROR \<Rightarrow> u8g2_draw_l90_mirrorr_r0 u)"

definition u8g2_DrawHVLine :: "u8g2 \<Rightarrow> u8 \<Rightarrow> u8 \<Rightarrow> u8 \<Rightarrow> u8 \<Rightarrow> u8g2 option" where
  "u8g2_DrawHVLine u x y len dir =
     (if is_page_clip_window_intersection u \<noteq> 0 \<and> len \<noteq> 0 then
        (let (x, y) =
           (if len > 1 then
              (if dir = 2 then (x - len + 1, y) else if dir = 3 then (x, y - len + 1) else (x, y))
            else (x, y));
             dir = dir AND 1
         in if dir = 0 then
              (if y < user_y0 u then Some u
               else if y \<ge> user_y1 u then Some u
               else
                 (case u8g2_clip_intersection2 x len (user_x0 u) (user_x1 u) of
                    None \<Rightarrow> Some u
                  | Some (x, len) \<Rightarrow> draw_l90 u x y len dir))
            else
              (if x < user_x0 u then Some u
               else if x \<ge> user_x1 u then Some u
               else
                 (case u8g2_clip_intersection2 y len (user_y0 u) (user_y1 u) of
                    None \<Rightarrow> Some u
                  | Some (y, len) \<Rightarrow> draw_l90 u x y len dir)))
      else Some u)"

definition u8g2_DrawHLine :: "u8g2 \<Rightarrow> u8 \<Rightarrow> u8 \<Rightarrow> u8 \<Rightarrow> u8g2 option" where
  "u8g2_DrawHLine u x y len = u8g2_DrawHVLine u x y len 0"

definition u8g2_DrawVLine :: "u8g2 \<Rightarrow> u8 \<Rightarrow> u8 \<Rightarrow> u8 \<Rightarrow> u8g2 option" where
  "u8g2_DrawVLine u x y len = u8g2_DrawHVLine u x y len 1"

definition u8g2_DrawPixel :: "u8g2 \<Rightarrow> u8 \<Rightarrow> u8 \<Rightarrow> u8g2 option" where
  "u8g2_DrawPixel u x y =
     (if y < user_y0 u then Some u
      else if y \<ge> user_y1 u then Some u
      else if x < user_x0 u then Some u
      else if x \<ge> user_x1 u then Some u
      else u8g2_DrawHVLine u x y 1 0)"

definition u8g2_SetDrawColor :: "u8 \<Rightarrow> u8g2 \<Rightarrow> u8g2" where
  "u8g2_SetDrawColor color u =
     (let u = u\<lparr>draw_color := color\<rparr> in if color \<ge> 3 then u\<lparr>draw_color := 1\<rparr> else u)"

section \<open>What clipping computes\<close>

text \<open>A range that runs past 255 stands for one that starts at a negative position, as callers use
  it; the start of a range, read that way. Such a range with a start inside the window is the one
  the clipping cannot tell apart.\<close>

definition range_start :: "u8 \<Rightarrow> u8 \<Rightarrow> int" where
  "range_start a len = (if 256 \<le> uint a + uint len then uint a - 256 else uint a)"

definition range_clear :: "u8 \<Rightarrow> u8 \<Rightarrow> u8 \<Rightarrow> bool" where
  "range_clear a len d = (uint a + uint len < 256 \<or> d \<le> a)"

lemma clip_cases:
  assumes "len \<noteq> 0" and "c < d" and "range_clear a len d"
  shows "u8g2_clip_intersection2 a len c d =
    (if range_start a len < uint d \<and> uint c < range_start a len + uint len
     then Some (word_of_int (max (range_start a len) (uint c)),
       word_of_int (min (range_start a len + uint len) (uint d) - max (range_start a len) (uint c)))
     else None)"
proof -
  note r = uint_u8 [of a] uint_u8 [of len] uint_u8 [of c] uint_u8 [of d]
  have "uint len \<noteq> 0" using assms(1) by (simp add: word_uint_eq_iff)
  then have len: "0 < uint len" using r by linarith
  have cd: "uint c < uint d" using assms(2) by (simp add: word_less_def)
  have word: "word_of_int (uint x) = x" "word_of_int (uint x - uint y) = x - y" for x y :: u8
    by simp_all
  show ?thesis
  proof (cases "uint a + uint len < 256")
    case True
    then have b: "uint (a + len) = uint a + uint len" "range_start a len = uint a"
      by (simp_all add: uint_u8_add range_start_def)
    have "\<not> a > a + len" using b len by (simp add: word_less_def)
    then show ?thesis
      using b len cd word [of a] word [of c] word [of d] word(2) [of "a + len"] word(2) [of d]
      by (auto simp: u8g2_clip_intersection2_def Let_def word_le_def word_less_def max_def min_def)
  next
    case False
    then have b: "uint (a + len) = uint a + uint len - 256" "range_start a len = uint a - 256"
      by (simp_all add: uint_u8_add range_start_def)
    have "a > a + len" using b r by (simp add: word_less_def)
    moreover have da: "uint d \<le> uint a" using False assms(3) by (simp add: range_clear_def word_le_def)
    moreover have "\<not> a < d" using da by (simp add: word_less_def)
    ultimately have clip: "u8g2_clip_intersection2 a len c d =
        (if a + len \<le> c then None else Some (c, (if a + len > d then d else a + len) - c))"
      using cd by (auto simp: u8g2_clip_intersection2_def Let_def word_le_def word_less_def)
    have m: "max (range_start a len) (uint c) = uint c" "range_start a len < uint d"
      using b(2) r cd by linarith+
    have e: "range_start a len + uint len = uint (a + len)" using b by simp
    show ?thesis
      unfolding clip m(1) e
      using m(2) word(1) [of c] word(2) [of "a + len" c] word(2) [of d c]
      by (auto simp: word_le_def word_less_def min_def)
  qed
qed

section \<open>The user's view of the buffer\<close>

text \<open>The user window, in user coordinates, and the buffer pixel a user pixel is drawn to.\<close>

definition window :: "u8g2 \<Rightarrow> (int \<times> int) set" where
  "window u = {uint (user_x0 u)..<uint (user_x1 u)} \<times> {uint (user_y0 u)..<uint (user_y1 u)}"

definition rot :: "u8g2 \<Rightarrow> int \<times> int \<Rightarrow> nat \<times> nat" where
  "rot u = (\<lambda>(x, y).
     let w = uint (width u); h = uint (height u); r = uint (pixel_curr_row u) in
     case cb u of
       U8G2_R0 \<Rightarrow> (nat x, nat (y - r))
     | U8G2_R1 \<Rightarrow> (nat (h - 1 - y), nat (x - r))
     | U8G2_R2 \<Rightarrow> (nat (w - 1 - x), nat (h - 1 - y - r))
     | U8G2_R3 \<Rightarrow> (nat y, nat (w - 1 - x - r))
     | U8G2_MIRROR \<Rightarrow> (nat (w - 1 - x), nat (y - r)))"

text \<open>A drawing state whose window is not empty and lies, rotated, inside the buffer.\<close>

definition view_ok :: "u8g2 \<Rightarrow> bool" where
  "view_ok u =
     (canvas_ok u \<and> is_page_clip_window_intersection u \<noteq> 0 \<and>
      user_x0 u < user_x1 u \<and> user_y0 u < user_y1 u \<and>
      (let w = uint (width u); h = uint (height u); r = uint (pixel_curr_row u);
           cw = int (canvas_w u); ch = int (canvas_h u);
           x0 = uint (user_x0 u); x1 = uint (user_x1 u); y0 = uint (user_y0 u); y1 = uint (user_y1 u) in
       case cb u of
         U8G2_R0 \<Rightarrow> x1 \<le> cw \<and> r \<le> y0 \<and> y1 \<le> r + ch
       | U8G2_R1 \<Rightarrow> y1 \<le> h \<and> h \<le> cw \<and> r \<le> x0 \<and> x1 \<le> r + ch
       | U8G2_R2 \<Rightarrow> x1 \<le> w \<and> w \<le> cw \<and> y1 \<le> h \<and> r \<le> h - y1 \<and> h - y0 \<le> r + ch
       | U8G2_R3 \<Rightarrow> y1 \<le> cw \<and> x1 \<le> w \<and> r \<le> w - x1 \<and> w - x0 \<le> r + ch
       | U8G2_MIRROR \<Rightarrow> x1 \<le> w \<and> w \<le> cw \<and> r \<le> y0 \<and> y1 \<le> r + ch))"

definition draws :: "u8g2 \<Rightarrow> (int \<times> int) set \<Rightarrow> u8g2 \<Rightarrow> bool" where
  "draws u S u' =
     (\<exists>buf. u' = u\<lparr>tile_buf := buf\<rparr> \<and> length buf = length (tile_buf u) \<and>
        (\<forall>q \<in> canvas_area u. pixel u' q = paint_on (draw_color u) (rot u ` (S \<inter> window u)) (pixel u) q))"

lemma windowE:
  assumes "p \<in> window u"
  obtains x y where "p = (x, y)" "0 \<le> x" "uint (user_x0 u) \<le> x" "x < uint (user_x1 u)"
    "0 \<le> y" "uint (user_y0 u) \<le> y" "y < uint (user_y1 u)"
  using assms uint_u8(1) [of "user_x0 u"] uint_u8(1) [of "user_y0 u"]
  unfolding window_def by (cases p) (auto intro: that)

text \<open>The inequalities of a proper view.\<close>

lemma view_okD:
  assumes "view_ok u"
  shows "canvas_ok u" "is_page_clip_window_intersection u \<noteq> 0" "user_x0 u < user_x1 u"
    "user_y0 u < user_y1 u"
    "cb u = U8G2_R0 \<Longrightarrow> uint (user_x1 u) \<le> int (canvas_w u) \<and>
       uint (pixel_curr_row u) \<le> uint (user_y0 u) \<and>
       uint (user_y1 u) \<le> uint (pixel_curr_row u) + int (canvas_h u)"
    "cb u = U8G2_R1 \<Longrightarrow> uint (user_y1 u) \<le> uint (height u) \<and> uint (height u) \<le> int (canvas_w u) \<and>
       uint (pixel_curr_row u) \<le> uint (user_x0 u) \<and>
       uint (user_x1 u) \<le> uint (pixel_curr_row u) + int (canvas_h u)"
    "cb u = U8G2_R2 \<Longrightarrow> uint (user_x1 u) \<le> uint (width u) \<and> uint (width u) \<le> int (canvas_w u) \<and>
       uint (user_y1 u) \<le> uint (height u) \<and>
       uint (pixel_curr_row u) \<le> uint (height u) - uint (user_y1 u) \<and>
       uint (height u) - uint (user_y0 u) \<le> uint (pixel_curr_row u) + int (canvas_h u)"
    "cb u = U8G2_R3 \<Longrightarrow> uint (user_y1 u) \<le> int (canvas_w u) \<and> uint (user_x1 u) \<le> uint (width u) \<and>
       uint (pixel_curr_row u) \<le> uint (width u) - uint (user_x1 u) \<and>
       uint (width u) - uint (user_x0 u) \<le> uint (pixel_curr_row u) + int (canvas_h u)"
    "cb u = U8G2_MIRROR \<Longrightarrow> uint (user_x1 u) \<le> uint (width u) \<and> uint (width u) \<le> int (canvas_w u) \<and>
       uint (pixel_curr_row u) \<le> uint (user_y0 u) \<and>
       uint (user_y1 u) \<le> uint (pixel_curr_row u) + int (canvas_h u)"
  using assms by (simp_all add: view_ok_def Let_def)

lemma rot_area:
  assumes ok: "view_ok u" and p: "p \<in> window u"
  shows "rot u p \<in> canvas_area u"
proof -
  from p obtain x y where b: "p = (x, y)" "0 \<le> x" "uint (user_x0 u) \<le> x" "x < uint (user_x1 u)"
    "0 \<le> y" "uint (user_y0 u) \<le> y" "y < uint (user_y1 u)" by (rule windowE)
  note v = view_okD(5-9) [OF ok]
  show ?thesis
    using b v by (cases "cb u") (auto simp: rot_def canvas_area_def Let_def nat_less_iff)
qed

lemma rot_inj:
  assumes ok: "view_ok u"
  shows "inj_on (rot u) (window u)"
proof (rule inj_onI)
  fix p q
  assume e: "rot u p = rot u q" and "p \<in> window u" "q \<in> window u"
  then obtain x y x' y' where b: "p = (x, y)" "0 \<le> x" "uint (user_x0 u) \<le> x" "x < uint (user_x1 u)"
    "0 \<le> y" "uint (user_y0 u) \<le> y" "y < uint (user_y1 u)"
    and c: "q = (x', y')" "0 \<le> x'" "uint (user_x0 u) \<le> x'" "x' < uint (user_x1 u)"
    "0 \<le> y'" "uint (user_y0 u) \<le> y'" "y' < uint (user_y1 u)" by (elim windowE) blast
  note v = view_okD(5-9) [OF ok]
  have n: "nat i = nat j \<Longrightarrow> 0 \<le> i \<Longrightarrow> 0 \<le> j \<Longrightarrow> i = j" for i j by simp
  show "p = q"
    using b c e v by (cases "cb u") (auto simp: rot_def Let_def dest!: n)
qed

definition ipt :: "u8 \<Rightarrow> int \<Rightarrow> int \<Rightarrow> nat \<Rightarrow> int \<times> int" where
  "ipt dir x y k = (if dir = 0 then (x + int k, y) else (x, y + int k))"

definition iseg :: "u8 \<Rightarrow> int \<Rightarrow> int \<Rightarrow> nat \<Rightarrow> (int \<times> int) set" where
  "iseg dir x y n = ipt dir x y ` {..<n}"

lemma image_fwd:
  assumes "\<And>k. k < n \<Longrightarrow> g (ipt dir x y k) = seg_pt dir' X Y k"
  shows "g ` iseg dir x y n = segment dir' X Y n"
  unfolding iseg_def segment_points image_image atLeast0LessThan add_0
  using assms by (intro image_cong) auto

lemma image_rev:
  assumes "\<And>k. k < n \<Longrightarrow> g (ipt dir x y k) = seg_pt dir' X Y (n - 1 - k)"
  shows "g ` iseg dir x y n = segment dir' X Y n"
proof -
  have "g ` iseg dir x y n = (\<lambda>k. seg_pt dir' X Y (n - 1 - k)) ` {..<n}"
    unfolding iseg_def image_image using assms by (intro image_cong) auto
  also have "\<dots> = seg_pt dir' X Y ` ((\<lambda>k. n - 1 - k) ` {..<n})" by (simp add: image_image)
  also have "(\<lambda>k. n - 1 - k) ` {..<n} = {..<n}"
  proof (rule set_eqI)
    fix j
    show "j \<in> (\<lambda>k. n - 1 - k) ` {..<n} \<longleftrightarrow> j \<in> {..<n}"
      by (auto simp: image_iff intro!: bexI [of _ "n - 1 - j"])
  qed
  finally show ?thesis by (simp add: segment_points atLeast0LessThan)
qed

lemma draws_ll:
  assumes ok: "view_ok u" and "len \<noteq> 0" and T: "T \<subseteq> window u"
    and img: "rot u ` T = segment dir (unat x) (unat (y - pixel_curr_row u)) (unat len)"
  shows "\<exists>u'. u8g2_draw_hv_line_2dir u x y len dir = Some u' \<and> draws u T u'"
proof -
  have "segment dir (unat x) (unat (y - pixel_curr_row u)) (unat len) \<subseteq> canvas_area u"
    using rot_area [OF ok] T unfolding img [symmetric] by blast
  moreover have "canvas_ok u" using ok by (simp add: view_ok_def)
  ultimately obtain buf where
    "u8g2_ll_hvline u x (y - pixel_curr_row u) len dir = Some (u\<lparr>tile_buf := buf\<rparr>)"
    "length buf = length (tile_buf u)"
    "\<forall>p \<in> canvas_area u. pixel (u\<lparr>tile_buf := buf\<rparr>) p = paint_on (draw_color u) (rot u ` T) (pixel u) p"
    using ll_hvline_paints [of u len dir x "y - pixel_curr_row u"] assms(2) unfolding img by blast
  moreover have "T \<inter> window u = T" using T by blast
  ultimately show ?thesis unfolding u8g2_draw_hv_line_2dir_def draws_def by auto
qed

section \<open>Rotated lines\<close>

lemma iseg_window:
  assumes "iseg dir x y n \<subseteq> window u" and "0 < n"
  shows "uint (user_x0 u) \<le> x" "uint (user_y0 u) \<le> y"
    "dir = 0 \<Longrightarrow> x + int n \<le> uint (user_x1 u) \<and> y < uint (user_y1 u)"
    "dir \<noteq> 0 \<Longrightarrow> x < uint (user_x1 u) \<and> y + int n \<le> uint (user_y1 u)"
proof -
  have "ipt dir x y k \<in> window u" if "k < n" for k using assms(1) that unfolding iseg_def by blast
  from this [of 0] this [of "n - 1"] assms(2)
  show "uint (user_x0 u) \<le> x" "uint (user_y0 u) \<le> y"
    "dir = 0 \<Longrightarrow> x + int n \<le> uint (user_x1 u) \<and> y < uint (user_y1 u)"
    "dir \<noteq> 0 \<Longrightarrow> x < uint (user_x1 u) \<and> y + int n \<le> uint (user_y1 u)"
    by (cases "dir = 0"; auto simp: ipt_def window_def of_nat_diff)+
qed

lemma image_fwd_u:
  fixes X Y :: u8
  assumes "\<And>k. k < n \<Longrightarrow> g (ipt dir x y k) =
    (if dir' = 0 then (nat (uint X + int k), nat (uint Y)) else (nat (uint X), nat (uint Y + int k)))"
  shows "g ` iseg dir x y n = segment dir' (unat X) (unat Y) n"
  by (rule image_fwd) (simp add: assms seg_pt_def nat_add_distrib)

lemma image_rev_u:
  fixes X Y :: u8
  assumes "\<And>k. k < n \<Longrightarrow> g (ipt dir x y k) =
    (if dir' = 0 then (nat (uint X + int n - 1 - int k), nat (uint Y))
     else (nat (uint X), nat (uint Y + int n - 1 - int k)))"
  shows "g ` iseg dir x y n = segment dir' (unat X) (unat Y) n"
proof (rule image_rev)
  fix k
  assume k: "k < n"
  have "nat (int m + int n - 1 - int k) = m + (n - 1 - k)" for m using k by linarith
  from this [of "unat X"] this [of "unat Y"] show "g (ipt dir x y k) = seg_pt dir' (unat X) (unat Y) (n - 1 - k)"
    unfolding assms [OF k] seg_pt_def by simp
qed

lemma draw_l90_draws:
  assumes ok: "view_ok u" and len: "len \<noteq> 0" and dir: "dir = 0 \<or> dir = 1"
    and win: "iseg dir (uint x) (uint y) (unat len) \<subseteq> window u"
  shows "\<exists>u'. draw_l90 u x y len dir = Some u' \<and> draws u (iseg dir (uint x) (uint y) (unat len)) u'"
proof -
  have n: "0 < unat len" using len by (simp add: unat_gt_0)
  note w = iseg_window [OF win n]
  note v = view_okD(5-9) [OF ok]
  note r = uint_u8 [of x] uint_u8 [of y] uint_u8 [of len] uint_u8 [of "user_x1 u"] uint_u8 [of "user_y1 u"]
    uint_u8 [of "width u"] uint_u8 [of "height u"] uint_u8 [of "pixel_curr_row u"]
    uint_u8(1) [of "user_x0 u"] uint_u8(1) [of "user_y0 u"]
  have ul: "int (unat len) = uint len" by simp
  have l1: "1 \<le> uint len" using n ul by linarith
  note D = draws_ll [OF ok len win]
  note simps = rot_def ipt_def Let_def
  show ?thesis
  proof (cases "cb u")
    case U8G2_R0
    note v = v(1) [OF U8G2_R0]
    have Y: "uint (y - pixel_curr_row u) = uint y - uint (pixel_curr_row u)"
      using w(2) v by (simp add: uint_u8_sub)
    have "rot u ` iseg dir (uint x) (uint y) (unat len) =
        segment dir (unat x) (unat (y - pixel_curr_row u)) (unat len)"
      using U8G2_R0 by (intro image_fwd_u) (unfold Y, simp add: simps algebra_simps)
    from D [OF this] show ?thesis using U8G2_R0 by (simp add: draw_l90_def u8g2_draw_l90_r0_def)
  next
    case U8G2_R1
    note v = v(2) [OF U8G2_R1]
    have Y: "uint (x - pixel_curr_row u) = uint x - uint (pixel_curr_row u)"
      using w(1) v by (simp add: uint_u8_sub)
    from dir show ?thesis
    proof
      assume d: "dir = 0"
      have X: "uint (height u - y - 1) = uint (height u) - 1 - uint y"
        using w(3) [OF d] v r l1 by (simp add: uint_u8_sub)
      have "rot u ` iseg dir (uint x) (uint y) (unat len) =
          segment 1 (unat (height u - y - 1)) (unat (x - pixel_curr_row u)) (unat len)"
        using U8G2_R1 d by (intro image_fwd_u) (unfold X Y, simp add: simps algebra_simps)
      from D [OF this] show ?thesis using U8G2_R1 d by (simp add: draw_l90_def u8g2_draw_l90_r1_def)
    next
      assume d: "dir = 1"
      have X: "uint (height u - y - len) = uint (height u) - uint y - uint len"
        using w(4) d v r ul l1 by (simp add: uint_u8_sub)
      have "rot u ` iseg dir (uint x) (uint y) (unat len) =
          segment 0 (unat (height u - y - len)) (unat (x - pixel_curr_row u)) (unat len)"
        using U8G2_R1 d ul by (intro image_rev_u) (unfold X Y, simp add: simps algebra_simps)
      from D [OF this] show ?thesis using U8G2_R1 d by (simp add: draw_l90_def u8g2_draw_l90_r1_def)
    qed
  next
    case U8G2_R2
    note v = v(3) [OF U8G2_R2]
    from dir show ?thesis
    proof
      assume d: "dir = 0"
      have X: "uint (width u - x - len) = uint (width u) - uint x - uint len"
        and Y: "uint (height u - y - 1 - pixel_curr_row u) = uint (height u) - 1 - uint y - uint (pixel_curr_row u)"
        using w(3) [OF d] v r ul l1 by (simp_all add: uint_u8_sub)
      have "rot u ` iseg dir (uint x) (uint y) (unat len) =
          segment 0 (unat (width u - x - len)) (unat (height u - y - 1 - pixel_curr_row u)) (unat len)"
        using U8G2_R2 d ul by (intro image_rev_u) (unfold X Y, simp add: simps algebra_simps)
      from D [OF this] show ?thesis using U8G2_R2 d by (simp add: draw_l90_def u8g2_draw_l90_r2_def)
    next
      assume d: "dir = 1"
      have X: "uint (width u - x - 1) = uint (width u) - 1 - uint x"
        and Y: "uint (height u - y - len - pixel_curr_row u) = uint (height u) - uint y - uint len - uint (pixel_curr_row u)"
        using w(4) d v r ul l1 by (simp_all add: uint_u8_sub)
      have "rot u ` iseg dir (uint x) (uint y) (unat len) =
          segment 1 (unat (width u - x - 1)) (unat (height u - y - len - pixel_curr_row u)) (unat len)"
        using U8G2_R2 d ul by (intro image_rev_u) (unfold X Y, simp add: simps algebra_simps)
      from D [OF this] show ?thesis using U8G2_R2 d by (simp add: draw_l90_def u8g2_draw_l90_r2_def)
    qed
  next
    case U8G2_R3
    note v = v(4) [OF U8G2_R3]
    from dir show ?thesis
    proof
      assume d: "dir = 0"
      have Y: "uint (width u - x - len - pixel_curr_row u) =
          uint (width u) - uint x - uint len - uint (pixel_curr_row u)"
        using w(3) [OF d] v r ul l1 by (simp add: uint_u8_sub)
      have "rot u ` iseg dir (uint x) (uint y) (unat len) =
          segment 1 (unat y) (unat (width u - x - len - pixel_curr_row u)) (unat len)"
        using U8G2_R3 d ul by (intro image_rev_u) (unfold Y, simp add: simps algebra_simps)
      from D [OF this] show ?thesis using U8G2_R3 d by (simp add: draw_l90_def u8g2_draw_l90_r3_def)
    next
      assume d: "dir = 1"
      have Y: "uint (width u - x - 1 - pixel_curr_row u) = uint (width u) - 1 - uint x - uint (pixel_curr_row u)"
        using w(4) d v r ul l1 by (simp add: uint_u8_sub)
      have "rot u ` iseg dir (uint x) (uint y) (unat len) =
          segment 0 (unat y) (unat (width u - x - 1 - pixel_curr_row u)) (unat len)"
        using U8G2_R3 d by (intro image_fwd_u) (unfold Y, simp add: simps algebra_simps)
      from D [OF this] show ?thesis using U8G2_R3 d by (simp add: draw_l90_def u8g2_draw_l90_r3_def)
    qed
  next
    case U8G2_MIRROR
    note v = v(5) [OF U8G2_MIRROR]
    have Y: "uint (y - pixel_curr_row u) = uint y - uint (pixel_curr_row u)"
      using w(2) v by (simp add: uint_u8_sub)
    from dir show ?thesis
    proof
      assume d: "dir = 0"
      have X: "uint (width u - x - len) = uint (width u) - uint x - uint len"
        using w(3) [OF d] v r ul l1 by (simp add: uint_u8_sub)
      have "rot u ` iseg dir (uint x) (uint y) (unat len) =
          segment dir (unat (width u - x - len)) (unat (y - pixel_curr_row u)) (unat len)"
        using U8G2_MIRROR d ul by (intro image_rev_u) (unfold X Y, simp add: simps algebra_simps)
      from D [OF this] show ?thesis using U8G2_MIRROR d by (simp add: draw_l90_def u8g2_draw_l90_mirrorr_r0_def)
    next
      assume d: "dir = 1"
      have X: "uint (width u - x - 1) = uint (width u) - 1 - uint x"
        using w(4) d v r ul l1 by (simp add: uint_u8_sub)
      have "rot u ` iseg dir (uint x) (uint y) (unat len) =
          segment dir (unat (width u - x - 1)) (unat (y - pixel_curr_row u)) (unat len)"
        using U8G2_MIRROR d by (intro image_fwd_u) (unfold X Y, simp add: simps algebra_simps)
      from D [OF this] show ?thesis using U8G2_MIRROR d by (simp add: draw_l90_def u8g2_draw_l90_mirrorr_r0_def)
    qed
  qed
qed

section \<open>Drawing a line\<close>

text \<open>Where a line starts: directions 2 and 3 run backwards from the given pixel. The line is the
  set of user pixels from there; it is clear of the far edge when its range does not run past 255
  inside the window.\<close>

definition hv_x :: "u8 \<Rightarrow> u8 \<Rightarrow> u8 \<Rightarrow> u8" where
  "hv_x x len dir = (if dir = 2 then x - len + 1 else x)"

definition hv_y :: "u8 \<Rightarrow> u8 \<Rightarrow> u8 \<Rightarrow> u8" where
  "hv_y y len dir = (if dir = 3 then y - len + 1 else y)"

definition hv_line :: "u8 \<Rightarrow> u8 \<Rightarrow> u8 \<Rightarrow> u8 \<Rightarrow> (int \<times> int) set" where
  "hv_line x y len dir =
     (if dir AND 1 = 0 then iseg 0 (range_start (hv_x x len dir) len) (uint (hv_y y len dir)) (unat len)
      else iseg 1 (uint (hv_x x len dir)) (range_start (hv_y y len dir) len) (unat len))"

definition hv_clear :: "u8g2 \<Rightarrow> u8 \<Rightarrow> u8 \<Rightarrow> u8 \<Rightarrow> u8 \<Rightarrow> bool" where
  "hv_clear u x y len dir =
     (if dir AND 1 = 0 then range_clear (hv_x x len dir) len (user_x1 u)
      else range_clear (hv_y y len dir) len (user_y1 u))"

lemma DrawHVLine_start:
  "len \<noteq> 0 \<Longrightarrow> is_page_clip_window_intersection u \<noteq> 0 \<Longrightarrow>
   u8g2_DrawHVLine u x y len dir =
     (let x = hv_x x len dir; y = hv_y y len dir in
      if dir AND 1 = 0 then
        (if y < user_y0 u \<or> user_y1 u \<le> y then Some u
         else (case u8g2_clip_intersection2 x len (user_x0 u) (user_x1 u) of
             None \<Rightarrow> Some u | Some (x, len) \<Rightarrow> draw_l90 u x y len (dir AND 1)))
      else
        (if x < user_x0 u \<or> user_x1 u \<le> x then Some u
         else (case u8g2_clip_intersection2 y len (user_y0 u) (user_y1 u) of
             None \<Rightarrow> Some u | Some (y, len) \<Rightarrow> draw_l90 u x y len (dir AND 1))))"
proof -
  assume len: "len \<noteq> 0" and i: "is_page_clip_window_intersection u \<noteq> 0"
  have "len > 1 \<or> len = 1" using len by (auto simp: word_less_nat_alt word_unat_eq_iff)
  then show ?thesis
  proof
    assume l: "len > 1"
    show ?thesis
      using l len i unfolding u8g2_DrawHVLine_def hv_x_def hv_y_def Let_def
      by (cases "dir = 2"; cases "dir = 3"; simp)
  next
    assume l: "len = 1"
    show ?thesis
      using l i unfolding u8g2_DrawHVLine_def hv_x_def hv_y_def Let_def by simp
  qed
qed

lemma draws_none: "view_ok u \<Longrightarrow> S \<inter> window u = {} \<Longrightarrow> draws u S u"
  unfolding draws_def by (intro exI [of _ "tile_buf u"]) simp

lemma iseg_mem: "(i, j) \<in> iseg dir x y n \<longleftrightarrow>
   (if dir = 0 then x \<le> i \<and> i < x + int n \<and> j = y else i = x \<and> y \<le> j \<and> j < y + int n)"
  by (auto simp: iseg_def ipt_def image_iff intro: bexI [of _ "nat (i - x)"] bexI [of _ "nat (j - y)"])

lemma draws_cong: "S \<inter> window u = T \<inter> window u \<Longrightarrow> draws u S u' = draws u T u'"
  by (simp add: draws_def)

text \<open>The common part of the two directions: clipping a range and drawing what is left.\<close>

lemma clip_draws:
  assumes ok: "view_ok u" and len: "len \<noteq> 0" and cd: "c < d" and clear: "range_clear a len d"
    and part: "\<And>b n. n \<noteq> 0 \<Longrightarrow>
       max (range_start a len) (uint c) = uint b \<Longrightarrow>
       min (range_start a len + uint len) (uint d) = uint b + uint n \<Longrightarrow>
       \<exists>u'. f b n = Some u' \<and> draws u S u'"
    and empty: "\<not> (range_start a len < uint d \<and> uint c < range_start a len + uint len) \<Longrightarrow> S \<inter> window u = {}"
  shows "\<exists>u'. (case u8g2_clip_intersection2 a len c d of None \<Rightarrow> Some u | Some (b, n) \<Rightarrow> f b n) = Some u' \<and>
    draws u S u'"
proof (cases "range_start a len < uint d \<and> uint c < range_start a len + uint len")
  case False
  then have "S \<inter> window u = {}" by (rule empty)
  then have "draws u S u" by (rule draws_none [OF ok])
  with False show ?thesis using clip_cases [OF len cd clear] by auto
next
  case True
  define lo hi where "lo = max (range_start a len) (uint c)"
    and "hi = min (range_start a len + uint len) (uint d)"
  have "uint len \<noteq> 0" using len by (simp add: word_uint_eq_iff)
  then have l: "0 < uint len" using uint_u8(1) [of len] by linarith
  have "uint c < uint d" using cd by (simp add: word_less_def)
  then have "lo < hi" using True l by (auto simp: lo_def hi_def)
  moreover have "0 \<le> lo" unfolding lo_def using uint_u8(1) [of c] by (rule max.coboundedI2)
  moreover have "hi < 256" unfolding hi_def using uint_u8(2) [of d] by (rule min.strict_coboundedI2)
  ultimately have b: "lo < hi" "0 \<le> lo" "hi < 256" by auto
  have wu: "uint (word_of_int i :: u8) = i" if "0 \<le> i" "i < 256" for i
    using that by (simp add: uint_word_of_int take_bit_eq_mod)
  have w: "uint (word_of_int lo :: u8) = lo" "uint (word_of_int (hi - lo) :: u8) = hi - lo"
    using b by (auto intro: wu simp del: of_int_diff)
  have nz: "(word_of_int (hi - lo) :: u8) \<noteq> 0"
  proof
    assume "(word_of_int (hi - lo) :: u8) = 0"
    then have "uint (word_of_int (hi - lo) :: u8) = 0" by (simp only: unsigned_0)
    with w(2) b(1) show False by linarith
  qed
  show ?thesis
    using clip_cases [OF len cd clear, folded lo_def hi_def] True
      part [OF nz, of "word_of_int lo", folded lo_def hi_def] w
    by (simp del: of_int_diff)
qed

lemma DrawHVLine_draws:
  assumes ok: "view_ok u" and len: "len \<noteq> 0" and clear: "hv_clear u x y len dir"
  shows "\<exists>u'. u8g2_DrawHVLine u x y len dir = Some u' \<and> draws u (hv_line x y len dir) u'"
proof -
  note v = view_okD(1-4) [OF ok]
  define X Y where "X = hv_x x len dir" and "Y = hv_y y len dir"
  have ul: "int (unat z) = uint z" for z :: u8 by simp
  note start = DrawHVLine_start [OF len v(2), of x y dir, folded X_def Y_def, unfolded Let_def]
  show ?thesis
  proof (cases "dir AND 1 = 0")
    case True
    have S: "hv_line x y len dir = iseg 0 (range_start X len) (uint Y) (unat len)"
      using True by (simp add: hv_line_def X_def Y_def)
    show ?thesis
    proof (cases "Y < user_y0 u \<or> user_y1 u \<le> Y")
      case out: True
      then have "hv_line x y len dir \<inter> window u = {}"
        unfolding S by (auto simp: iseg_mem window_def word_less_def word_le_def)
      with out True start draws_none [OF ok] show ?thesis by simp
    next
      case inside: False
      have "\<exists>u'. (case u8g2_clip_intersection2 X len (user_x0 u) (user_x1 u) of None \<Rightarrow> Some u
          | Some (x, len) \<Rightarrow> draw_l90 u x Y len 0) = Some u' \<and> draws u (hv_line x y len dir) u'"
      proof (rule clip_draws [OF ok len v(3)])
        show "range_clear X len (user_x1 u)" using clear True by (simp add: hv_clear_def X_def)
      next
        fix b n :: u8
        assume n: "n \<noteq> 0" and lo: "max (range_start X len) (uint (user_x0 u)) = uint b"
          and hi: "min (range_start X len + uint len) (uint (user_x1 u)) = uint b + uint n"
        have "hv_line x y len dir \<inter> window u = iseg 0 (uint b) (uint Y) (unat n)"
          using inside lo hi unfolding S by (auto simp: iseg_mem window_def word_less_def word_le_def ul)
        moreover from this draw_l90_draws [OF ok n, of 0 b Y]
        obtain u' where "draw_l90 u b Y n 0 = Some u'" "draws u (iseg 0 (uint b) (uint Y) (unat n)) u'" by auto
        ultimately show "\<exists>u'. draw_l90 u b Y n 0 = Some u' \<and> draws u (hv_line x y len dir) u'"
          by (metis draws_cong inf.right_idem)
      next
        assume "\<not> (range_start X len < uint (user_x1 u) \<and> uint (user_x0 u) < range_start X len + uint len)"
        then show "hv_line x y len dir \<inter> window u = {}"
          unfolding S by (auto simp: iseg_mem window_def ul)
      qed
      with inside show ?thesis unfolding start True by simp
    qed
  next
    case False
    then have d1: "dir AND 1 = 1" by (simp add: and_one_eq odd_iff_mod_2_eq_one)
    have S: "hv_line x y len dir = iseg 1 (uint X) (range_start Y len) (unat len)"
      using False by (simp add: hv_line_def X_def Y_def)
    show ?thesis
    proof (cases "X < user_x0 u \<or> user_x1 u \<le> X")
      case out: True
      then have "hv_line x y len dir \<inter> window u = {}"
        unfolding S by (auto simp: iseg_mem window_def word_less_def word_le_def)
      with out False start draws_none [OF ok] show ?thesis by simp
    next
      case inside: False
      have "\<exists>u'. (case u8g2_clip_intersection2 Y len (user_y0 u) (user_y1 u) of None \<Rightarrow> Some u
          | Some (y, len) \<Rightarrow> draw_l90 u X y len 1) = Some u' \<and> draws u (hv_line x y len dir) u'"
      proof (rule clip_draws [OF ok len v(4)])
        show "range_clear Y len (user_y1 u)" using clear False by (simp add: hv_clear_def Y_def)
      next
        fix b n :: u8
        assume n: "n \<noteq> 0" and lo: "max (range_start Y len) (uint (user_y0 u)) = uint b"
          and hi: "min (range_start Y len + uint len) (uint (user_y1 u)) = uint b + uint n"
        have "hv_line x y len dir \<inter> window u = iseg 1 (uint X) (uint b) (unat n)"
          using inside lo hi unfolding S by (auto simp: iseg_mem window_def word_less_def word_le_def ul)
        moreover from this draw_l90_draws [OF ok n, of 1 X b]
        obtain u' where "draw_l90 u X b n 1 = Some u'" "draws u (iseg 1 (uint X) (uint b) (unat n)) u'" by auto
        ultimately show "\<exists>u'. draw_l90 u X b n 1 = Some u' \<and> draws u (hv_line x y len dir) u'"
          by (metis draws_cong inf.right_idem)
      next
        assume "\<not> (range_start Y len < uint (user_y1 u) \<and> uint (user_y0 u) < range_start Y len + uint len)"
        then show "hv_line x y len dir \<inter> window u = {}"
          unfolding S by (auto simp: iseg_mem window_def ul)
      qed
      with inside show ?thesis unfolding start d1 by simp
    qed
  qed
qed

section \<open>The intersection test\<close>

text \<open>A range whose end is before its start wraps around 255.\<close>

definition wrap_range :: "u8 \<Rightarrow> u8 \<Rightarrow> int set" where
  "wrap_range v0 v1 = {i. 0 \<le> i \<and> i < 256 \<and>
     (if v0 \<le> v1 then uint v0 \<le> i \<and> i < uint v1 else uint v0 \<le> i \<or> i < uint v1)}"

lemma decision_tree_iff:
  assumes "a0 < a1" and "v0 \<noteq> v1"
  shows "u8g2_is_intersection_decision_tree a0 a1 v0 v1 \<noteq> 0 \<longleftrightarrow>
    {uint a0..<uint a1} \<inter> wrap_range v0 v1 \<noteq> {}"
proof -
  note r = uint_u8 [of a0] uint_u8 [of a1] uint_u8 [of v0] uint_u8 [of v1]
  have a: "uint a0 < uint a1" using assms(1) by (simp add: word_less_def)
  have v: "uint v0 \<noteq> uint v1" using assms(2) by (simp add: word_uint_eq_iff)
  have mem: "{uint a0..<uint a1} \<inter> wrap_range v0 v1 \<noteq> {} \<longleftrightarrow>
      (\<exists>i. uint a0 \<le> i \<and> i < uint a1 \<and>
        (if v0 \<le> v1 then uint v0 \<le> i \<and> i < uint v1 else uint v0 \<le> i \<or> i < uint v1))"
  proof -
    have "i \<in> {uint a0..<uint a1} \<inter> wrap_range v0 v1 \<longleftrightarrow> uint a0 \<le> i \<and> i < uint a1 \<and>
        (if v0 \<le> v1 then uint v0 \<le> i \<and> i < uint v1 else uint v0 \<le> i \<or> i < uint v1)" for i
    proof (cases "uint a0 \<le> i \<and> i < uint a1")
      case True
      with r have "0 \<le> i" "i < 256" by linarith+
      with True show ?thesis by (simp add: wrap_range_def)
    next
      case False
      then show ?thesis unfolding Int_iff atLeastLessThan_iff by blast
    qed
    then show ?thesis unfolding ex_in_conv [symmetric] by simp
  qed
  show ?thesis
  proof (cases "v0 \<le> v1")
    case True
    then have "(\<exists>i. uint a0 \<le> i \<and> i < uint a1 \<and> uint v0 \<le> i \<and> i < uint v1) \<longleftrightarrow>
        uint v0 < uint a1 \<and> uint a0 < uint v1"
      using a v by (auto simp: word_le_def intro!: exI [of _ "max (uint a0) (uint v0)"])
    with True show ?thesis
      unfolding mem u8g2_is_intersection_decision_tree_def by (auto simp: word_less_def word_le_def)
  next
    case False
    then have "(\<exists>i. uint a0 \<le> i \<and> i < uint a1 \<and> (uint v0 \<le> i \<or> i < uint v1)) \<longleftrightarrow>
        uint v0 < uint a1 \<or> uint a0 < uint v1"
      using a by (auto intro: exI [of _ "uint a0"] exI [of _ "uint a1 - 1"])
    with False show ?thesis
      unfolding mem u8g2_is_intersection_decision_tree_def by (auto simp: word_less_def word_le_def)
  qed
qed

lemma IsIntersection_window:
  assumes "user_x0 u < user_x1 u" "user_y0 u < user_y1 u" "x0 \<noteq> x1" "y0 \<noteq> y1"
  shows "u8g2_IsIntersection u x0 y0 x1 y1 \<noteq> 0 \<longleftrightarrow>
    window u \<inter> (wrap_range x0 x1 \<times> wrap_range y0 y1) \<noteq> {}"
  using decision_tree_iff [OF assms(1,3)] decision_tree_iff [OF assms(2,4)]
  unfolding u8g2_IsIntersection_def window_def Times_Int_Times by (simp add: Sigma_empty_iff)

section \<open>The windows that setup computes\<close>

text \<open>A display of whole tiles with a buffer of some of its rows, the current one on the display.\<close>

definition device_ok :: "u8g2 \<Rightarrow> bool" where
  "device_ok u =
     (let di = display_info u in
      0 < uint (pixel_width di) \<and> uint (pixel_width di) \<le> 8 * uint (tile_width di) \<and>
      uint (tile_width di) \<le> 30 \<and>
      uint (pixel_height di) = 8 * uint (tile_height di) \<and> uint (tile_height di) < 32 \<and>
      0 < uint (tile_buf_height u) \<and> uint (tile_buf_height u) < 32 \<and>
      uint (tile_curr_row u) < uint (tile_height di) \<and>
      length (tile_buf u) = 8 * unat (tile_width di) * unat (tile_buf_height u))"

definition clip_box :: "u8g2 \<Rightarrow> (int \<times> int) set" where
  "clip_box u = {uint (clip_x0 u)..<uint (clip_x1 u)} \<times> {uint (clip_y0 u)..<uint (clip_y1 u)}"

text \<open>The part of the display that the buffer holds, in user coordinates.\<close>

definition page_box :: "u8g2 \<Rightarrow> (int \<times> int) set" where
  "page_box u =
     (let di = display_info u; w = uint (pixel_width di); h = uint (pixel_height di);
          p0 = 8 * uint (tile_curr_row u);
          p1 = min (p0 + 8 * uint (tile_buf_height u)) h in
      case cb u of
        U8G2_R0 \<Rightarrow> {0..<w} \<times> {p0..<p1}
      | U8G2_R1 \<Rightarrow> {p0..<p1} \<times> {0..<w}
      | U8G2_R2 \<Rightarrow> {0..<w} \<times> {h - p1..<h - p0}
      | U8G2_R3 \<Rightarrow> {h - p1..<h - p0} \<times> {0..<w}
      | U8G2_MIRROR \<Rightarrow> {0..<w} \<times> {p0..<p1})"

lemma uint_mult_8: "uint (x :: u8) < 32 \<Longrightarrow> uint (x * 8) = 8 * uint x"
  by (simp add: uint_word_ariths)

lemma uint_ucast_16_8: "uint (x :: u16) < 256 \<Longrightarrow> uint (ucast x :: u8) = uint x"
  by (simp add: unsigned_ucast_eq take_bit_eq_mod)

text \<open>The fields that the common dimension code computes.\<close>

lemma update_dimension_common:
  assumes "device_ok u"
  shows "\<exists>d :: u8g2. u8g2_update_dimension_common u =
      u\<lparr>pixel_buf_height := pixel_buf_height d, pixel_buf_width := tile_width (display_info u) * 8,
        pixel_curr_row := pixel_curr_row d, buf_y0 := pixel_curr_row d, buf_y1 := buf_y1 d,
        width := width d, height := height d\<rparr> \<and>
     uint (pixel_curr_row d) = 8 * uint (tile_curr_row u) \<and>
     uint (buf_y1 d) = min (8 * uint (tile_curr_row u) + 8 * uint (tile_buf_height u)) (uint (pixel_height (display_info u))) \<and>
     uint (width d) = uint (pixel_width (display_info u)) \<and>
     uint (height d) = uint (pixel_height (display_info u))"
proof (rule exI [of _ "u8g2_update_dimension_common u"], intro conjI)
  define di where "di = display_info u"
  note dev = assms [unfolded device_ok_def Let_def, folded di_def]
  note r = uint_u8 [of "tile_curr_row u"] uint_u8 [of "tile_buf_height u"] uint_u8 [of "tile_height di"]
    uint_u8 [of "tile_width di"]
  have tw: "(if tile_width di \<ge> 32 then 31 else tile_width di) = tile_width di"
    using dev by (simp add: word_le_def)
  have pw: "pixel_width di \<le> 240" using dev by (simp add: word_le_def)
  let ?t = "if unat (tile_buf_height u) + unat (tile_curr_row u) > unat (tile_height di)
    then tile_height di - tile_curr_row u else tile_buf_height u"
  have row8: "uint (tile_curr_row u * 8) = 8 * uint (tile_curr_row u)"
    using dev by (intro uint_mult_8) linarith
  have "uint ?t = min (uint (tile_buf_height u)) (uint (tile_height di) - uint (tile_curr_row u))"
  proof (cases "unat (tile_buf_height u) + unat (tile_curr_row u) > unat (tile_height di)")
    case True
    then have "uint (tile_buf_height u) + uint (tile_curr_row u) > uint (tile_height di)"
      by (simp flip: of_nat_less_iff [where 'a = int])
    with True dev show ?thesis by (simp add: uint_u8_sub)
  next
    case False
    then have "\<not> uint (tile_buf_height u) + uint (tile_curr_row u) > uint (tile_height di)"
      by (simp flip: of_nat_less_iff [where 'a = int])
    with False show ?thesis by simp
  qed
  then have t: "uint ?t = min (uint (tile_buf_height u)) (uint (tile_height di) - uint (tile_curr_row u))" .
  have t8: "uint (?t * 8) = 8 * uint ?t" using t dev by (intro uint_mult_8) linarith
  have b1: "uint (tile_curr_row u * 8 + ?t * 8) =
      min (8 * uint (tile_curr_row u) + 8 * uint (tile_buf_height u)) (uint (pixel_height di))"
    unfolding uint_u8_add row8 t8 t using dev r by (auto simp: min_def)
  have eq: "u8g2_update_dimension_common u =
      u\<lparr>pixel_buf_height := tile_buf_height u * 8, pixel_buf_width := tile_width di * 8,
        pixel_curr_row := tile_curr_row u * 8, buf_y0 := tile_curr_row u * 8,
        buf_y1 := tile_curr_row u * 8 + ?t * 8, width := ucast (pixel_width di),
        height := ucast (pixel_height di)\<rparr>"
    unfolding u8g2_update_dimension_common_def Let_def di_def [symmetric] using pw tw by simp
  show "u8g2_update_dimension_common u =
      u\<lparr>pixel_buf_height := pixel_buf_height (u8g2_update_dimension_common u),
        pixel_buf_width := tile_width (display_info u) * 8,
        pixel_curr_row := pixel_curr_row (u8g2_update_dimension_common u),
        buf_y0 := pixel_curr_row (u8g2_update_dimension_common u),
        buf_y1 := buf_y1 (u8g2_update_dimension_common u),
        width := width (u8g2_update_dimension_common u), height := height (u8g2_update_dimension_common u)\<rparr>"
    unfolding eq by (simp add: di_def)
  show "uint (pixel_curr_row (u8g2_update_dimension_common u)) = 8 * uint (tile_curr_row u)"
    unfolding eq using row8 by simp
  show "uint (buf_y1 (u8g2_update_dimension_common u)) =
      min (8 * uint (tile_curr_row u) + 8 * uint (tile_buf_height u)) (uint (pixel_height (display_info u)))"
    unfolding eq using b1 by (simp add: di_def)
  show "uint (width (u8g2_update_dimension_common u)) = uint (pixel_width (display_info u))"
    unfolding eq using dev by (simp add: di_def uint_ucast_16_8)
  show "uint (height (u8g2_update_dimension_common u)) = uint (pixel_height (display_info u))"
    unfolding eq using dev by (simp add: di_def uint_ucast_16_8)
qed

lemma uint_max_min:
  "uint (max (a :: u8) b) = max (uint a) (uint b)" "uint (min (a :: u8) b) = min (uint a) (uint b)"
  by (auto simp: max_def min_def word_le_def)

text \<open>A clip window is proper when it is not empty.\<close>

definition clip_ok :: "u8g2 \<Rightarrow> bool" where
  "clip_ok u = (clip_x0 u < clip_x1 u \<and> clip_y0 u < clip_y1 u)"

lemma apply_clip_window_eq:
  assumes "user_x0 u < user_x1 u" "user_y0 u < user_y1 u" and "clip_ok u"
  shows "u8g2_apply_clip_window u =
    (if window u \<inter> clip_box u = {} then u\<lparr>is_page_clip_window_intersection := 0\<rparr>
     else u\<lparr>is_page_clip_window_intersection := 1, user_x0 := max (user_x0 u) (clip_x0 u),
       user_x1 := min (user_x1 u) (clip_x1 u), user_y0 := max (user_y0 u) (clip_y0 u),
       user_y1 := min (user_y1 u) (clip_y1 u)\<rparr>)"
proof -
  have wr: "a \<le> b \<Longrightarrow> wrap_range a b = {uint a..<uint b}" for a b
    using uint_u8 [of a] uint_u8 [of b] by (auto simp: wrap_range_def intro: order_trans)
  have "clip_x0 u \<noteq> clip_x1 u" "clip_y0 u \<noteq> clip_y1 u" using assms(3) by (auto simp: clip_ok_def)
  from IsIntersection_window [OF assms(1,2) this]
  have "u8g2_IsIntersection u (clip_x0 u) (clip_y0 u) (clip_x1 u) (clip_y1 u) \<noteq> 0 \<longleftrightarrow>
      window u \<inter> clip_box u \<noteq> {}"
    using assms(3) by (simp add: wr clip_ok_def clip_box_def order.strict_implies_order)
  moreover have mm: "(if a < b then b else a) = max a b" "(if b < a then b else a) = min a b" for a b :: u8
    by (auto simp: max_def min_def)
  have "(let u = u\<lparr>is_page_clip_window_intersection := 1\<rparr>;
             u = (if user_x0 u < clip_x0 u then u\<lparr>user_x0 := clip_x0 u\<rparr> else u);
             u = (if user_x1 u > clip_x1 u then u\<lparr>user_x1 := clip_x1 u\<rparr> else u);
             u = (if user_y0 u < clip_y0 u then u\<lparr>user_y0 := clip_y0 u\<rparr> else u)
         in if user_y1 u > clip_y1 u then u\<lparr>user_y1 := clip_y1 u\<rparr> else u) =
      u\<lparr>is_page_clip_window_intersection := 1, user_x0 := max (user_x0 u) (clip_x0 u),
       user_x1 := min (user_x1 u) (clip_x1 u), user_y0 := max (user_y0 u) (clip_y0 u),
       user_y1 := min (user_y1 u) (clip_y1 u)\<rparr>"
    unfolding Let_def mm [symmetric] by (cases "user_x0 u < clip_x0 u"; cases "clip_x1 u < user_x1 u";
      cases "user_y0 u < clip_y0 u"; cases "clip_y1 u < user_y1 u"; simp)
  ultimately show ?thesis unfolding u8g2_apply_clip_window_def by simp
qed

definition shrunk :: "u8g2 \<Rightarrow> u8g2" where
  "shrunk u = u\<lparr>is_page_clip_window_intersection := 1, user_x0 := max (user_x0 u) (clip_x0 u),
       user_x1 := min (user_x1 u) (clip_x1 u), user_y0 := max (user_y0 u) (clip_y0 u),
       user_y1 := min (user_y1 u) (clip_y1 u)\<rparr>"

lemma canvas_ok_upd:
  "canvas_ok (u\<lparr>is_page_clip_window_intersection := i\<rparr>) = canvas_ok u"
  "canvas_ok (u\<lparr>user_x0 := x0\<rparr>) = canvas_ok u" "canvas_ok (u\<lparr>user_x1 := x1\<rparr>) = canvas_ok u"
  "canvas_ok (u\<lparr>user_y0 := y0\<rparr>) = canvas_ok u" "canvas_ok (u\<lparr>user_y1 := y1\<rparr>) = canvas_ok u"
  by (simp_all add: canvas_ok_def canvas_w_def canvas_h_def)

lemma canvas_upd [simp]:
  "canvas_w (shrunk u) = canvas_w u" "canvas_h (shrunk u) = canvas_h u"
  "canvas_w (u\<lparr>is_page_clip_window_intersection := i\<rparr>) = canvas_w u"
  "canvas_h (u\<lparr>is_page_clip_window_intersection := i\<rparr>) = canvas_h u"
  by (simp_all add: canvas_w_def canvas_h_def shrunk_def)

lemma window_shrunk: "window (shrunk u) = window u \<inter> clip_box u"
  by (auto simp: window_def clip_box_def shrunk_def uint_max_min)

lemma view_ok_shrunk:
  assumes "view_ok (u\<lparr>is_page_clip_window_intersection := 1\<rparr>)" and "window u \<inter> clip_box u \<noteq> {}"
  shows "view_ok (shrunk u)"
proof -
  let ?u = "u\<lparr>is_page_clip_window_intersection := 1\<rparr>"
  have "window (shrunk u) \<noteq> {}" using assms(2) by (simp add: window_shrunk)
  then have ne: "uint (user_x0 (shrunk u)) < uint (user_x1 (shrunk u))"
    "uint (user_y0 (shrunk u)) < uint (user_y1 (shrunk u))"
    by (auto simp: window_def)
  have m: "uint (user_x0 u) \<le> uint (user_x0 (shrunk u))" "uint (user_x1 (shrunk u)) \<le> uint (user_x1 u)"
    "uint (user_y0 u) \<le> uint (user_y0 (shrunk u))" "uint (user_y1 (shrunk u)) \<le> uint (user_y1 u)"
    by (simp_all add: shrunk_def uint_max_min)
  have c: "canvas_ok (shrunk u)" using assms(1) by (simp add: view_ok_def canvas_ok_upd shrunk_def)
  have f: "cb (shrunk u) = cb u" "width (shrunk u) = width u" "height (shrunk u) = height u"
    "pixel_curr_row (shrunk u) = pixel_curr_row u" "is_page_clip_window_intersection (shrunk u) = 1"
    by (simp_all add: shrunk_def)
  note v = view_okD(5-9) [OF assms(1), simplified]
  show ?thesis
    unfolding view_ok_def Let_def f using c ne m v by (cases "cb u") (simp_all add: word_less_def)
qed

lemma apply_clip_view:
  assumes "view_ok (u\<lparr>is_page_clip_window_intersection := 1\<rparr>)" and "clip_ok u"
  shows "u8g2_apply_clip_window u =
      (if window u \<inter> clip_box u = {} then u\<lparr>is_page_clip_window_intersection := 0\<rparr> else shrunk u)"
    and "window u \<inter> clip_box u \<noteq> {} \<Longrightarrow> view_ok (shrunk u)"
  using apply_clip_window_eq [of u] view_okD(3,4) [OF assms(1)] assms(2) view_ok_shrunk [OF assms(1)]
  by (simp_all add: shrunk_def)

text \<open>The view after setup, for every rotation: the page, cut to the clip window.\<close>

lemma device_sizes:
  assumes "device_ok u"
  shows "0 < unat (tile_width (display_info u))" "unat (tile_width (display_info u)) \<le> 30"
    "length (tile_buf u) = 8 * unat (tile_width (display_info u)) * unat (tile_buf_height u)"
    "uint (pixel_width (display_info u)) \<le> 8 * int (unat (tile_width (display_info u)))"
    "0 < uint (pixel_width (display_info u))"
proof -
  have "0 < uint (tile_width (display_info u))" "uint (tile_width (display_info u)) \<le> 30"
    using assms by (auto simp: device_ok_def Let_def)
  then show "0 < unat (tile_width (display_info u))" "unat (tile_width (display_info u)) \<le> 30"
    unfolding nat_int_comparison by simp_all
qed (use assms in \<open>simp_all add: device_ok_def Let_def\<close>)

lemma update_page_view:
  assumes dev: "device_ok u"
  defines "v \<equiv> update_dimension u"
  shows "\<exists>w. update_page_win v = u8g2_apply_clip_window w \<and>
    view_ok (w\<lparr>is_page_clip_window_intersection := 1\<rparr>) \<and> window w = page_box u \<and>
    clip_box w = clip_box u \<and> clip_ok w = clip_ok u \<and> tile_buf w = tile_buf u"
proof -
  obtain d :: u8g2 where d: "u8g2_update_dimension_common u =
      u\<lparr>pixel_buf_height := pixel_buf_height d, pixel_buf_width := tile_width (display_info u) * 8,
        pixel_curr_row := pixel_curr_row d, buf_y0 := pixel_curr_row d, buf_y1 := buf_y1 d,
        width := width d, height := height d\<rparr>"
    and r: "uint (pixel_curr_row d) = 8 * uint (tile_curr_row u)"
    and b: "uint (buf_y1 d) = min (8 * uint (tile_curr_row u) + 8 * uint (tile_buf_height u)) (uint (pixel_height (display_info u)))"
    and w: "uint (width d) = uint (pixel_width (display_info u))"
    and h: "uint (height d) = uint (pixel_height (display_info u))"
    using update_dimension_common [OF dev] by blast
  note dv = dev [unfolded device_ok_def Let_def]
  have cw: "canvas_w z = 8 * unat (tile_width (display_info u))" if "display_info z = display_info u" for z
    using that by (simp add: canvas_w_def)
  have ch: "canvas_h z = 8 * unat (tile_buf_height u)" if "tile_buf_height z = tile_buf_height u" for z
    using that by (simp add: canvas_h_def)
  have cok: "canvas_ok z" if "display_info z = display_info u" "tile_buf_height z = tile_buf_height u"
    "tile_buf z = tile_buf u" "pixel_buf_width z = tile_width (display_info u) * 8" for z
    unfolding canvas_ok_def cw [OF that(1)] ch [OF that(2)] that
    using device_sizes(1) [OF dev] device_sizes(2) [OF dev]
    by (intro conjI) (linarith, linarith, simp, simp add: device_sizes(3) [OF dev])
  have up: "uint (buf_y1 d) \<le> uint (height d)" "uint (pixel_curr_row d) < uint (buf_y1 d)"
    "uint (buf_y1 d) \<le> uint (pixel_curr_row d) + 8 * int (unat (tile_buf_height u))"
    using b r h dv by (auto simp: min_def)
  have pw: "ucast (pixel_width (display_info u)) = width d" "ucast (pixel_height (display_info u)) = height d"
    using w h dv by (simp_all add: word_uint_eq_iff uint_ucast_16_8)
  note rr = uint_u8 [of "buf_y1 d"] uint_u8 [of "pixel_curr_row d"] uint_u8 [of "height d"] uint_u8 [of "width d"]
  have sub: "uint (height d - buf_y1 d) = uint (height d) - uint (buf_y1 d)"
    "uint (height d - pixel_curr_row d) = uint (height d) - uint (pixel_curr_row d)"
    using up by (simp_all add: uint_u8_sub)
  have hb: "buf_y1 d \<le> height d" using up by (simp add: word_le_def)
  note ds = device_sizes [OF dev]
  show ?thesis
  proof (cases "cb u")
    case U8G2_R0
    let ?w = "v\<lparr>user_x0 := 0, user_x1 := width v, user_y0 := buf_y0 v, user_y1 := buf_y1 v\<rparr>"
    have v: "v = u8g2_update_dimension_common u" using U8G2_R0
      by (simp add: v_def update_dimension_def u8g2_update_dimension_r0_def)
    show ?thesis
    proof (intro exI [of _ ?w] conjI)
      show "update_page_win v = u8g2_apply_clip_window ?w"
        using U8G2_R0 by (simp add: v d update_page_win_def u8g2_update_page_win_r0_def)
      show "view_ok (?w\<lparr>is_page_clip_window_intersection := 1\<rparr>)"
        using U8G2_R0 up ds w by (simp add: v d view_ok_def Let_def cw ch cok word_less_def)
      show "window ?w = page_box u"
        using U8G2_R0 b r h w by (simp add: v d window_def page_box_def Let_def)
    qed (simp_all add: v d clip_box_def clip_ok_def)
  next
    case U8G2_R1
    let ?w = "v\<lparr>user_x0 := buf_y0 v, user_x1 := buf_y1 v, user_y0 := 0, user_y1 := height v\<rparr>"
    have v: "v = (u8g2_update_dimension_common u)
       \<lparr>height := ucast (pixel_width (display_info u)), width := ucast (pixel_height (display_info u))\<rparr>"
      using U8G2_R1 by (simp add: v_def update_dimension_def u8g2_update_dimension_r1_def)
    show ?thesis
    proof (intro exI [of _ ?w] conjI)
      show "update_page_win v = u8g2_apply_clip_window ?w"
        using U8G2_R1 by (simp add: v d update_page_win_def u8g2_update_page_win_r1_def)
      show "view_ok (?w\<lparr>is_page_clip_window_intersection := 1\<rparr>)"
        using U8G2_R1 up ds w by (simp add: v d view_ok_def Let_def cw ch cok word_less_def pw)
      show "window ?w = page_box u"
        using U8G2_R1 b r h w by (simp add: v d window_def page_box_def Let_def pw)
    qed (simp_all add: v d clip_box_def clip_ok_def)
  next
    case U8G2_R2
    let ?w = "v\<lparr>user_x0 := 0, user_x1 := width v, user_y0 := height v - buf_y1 v, user_y1 := height v - buf_y0 v\<rparr>"
    have v: "v = u8g2_update_dimension_common u" using U8G2_R2
      by (simp add: v_def update_dimension_def u8g2_update_dimension_r2_def)
    show ?thesis
    proof (intro exI [of _ ?w] conjI)
      show "update_page_win v = u8g2_apply_clip_window ?w"
        using U8G2_R2 hb by (simp add: v d update_page_win_def u8g2_update_page_win_r2_def)
      show "view_ok (?w\<lparr>is_page_clip_window_intersection := 1\<rparr>)"
        using U8G2_R2 up ds w rr by (simp add: v d view_ok_def Let_def cw ch cok word_less_def sub)
      show "window ?w = page_box u"
        using U8G2_R2 b r h w by (simp add: v d window_def page_box_def Let_def sub)
    qed (simp_all add: v d clip_box_def clip_ok_def)
  next
    case U8G2_R3
    let ?w = "v\<lparr>user_x0 := width v - buf_y1 v, user_x1 := width v - buf_y0 v, user_y0 := 0, user_y1 := height v\<rparr>"
    have v: "v = (u8g2_update_dimension_common u)
       \<lparr>height := ucast (pixel_width (display_info u)), width := ucast (pixel_height (display_info u))\<rparr>"
      using U8G2_R3 by (simp add: v_def update_dimension_def u8g2_update_dimension_r3_def)
    show ?thesis
    proof (intro exI [of _ ?w] conjI)
      show "update_page_win v = u8g2_apply_clip_window ?w"
        using U8G2_R3 hb by (simp add: v d update_page_win_def u8g2_update_page_win_r3_def pw)
      show "view_ok (?w\<lparr>is_page_clip_window_intersection := 1\<rparr>)"
        using U8G2_R3 up ds w rr by (simp add: v d view_ok_def Let_def cw ch cok word_less_def sub pw)
      show "window ?w = page_box u"
        using U8G2_R3 b r h w by (simp add: v d window_def page_box_def Let_def sub pw)
    qed (simp_all add: v d clip_box_def clip_ok_def)
  next
    case U8G2_MIRROR
    let ?w = "v\<lparr>user_x0 := 0, user_x1 := width v, user_y0 := buf_y0 v, user_y1 := buf_y1 v\<rparr>"
    have v: "v = u8g2_update_dimension_common u" using U8G2_MIRROR
      by (simp add: v_def update_dimension_def u8g2_update_dimension_r0_def)
    show ?thesis
    proof (intro exI [of _ ?w] conjI)
      show "update_page_win v = u8g2_apply_clip_window ?w"
        using U8G2_MIRROR by (simp add: v d update_page_win_def u8g2_update_page_win_r0_def)
      show "view_ok (?w\<lparr>is_page_clip_window_intersection := 1\<rparr>)"
        using U8G2_MIRROR up ds w by (simp add: v d view_ok_def Let_def cw ch cok word_less_def)
      show "window ?w = page_box u"
        using U8G2_MIRROR b r h w by (simp add: v d window_def page_box_def Let_def)
    qed (simp_all add: v d clip_box_def clip_ok_def)
  qed
qed

lemma page_view:
  assumes "device_ok u" and "clip_ok u"
  defines "v \<equiv> update_page_win (update_dimension u)"
  shows "tile_buf v = tile_buf u"
    and "page_box u \<inter> clip_box u = {} \<Longrightarrow> is_page_clip_window_intersection v = 0"
    and "page_box u \<inter> clip_box u \<noteq> {} \<Longrightarrow> view_ok v \<and> window v = page_box u \<inter> clip_box u"
proof -
  obtain w where w: "v = u8g2_apply_clip_window w" "view_ok (w\<lparr>is_page_clip_window_intersection := 1\<rparr>)"
    "window w = page_box u" "clip_box w = clip_box u" "clip_ok w = clip_ok u" "tile_buf w = tile_buf u"
    unfolding v_def using update_page_view [OF assms(1)] by blast
  have "clip_ok w" using w(5) assms(2) by simp
  note a = apply_clip_view [OF w(2) this, unfolded w(3,4), folded w(1)]
  show "tile_buf v = tile_buf u" using a(1) w(6) by (simp add: shrunk_def)
  show "page_box u \<inter> clip_box u = {} \<Longrightarrow> is_page_clip_window_intersection v = 0" using a(1) by simp
  show "page_box u \<inter> clip_box u \<noteq> {} \<Longrightarrow> view_ok v \<and> window v = page_box u \<inter> clip_box u"
    using a window_shrunk [of w] w(3,4) by simp
qed

lemma update_dimension_common_clip:
  "u8g2_update_dimension_common (u\<lparr>clip_x0 := a, clip_y0 := b, clip_x1 := c, clip_y1 := d\<rparr>) =
     (u8g2_update_dimension_common u)\<lparr>clip_x0 := a, clip_y0 := b, clip_x1 := c, clip_y1 := d\<rparr>"
  unfolding u8g2_update_dimension_common_def Let_def
  by (cases "pixel_width (display_info u) \<le> 240") simp_all

lemma update_dimension_clip:
  "update_dimension (u\<lparr>clip_x0 := a, clip_y0 := b, clip_x1 := c, clip_y1 := d\<rparr>) =
     (update_dimension u)\<lparr>clip_x0 := a, clip_y0 := b, clip_x1 := c, clip_y1 := d\<rparr>"
  by (cases "cb u") (simp_all add: update_dimension_def u8g2_update_dimension_r0_def
    u8g2_update_dimension_r1_def u8g2_update_dimension_r2_def u8g2_update_dimension_r3_def
    update_dimension_common_clip)

lemma view_ok_fd [simp]:
  "view_ok (u\<lparr>font_calc_vref := f, font_decode := d\<rparr>) = view_ok u"
  "window (u\<lparr>font_calc_vref := f, font_decode := d\<rparr>) = window u"
  by (simp_all add: view_ok_def canvas_ok_def canvas_w_def canvas_h_def window_def)

text \<open>After setup the whole first page can be drawn.\<close>

lemma page_box_max:
  assumes "device_ok u" and c: "clip_x0 u = 0" "clip_y0 u = 0" "clip_x1 u = NOT 0" "clip_y1 u = NOT 0"
  shows "page_box u \<inter> clip_box u = page_box u" "page_box u \<noteq> {}" "clip_ok u"
proof -
  have m: "uint (NOT 0 :: u8) = 255" by (simp add: unsigned_minus_1_eq_mask mask_eq_exp_minus_1)
  note d = assms(1) [unfolded device_ok_def Let_def]
  show "clip_ok u" unfolding clip_ok_def c word_less_def m by simp
  have cb: "clip_box u = {0..<255} \<times> {0..<255}" unfolding clip_box_def c m by simp
  define w h p0 p1 where "w = uint (pixel_width (display_info u))" and "h = uint (pixel_height (display_info u))"
    and "p0 = 8 * uint (tile_curr_row u)" and "p1 = min (p0 + 8 * uint (tile_buf_height u)) h"
  have b: "0 < w" "w \<le> 240" "0 \<le> p0" "p0 < p1" "p1 \<le> h" "h \<le> 248"
    using d uint_u8(1) [of "tile_curr_row u"] unfolding w_def h_def p0_def p1_def by (auto simp: min_def)
  have "{0..<w} \<subseteq> {0..<255}" "{p0..<p1} \<subseteq> {0..<255}" "{h - p1..<h - p0} \<subseteq> {0..<255}"
    "{0..<w} \<noteq> {}" "{p0..<p1} \<noteq> {}" "{h - p1..<h - p0} \<noteq> {}"
    using b by auto
  then have "page_box u \<subseteq> {0..<255} \<times> {0..<255} \<and> page_box u \<noteq> {}"
    unfolding page_box_def Let_def w_def [symmetric] h_def [symmetric] p0_def [symmetric] p1_def [symmetric]
    by (cases "cb u") (simp_all add: Sigma_mono times_eq_iff Times_subset_cancel2 Sigma_empty_iff del: atLeastLessThan_subset_iff ivl_subset)
  then show "page_box u \<inter> clip_box u = page_box u" "page_box u \<noteq> {}"
    unfolding cb by blast+
qed

lemma SetupBuffer_view:
  fixes u :: u8g2 and ll :: ll_hvline_fn and rotation :: u8g2_cb
  assumes "device_ok (u\<lparr>tile_buf := buf, tile_buf_height := h, tile_curr_row := 0\<rparr>)"
  defines "v \<equiv> u8g2_SetupBuffer buf h ll rotation u"
  shows "view_ok v" and "window v = page_box (u\<lparr>tile_buf_height := h, tile_curr_row := 0, cb := rotation\<rparr>)"
    and "tile_buf v = buf"
proof -
  let ?u = "u\<lparr>font := None, ll_hvline := ll, tile_buf := buf, tile_buf_height := h,
    tile_curr_row := 0, font_decode := (font_decode u)\<lparr>is_transparent := 0\<rparr>,
    bitmap_transparency := 0, draw_color := 1, is_auto_page_clear := 1, cb := rotation,
    clip_x0 := 0, clip_y0 := 0, clip_x1 := NOT 0, clip_y1 := NOT 0\<rparr>"
  define w where "w = update_page_win (update_dimension ?u)"
  have dev: "device_ok ?u" using assms(1) by (simp add: device_ok_def Let_def)
  note b = page_box_max [OF dev]
  have pb: "page_box ?u = page_box (u\<lparr>tile_buf_height := h, tile_curr_row := 0, cb := rotation\<rparr>)"
    by (cases rotation) (simp_all add: page_box_def Let_def)
  have w: "view_ok w" "window w = page_box ?u" "tile_buf w = buf"
    using page_view [OF dev] b unfolding w_def by simp_all
  have v: "v = w\<lparr>font_calc_vref := Vref_Font, font_decode := (font_decode w)\<lparr>fd_dir := 0\<rparr>\<rparr>"
    unfolding v_def w_def u8g2_SetupBuffer_def u8g2_SetMaxClipWindow_def update_dimension_clip Let_def by simp
  show "view_ok v" and "window v = page_box (u\<lparr>tile_buf_height := h, tile_curr_row := 0, cb := rotation\<rparr>)"
    and "tile_buf v = buf"
    using w pb unfolding v by simp_all
qed

lemma firmware_view:
  "view_ok (u8g2_Setup_sh1106_i2c_128x64_winstar_f U8G2_R0 u)"
  "window (u8g2_Setup_sh1106_i2c_128x64_winstar_f U8G2_R0 u) = {0..<128} \<times> {0..<64}"
  "tile_buf (u8g2_Setup_sh1106_i2c_128x64_winstar_f U8G2_R0 u) = replicate 1024 0"
proof -
  let ?u = "u8x8_d_helper_display_setup_memory u8x8_sh1106_128x64_noname_display_info (u8x8_SetupDefaults u)"
  have dev: "device_ok (?u\<lparr>tile_buf := replicate 1024 0, tile_buf_height := 8, tile_curr_row := 0\<rparr>)"
    by (simp add: device_ok_def u8x8_d_helper_display_setup_memory_def
      u8x8_sh1106_128x64_noname_display_info_def)
  show "view_ok (u8g2_Setup_sh1106_i2c_128x64_winstar_f U8G2_R0 u)"
    "window (u8g2_Setup_sh1106_i2c_128x64_winstar_f U8G2_R0 u) = {0..<128} \<times> {0..<64}"
    "tile_buf (u8g2_Setup_sh1106_i2c_128x64_winstar_f U8G2_R0 u) = replicate 1024 0"
    using SetupBuffer_view [OF dev, of LL_Vertical_Top_Lsb U8G2_R0]
    by (simp_all add: u8g2_Setup_sh1106_i2c_128x64_winstar_f_def u8g2_m_16_8_f_def page_box_def
      u8x8_d_helper_display_setup_memory_def u8x8_sh1106_128x64_noname_display_info_def)
qed

section \<open>A length that wraps\<close>

text \<open>A range that runs past 255 from inside the window: the clipping stops one pixel short of the
  window's edge, and a range that starts on the last pixel is left with length 0, for which the
  drawing loops run 256 times.\<close>

lemma clip_wraps:
  assumes "c \<le> a" and "a < d" and "256 \<le> uint a + uint len"
  shows "u8g2_clip_intersection2 a len c d = (if d - 1 \<le> c then None else Some (a, d - 1 - a))"
proof -
  note r = uint_u8 [of a] uint_u8 [of len] uint_u8 [of c] uint_u8 [of d]
  have i: "uint c \<le> uint a" "uint a < uint d" using assms by (simp_all add: word_le_def word_less_def)
  then have d1: "1 \<le> uint d" using uint_u8(1) [of a] by linarith
  have gt: "a > a + len" using r assms(3) by (simp add: word_less_def uint_u8_add)
  have e: "uint (d - 1) = uint d - 1" using d1 by (simp add: uint_u8_sub)
  have "\<not> d \<le> a" "\<not> a < c" "\<not> d < d - 1" using i e assms by (simp_all add: word_le_def word_less_def)
  then show ?thesis using assms(2) gt by (simp add: u8g2_clip_intersection2_def Let_def)
qed

lemma hloop_overrun:
  "length buf < ptr + (if len = 0 then 256 else unat len) \<Longrightarrow> hloop buf ptr om xm len = None"
proof (induction len arbitrary: buf ptr rule: u8_induct_down)
  case (step n)
  show ?case
  proof (cases "ptr < length buf")
    case False
    then show ?thesis by (simp add: hloop.simps [of buf] upd_byte_def)
  next
    case True
    then have "n \<noteq> 1" using step.prems by auto
    moreover have "(if n = 0 then 256 else unat n) = Suc (if n - 1 = 0 then 256 else unat (n - 1))"
      using \<open>n \<noteq> 1\<close> unat_minus_one [of n] unat_gt_0 [of n]
      by (cases "n = 0") (simp_all add: unsigned_minus_1_eq_mask mask_eq_exp_minus_1)
    ultimately show ?thesis
      using step True by (simp add: hloop.simps [of buf] upd_byte_def)
  qed
qed

lemma DrawHLine_overrun_full:
  assumes ok: "view_ok u" and cb: "cb u = U8G2_R0" "ll_hvline u = LL_Vertical_Top_Lsb"
    and x: "x = user_x1 u - 1" "user_x0 u < x" "256 \<le> uint x + uint len"
    and y: "user_y0 u \<le> y" "y < user_y1 u"
    and row: "canvas_h u \<le> unat (y - pixel_curr_row u) div 8 * 8 + 8"
  shows "u8g2_DrawHLine u x y len = None"
proof -
  note v = view_okD(1-5) [OF ok]
  have len: "len \<noteq> 0" using x(3) uint_u8 [of x] by auto
  have "1 \<le> uint (user_x1 u)"
    using v(3) uint_u8(1) [of "user_x0 u"] unfolding word_less_def by linarith
  then have lt: "x < user_x1 u" using x(1) by (simp add: word_less_def uint_u8_sub)
  have y': "(y < user_y0 u) = False" "(user_y1 u \<le> y) = False"
    using y by (simp_all add: leD)
  have "\<not> x \<le> user_x0 u" using x(2) by simp
  then have clip: "u8g2_clip_intersection2 x len (user_x0 u) (user_x1 u) = Some (x, 0)"
    using clip_wraps [OF _ lt x(3), of "user_x0 u"] x by simp
  have "u8g2_DrawHLine u x y len = u8g2_draw_hv_line_2dir u x y 0 0"
    unfolding u8g2_DrawHLine_def DrawHVLine_start [OF len v(2)] Let_def
    using clip cb y' by (simp add: hv_x_def hv_y_def draw_l90_def u8g2_draw_l90_r0_def)
  moreover have "u8g2_draw_hv_line_2dir u x y 0 0 = None"
  proof -
    define w Y where "w = unat (tile_width (display_info u))" and "Y = unat (y - pixel_curr_row u) div 8"
    have c: "canvas_w u = 8 * w" "0 < w" "w < 32" "length (tile_buf u) = w * canvas_h u"
      using v(1) by (simp_all add: canvas_ok_def canvas_w_def w_def)
    have "Y * 8 \<le> 255" unfolding Y_def using unat_u8_le [of "y - pixel_curr_row u"] by linarith
    then have "Y * 8 * w \<le> 255 * 31" using c(3) by (intro mult_le_mono) auto
    then have off: "unat ((ucast (y - pixel_curr_row u) AND NOT 7) * ucast (tile_width (display_info u)) :: u16) =
        Y * (8 * w)"
      unfolding Y_def w_def by (intro unat_tile_offset) linarith
    have "w * canvas_h u \<le> w * (Y * 8 + 8)" using row by (intro mult_le_mono2) (simp add: Y_def)
    then have "length (tile_buf u) < Y * (8 * w) + unat x + 256"
      using c by (simp add: algebra_simps)
    then have "u8g2_ll_hvline_vertical_top_lsb u x (y - pixel_curr_row u) 0 0 = None"
      unfolding u8g2_ll_hvline_vertical_top_lsb_def Let_def off
      using hloop_overrun [of "tile_buf u" "Y * (8 * w) + unat x" 0] by simp
    then show ?thesis using cb(2) by (simp add: u8g2_draw_hv_line_2dir_def u8g2_ll_hvline_def)
  qed
  ultimately show ?thesis by simp
qed

section \<open>The properties\<close>

text \<open>C11: drawing a horizontal or vertical line, in any of the four directions and under any
  rotation, never touches memory outside the buffer and paints exactly the pixels of the line that
  lie in the user window, in the draw colour; every other pixel and every other field of the state
  is unchanged. The line's far end must not wrap around 255 from inside the window.\<close>

theorem hv_line_exact:
  assumes "view_ok u" and "len \<noteq> 0" and "hv_clear u x y len dir"
  shows "\<exists>u'. u8g2_DrawHVLine u x y len dir = Some u' \<and> draws u (hv_line x y len dir) u'"
  by (rule DrawHVLine_draws [OF assms])

theorem hv_line_exact_witness:
  "\<exists>u'. u8g2_DrawHVLine (u8g2_Setup_sh1106_i2c_128x64_winstar_f U8G2_R0 u8g2_zero) 120 10 20 0 = Some u' \<and>
     draws (u8g2_Setup_sh1106_i2c_128x64_winstar_f U8G2_R0 u8g2_zero) (hv_line 120 10 20 0) u'"
  by (rule hv_line_exact [OF firmware_view(1)]) (simp_all add: hv_clear_def hv_x_def range_clear_def)

text \<open>C17: whatever the rotation, moving to a row of tiles makes the user window exactly the part
  of that page that lies in the clip window, and gives a state in which every pixel of the window
  has its place in the buffer; if they do not meet, drawing is switched off.\<close>

theorem page_window:
  assumes "device_ok (u\<lparr>tile_curr_row := row\<rparr>)" and "clip_ok u"
  shows "let v = u8g2_SetBufferCurrTileRow row u;
             area = page_box (u\<lparr>tile_curr_row := row\<rparr>) \<inter> clip_box u in
         tile_buf v = tile_buf u \<and>
         (if area = {} then is_page_clip_window_intersection v = 0 else view_ok v \<and> window v = area)"
proof -
  have "clip_ok (u\<lparr>tile_curr_row := row\<rparr>)" "clip_box (u\<lparr>tile_curr_row := row\<rparr>) = clip_box u"
    using assms(2) by (simp_all add: clip_ok_def clip_box_def)
  with page_view [OF assms(1) this(1)] show ?thesis
    unfolding u8g2_SetBufferCurrTileRow_def Let_def by simp
qed

theorem page_window_witness:
  "let u = u8g2_zero\<lparr>display_info := u8x8_sh1106_128x64_noname_display_info, cb := U8G2_R3,
       tile_buf := replicate 256 0, tile_buf_height := 2, clip_x1 := 100, clip_y1 := 50\<rparr>;
       v = u8g2_SetBufferCurrTileRow 4 u; area = page_box (u\<lparr>tile_curr_row := 4\<rparr>) \<inter> clip_box u in
   tile_buf v = tile_buf u \<and>
   (if area = {} then is_page_clip_window_intersection v = 0 else view_ok v \<and> window v = area)"
  unfolding Let_def
  by (rule page_window [unfolded Let_def])
    (simp_all add: device_ok_def u8x8_sh1106_128x64_noname_display_info_def u8g2_zero_def clip_ok_def)

text \<open>C21: the intersection test, which lets callers skip what is not visible, is exact: it says
  whether the box meets the user window, also for boxes that wrap around 255.\<close>

theorem IsIntersection_exact:
  assumes "user_x0 u < user_x1 u" and "user_y0 u < user_y1 u" and "x0 \<noteq> x1" and "y0 \<noteq> y1"
  shows "u8g2_IsIntersection u x0 y0 x1 y1 \<noteq> 0 \<longleftrightarrow>
    window u \<inter> (wrap_range x0 x1 \<times> wrap_range y0 y1) \<noteq> {}"
  by (rule IsIntersection_window [OF assms])

theorem IsIntersection_exact_witness:
  "u8g2_IsIntersection (u8g2_zero\<lparr>user_x1 := 128, user_y1 := 64\<rparr>) 250 60 3 70 \<noteq> 0 \<longleftrightarrow>
    window (u8g2_zero\<lparr>user_x1 := 128, user_y1 := 64\<rparr>) \<inter> (wrap_range 250 3 \<times> wrap_range 60 70) \<noteq> {}"
  by (rule IsIntersection_exact) (simp_all add: u8g2_zero_def)

text \<open>C39: a line that starts on the last column of the window and whose length runs past 255
  writes behind the tile buffer when it lies in the buffer's last row of tiles: clipping leaves
  length 0, which the drawing loop takes for 256.\<close>

theorem DrawHLine_overrun:
  assumes "view_ok u" and "cb u = U8G2_R0" and "ll_hvline u = LL_Vertical_Top_Lsb"
    and "x = user_x1 u - 1" and "user_x0 u < x" and "256 \<le> uint x + uint len"
    and "user_y0 u \<le> y" and "y < user_y1 u"
    and "canvas_h u \<le> unat (y - pixel_curr_row u) div 8 * 8 + 8"
  shows "u8g2_DrawHLine u x y len = None"
  by (rule DrawHLine_overrun_full [OF assms])

theorem DrawHLine_overrun_witness:
  "u8g2_DrawHLine (u8g2_Setup_sh1106_i2c_128x64_winstar_f U8G2_R0 u8g2_zero) 127 60 129 = None"
  by (rule DrawHLine_overrun [OF firmware_view(1)]) (code_simp)+

end
