(* ===== verification/U8x8_Bus.thy ===== *)
theory U8x8_Bus
  imports U8g2_Types
begin

text \<open>
  libs/u8g2/csrc/u8x8_gpio.c and u8x8_byte.c: how bytes get onto the wires. A byte procedure takes a
  message, a number and some bytes, and sets the pins of the board with the pin procedure it is
  given. The serial and parallel procedures are here; the two-wire bus is in \<open>U8x8_I2C\<close>.

  A procedure has the result \<^term>\<open>None\<close> when a procedure it calls aborts, or when it reads past the
  end of the bytes it is given.
\<close>

section \<open>Messages and procedures\<close>

abbreviation (input) "U8X8_MSG_BYTE_INIT \<equiv> (20 :: u8)"
abbreviation (input) "U8X8_MSG_BYTE_SEND \<equiv> (23 :: u8)"
abbreviation (input) "U8X8_MSG_BYTE_START_TRANSFER \<equiv> (24 :: u8)"
abbreviation (input) "U8X8_MSG_BYTE_END_TRANSFER \<equiv> (25 :: u8)"
abbreviation (input) "U8X8_MSG_BYTE_SET_DC \<equiv> (32 :: u8)"

abbreviation (input) "U8X8_MSG_GPIO_AND_DELAY_INIT \<equiv> (40 :: u8)"
abbreviation (input) "U8X8_MSG_DELAY_MILLI \<equiv> (41 :: u8)"
abbreviation (input) "U8X8_MSG_DELAY_NANO \<equiv> (44 :: u8)"
abbreviation (input) "U8X8_MSG_DELAY_I2C \<equiv> (45 :: u8)"

abbreviation (input) "U8X8_MSG_GPIO_SPI_CLOCK \<equiv> (64 :: u8)"
abbreviation (input) "U8X8_MSG_GPIO_SPI_DATA \<equiv> (65 :: u8)"
abbreviation (input) "U8X8_MSG_GPIO_D0 \<equiv> (64 :: u8)"
abbreviation (input) "U8X8_MSG_GPIO_E \<equiv> (72 :: u8)"
abbreviation (input) "U8X8_MSG_GPIO_CS \<equiv> (73 :: u8)"
abbreviation (input) "U8X8_MSG_GPIO_DC \<equiv> (74 :: u8)"
abbreviation (input) "U8X8_MSG_GPIO_RESET \<equiv> (75 :: u8)"
abbreviation (input) "U8X8_MSG_GPIO_I2C_CLOCK \<equiv> (76 :: u8)"
abbreviation (input) "U8X8_MSG_GPIO_I2C_DATA \<equiv> (77 :: u8)"
abbreviation (input) "U8X8_MSG_GPIO_CS1 \<equiv> (78 :: u8)"
abbreviation (input) "U8X8_MSG_GPIO_CS2 \<equiv> (79 :: u8)"

text \<open>A message procedure (\<open>u8x8_msg_cb\<close>); its pointer argument is the list of bytes it points at,
  empty for a null pointer.\<close>

type_synonym 's msg_cb = "u8 \<Rightarrow> u8 \<Rightarrow> u8 list \<Rightarrow> 's \<Rightarrow> (u8 \<times> 's) option"

text \<open>A call whose result is not used, and the return statements.\<close>

definition call :: "'s msg_cb \<Rightarrow> u8 \<Rightarrow> u8 \<Rightarrow> u8 list \<Rightarrow> 's \<Rightarrow> 's option" where
  "call proc msg n p s = map_option snd (proc msg n p s)"

definition returning :: "u8 \<Rightarrow> 's option \<Rightarrow> (u8 \<times> 's) option" where
  "returning r = map_option (Pair r)"

lemma returning_simps [simp]: "returning r (Some s) = Some (r, s)" "returning r None = None"
  by (simp_all add: returning_def)

lemma snd_returning [simp]: "map_option snd (returning r x) = x"
  by (cases x) simp_all

lemma call_Some [simp]: "proc msg n p s = Some (r, s') \<Longrightarrow> call proc msg n p s = Some s'"
  by (simp add: call_def)

text \<open>The loop \<open>while ( arg_int > 0 )\<close> over the bytes a message points at.\<close>

fun for_bytes :: "(u8 \<Rightarrow> 's \<Rightarrow> 's option) \<Rightarrow> u8 \<Rightarrow> u8 list \<Rightarrow> 's \<Rightarrow> 's option" where
  "for_bytes body n [] s = (if n > 0 then None else Some s)"
| "for_bytes body n (b # data) s =
     (if n > 0 then Option.bind (body b s) (for_bytes body (n - 1) data) else Some s)"

lemma unat_pred: "(n :: u8) > 0 \<Longrightarrow> unat (n - 1) = unat n - 1"
  by (rule unat_minus_one) auto

lemma for_bytes_foldo:
  "unat n \<le> length data \<Longrightarrow>
     for_bytes body n data s = foldo (\<lambda>s b. body b s) (take (unat n) data) s"
proof (induction data arbitrary: n s)
  case Nil
  then have "n = 0" by (simp add: unat_eq_0)
  then show ?case by simp
next
  case (Cons b data)
  show ?case
  proof (cases "n = 0")
    case False
    then have n: "n > 0" "unat n = Suc (unat (n - 1))"
      by (simp_all add: word_neq_0_conv unat_pred Suc_pred unat_gt_0)
    then have "for_bytes body (n - 1) data = foldo (\<lambda>s b. body b s) (take (unat (n - 1)) data)"
      using Cons by (intro ext) simp
    then show ?thesis using n by simp
  qed simp
qed

lemma for_bytes_short:
  "length data < unat n \<Longrightarrow> for_bytes body n data s = None"
proof (induction data arbitrary: n s)
  case Nil
  then have "n > 0" by (metis unat_gt_0 list.size(3) word_neq_0_conv)
  then show ?case by simp
next
  case (Cons b data)
  then have n: "n > 0" by (metis gr_implies_not0 unat_eq_zero word_neq_0_conv)
  with Cons have "length data < unat (n - 1)" by (simp add: unat_pred)
  with Cons.IH show ?case using n by (auto split: bind_splits)
qed

section \<open>Pins\<close>

definition u8x8_gpio_call :: "'s msg_cb \<Rightarrow> u8 \<Rightarrow> u8 \<Rightarrow> 's \<Rightarrow> 's option" where
  "u8x8_gpio_call gpio msg arg s = call gpio msg arg [] s"

abbreviation (input) "u8x8_gpio_Delay \<equiv> u8x8_gpio_call"
abbreviation (input) "u8x8_gpio_SetDC gpio \<equiv> u8x8_gpio_call gpio U8X8_MSG_GPIO_DC"
abbreviation (input) "u8x8_gpio_SetCS gpio \<equiv> u8x8_gpio_call gpio U8X8_MSG_GPIO_CS"
abbreviation (input) "u8x8_gpio_SetReset gpio \<equiv> u8x8_gpio_call gpio U8X8_MSG_GPIO_RESET"
abbreviation (input) "u8x8_gpio_SetSPIClock gpio \<equiv> u8x8_gpio_call gpio U8X8_MSG_GPIO_SPI_CLOCK"
abbreviation (input) "u8x8_gpio_SetSPIData gpio \<equiv> u8x8_gpio_call gpio U8X8_MSG_GPIO_SPI_DATA"

section \<open>Sending bytes\<close>

definition u8x8_byte_SetDC :: "'s msg_cb \<Rightarrow> u8 \<Rightarrow> 's \<Rightarrow> (u8 \<times> 's) option" where
  "u8x8_byte_SetDC byte dc s = byte U8X8_MSG_BYTE_SET_DC dc [] s"

definition u8x8_byte_SendBytes :: "'s msg_cb \<Rightarrow> u8 \<Rightarrow> u8 list \<Rightarrow> 's \<Rightarrow> (u8 \<times> 's) option" where
  "u8x8_byte_SendBytes byte cnt data s = byte U8X8_MSG_BYTE_SEND cnt data s"

definition u8x8_byte_SendByte :: "'s msg_cb \<Rightarrow> u8 \<Rightarrow> 's \<Rightarrow> (u8 \<times> 's) option" where
  "u8x8_byte_SendByte byte b s = u8x8_byte_SendBytes byte 1 [b] s"

definition u8x8_byte_StartTransfer :: "'s msg_cb \<Rightarrow> 's \<Rightarrow> (u8 \<times> 's) option" where
  "u8x8_byte_StartTransfer byte s = byte U8X8_MSG_BYTE_START_TRANSFER 0 [] s"

definition u8x8_byte_EndTransfer :: "'s msg_cb \<Rightarrow> 's \<Rightarrow> (u8 \<times> 's) option" where
  "u8x8_byte_EndTransfer byte s = byte U8X8_MSG_BYTE_END_TRANSFER 0 [] s"

definition u8x8_byte_empty :: "'s msg_cb" where
  "u8x8_byte_empty msg arg_int arg_ptr s = Some (1, s)"

section \<open>Serial procedures\<close>

definition u8x8_GetSPIClockPhase :: "'a u8x8_scheme \<Rightarrow> u8" where
  "u8x8_GetSPIClockPhase u = spi_mode (display_info u) AND 1"

text \<open>\<open>sw_spi_bits\<close> is the inner loop, with the iterations that are left.\<close>

primrec sw_spi_bits ::
    "'a u8x8_scheme msg_cb \<Rightarrow> u8 \<Rightarrow> u8 \<Rightarrow> nat \<Rightarrow> u8 \<Rightarrow> 'a u8x8_scheme \<Rightarrow> 'a u8x8_scheme option" where
  "sw_spi_bits gpio takeover_edge not_takeover_edge 0 b u = Some u"
| "sw_spi_bits gpio takeover_edge not_takeover_edge (Suc left) b u = do {
     u \<leftarrow> (if b AND 128 \<noteq> 0 then u8x8_gpio_SetSPIData gpio 1 u else u8x8_gpio_SetSPIData gpio 0 u);
     let b = push_bit 1 b;
     u \<leftarrow> u8x8_gpio_SetSPIClock gpio not_takeover_edge u;
     u \<leftarrow> u8x8_gpio_Delay gpio U8X8_MSG_DELAY_NANO (sda_setup_time_ns (display_info u)) u;
     u \<leftarrow> u8x8_gpio_SetSPIClock gpio takeover_edge u;
     u \<leftarrow> u8x8_gpio_Delay gpio U8X8_MSG_DELAY_NANO (sck_pulse_width_ns (display_info u)) u;
     sw_spi_bits gpio takeover_edge not_takeover_edge left b u }"

definition chip_enable :: "'a u8x8_scheme msg_cb \<Rightarrow> 'a u8x8_scheme \<Rightarrow> 'a u8x8_scheme option" where
  "chip_enable gpio u = do {
     u \<leftarrow> u8x8_gpio_SetCS gpio (chip_enable_level (display_info u)) u;
     call gpio U8X8_MSG_DELAY_NANO (post_chip_enable_wait_ns (display_info u)) [] u }"

definition chip_disable :: "'a u8x8_scheme msg_cb \<Rightarrow> 'a u8x8_scheme \<Rightarrow> 'a u8x8_scheme option" where
  "chip_disable gpio u = do {
     u \<leftarrow> call gpio U8X8_MSG_DELAY_NANO (pre_chip_disable_wait_ns (display_info u)) [] u;
     u8x8_gpio_SetCS gpio (chip_disable_level (display_info u)) u }"

definition u8x8_byte_4wire_sw_spi :: "'a u8x8_scheme msg_cb \<Rightarrow> 'a u8x8_scheme msg_cb" where
  "u8x8_byte_4wire_sw_spi gpio msg arg_int arg_ptr u =
     (let takeover_edge = u8x8_GetSPIClockPhase u;
          not_takeover_edge = 1 - takeover_edge
      in if msg = U8X8_MSG_BYTE_SEND then
           returning 1 (for_bytes (\<lambda>b. sw_spi_bits gpio takeover_edge not_takeover_edge 8 b) arg_int arg_ptr u)
         else if msg = U8X8_MSG_BYTE_INIT then
           returning 1 (do {
             u \<leftarrow> u8x8_gpio_SetCS gpio (chip_disable_level (display_info u)) u;
             u8x8_gpio_SetSPIClock gpio (u8x8_GetSPIClockPhase u) u })
         else if msg = U8X8_MSG_BYTE_SET_DC then returning 1 (u8x8_gpio_SetDC gpio arg_int u)
         else if msg = U8X8_MSG_BYTE_START_TRANSFER then returning 1 (chip_enable gpio u)
         else if msg = U8X8_MSG_BYTE_END_TRANSFER then returning 1 (chip_disable gpio u)
         else Some (0, u))"

text \<open>The three-wire variant sends the command/data level as a ninth bit.\<close>

primrec sw_spi_bits9 ::
    "'a u8x8_scheme msg_cb \<Rightarrow> u8 \<Rightarrow> u8 \<Rightarrow> nat \<Rightarrow> u16 \<Rightarrow> 'a u8x8_scheme \<Rightarrow> 'a u8x8_scheme option" where
  "sw_spi_bits9 gpio takeover_edge not_takeover_edge 0 b u = Some u"
| "sw_spi_bits9 gpio takeover_edge not_takeover_edge (Suc left) b u = do {
     u \<leftarrow> (if b AND 256 \<noteq> 0 then u8x8_gpio_SetSPIData gpio 1 u else u8x8_gpio_SetSPIData gpio 0 u);
     let b = push_bit 1 b;
     u \<leftarrow> u8x8_gpio_SetSPIClock gpio not_takeover_edge u;
     u \<leftarrow> u8x8_gpio_Delay gpio U8X8_MSG_DELAY_NANO (sda_setup_time_ns (display_info u)) u;
     u \<leftarrow> u8x8_gpio_SetSPIClock gpio takeover_edge u;
     u \<leftarrow> u8x8_gpio_Delay gpio U8X8_MSG_DELAY_NANO (sck_pulse_width_ns (display_info u)) u;
     sw_spi_bits9 gpio takeover_edge not_takeover_edge left b u }"

definition u8x8_byte_3wire_sw_spi :: "'a u8x8_scheme msg_cb \<Rightarrow> 'a u8x8_scheme msg_cb" where
  "u8x8_byte_3wire_sw_spi gpio msg arg_int arg_ptr u =
     (let takeover_edge = u8x8_GetSPIClockPhase u;
          not_takeover_edge = 1 - takeover_edge
      in if msg = U8X8_MSG_BYTE_SEND then
           returning 1 (for_bytes (\<lambda>b u.
             sw_spi_bits9 gpio takeover_edge not_takeover_edge 9
               (if last_dc u \<noteq> 0 then ucast b OR 256 else ucast b) u) arg_int arg_ptr u)
         else if msg = U8X8_MSG_BYTE_INIT then
           returning 1 (do {
             u \<leftarrow> u8x8_gpio_SetCS gpio (chip_disable_level (display_info u)) u;
             u8x8_gpio_SetSPIClock gpio (u8x8_GetSPIClockPhase u) u })
         else if msg = U8X8_MSG_BYTE_SET_DC then Some (1, u\<lparr>last_dc := arg_int\<rparr>)
         else if msg = U8X8_MSG_BYTE_START_TRANSFER then returning 1 (chip_enable gpio u)
         else if msg = U8X8_MSG_BYTE_END_TRANSFER then returning 1 (chip_disable gpio u)
         else Some (0, u))"

section \<open>Parallel procedures\<close>

text \<open>The loop that puts a byte on the data pins: \<open>left\<close> more iterations, from pin \<open>i\<close>.\<close>

primrec data_pins :: "'s msg_cb \<Rightarrow> nat \<Rightarrow> u8 \<Rightarrow> u8 \<Rightarrow> 's \<Rightarrow> 's option" where
  "data_pins gpio 0 i b s = Some s"
| "data_pins gpio (Suc left) i b s =
     Option.bind (u8x8_gpio_call gpio i (b AND 1) s) (data_pins gpio left (i + 1) (drop_bit 1 b))"

text \<open>One byte with a pulse on the enable pin; \<open>active\<close> is the level of the pulse.\<close>

definition strobe_byte ::
    "'a u8x8_scheme msg_cb \<Rightarrow> u8 \<Rightarrow> u8 \<Rightarrow> 'a u8x8_scheme \<Rightarrow> 'a u8x8_scheme option" where
  "strobe_byte gpio active b u = do {
     u \<leftarrow> data_pins gpio 8 U8X8_MSG_GPIO_D0 b u;
     u \<leftarrow> u8x8_gpio_Delay gpio U8X8_MSG_DELAY_NANO (data_setup_time_ns (display_info u)) u;
     u \<leftarrow> u8x8_gpio_call gpio U8X8_MSG_GPIO_E active u;
     u \<leftarrow> u8x8_gpio_Delay gpio U8X8_MSG_DELAY_NANO (write_pulse_width_ns (display_info u)) u;
     u8x8_gpio_call gpio U8X8_MSG_GPIO_E (1 - active) u }"

definition u8x8_byte_8bit_6800mode :: "'a u8x8_scheme msg_cb \<Rightarrow> 'a u8x8_scheme msg_cb" where
  "u8x8_byte_8bit_6800mode gpio msg arg_int arg_ptr u =
     (if msg = U8X8_MSG_BYTE_SEND then returning 1 (for_bytes (strobe_byte gpio 1) arg_int arg_ptr u)
      else if msg = U8X8_MSG_BYTE_INIT then
        returning 1 (do {
          u \<leftarrow> u8x8_gpio_SetCS gpio (chip_disable_level (display_info u)) u;
          u8x8_gpio_call gpio U8X8_MSG_GPIO_E 0 u })
      else if msg = U8X8_MSG_BYTE_SET_DC then returning 1 (u8x8_gpio_SetDC gpio arg_int u)
      else if msg = U8X8_MSG_BYTE_START_TRANSFER then returning 1 (chip_enable gpio u)
      else if msg = U8X8_MSG_BYTE_END_TRANSFER then returning 1 (chip_disable gpio u)
      else Some (0, u))"

definition u8x8_byte_8bit_8080mode :: "'a u8x8_scheme msg_cb \<Rightarrow> 'a u8x8_scheme msg_cb" where
  "u8x8_byte_8bit_8080mode gpio msg arg_int arg_ptr u =
     (if msg = U8X8_MSG_BYTE_SEND then returning 1 (for_bytes (strobe_byte gpio 0) arg_int arg_ptr u)
      else if msg = U8X8_MSG_BYTE_INIT then
        returning 1 (do {
          u \<leftarrow> u8x8_gpio_SetCS gpio (chip_disable_level (display_info u)) u;
          u8x8_gpio_call gpio U8X8_MSG_GPIO_E 1 u })
      else if msg = U8X8_MSG_BYTE_SET_DC then returning 1 (u8x8_gpio_SetDC gpio arg_int u)
      else if msg = U8X8_MSG_BYTE_START_TRANSFER then returning 1 (chip_enable gpio u)
      else if msg = U8X8_MSG_BYTE_END_TRANSFER then returning 1 (chip_disable gpio u)
      else Some (0, u))"

definition u8x8_byte_set_ks0108_cs :: "'s msg_cb \<Rightarrow> u8 \<Rightarrow> 's \<Rightarrow> 's option" where
  "u8x8_byte_set_ks0108_cs gpio arg s = do {
     s \<leftarrow> u8x8_gpio_SetCS gpio (arg AND 1) s;
     let arg = drop_bit 1 arg;
     s \<leftarrow> u8x8_gpio_call gpio U8X8_MSG_GPIO_CS1 (arg AND 1) s;
     let arg = drop_bit 1 arg;
     u8x8_gpio_call gpio U8X8_MSG_GPIO_CS2 (arg AND 1) s }"

definition u8x8_byte_ks0108 :: "'a u8x8_scheme msg_cb \<Rightarrow> 'a u8x8_scheme msg_cb" where
  "u8x8_byte_ks0108 gpio msg arg_int arg_ptr u =
     (if msg = U8X8_MSG_BYTE_SEND then returning 1 (for_bytes (strobe_byte gpio 1) arg_int arg_ptr u)
      else if msg = U8X8_MSG_BYTE_INIT then
        returning 1 (do {
          u \<leftarrow> u8x8_gpio_SetCS gpio (chip_disable_level (display_info u)) u;
          u8x8_gpio_call gpio U8X8_MSG_GPIO_E 0 u })
      else if msg = U8X8_MSG_BYTE_SET_DC then returning 1 (u8x8_gpio_SetDC gpio arg_int u)
      else if msg = U8X8_MSG_BYTE_START_TRANSFER then
        returning 1 (do {
          u \<leftarrow> u8x8_byte_set_ks0108_cs gpio arg_int u;
          call gpio U8X8_MSG_DELAY_NANO (post_chip_enable_wait_ns (display_info u)) [] u })
      else if msg = U8X8_MSG_BYTE_END_TRANSFER then
        returning 1 (do {
          u \<leftarrow> call gpio U8X8_MSG_DELAY_NANO (pre_chip_disable_wait_ns (display_info u)) [] u;
          u8x8_byte_set_ks0108_cs gpio arg_int u })
      else Some (0, u))"

definition sed1520_byte ::
    "'a u8x8_scheme msg_cb \<Rightarrow> u8 \<Rightarrow> 'a u8x8_scheme \<Rightarrow> 'a u8x8_scheme option" where
  "sed1520_byte gpio b u = do {
     u \<leftarrow> data_pins gpio 8 U8X8_MSG_GPIO_D0 b u;
     u \<leftarrow> u8x8_gpio_Delay gpio U8X8_MSG_DELAY_NANO (data_setup_time_ns (display_info u)) u;
     u \<leftarrow> u8x8_gpio_call gpio (enable_pin u) 1 u;
     u \<leftarrow> u8x8_gpio_Delay gpio U8X8_MSG_DELAY_NANO 200 u;
     u \<leftarrow> u8x8_gpio_Delay gpio U8X8_MSG_DELAY_NANO (write_pulse_width_ns (display_info u)) u;
     u8x8_gpio_call gpio (enable_pin u) 0 u }"

definition u8x8_byte_sed1520 :: "'a u8x8_scheme msg_cb \<Rightarrow> 'a u8x8_scheme msg_cb" where
  "u8x8_byte_sed1520 gpio msg arg_int arg_ptr u =
     (if msg = U8X8_MSG_BYTE_SEND then returning 1 (for_bytes (sed1520_byte gpio) arg_int arg_ptr u)
      else if msg = U8X8_MSG_BYTE_INIT then
        returning 1 (do {
          u \<leftarrow> u8x8_gpio_SetCS gpio (chip_disable_level (display_info u)) u;
          u \<leftarrow> u8x8_gpio_call gpio U8X8_MSG_GPIO_E 0 u;
          u \<leftarrow> u8x8_gpio_call gpio U8X8_MSG_GPIO_CS 0 u;
          Some (u\<lparr>enable_pin := U8X8_MSG_GPIO_E\<rparr>) })
      else if msg = U8X8_MSG_BYTE_SET_DC then returning 1 (u8x8_gpio_SetDC gpio arg_int u)
      else if msg = U8X8_MSG_BYTE_START_TRANSFER then
        Some (1, let u = u\<lparr>enable_pin := U8X8_MSG_GPIO_E\<rparr>
                 in if arg_int \<noteq> 0 then u\<lparr>enable_pin := U8X8_MSG_GPIO_CS\<rparr> else u)
      else if msg = U8X8_MSG_BYTE_END_TRANSFER then Some (1, u)
      else Some (0, u))"

section \<open>What the wires show\<close>

text \<open>Events added to the record of the board.\<close>

definition emit :: "io_event list \<Rightarrow> 'a board_scheme \<Rightarrow> 'a board_scheme" where
  "emit es u = u\<lparr>io := io u @ es\<rparr>"

lemma emit_emit [simp]: "emit xs (emit ys u) = emit (ys @ xs) u"
  and emit_Nil [simp]: "emit [] u = u"
  by (simp_all add: emit_def)

lemma emit_sel [simp]:
  "io (emit es u) = io u @ es" "u8g2_esp32_hal (emit es u) = u8g2_esp32_hal u"
  "last_dc (emit es u) = last_dc u" "enable_pin (emit es u) = enable_pin u"
  "ssd13xx_in_transfer (emit es u) = ssd13xx_in_transfer u"
  "ld7032_in_transfer (emit es u) = ld7032_in_transfer u"
  "uc16xx_in_transfer (emit es u) = uc16xx_in_transfer u"
  "uc16xx_is_data (emit es u) = uc16xx_is_data u"
  "board.more (emit es u) = board.more u"
  by (simp_all add: emit_def)

lemma emit_sel8 [simp]:
  fixes u :: "'a u8x8_scheme"
  shows "display_info (emit es u) = display_info u" "i2c_address (emit es u) = i2c_address u"
    "i2c_started (emit es u) = i2c_started u" "x_offset (emit es u) = x_offset u"
  by (simp_all add: emit_def)

text \<open>A pin procedure that does what it is told and nothing else.\<close>

definition recording :: "'a board_scheme msg_cb \<Rightarrow> bool" where
  "recording gpio \<longleftrightarrow> (\<forall>msg arg u. \<exists>r. gpio msg arg [] u = Some (r, emit [Gpio_call msg arg] u))"

lemma recording_call:
  assumes "recording gpio"
  shows "u8x8_gpio_call gpio msg arg u = Some (emit [Gpio_call msg arg] u)"
    and "call gpio msg arg [] u = Some (emit [Gpio_call msg arg] u)"
proof -
  obtain r where "gpio msg arg [] u = Some (r, emit [Gpio_call msg arg] u)"
    using assms unfolding recording_def by blast
  then show "u8x8_gpio_call gpio msg arg u = Some (emit [Gpio_call msg arg] u)"
    and "call gpio msg arg [] u = Some (emit [Gpio_call msg arg] u)"
    by (simp_all add: u8x8_gpio_call_def)
qed

definition record_gpio :: "'a board_scheme msg_cb" where
  "record_gpio msg arg p u = Some (1, emit [Gpio_call msg arg] u)"

lemma recording_record_gpio: "recording record_gpio"
  by (simp add: recording_def record_gpio_def)

lemma foldo_emit:
  assumes "\<And>u x. keep u \<Longrightarrow> f u x = Some (emit (g x) u) \<and> keep (emit (g x) u)" and "keep u"
  shows "foldo f xs u = Some (emit (concat (map g xs)) u)"
  using assms(2) by (induction xs arbitrary: u) (simp_all add: assms(1))

text \<open>The bits of a byte, the most significant first.\<close>

definition msb_bits :: "u8 \<Rightarrow> bool list" where
  "msb_bits b = map (bit b) [7, 6, 5, 4, 3, 2, 1, 0]"

definition msb_bits9 :: "u16 \<Rightarrow> bool list" where
  "msb_bits9 b = map (bit b) [8, 7, 6, 5, 4, 3, 2, 1, 0]"

lemma and_bit_7: "(b :: u8) AND 128 \<noteq> 0 \<longleftrightarrow> bit b 7"
  and and_bit_8: "(c :: u16) AND 256 \<noteq> 0 \<longleftrightarrow> bit c 8"
  by (simp_all add: bit_iff_and_push_bit_not_eq_0)

lemma msb_bits_shift:
  "msb_bits b = bit b 7 # butlast (msb_bits (push_bit 1 b))"
  "msb_bits9 c = bit c 8 # butlast (msb_bits9 (push_bit 1 c))"
  unfolding msb_bits_def msb_bits9_def list.map butlast.simps bit_push_bit_iff by simp_all

lemma msb_bits_length [simp]: "length (msb_bits b) = 8" "length (msb_bits9 c) = 9"
  by (simp_all add: msb_bits_def msb_bits9_def)

definition spi_bit :: "'a u8x8_scheme \<Rightarrow> bool \<Rightarrow> io_event list" where
  "spi_bit u d =
     [Gpio_call U8X8_MSG_GPIO_SPI_DATA (if d then 1 else 0),
      Gpio_call U8X8_MSG_GPIO_SPI_CLOCK (1 - u8x8_GetSPIClockPhase u),
      Gpio_call U8X8_MSG_DELAY_NANO (sda_setup_time_ns (display_info u)),
      Gpio_call U8X8_MSG_GPIO_SPI_CLOCK (u8x8_GetSPIClockPhase u),
      Gpio_call U8X8_MSG_DELAY_NANO (sck_pulse_width_ns (display_info u))]"

lemma spi_bit_emit [simp]: "spi_bit (emit es u) = spi_bit u"
  by (simp add: spi_bit_def u8x8_GetSPIClockPhase_def fun_eq_iff)

lemma sw_spi_bits_wave:
  assumes "recording gpio" and "n \<le> 8"
  shows "sw_spi_bits gpio (u8x8_GetSPIClockPhase u) (1 - u8x8_GetSPIClockPhase u) n b u
    = Some (emit (concat (map (spi_bit u) (take n (msb_bits b)))) u)"
  using assms(2)
proof (induction n arbitrary: b u)
  case (Suc n)
  have e: "u8x8_GetSPIClockPhase (emit es u) = u8x8_GetSPIClockPhase u" for es
    by (simp add: u8x8_GetSPIClockPhase_def)
  have t: "take (Suc n) (msb_bits b) = bit b 7 # take n (msb_bits (push_bit 1 b))"
    using Suc.prems by (subst msb_bits_shift) (simp add: butlast_conv_take)
  note ih = Suc.IH [of "emit (spi_bit u (bit b 7)) u" "push_bit 1 b", unfolded e]
  show ?case
    unfolding t using Suc.prems ih
    by (cases "bit b 7") (simp_all add: recording_call [OF assms(1)] and_bit_7 spi_bit_def)
qed simp

lemma sw_spi_bits9_wave:
  assumes "recording gpio" and "n \<le> 9"
  shows "sw_spi_bits9 gpio (u8x8_GetSPIClockPhase u) (1 - u8x8_GetSPIClockPhase u) n b u
    = Some (emit (concat (map (spi_bit u) (take n (msb_bits9 b)))) u)"
  using assms(2)
proof (induction n arbitrary: b u)
  case (Suc n)
  have e: "u8x8_GetSPIClockPhase (emit es u) = u8x8_GetSPIClockPhase u" for es
    by (simp add: u8x8_GetSPIClockPhase_def)
  have t: "take (Suc n) (msb_bits9 b) = bit b 8 # take n (msb_bits9 (push_bit 1 b))"
    using Suc.prems by (subst msb_bits_shift) (simp add: butlast_conv_take)
  note ih = Suc.IH [of "emit (spi_bit u (bit b 8)) u" "push_bit 1 b", unfolded e]
  show ?case
    unfolding t using Suc.prems ih
    by (cases "bit b 8") (simp_all add: recording_call [OF assms(1)] and_bit_8 spi_bit_def)
qed simp

text \<open>A receiver of the serial bus: it holds the levels of the clock and the data line and takes the
  data level when the clock changes to \<open>edge\<close>.\<close>

fun spi_sample :: "u8 \<Rightarrow> u8 \<Rightarrow> bool \<Rightarrow> io_event list \<Rightarrow> bool list" where
  "spi_sample edge clk dat (Gpio_call pin v # es) =
     (if pin = U8X8_MSG_GPIO_SPI_CLOCK then
        (if v \<noteq> clk \<and> v = edge then [dat] else []) @ spi_sample edge v dat es
      else if pin = U8X8_MSG_GPIO_SPI_DATA then spi_sample edge clk (v \<noteq> 0) es
      else spi_sample edge clk dat es)"
| "spi_sample edge clk dat (_ # es) = spi_sample edge clk dat es"
| "spi_sample edge clk dat [] = []"

lemma clock_phase_neq: "1 - u8x8_GetSPIClockPhase u \<noteq> u8x8_GetSPIClockPhase u"
proof -
  have "u8x8_GetSPIClockPhase u = 0 \<or> u8x8_GetSPIClockPhase u = 1"
    by (simp add: u8x8_GetSPIClockPhase_def and_one_eq mod_2_eq_odd)
  then show ?thesis by auto
qed

text \<open>Either edge of the clock finds the bit on the data line.\<close>

lemma spi_sample_bits:
  "spi_sample (u8x8_GetSPIClockPhase u) clk dat (concat (map (spi_bit u) ds)) = ds"
  "clk = u8x8_GetSPIClockPhase u \<Longrightarrow>
     spi_sample (1 - u8x8_GetSPIClockPhase u) clk dat (concat (map (spi_bit u) ds)) = ds"
  using clock_phase_neq [of u]
  by (induction ds arbitrary: clk dat) (auto simp: spi_bit_def)

lemma concat_map_concat: "concat (map (\<lambda>x. concat (map f (g x))) xs) = concat (map f (concat (map g xs)))"
  by (induction xs) auto

lemma spi4_wave:
  fixes u :: "'a u8x8_scheme"
  assumes "recording gpio" and "unat n = length data"
  shows "u8x8_byte_4wire_sw_spi gpio U8X8_MSG_BYTE_SEND n data u
    = Some (1, emit (concat (map (spi_bit u) (concat (map msb_bits data)))) u)"
proof -
  let ?ph = "u8x8_GetSPIClockPhase u"
  have "foldo (\<lambda>u b. sw_spi_bits gpio ?ph (1 - ?ph) 8 b u) data u =
    Some (emit (concat (map (\<lambda>b. concat (map (spi_bit u) (msb_bits b))) data)) u)"
  proof (rule foldo_emit [where keep = "\<lambda>v. display_info v = display_info u"])
    fix v :: "'a u8x8_scheme" and b assume k: "display_info v = display_info u"
    then have "u8x8_GetSPIClockPhase v = ?ph" "spi_bit v = spi_bit u"
      by (simp_all add: u8x8_GetSPIClockPhase_def spi_bit_def fun_eq_iff)
    with sw_spi_bits_wave [OF assms(1) order_refl, of v b] k
    show "sw_spi_bits gpio ?ph (1 - ?ph) 8 b v = Some (emit (concat (map (spi_bit u) (msb_bits b))) v) \<and>
      display_info (emit (concat (map (spi_bit u) (msb_bits b))) v) = display_info u" by simp
  qed simp
  then show ?thesis
    by (simp add: u8x8_byte_4wire_sw_spi_def for_bytes_foldo assms(2) concat_map_concat)
qed

definition dc_bits :: "u8 \<Rightarrow> u8 \<Rightarrow> bool list" where
  "dc_bits dc b = (dc \<noteq> 0) # msb_bits b"

lemma dc_bits_length [simp]: "length (dc_bits dc b) = 9"
  by (simp add: dc_bits_def)

lemma dc_bits_msb9:
  "msb_bits9 (if dc \<noteq> 0 then ucast b OR 256 else ucast b) = dc_bits dc b"
  using not_bit_length [of b]
  by (simp add: dc_bits_def msb_bits_def msb_bits9_def bit_or_iff bit_ucast_iff bit_numeral_word_iff)

lemma spi3_wave:
  fixes u :: "'a u8x8_scheme"
  assumes "recording gpio" and "unat n = length data"
  shows "u8x8_byte_3wire_sw_spi gpio U8X8_MSG_BYTE_SEND n data u
    = Some (1, emit (concat (map (spi_bit u) (concat (map (dc_bits (last_dc u)) data)))) u)"
proof -
  let ?ph = "u8x8_GetSPIClockPhase u"
  let ?w = "\<lambda>v b. if last_dc v \<noteq> 0 then ucast b OR 256 else ucast (b :: u8) :: u16"
  have "foldo (\<lambda>u b. sw_spi_bits9 gpio ?ph (1 - ?ph) 9 (?w u b) u) data u =
    Some (emit (concat (map (\<lambda>b. concat (map (spi_bit u) (dc_bits (last_dc u) b))) data)) u)"
  proof (rule foldo_emit [where keep = "\<lambda>v. display_info v = display_info u \<and> last_dc v = last_dc u"])
    fix v :: "'a u8x8_scheme" and b assume k: "display_info v = display_info u \<and> last_dc v = last_dc u"
    then have "u8x8_GetSPIClockPhase v = ?ph" "spi_bit v = spi_bit u"
      by (simp_all add: u8x8_GetSPIClockPhase_def spi_bit_def fun_eq_iff)
    with sw_spi_bits9_wave [OF assms(1) order_refl, of v "?w v b"] k
    show "sw_spi_bits9 gpio ?ph (1 - ?ph) 9 (?w v b) v =
        Some (emit (concat (map (spi_bit u) (dc_bits (last_dc u) b))) v) \<and>
      display_info (emit (concat (map (spi_bit u) (dc_bits (last_dc u) b))) v) = display_info u \<and>
      last_dc (emit (concat (map (spi_bit u) (dc_bits (last_dc u) b))) v) = last_dc u"
      unfolding dc_bits_msb9 by simp
  qed simp
  then show ?thesis
    by (simp add: u8x8_byte_3wire_sw_spi_def for_bytes_foldo assms(2) concat_map_concat)
qed

text \<open>A receiver of the parallel bus: it holds the levels of the data pins and takes the byte when
  the enable pin goes to \<open>level\<close>.\<close>

fun latch_bytes :: "u8 \<Rightarrow> (u8 \<Rightarrow> bool) \<Rightarrow> io_event list \<Rightarrow> bool list list" where
  "latch_bytes level pins (Gpio_call pin v # es) =
     (if pin = U8X8_MSG_GPIO_E then
        (if v = level then [map pins [71, 70, 69, 68, 67, 66, 65, 64]] else []) @ latch_bytes level pins es
      else latch_bytes level (pins(pin := v \<noteq> 0)) es)"
| "latch_bytes level pins (_ # es) = latch_bytes level pins es"
| "latch_bytes level pins [] = []"

definition strobe_wave :: "'a u8x8_scheme \<Rightarrow> u8 \<Rightarrow> u8 \<Rightarrow> io_event list" where
  "strobe_wave u active b =
     map (\<lambda>i. Gpio_call (U8X8_MSG_GPIO_D0 + of_nat i) (drop_bit i b AND 1)) [0..<8] @
     [Gpio_call U8X8_MSG_DELAY_NANO (data_setup_time_ns (display_info u)),
      Gpio_call U8X8_MSG_GPIO_E active,
      Gpio_call U8X8_MSG_DELAY_NANO (write_pulse_width_ns (display_info u)),
      Gpio_call U8X8_MSG_GPIO_E (1 - active)]"

lemma data_pins_wave:
  assumes "recording gpio"
  shows "data_pins gpio n i b u =
    Some (emit (map (\<lambda>k. Gpio_call (i + of_nat k) (drop_bit k b AND 1)) [0..<n]) u)"
proof (induction n arbitrary: i b u)
  case (Suc n)
  have u: "[0..<Suc n] = 0 # map Suc [0..<n]" 
    by (simp only: map_Suc_upt upt_conv_Cons [OF zero_less_Suc] One_nat_def)
  have d: "drop_bit k (drop_bit 1 b) = drop_bit (Suc k) b" for k
    unfolding drop_bit_drop_bit by simp
  have i: "(i + 1) + of_nat k = i + of_nat (Suc k)" for k by simp
  show ?case
    unfolding data_pins.simps u recording_call(1) [OF assms] Option.bind.bind_lunit Suc [of "i + 1" "drop_bit 1 b"]
      d i emit_emit by (simp add: comp_def del: upt_Suc of_nat_Suc)
qed simp

lemma strobe_byte_wave:
  assumes "recording gpio"
  shows "strobe_byte gpio active b u = Some (emit (strobe_wave u active b) u)"
  by (simp add: strobe_byte_def strobe_wave_def recording_call [OF assms] data_pins_wave [OF assms] del: upt_Suc)

lemma latch_strobe:
  assumes "active = 0 \<or> active = 1" and "level = active \<or> level = 1 - active"
  shows "\<exists>pins'. latch_bytes level pins (strobe_wave u active b @ es) = msb_bits b # latch_bytes level pins' es"
proof -
  have b: "(drop_bit i b AND 1 \<noteq> 0) = bit b i" for i
    by (simp add: and_one_eq bit_iff_odd_drop_bit mod_2_eq_odd)
  have e: "[0..<8] = [0, 1, 2, 3, 4, 5, 6, 7 :: nat]" by (simp add: upt_rec)
  show ?thesis using assms b [of 0] by (auto simp: strobe_wave_def msb_bits_def b e)
qed

lemma strobe_all_wave:
  fixes u :: "'a u8x8_scheme"
  assumes "recording gpio"
  shows "foldo (\<lambda>u b. strobe_byte gpio active b u) data u
    = Some (emit (concat (map (strobe_wave u active) data)) u)"
  by (rule foldo_emit [where keep = "\<lambda>v. display_info v = display_info u"])
    (simp_all add: strobe_byte_wave [OF assms] strobe_wave_def)

lemma latch_strobes:
  assumes "active = 0 \<or> active = 1" and "level = active \<or> level = 1 - active"
  shows "latch_bytes level pins (concat (map (strobe_wave u active) data)) = map msb_bits data"
proof (induction data arbitrary: pins)
  case (Cons b data)
  obtain pins' where "latch_bytes level pins (strobe_wave u active b @ concat (map (strobe_wave u active) data))
      = msb_bits b # latch_bytes level pins' (concat (map (strobe_wave u active) data))"
    using latch_strobe [OF assms] by blast
  then show ?case using Cons by simp
qed simp

section \<open>Properties\<close>

text \<open>C31: the serial procedures put exactly the bits of the bytes on the wire, the most significant
  first, and the three-wire one the command/data level before each byte: a receiver that samples
  on the edge the display description names gets them, and so does one that samples on the other
  edge if the clock was idle.\<close>

theorem spi_serialises:
  fixes u :: "'a u8x8_scheme"
  assumes "recording gpio" and "unat n = length data"
  shows "(\<exists>es. u8x8_byte_4wire_sw_spi gpio U8X8_MSG_BYTE_SEND n data u = Some (1, u\<lparr>io := io u @ es\<rparr>) \<and>
      spi_sample (u8x8_GetSPIClockPhase u) clk dat es = concat (map msb_bits data) \<and>
      spi_sample (1 - u8x8_GetSPIClockPhase u) (u8x8_GetSPIClockPhase u) dat es = concat (map msb_bits data)) \<and>
    (\<exists>es. u8x8_byte_3wire_sw_spi gpio U8X8_MSG_BYTE_SEND n data u = Some (1, u\<lparr>io := io u @ es\<rparr>) \<and>
      spi_sample (u8x8_GetSPIClockPhase u) clk dat es = concat (map (dc_bits (last_dc u)) data) \<and>
      spi_sample (1 - u8x8_GetSPIClockPhase u) (u8x8_GetSPIClockPhase u) dat es =
        concat (map (dc_bits (last_dc u)) data))"
  unfolding spi4_wave [OF assms] spi3_wave [OF assms] emit_def
  by (intro conjI; rule exI, intro conjI, rule refl, (rule spi_sample_bits refl)+)

theorem spi_serialises_witness:
  "\<exists>es. u8x8_byte_4wire_sw_spi record_gpio U8X8_MSG_BYTE_SEND 2 [0xA5, 0x0F] u8g2_zero =
       Some (1, u8g2_zero\<lparr>io := io u8g2_zero @ es\<rparr>) \<and>
     spi_sample (u8x8_GetSPIClockPhase u8g2_zero) 0 False es =
       [True, False, True, False, False, True, False, True, False, False, False, False, True, True, True, True]"
proof -
  have "concat (map msb_bits [0xA5, 0x0F]) =
      [True, False, True, False, False, True, False, True, False, False, False, False, True, True, True, True]"
    by (simp add: msb_bits_def bit_numeral_word_iff)
  then show ?thesis
    using spi_serialises [OF recording_record_gpio, of 2 "[0xA5, 0x0F]" u8g2_zero 0 False] by auto
qed

text \<open>The parallel procedures put the bytes on the data pins and pulse the enable pin once for
  each: a device that latches on either edge of the pulse gets exactly the bytes. The pulse is high
  in the 6800 mode and low in the 8080 mode.\<close>

theorem parallel_latches:
  fixes u :: "'a u8x8_scheme"
  assumes "recording gpio" and "unat n = length data" and "level = 0 \<or> level = 1"
    and "proc \<in> {u8x8_byte_8bit_6800mode, u8x8_byte_8bit_8080mode, u8x8_byte_ks0108}"
  shows "\<exists>es. proc gpio U8X8_MSG_BYTE_SEND n data u = Some (1, u\<lparr>io := io u @ es\<rparr>) \<and>
    latch_bytes level pins es = map msb_bits data"
proof -
  have l: "latch_bytes level pins (concat (map (strobe_wave u a) data)) = map msb_bits data"
    if "a = 0 \<or> a = 1" for a
    using latch_strobes [OF that, of level pins u data] that assms(3) by auto
  have "\<exists>a. (a = 0 \<or> a = 1) \<and>
      proc gpio U8X8_MSG_BYTE_SEND n data u = returning 1 (for_bytes (strobe_byte gpio a) n data u)"
    using assms(4) by (auto simp: u8x8_byte_8bit_6800mode_def u8x8_byte_8bit_8080mode_def u8x8_byte_ks0108_def)
  then obtain a where "a = 0 \<or> a = 1"
    and "proc gpio U8X8_MSG_BYTE_SEND n data u = returning 1 (for_bytes (strobe_byte gpio a) n data u)"
    by blast
  with l [of a] show ?thesis
    by (auto simp: for_bytes_foldo assms(2) strobe_all_wave [OF assms(1)] emit_def)
qed

theorem parallel_latches_witness:
  "\<exists>es. u8x8_byte_8bit_8080mode record_gpio U8X8_MSG_BYTE_SEND 2 [0xA5, 0x0F] u8g2_zero =
       Some (1, u8g2_zero\<lparr>io := io u8g2_zero @ es\<rparr>) \<and>
     latch_bytes 1 (\<lambda>_. False) es = map msb_bits [0xA5, 0x0F]"
  by (rule parallel_latches [OF recording_record_gpio]) simp_all

end
