(* ===== verification/U8x8_I2C.thy ===== *)
theory U8x8_I2C
  imports U8x8_Bus
begin

text \<open>
  The two-wire bus: what a byte procedure for it promises (\<open>i2c_bus\<close>), the software procedure of
  u8x8_byte.c (\<open>u8x8_byte_sw_i2c\<close> and its helpers), what it needs of the pins (\<open>two_wire\<close>), and
  the proof that with such pins it keeps the promise: a device that watches the two lines sees
  the start condition, the address, the bytes and the stop condition.
\<close>

section \<open>The contract of a bus\<close>

datatype wire_event = Start_Condition | Wire_Byte u8 | Stop_Condition

text \<open>Nothing of the device structure changes but the record of the board and the bus state.\<close>

definition bus_only :: "'a u8x8_scheme \<Rightarrow> 'a u8x8_scheme \<Rightarrow> bool" where
  "bus_only u u' \<longleftrightarrow> (\<exists>es st. u' = u\<lparr>io := es, i2c_started := st\<rparr>)"

lemma bus_only_refl [simp]: "bus_only u u"
  unfolding bus_only_def by (rule exI [of _ "io u"], rule exI [of _ "i2c_started u"]) simp

lemma bus_only_trans [trans]: "bus_only u v \<Longrightarrow> bus_only v w \<Longrightarrow> bus_only u w"
  unfolding bus_only_def by (elim exE) (simp, blast)

lemma bus_only_emit [simp]: "bus_only u (emit es u)"
  unfolding bus_only_def emit_def
  by (rule exI [of _ "io u @ es"], rule exI [of _ "i2c_started u"]) simp

lemma bus_only_started: "bus_only u ((emit ev u)\<lparr>i2c_started := st\<rparr>)"
  unfolding bus_only_def emit_def by (intro exI) (rule refl)

lemma bus_onlyD:
  "bus_only u u' \<Longrightarrow> display_info u' = display_info u \<and> i2c_address u' = i2c_address u \<and>
     x_offset u' = x_offset u \<and> u8g2_esp32_hal u' = u8g2_esp32_hal u \<and> u8x8.more u' = u8x8.more u \<and>
     ssd13xx_in_transfer u' = ssd13xx_in_transfer u \<and> ld7032_in_transfer u' = ld7032_in_transfer u \<and>
     uc16xx_in_transfer u' = uc16xx_in_transfer u \<and> uc16xx_is_data u' = uc16xx_is_data u"
  unfolding bus_only_def by auto

text \<open>The fields a bus may depend on.\<close>

definition bus_eq :: "'a u8x8_scheme \<Rightarrow> 'a u8x8_scheme \<Rightarrow> bool" where
  "bus_eq u u' \<longleftrightarrow> io u' = io u \<and> i2c_started u' = i2c_started u \<and> u8g2_esp32_hal u' = u8g2_esp32_hal u"

locale i2c_bus =
  fixes byte :: "'a u8x8_scheme msg_cb"
    and wire :: "'a u8x8_scheme \<Rightarrow> wire_event list"
    and idle :: "'a u8x8_scheme \<Rightarrow> bool"
    and busy :: "'a u8x8_scheme \<Rightarrow> bool"
  assumes start: "idle u \<Longrightarrow> \<exists>u'. call byte U8X8_MSG_BYTE_START_TRANSFER 0 [] u = Some u' \<and>
      wire u' = wire u @ [Start_Condition, Wire_Byte (i2c_address u)] \<and> busy u' \<and> bus_only u u'"
    and send: "busy u \<Longrightarrow> unat n \<le> length data \<Longrightarrow>
      \<exists>u'. call byte U8X8_MSG_BYTE_SEND n data u = Some u' \<and>
      wire u' = wire u @ map Wire_Byte (take (unat n) data) \<and> busy u' \<and> bus_only u u'"
    and stop: "busy u \<Longrightarrow> \<exists>u'. call byte U8X8_MSG_BYTE_END_TRANSFER 0 [] u = Some u' \<and>
      wire u' = wire u @ [Stop_Condition] \<and> idle u' \<and> bus_only u u'"
    and framed: "bus_eq u u' \<Longrightarrow> wire u' = wire u \<and> idle u' = idle u \<and> busy u' = busy u"

text \<open>An operation that takes the bus from one condition to another and puts these events on it.\<close>

definition puts ::
    "('a u8x8_scheme \<Rightarrow> wire_event list) \<Rightarrow> u8 \<Rightarrow> ('a u8x8_scheme \<Rightarrow> bool) \<Rightarrow>
     ('a u8x8_scheme \<Rightarrow> 'a u8x8_scheme option) \<Rightarrow> wire_event list \<Rightarrow> ('a u8x8_scheme \<Rightarrow> bool) \<Rightarrow> bool" where
  "puts wire a pre f es post \<longleftrightarrow> (\<forall>u. pre u \<and> i2c_address u = a \<longrightarrow>
     (\<exists>u'. f u = Some u' \<and> wire u' = wire u @ es \<and> post u' \<and> bus_only u u'))"

lemma puts_bind:
  assumes "puts wire a pre f es mid" and "puts wire a mid g fs post"
  shows "puts wire a pre (\<lambda>u. Option.bind (f u) g) (es @ fs) post"
  unfolding puts_def
proof (intro allI impI, elim conjE)
  fix u assume u: "pre u" "i2c_address u = a"
  obtain v where v: "f u = Some v" "wire v = wire u @ es" "mid v" "bus_only u v"
    using assms(1) u unfolding puts_def by blast
  then have "i2c_address v = a" using bus_onlyD u(2) by blast
  with v(3) obtain w where "g v = Some w" "wire w = wire v @ fs" "post w" "bus_only v w"
    using assms(2) unfolding puts_def by blast
  with v show "\<exists>u'. Option.bind (f u) g = Some u' \<and> wire u' = wire u @ es @ fs \<and> post u' \<and> bus_only u u'"
    by (auto intro: bus_only_trans)
qed

lemma putsD:
  assumes "puts wire a pre f es post" and "pre u" and "i2c_address u = a"
  obtains u' where "f u = Some u'" "wire u' = wire u @ es" "post u'" "bus_only u u'"
  using assms unfolding puts_def by blast

text \<open>One transaction: the address and the bytes between a start and a stop condition.\<close>

definition frame :: "u8 \<Rightarrow> u8 list \<Rightarrow> wire_event list" where
  "frame a bs = Start_Condition # Wire_Byte a # map Wire_Byte bs @ [Stop_Condition]"

definition i2c_transaction ::
    "'a u8x8_scheme msg_cb \<Rightarrow> u8 \<Rightarrow> u8 list \<Rightarrow> 'a u8x8_scheme \<Rightarrow> 'a u8x8_scheme option" where
  "i2c_transaction proc n bs u = do {
     u \<leftarrow> call proc U8X8_MSG_BYTE_START_TRANSFER 0 [] u;
     u \<leftarrow> call proc U8X8_MSG_BYTE_SEND n bs u;
     call proc U8X8_MSG_BYTE_END_TRANSFER 0 [] u }"

context i2c_bus
begin

lemma puts_start: "puts wire a idle (call byte U8X8_MSG_BYTE_START_TRANSFER 0 [])
    [Start_Condition, Wire_Byte a] busy"
  using start unfolding puts_def by blast

lemma puts_send: "unat n \<le> length bs \<Longrightarrow>
    puts wire a busy (call byte U8X8_MSG_BYTE_SEND n bs) (map Wire_Byte (take (unat n) bs)) busy"
  using send unfolding puts_def by blast

lemma puts_byte: "puts wire a busy (call byte U8X8_MSG_BYTE_SEND 1 [b]) [Wire_Byte b] busy"
  using puts_send [of 1 "[b]" a] by simp

lemma puts_stop: "puts wire a busy (call byte U8X8_MSG_BYTE_END_TRANSFER 0 []) [Stop_Condition] idle"
  using stop unfolding puts_def by blast

lemma puts_transaction: "unat n \<le> length bs \<Longrightarrow>
    puts wire a idle (i2c_transaction byte n bs) (frame a (take (unat n) bs)) idle"
  using puts_bind [OF puts_start puts_bind [OF puts_send puts_stop]]
  by (simp add: frame_def i2c_transaction_def [abs_def])

end

section \<open>The software procedure\<close>

abbreviation (input) "u8x8_gpio_SetI2CClock gpio \<equiv> u8x8_gpio_call gpio U8X8_MSG_GPIO_I2C_CLOCK"
abbreviation (input) "u8x8_gpio_SetI2CData gpio \<equiv> u8x8_gpio_call gpio U8X8_MSG_GPIO_I2C_DATA"

definition i2c_delay :: "'a u8x8_scheme msg_cb \<Rightarrow> 'a u8x8_scheme \<Rightarrow> 'a u8x8_scheme option" where
  "i2c_delay gpio u = u8x8_gpio_Delay gpio U8X8_MSG_DELAY_I2C (i2c_bus_clock_100kHz (display_info u)) u"

definition i2c_init :: "'a u8x8_scheme msg_cb \<Rightarrow> 'a u8x8_scheme \<Rightarrow> 'a u8x8_scheme option" where
  "i2c_init gpio u = do {
     u \<leftarrow> u8x8_gpio_SetI2CClock gpio 1 u;
     u \<leftarrow> u8x8_gpio_SetI2CData gpio 1 u;
     i2c_delay gpio u }"

definition i2c_read_scl_and_delay :: "'a u8x8_scheme msg_cb \<Rightarrow> 'a u8x8_scheme \<Rightarrow> 'a u8x8_scheme option" where
  "i2c_read_scl_and_delay gpio u = do {
     u \<leftarrow> u8x8_gpio_SetI2CClock gpio 1 u;
     i2c_delay gpio u }"

definition i2c_clear_scl :: "'a u8x8_scheme msg_cb \<Rightarrow> 'a u8x8_scheme \<Rightarrow> 'a u8x8_scheme option" where
  "i2c_clear_scl gpio u = u8x8_gpio_SetI2CClock gpio 0 u"

definition i2c_read_sda :: "'a u8x8_scheme msg_cb \<Rightarrow> 'a u8x8_scheme \<Rightarrow> 'a u8x8_scheme option" where
  "i2c_read_sda gpio u = u8x8_gpio_SetI2CData gpio 1 u"

definition i2c_clear_sda :: "'a u8x8_scheme msg_cb \<Rightarrow> 'a u8x8_scheme \<Rightarrow> 'a u8x8_scheme option" where
  "i2c_clear_sda gpio u = u8x8_gpio_SetI2CData gpio 0 u"

definition i2c_start :: "'a u8x8_scheme msg_cb \<Rightarrow> 'a u8x8_scheme \<Rightarrow> 'a u8x8_scheme option" where
  "i2c_start gpio u = do {
     u \<leftarrow> doif (i2c_started u \<noteq> 0) (\<lambda>u. do {
       u \<leftarrow> i2c_read_sda gpio u;
       u \<leftarrow> i2c_delay gpio u;
       i2c_read_scl_and_delay gpio u }) u;
     u \<leftarrow> i2c_read_sda gpio u;
     u \<leftarrow> i2c_clear_sda gpio u;
     u \<leftarrow> i2c_delay gpio u;
     u \<leftarrow> i2c_clear_scl gpio u;
     Some (u\<lparr>i2c_started := 1\<rparr>) }"

definition i2c_stop :: "'a u8x8_scheme msg_cb \<Rightarrow> 'a u8x8_scheme \<Rightarrow> 'a u8x8_scheme option" where
  "i2c_stop gpio u = do {
     u \<leftarrow> i2c_clear_sda gpio u;
     u \<leftarrow> i2c_delay gpio u;
     u \<leftarrow> i2c_read_scl_and_delay gpio u;
     u \<leftarrow> i2c_read_sda gpio u;
     u \<leftarrow> i2c_delay gpio u;
     Some (u\<lparr>i2c_started := 0\<rparr>) }"

definition i2c_write_bit :: "'a u8x8_scheme msg_cb \<Rightarrow> u8 \<Rightarrow> 'a u8x8_scheme \<Rightarrow> 'a u8x8_scheme option" where
  "i2c_write_bit gpio val u = do {
     u \<leftarrow> (if val \<noteq> 0 then i2c_read_sda gpio u else i2c_clear_sda gpio u);
     u \<leftarrow> i2c_delay gpio u;
     u \<leftarrow> i2c_read_scl_and_delay gpio u;
     i2c_clear_scl gpio u }"

definition i2c_read_bit :: "'a u8x8_scheme msg_cb \<Rightarrow> 'a u8x8_scheme \<Rightarrow> 'a u8x8_scheme option" where
  "i2c_read_bit gpio u = do {
     u \<leftarrow> i2c_read_sda gpio u;
     u \<leftarrow> i2c_delay gpio u;
     u \<leftarrow> i2c_read_scl_and_delay gpio u;
     u \<leftarrow> i2c_read_sda gpio u;
     u \<leftarrow> i2c_delay gpio u;
     i2c_clear_scl gpio u }"

definition i2c_write_byte :: "'a u8x8_scheme msg_cb \<Rightarrow> u8 \<Rightarrow> 'a u8x8_scheme \<Rightarrow> 'a u8x8_scheme option" where
  "i2c_write_byte gpio b u = do {
     u \<leftarrow> i2c_write_bit gpio (b AND 128) u;
     u \<leftarrow> i2c_write_bit gpio (b AND 64) u;
     u \<leftarrow> i2c_write_bit gpio (b AND 32) u;
     u \<leftarrow> i2c_write_bit gpio (b AND 16) u;
     u \<leftarrow> i2c_write_bit gpio (b AND 8) u;
     u \<leftarrow> i2c_write_bit gpio (b AND 4) u;
     u \<leftarrow> i2c_write_bit gpio (b AND 2) u;
     u \<leftarrow> i2c_write_bit gpio (b AND 1) u;
     i2c_read_bit gpio u }"

definition u8x8_byte_sw_i2c :: "'a u8x8_scheme msg_cb \<Rightarrow> 'a u8x8_scheme msg_cb" where
  "u8x8_byte_sw_i2c gpio msg arg_int arg_ptr u =
     (if msg = U8X8_MSG_BYTE_SEND then returning 1 (for_bytes (i2c_write_byte gpio) arg_int arg_ptr u)
      else if msg = U8X8_MSG_BYTE_INIT then returning 1 (i2c_init gpio u)
      else if msg = U8X8_MSG_BYTE_SET_DC then Some (1, u)
      else if msg = U8X8_MSG_BYTE_START_TRANSFER then
        returning 1 (do {
          u \<leftarrow> i2c_start gpio u;
          i2c_write_byte gpio (i2c_address u) u })
      else if msg = U8X8_MSG_BYTE_END_TRANSFER then returning 1 (i2c_stop gpio u)
      else Some (0, u))"

section \<open>What a device sees on two wires\<close>

datatype line_event = Scl bool | Sda bool

text \<open>
  A watcher of the lines, both high at first: the data line falling while the clock is high is a
  start condition and rising a stop condition; in between every rising edge of the clock takes a
  bit, and the ninth (the acknowledge) completes the byte.
\<close>

record watcher =
  scl :: bool
  sda :: bool
  bits :: "bool list"
  seen :: "wire_event list"

definition byte_of_bits :: "bool list \<Rightarrow> u8" where
  "byte_of_bits bs = foldl (\<lambda>b d. 2 * b + of_bool d) 0 bs"

fun watch :: "watcher \<Rightarrow> line_event \<Rightarrow> watcher" where
  "watch w (Scl v) =
     (if v \<and> \<not> scl w then
        (if length (bits w) = 8
         then w\<lparr>scl := v, bits := [], seen := seen w @ [Wire_Byte (byte_of_bits (bits w))]\<rparr>
         else w\<lparr>scl := v, bits := bits w @ [sda w]\<rparr>)
      else w\<lparr>scl := v\<rparr>)"
| "watch w (Sda v) =
     (if scl w \<and> v \<noteq> sda w
      then w\<lparr>sda := v, bits := [], seen := seen w @ [if v then Stop_Condition else Start_Condition]\<rparr>
      else w\<lparr>sda := v\<rparr>)"

definition watched :: "line_event list \<Rightarrow> watcher" where
  "watched es = foldl watch \<lparr>scl = True, sda = True, bits = [], seen = []\<rparr> es"

lemma watched_append: "watched (es @ fs) = foldl watch (watched es) fs"
  by (simp add: watched_def)

lemma byte_of_msb_bits: "byte_of_bits (msb_bits b) = b"
proof -
  have u: "[0..<8] = [0, 1, 2, 3, 4, 5, 6, 7 :: nat]" by (simp add: upt_rec)
  have "byte_of_bits (msb_bits b) = horner_sum of_bool 2 (map (bit b) [0..<8])"
    unfolding u by (simp add: byte_of_bits_def msb_bits_def algebra_simps)
  also have "\<dots> = b" using horner_sum_bit_eq_take_bit [of b 8] by (simp add: take_bit_word_eq_self)
  finally show ?thesis .
qed

section \<open>Pins that make a bus\<close>

text \<open>An operation sets the lines in this order, and does nothing else.\<close>

definition drives ::
    "('a u8x8_scheme \<Rightarrow> line_event list) \<Rightarrow> ('a u8x8_scheme \<Rightarrow> bool) \<Rightarrow>
     ('a u8x8_scheme \<Rightarrow> 'a u8x8_scheme option) \<Rightarrow> line_event list \<Rightarrow> bool" where
  "drives lines_of wired f es \<longleftrightarrow> (\<forall>u. wired u \<longrightarrow> (\<exists>u'. f u = Some u' \<and>
     lines_of u' = lines_of u @ es \<and> (\<exists>ev. u' = emit ev u)))"

definition bit_lines :: "bool \<Rightarrow> line_event list" where
  "bit_lines d = [Sda d, Scl True, Scl False]"

definition byte_lines :: "u8 \<Rightarrow> line_event list" where
  "byte_lines b = concat (map bit_lines (msb_bits b)) @ [Sda True, Scl True, Sda True, Scl False]"

text \<open>The state of a watcher between bytes.\<close>

definition at_byte :: "watcher \<Rightarrow> bool" where
  "at_byte w \<longleftrightarrow> \<not> scl w \<and> bits w = []"

lemma watch_byte:
  assumes "at_byte w"
  shows "foldl watch w (byte_lines b) = w\<lparr>sda := True, seen := seen w @ [Wire_Byte b]\<rparr>"
  using assms byte_of_msb_bits [of b]
  by (cases w) (simp add: at_byte_def byte_lines_def bit_lines_def msb_bits_def)

lemma watch_start:
  "scl w \<Longrightarrow> sda w \<Longrightarrow> foldl watch w [Sda True, Sda False, Scl False]
    = w\<lparr>scl := False, sda := False, bits := [], seen := seen w @ [Start_Condition]\<rparr>"
  by (cases w) simp

lemma watch_stop:
  "at_byte w \<Longrightarrow> foldl watch w [Sda False, Scl True, Sda True]
    = w\<lparr>scl := True, sda := True, bits := [], seen := seen w @ [Stop_Condition]\<rparr>"
  by (cases w) (simp add: at_byte_def)

definition sw_wire :: "('s \<Rightarrow> line_event list) \<Rightarrow> 's \<Rightarrow> wire_event list" where
  "sw_wire lines_of u = seen (watched (lines_of u))"

definition sw_idle ::
    "('a u8x8_scheme \<Rightarrow> line_event list) \<Rightarrow> ('a u8x8_scheme \<Rightarrow> bool) \<Rightarrow> 'a u8x8_scheme \<Rightarrow> bool" where
  "sw_idle lines_of wired u \<longleftrightarrow> wired u \<and> i2c_started u = 0 \<and>
     scl (watched (lines_of u)) \<and> sda (watched (lines_of u))"

definition sw_busy ::
    "('a u8x8_scheme \<Rightarrow> line_event list) \<Rightarrow> ('a u8x8_scheme \<Rightarrow> bool) \<Rightarrow> 'a u8x8_scheme \<Rightarrow> bool" where
  "sw_busy lines_of wired u \<longleftrightarrow> wired u \<and> at_byte (watched (lines_of u))"

locale two_wire =
  fixes gpio :: "'a u8x8_scheme msg_cb"
    and lines_of :: "'a u8x8_scheme \<Rightarrow> line_event list"
    and wired :: "'a u8x8_scheme \<Rightarrow> bool"
  assumes clock: "wired u \<Longrightarrow> \<exists>es. u8x8_gpio_call gpio U8X8_MSG_GPIO_I2C_CLOCK v u = Some (emit es u) \<and>
      lines_of (emit es u) = lines_of u @ [Scl (v \<noteq> 0)]"
    and data: "wired u \<Longrightarrow> \<exists>es. u8x8_gpio_call gpio U8X8_MSG_GPIO_I2C_DATA v u = Some (emit es u) \<and>
      lines_of (emit es u) = lines_of u @ [Sda (v \<noteq> 0)]"
    and delay: "wired u \<Longrightarrow> \<exists>es. u8x8_gpio_call gpio U8X8_MSG_DELAY_I2C v u = Some (emit es u) \<and>
      lines_of (emit es u) = lines_of u"
    and wired_io: "wired (u\<lparr>io := es, i2c_started := st\<rparr>) = wired u"
    and lines_io: "io u' = io u \<Longrightarrow> u8g2_esp32_hal u' = u8g2_esp32_hal u \<Longrightarrow>
      lines_of u' = lines_of u \<and> wired u' = wired u"
begin

lemma drives_wired: "wired u \<Longrightarrow> wired (emit ev u)"
  using wired_io [where u = u and es = "io u @ ev" and st = "i2c_started u"] by (simp add: emit_def)

lemma drives_bind:
  assumes "drives lines_of wired f es" and "drives lines_of wired g fs"
  shows "drives lines_of wired (\<lambda>u. Option.bind (f u) g) (es @ fs)"
  unfolding drives_def
proof (intro allI impI)
  fix u assume u: "wired u"
  then obtain ev where f: "f u = Some (emit ev u)" "lines_of (emit ev u) = lines_of u @ es"
    using assms(1) unfolding drives_def by blast
  then obtain ev' where "g (emit ev u) = Some (emit ev' (emit ev u))"
      "lines_of (emit ev' (emit ev u)) = lines_of (emit ev u) @ fs"
    using assms(2) drives_wired [OF u] unfolding drives_def by blast
  with f show "\<exists>u'. Option.bind (f u) g = Some u' \<and> lines_of u' = lines_of u @ es @ fs \<and> (\<exists>ev. u' = emit ev u)"
    by auto
qed

lemma drives_pins:
  "drives lines_of wired (u8x8_gpio_call gpio U8X8_MSG_GPIO_I2C_CLOCK v) [Scl (v \<noteq> 0)]"
  "drives lines_of wired (u8x8_gpio_call gpio U8X8_MSG_GPIO_I2C_DATA v) [Sda (v \<noteq> 0)]"
  "drives lines_of wired (i2c_delay gpio) []"
  using clock data delay unfolding drives_def i2c_delay_def by fastforce+

lemma drives_helpers:
  "drives lines_of wired (i2c_read_scl_and_delay gpio) [Scl True]"
  "drives lines_of wired (i2c_clear_scl gpio) [Scl False]"
  "drives lines_of wired (i2c_read_sda gpio) [Sda True]"
  "drives lines_of wired (i2c_clear_sda gpio) [Sda False]"
proof -
  show "drives lines_of wired (i2c_read_scl_and_delay gpio) [Scl True]"
    using drives_bind [OF drives_pins(1) [of 1] drives_pins(3)]
    unfolding i2c_read_scl_and_delay_def [abs_def] by simp
qed (use drives_pins(1) [of 0] drives_pins(2) [of 1] drives_pins(2) [of 0] in
  \<open>simp_all add: i2c_clear_scl_def [abs_def] i2c_read_sda_def [abs_def] i2c_clear_sda_def [abs_def]\<close>)

lemma drives_write_bit: "drives lines_of wired (i2c_write_bit gpio val) [Sda (val \<noteq> 0), Scl True, Scl False]"
proof -
  have "drives lines_of wired (\<lambda>u. if val \<noteq> 0 then i2c_read_sda gpio u else i2c_clear_sda gpio u) [Sda (val \<noteq> 0)]"
    using drives_helpers(3,4) by (cases "val = 0") simp_all
  from drives_bind [OF this drives_bind [OF drives_pins(3) drives_bind [OF drives_helpers(1,2)]]]
  show ?thesis unfolding i2c_write_bit_def [abs_def] by simp
qed

lemma drives_read_bit: "drives lines_of wired (i2c_read_bit gpio) [Sda True, Scl True, Sda True, Scl False]"
  using drives_bind [OF drives_helpers(3) drives_bind [OF drives_pins(3) drives_bind [OF drives_helpers(1)
    drives_bind [OF drives_helpers(3) drives_bind [OF drives_pins(3) drives_helpers(2)]]]]]
  unfolding i2c_read_bit_def [abs_def] by simp

lemma drives_write_byte: "drives lines_of wired (i2c_write_byte gpio b) (byte_lines b)"
proof -
  have bit: "drives lines_of wired (i2c_write_bit gpio (b AND 2 ^ k)) (bit_lines (bit b k))" for k
    using drives_write_bit [of "b AND 2 ^ k"]
    by (simp add: bit_lines_def bit_iff_and_push_bit_not_eq_0 push_bit_eq_mult)
  have "drives lines_of wired (i2c_write_byte gpio b)
    (bit_lines (bit b 7) @ bit_lines (bit b 6) @ bit_lines (bit b 5) @ bit_lines (bit b 4) @
     bit_lines (bit b 3) @ bit_lines (bit b 2) @ bit_lines (bit b 1) @ bit_lines (bit b 0) @
     [Sda True, Scl True, Sda True, Scl False])"
    using bit [of 7] bit [of 6] bit [of 5] bit [of 4] bit [of 3] bit [of 2] bit [of 1] bit [of 0]
    unfolding i2c_write_byte_def [abs_def]
    by (intro drives_bind drives_read_bit) simp_all
  then show ?thesis by (simp add: byte_lines_def msb_bits_def)
qed

lemma drives_start:
  assumes "wired u" and "i2c_started u = 0"
  shows "\<exists>ev. i2c_start gpio u = Some ((emit ev u)\<lparr>i2c_started := 1\<rparr>) \<and>
    lines_of (emit ev u) = lines_of u @ [Sda True, Sda False, Scl False]"
proof -
  have "drives lines_of wired (\<lambda>u. Option.bind (i2c_read_sda gpio u) (\<lambda>u. Option.bind (i2c_clear_sda gpio u)
      (\<lambda>u. Option.bind (i2c_delay gpio u) (i2c_clear_scl gpio)))) [Sda True, Sda False, Scl False]"
    using drives_bind [OF drives_helpers(3) drives_bind [OF drives_helpers(4)
      drives_bind [OF drives_pins(3) drives_helpers(2)]]] by simp
  with assms obtain ev where
    "Option.bind (i2c_read_sda gpio u) (\<lambda>u. Option.bind (i2c_clear_sda gpio u)
      (\<lambda>u. Option.bind (i2c_delay gpio u) (i2c_clear_scl gpio))) = Some (emit ev u)"
    "lines_of (emit ev u) = lines_of u @ [Sda True, Sda False, Scl False]"
    unfolding drives_def by blast
  then show ?thesis using assms(2) by (auto simp: i2c_start_def doif_def bind_Some_iff)
qed

lemma drives_stop:
  assumes "wired u"
  shows "\<exists>ev. i2c_stop gpio u = Some ((emit ev u)\<lparr>i2c_started := 0\<rparr>) \<and>
    lines_of (emit ev u) = lines_of u @ [Sda False, Scl True, Sda True]"
proof -
  have "drives lines_of wired (\<lambda>u. Option.bind (i2c_clear_sda gpio u) (\<lambda>u. Option.bind (i2c_delay gpio u)
      (\<lambda>u. Option.bind (i2c_read_scl_and_delay gpio u) (\<lambda>u. Option.bind (i2c_read_sda gpio u)
      (i2c_delay gpio))))) [Sda False, Scl True, Sda True]"
    using drives_bind [OF drives_helpers(4) drives_bind [OF drives_pins(3)
      drives_bind [OF drives_helpers(1) drives_bind [OF drives_helpers(3) drives_pins(3)]]]] by simp
  with assms obtain ev where
    "Option.bind (i2c_clear_sda gpio u) (\<lambda>u. Option.bind (i2c_delay gpio u)
      (\<lambda>u. Option.bind (i2c_read_scl_and_delay gpio u) (\<lambda>u. Option.bind (i2c_read_sda gpio u)
      (i2c_delay gpio)))) = Some (emit ev u)"
    "lines_of (emit ev u) = lines_of u @ [Sda False, Scl True, Sda True]"
    unfolding drives_def by blast
  then show ?thesis by (auto simp: i2c_stop_def bind_Some_iff)
qed

end

context two_wire
begin

lemma write_byte_watched:
  assumes "sw_busy lines_of wired u"
  shows "\<exists>ev. i2c_write_byte gpio b u = Some (emit ev u) \<and> sw_busy lines_of wired (emit ev u) \<and>
    sw_wire lines_of (emit ev u) = sw_wire lines_of u @ [Wire_Byte b]"
proof -
  have u: "wired u" "at_byte (watched (lines_of u))" using assms by (simp_all add: sw_busy_def)
  obtain ev where ev: "i2c_write_byte gpio b u = Some (emit ev u)"
      "lines_of (emit ev u) = lines_of u @ byte_lines b"
    using drives_write_byte u(1) unfolding drives_def by blast
  have "watched (lines_of (emit ev u)) =
      (watched (lines_of u))\<lparr>sda := True, seen := seen (watched (lines_of u)) @ [Wire_Byte b]\<rparr>"
    using watch_byte [OF u(2)] by (simp add: ev(2) watched_append)
  with u ev(1) show ?thesis by (auto simp: sw_busy_def sw_wire_def at_byte_def drives_wired)
qed

lemma write_bytes_watched:
  assumes "sw_busy lines_of wired u"
  shows "\<exists>ev. foldo (\<lambda>u b. i2c_write_byte gpio b u) bs u = Some (emit ev u) \<and>
    sw_busy lines_of wired (emit ev u) \<and>
    sw_wire lines_of (emit ev u) = sw_wire lines_of u @ map Wire_Byte bs"
  using assms
proof (induction bs arbitrary: u)
  case Nil
  then show ?case by (auto intro!: exI [of _ "[]"])
next
  case (Cons b bs)
  obtain ev where ev: "i2c_write_byte gpio b u = Some (emit ev u)" "sw_busy lines_of wired (emit ev u)"
      "sw_wire lines_of (emit ev u) = sw_wire lines_of u @ [Wire_Byte b]"
    using write_byte_watched [OF Cons.prems] by blast
  obtain ev' where "foldo (\<lambda>u b. i2c_write_byte gpio b u) bs (emit ev u) = Some (emit ev' (emit ev u))"
      "sw_busy lines_of wired (emit ev' (emit ev u))"
      "sw_wire lines_of (emit ev' (emit ev u)) = sw_wire lines_of (emit ev u) @ map Wire_Byte bs"
    using Cons.IH [OF ev(2)] by blast
  with ev show ?case by (auto simp del: emit_emit simp: emit_emit [symmetric] intro!: exI [of _ "ev @ ev'"])
qed

lemma start_watched:
  assumes "sw_idle lines_of wired u"
  shows "\<exists>u'. i2c_start gpio u = Some u' \<and> sw_busy lines_of wired u' \<and> bus_only u u' \<and>
    sw_wire lines_of u' = sw_wire lines_of u @ [Start_Condition]"
proof -
  have u: "wired u" "i2c_started u = 0" "scl (watched (lines_of u))" "sda (watched (lines_of u))"
    using assms by (simp_all add: sw_idle_def)
  obtain ev where ev: "i2c_start gpio u = Some ((emit ev u)\<lparr>i2c_started := 1\<rparr>)"
      "lines_of (emit ev u) = lines_of u @ [Sda True, Sda False, Scl False]"
    using drives_start [OF u(1,2)] by blast
  let ?u = "(emit ev u)\<lparr>i2c_started := 1\<rparr>"
  have l: "lines_of ?u = lines_of (emit ev u)" "wired ?u = wired (emit ev u)"
    using lines_io [of ?u "emit ev u"] by simp_all
  have "bus_only u ?u" by (rule bus_only_started)
  moreover have "watched (lines_of ?u) = (watched (lines_of u))\<lparr>scl := False, sda := False, bits := [],
      seen := seen (watched (lines_of u)) @ [Start_Condition]\<rparr>"
    unfolding l ev(2) watched_append by (rule watch_start [OF u(3,4)])
  ultimately show ?thesis
    using ev(1) u(1) l(2) by (auto simp: sw_busy_def sw_wire_def at_byte_def drives_wired)
qed

lemma stop_watched:
  assumes "sw_busy lines_of wired u"
  shows "\<exists>u'. i2c_stop gpio u = Some u' \<and> sw_idle lines_of wired u' \<and> bus_only u u' \<and>
    sw_wire lines_of u' = sw_wire lines_of u @ [Stop_Condition]"
proof -
  have u: "wired u" "at_byte (watched (lines_of u))" using assms by (simp_all add: sw_busy_def)
  obtain ev where ev: "i2c_stop gpio u = Some ((emit ev u)\<lparr>i2c_started := 0\<rparr>)"
      "lines_of (emit ev u) = lines_of u @ [Sda False, Scl True, Sda True]"
    using drives_stop [OF u(1)] by blast
  let ?u = "(emit ev u)\<lparr>i2c_started := 0\<rparr>"
  have l: "lines_of ?u = lines_of (emit ev u)" "wired ?u = wired (emit ev u)"
    using lines_io [of ?u "emit ev u"] by simp_all
  have "bus_only u ?u" by (rule bus_only_started)
  moreover have "watched (lines_of ?u) = (watched (lines_of u))\<lparr>scl := True, sda := True, bits := [],
      seen := seen (watched (lines_of u)) @ [Stop_Condition]\<rparr>"
    unfolding l ev(2) watched_append by (rule watch_stop [OF u(2)])
  ultimately show ?thesis
    using ev(1) u(1) l(2) by (auto simp: sw_idle_def sw_wire_def drives_wired)
qed

end

sublocale two_wire \<subseteq> sw: i2c_bus "u8x8_byte_sw_i2c gpio" "sw_wire lines_of" "sw_idle lines_of wired"
  "sw_busy lines_of wired"
proof
  fix u :: "'a u8x8_scheme"
  assume "sw_idle lines_of wired u"
  then obtain v where v: "i2c_start gpio u = Some v" "sw_busy lines_of wired v" "bus_only u v"
      "sw_wire lines_of v = sw_wire lines_of u @ [Start_Condition]"
    using start_watched by blast
  obtain ev where "i2c_write_byte gpio (i2c_address v) v = Some (emit ev v)"
      "sw_busy lines_of wired (emit ev v)"
      "sw_wire lines_of (emit ev v) = sw_wire lines_of v @ [Wire_Byte (i2c_address v)]"
    using write_byte_watched [OF v(2)] by blast
  then show "\<exists>u'. call (u8x8_byte_sw_i2c gpio) U8X8_MSG_BYTE_START_TRANSFER 0 [] u = Some u' \<and>
      sw_wire lines_of u' = sw_wire lines_of u @ [Start_Condition, Wire_Byte (i2c_address u)] \<and>
      sw_busy lines_of wired u' \<and> bus_only u u'"
    using v bus_onlyD [OF v(3)] bus_only_trans [OF v(3) bus_only_emit [of v ev]]
    by (simp add: call_def u8x8_byte_sw_i2c_def)
next
  fix u :: "'a u8x8_scheme" and n :: u8 and bs :: "u8 list"
  assume u: "sw_busy lines_of wired u" and n: "unat n \<le> length bs"
  show "\<exists>u'. call (u8x8_byte_sw_i2c gpio) U8X8_MSG_BYTE_SEND n bs u = Some u' \<and>
      sw_wire lines_of u' = sw_wire lines_of u @ map Wire_Byte (take (unat n) bs) \<and>
      sw_busy lines_of wired u' \<and> bus_only u u'"
    using write_bytes_watched [OF u, of "take (unat n) bs"]
    by (auto simp: call_def u8x8_byte_sw_i2c_def for_bytes_foldo [OF n])
next
  fix u :: "'a u8x8_scheme"
  assume "sw_busy lines_of wired u"
  then show "\<exists>u'. call (u8x8_byte_sw_i2c gpio) U8X8_MSG_BYTE_END_TRANSFER 0 [] u = Some u' \<and>
      sw_wire lines_of u' = sw_wire lines_of u @ [Stop_Condition] \<and> sw_idle lines_of wired u' \<and> bus_only u u'"
    using stop_watched [of u] by (auto simp: call_def u8x8_byte_sw_i2c_def)
next
  fix u u' :: "'a u8x8_scheme"
  assume "bus_eq u u'"
  then have "lines_of u' = lines_of u \<and> wired u' = wired u" "i2c_started u' = i2c_started u"
    using lines_io [of u u'] by (simp_all add: bus_eq_def)
  then show "sw_wire lines_of u' = sw_wire lines_of u \<and> sw_idle lines_of wired u' = sw_idle lines_of wired u \<and>
      sw_busy lines_of wired u' = sw_busy lines_of wired u"
    by (simp add: sw_wire_def sw_idle_def sw_busy_def)
qed

end
