(* ===== verification/Esp32_Hal.thy ===== *)
theory Esp32_Hal
  imports U8x8_I2C
begin

text \<open>
  src/hw/u8g2_esp32_hal.c: the procedures with which the firmware connects the display library to
  the ESP-IDF. The results of the ESP-IDF's functions are the argument \<open>esp\<close>: the error code of a
  call, given the calls made before it. \<open>ESP_ERROR_CHECK\<close> stops the program when the code is not
  \<open>ESP_OK\<close>; the result of the procedure is then \<^term>\<open>None\<close>.

  The hardware I2C procedure is shown to keep the contract \<open>i2c_bus\<close> and the pin procedure the
  contract \<open>two_wire\<close>, so that the software I2C procedure works on it too.
\<close>

type_synonym esp_results = "io_event list \<Rightarrow> io_event \<Rightarrow> int"

abbreviation (input) "ESP_OK \<equiv> (0 :: int)"
abbreviation (input) "U8G2_ESP32_HAL_UNDEFINED \<equiv> (- 1 :: int)"
abbreviation (input) "I2C_MASTER_WRITE \<equiv> (0 :: u8)"
abbreviation (input) "I2C_TIMEOUT_MS \<equiv> (1000 :: u32)"
abbreviation (input) "portTICK_PERIOD_MS \<equiv> (1 :: u32)"

definition ESP_ERROR_CHECK :: "esp_results \<Rightarrow> io_event \<Rightarrow> 'a board_scheme \<Rightarrow> 'a board_scheme option" where
  "ESP_ERROR_CHECK esp e u = (if esp (io u) e \<noteq> ESP_OK then None else Some (emit [e] u))"

definition u8g2_esp32_hal_init :: "u8g2_esp32_hal_t \<Rightarrow> 'a board_scheme \<Rightarrow> 'a board_scheme" where
  "u8g2_esp32_hal_init param u = u\<lparr>u8g2_esp32_hal := param\<rparr>"

definition U8G2_ESP32_HAL_DEFAULT :: u8g2_esp32_hal_t where
  "U8G2_ESP32_HAL_DEFAULT = \<lparr>hal_clk = -1, hal_mosi = -1, hal_sda = -1, hal_scl = -1, hal_cs = -1,
     hal_reset = -1, hal_dc = -1\<rparr>"

definition set_pin :: "int \<Rightarrow> u8 \<Rightarrow> 'a board_scheme \<Rightarrow> 'a board_scheme" where
  "set_pin pin level u =
     (if pin \<noteq> U8G2_ESP32_HAL_UNDEFINED then emit [Gpio_set_level pin level] u else u)"

definition u8g2_esp32_spi_byte_cb :: "esp_results \<Rightarrow> 'a board_scheme msg_cb" where
  "u8g2_esp32_spi_byte_cb esp msg arg_int arg_ptr u =
     (let hal = u8g2_esp32_hal u in
      returning 0
       (if msg = U8X8_MSG_BYTE_SET_DC then Some (set_pin (hal_dc hal) arg_int u)
        else if msg = U8X8_MSG_BYTE_INIT then
          (if hal_clk hal = U8G2_ESP32_HAL_UNDEFINED \<or> hal_mosi hal = U8G2_ESP32_HAL_UNDEFINED \<or>
              hal_cs hal = U8G2_ESP32_HAL_UNDEFINED
           then Some u
           else do {
             u \<leftarrow> ESP_ERROR_CHECK esp (Spi_bus_initialize (hal_clk hal) (hal_mosi hal)) u;
             ESP_ERROR_CHECK esp (Spi_bus_add_device (hal_cs hal)) u })
        else if msg = U8X8_MSG_BYTE_SEND then
          ESP_ERROR_CHECK esp (Spi_device_transmit (8 * ucast arg_int) arg_ptr) u
        else Some u))"

definition u8g2_esp32_i2c_byte_cb :: "esp_results \<Rightarrow> 'a u8x8_scheme msg_cb" where
  "u8g2_esp32_i2c_byte_cb esp msg arg_int arg_ptr u =
     (let hal = u8g2_esp32_hal u in
      returning 0
       (if msg = U8X8_MSG_BYTE_SET_DC then Some (set_pin (hal_dc hal) arg_int u)
        else if msg = U8X8_MSG_BYTE_INIT then
          (if hal_sda hal = U8G2_ESP32_HAL_UNDEFINED \<or> hal_scl hal = U8G2_ESP32_HAL_UNDEFINED
           then Some u
           else do {
             u \<leftarrow> ESP_ERROR_CHECK esp (I2c_param_config (hal_sda hal) (hal_scl hal)) u;
             ESP_ERROR_CHECK esp I2c_driver_install u })
        else if msg = U8X8_MSG_BYTE_SEND then
          for_bytes (\<lambda>b. ESP_ERROR_CHECK esp (I2c_master_write_byte b)) arg_int arg_ptr u
        else if msg = U8X8_MSG_BYTE_START_TRANSFER then
          do {
            let address = i2c_address u;
            let u = emit [I2c_cmd_link_create] u;
            u \<leftarrow> ESP_ERROR_CHECK esp I2c_master_start u;
            ESP_ERROR_CHECK esp (I2c_master_write_byte (address OR I2C_MASTER_WRITE)) u }
        else if msg = U8X8_MSG_BYTE_END_TRANSFER then
          do {
            u \<leftarrow> ESP_ERROR_CHECK esp I2c_master_stop u;
            u \<leftarrow> ESP_ERROR_CHECK esp (I2c_master_cmd_begin (I2C_TIMEOUT_MS div portTICK_PERIOD_MS)) u;
            Some (emit [I2c_cmd_link_delete] u) }
        else Some u))"

text \<open>The bit of a pin in the configuration mask; a shift outside the 64 bits is undefined.\<close>

definition pin_mask :: "int \<Rightarrow> 64 word option" where
  "pin_mask pin =
     (if pin = U8G2_ESP32_HAL_UNDEFINED then Some 0
      else if 0 \<le> pin \<and> pin < 64 then Some (push_bit (nat pin) 1) else None)"

definition u8g2_esp32_gpio_and_delay_cb :: "'a board_scheme msg_cb" where
  "u8g2_esp32_gpio_and_delay_cb msg arg_int arg_ptr u =
     (let hal = u8g2_esp32_hal u in
      returning 0
       (if msg = U8X8_MSG_GPIO_AND_DELAY_INIT then
          do {
            dc \<leftarrow> pin_mask (hal_dc hal);
            reset \<leftarrow> pin_mask (hal_reset hal);
            cs \<leftarrow> pin_mask (hal_cs hal);
            let bitmask = 0 OR dc OR reset OR cs;
            Some (if bitmask = 0 then u else emit [Gpio_config bitmask] u) }
        else if msg = U8X8_MSG_GPIO_RESET then Some (set_pin (hal_reset hal) arg_int u)
        else if msg = U8X8_MSG_GPIO_CS then Some (set_pin (hal_cs hal) arg_int u)
        else if msg = U8X8_MSG_GPIO_I2C_CLOCK then Some (set_pin (hal_scl hal) arg_int u)
        else if msg = U8X8_MSG_GPIO_I2C_DATA then Some (set_pin (hal_sda hal) arg_int u)
        else if msg = U8X8_MSG_DELAY_MILLI then
          Some (emit [VTaskDelay (ucast arg_int div portTICK_PERIOD_MS)] u)
        else Some u))"

section \<open>The hardware bus\<close>

text \<open>What the I2C driver does with the calls: a command link collects commands, \<open>cmd_begin\<close>
  performs them, \<open>cmd_link_delete\<close> drops the link.\<close>

record i2c_driver =
  sent :: "wire_event list"
  queued :: "wire_event list"

fun i2c_driver_step :: "i2c_driver \<Rightarrow> io_event \<Rightarrow> i2c_driver" where
  "i2c_driver_step d I2c_cmd_link_create = d\<lparr>queued := []\<rparr>"
| "i2c_driver_step d I2c_master_start = d\<lparr>queued := queued d @ [Start_Condition]\<rparr>"
| "i2c_driver_step d (I2c_master_write_byte b) = d\<lparr>queued := queued d @ [Wire_Byte b]\<rparr>"
| "i2c_driver_step d I2c_master_stop = d\<lparr>queued := queued d @ [Stop_Condition]\<rparr>"
| "i2c_driver_step d (I2c_master_cmd_begin _) = d\<lparr>sent := sent d @ queued d\<rparr>"
| "i2c_driver_step d I2c_cmd_link_delete = d\<lparr>queued := []\<rparr>"
| "i2c_driver_step d _ = d"

definition i2c_driver :: "io_event list \<Rightarrow> i2c_driver" where
  "i2c_driver es = foldl i2c_driver_step \<lparr>sent = [], queued = []\<rparr> es"

lemma i2c_driver_append: "i2c_driver (es @ fs) = foldl i2c_driver_step (i2c_driver es) fs"
  by (simp add: i2c_driver_def)

definition esp_ok :: "esp_results \<Rightarrow> bool" where
  "esp_ok esp \<longleftrightarrow> (\<forall>h e. esp h e = ESP_OK)"

lemma ESP_ERROR_CHECK_ok: "esp_ok esp \<Longrightarrow> ESP_ERROR_CHECK esp e u = Some (emit [e] u)"
  by (simp add: ESP_ERROR_CHECK_def esp_ok_def)

definition hal_wire :: "'a board_scheme \<Rightarrow> wire_event list" where
  "hal_wire u = sent (i2c_driver (io u)) @ queued (i2c_driver (io u))"

definition hal_idle :: "esp_results \<Rightarrow> 'a board_scheme \<Rightarrow> bool" where
  "hal_idle esp u \<longleftrightarrow> esp_ok esp \<and> queued (i2c_driver (io u)) = []"

definition hal_busy :: "esp_results \<Rightarrow> 'a board_scheme \<Rightarrow> bool" where
  "hal_busy esp u \<longleftrightarrow> esp_ok esp"

lemma write_bytes_driver:
  "foldl i2c_driver_step d (map I2c_master_write_byte bs) = d\<lparr>queued := queued d @ map Wire_Byte bs\<rparr>"
  by (induction bs arbitrary: d) simp_all

lemma write_bytes_ok:
  assumes "esp_ok esp"
  shows "foldo (\<lambda>u b. ESP_ERROR_CHECK esp (I2c_master_write_byte b) u) bs u
    = Some (emit (map I2c_master_write_byte bs) u)"
  by (induction bs arbitrary: u) (simp_all add: ESP_ERROR_CHECK_ok [OF assms])

interpretation esp32: i2c_bus "u8g2_esp32_i2c_byte_cb esp" hal_wire "hal_idle esp" "hal_busy esp" for esp
proof
  fix u :: "'a u8x8_scheme"
  assume "hal_idle esp u"
  then have ok: "esp_ok esp" and "queued (i2c_driver (io u)) = []" by (simp_all add: hal_idle_def)
  then show "\<exists>u'. call (u8g2_esp32_i2c_byte_cb esp) U8X8_MSG_BYTE_START_TRANSFER 0 [] u = Some u' \<and>
      hal_wire u' = hal_wire u @ [Start_Condition, Wire_Byte (i2c_address u)] \<and> hal_busy esp u' \<and> bus_only u u'"
    by (simp add: call_def u8g2_esp32_i2c_byte_cb_def Let_def ESP_ERROR_CHECK_ok [OF ok] hal_wire_def
      hal_busy_def i2c_driver_append)
next
  fix u :: "'a u8x8_scheme" and n :: u8 and data :: "u8 list"
  assume "hal_busy esp u" and n: "unat n \<le> length data"
  then have ok: "esp_ok esp" by (simp add: hal_busy_def)
  show "\<exists>u'. call (u8g2_esp32_i2c_byte_cb esp) U8X8_MSG_BYTE_SEND n data u = Some u' \<and>
      hal_wire u' = hal_wire u @ map Wire_Byte (take (unat n) data) \<and> hal_busy esp u' \<and> bus_only u u'"
    by (simp add: call_def u8g2_esp32_i2c_byte_cb_def Let_def for_bytes_foldo [OF n] write_bytes_ok [OF ok]
      hal_wire_def hal_busy_def ok i2c_driver_append write_bytes_driver)
next
  fix u :: "'a u8x8_scheme"
  assume "hal_busy esp u"
  then have ok: "esp_ok esp" by (simp add: hal_busy_def)
  then show "\<exists>u'. call (u8g2_esp32_i2c_byte_cb esp) U8X8_MSG_BYTE_END_TRANSFER 0 [] u = Some u' \<and>
      hal_wire u' = hal_wire u @ [Stop_Condition] \<and> hal_idle esp u' \<and> bus_only u u'"
    by (simp add: call_def u8g2_esp32_i2c_byte_cb_def Let_def ESP_ERROR_CHECK_ok [OF ok] hal_wire_def
      hal_idle_def i2c_driver_append)
qed (simp add: bus_eq_def hal_wire_def hal_idle_def hal_busy_def)

section \<open>The pins as a bus\<close>

text \<open>The levels the firmware's pin procedure puts on the two lines.\<close>

fun hal_line :: "int \<Rightarrow> int \<Rightarrow> io_event \<Rightarrow> line_event list" where
  "hal_line c d (Gpio_set_level pin v) =
     (if pin = c then [Scl (v \<noteq> 0)] else if pin = d then [Sda (v \<noteq> 0)] else [])"
| "hal_line c d _ = []"

definition hal_lines :: "'a board_scheme \<Rightarrow> line_event list" where
  "hal_lines u = concat (map (hal_line (hal_scl (u8g2_esp32_hal u)) (hal_sda (u8g2_esp32_hal u))) (io u))"

definition hal_wired :: "'a board_scheme \<Rightarrow> bool" where
  "hal_wired u \<longleftrightarrow> (let hal = u8g2_esp32_hal u in
     hal_scl hal \<noteq> U8G2_ESP32_HAL_UNDEFINED \<and> hal_sda hal \<noteq> U8G2_ESP32_HAL_UNDEFINED \<and>
     hal_scl hal \<noteq> hal_sda hal)"

interpretation esp32_pins: two_wire u8g2_esp32_gpio_and_delay_cb hal_lines hal_wired
proof
  note defs = u8x8_gpio_call_def call_def u8g2_esp32_gpio_and_delay_cb_def Let_def set_pin_def hal_lines_def
  fix u :: "'a u8x8_scheme" and v :: u8
  assume "hal_wired u"
  then have w: "hal_scl (u8g2_esp32_hal u) \<noteq> - 1" "hal_sda (u8g2_esp32_hal u) \<noteq> - 1"
    "hal_scl (u8g2_esp32_hal u) \<noteq> hal_sda (u8g2_esp32_hal u)" by (simp_all add: hal_wired_def Let_def)
  show "\<exists>es. u8x8_gpio_call u8g2_esp32_gpio_and_delay_cb U8X8_MSG_GPIO_I2C_CLOCK v u = Some (emit es u) \<and>
      hal_lines (emit es u) = hal_lines u @ [Scl (v \<noteq> 0)]"
    using w by (intro exI [of _ "[Gpio_set_level (hal_scl (u8g2_esp32_hal u)) v]"]) (simp add: defs)
  show "\<exists>es. u8x8_gpio_call u8g2_esp32_gpio_and_delay_cb U8X8_MSG_GPIO_I2C_DATA v u = Some (emit es u) \<and>
      hal_lines (emit es u) = hal_lines u @ [Sda (v \<noteq> 0)]"
    using w by (intro exI [of _ "[Gpio_set_level (hal_sda (u8g2_esp32_hal u)) v]"]) (simp add: defs)
  show "\<exists>es. u8x8_gpio_call u8g2_esp32_gpio_and_delay_cb U8X8_MSG_DELAY_I2C v u = Some (emit es u) \<and>
      hal_lines (emit es u) = hal_lines u"
    by (intro exI [of _ "[]"]) (simp add: defs)
qed (simp_all add: hal_lines_def hal_wired_def)

section \<open>Properties\<close>

text \<open>C14: the firmware's two ways to the bus agree. A transfer to the display is one transaction
  with the address and exactly the bytes: through the I2C driver, and in the levels the software
  procedure puts on the two pins, read as a device on the bus reads them. (The ESP-IDF's calls
  succeed, and the two pins are there and at rest.)\<close>

theorem i2c_procedures_agree:
  fixes u :: "'a u8x8_scheme"
  assumes "unat n \<le> length bs"
    and "hal_idle esp u" and "sw_idle hal_lines hal_wired u"
  shows "(\<exists>v. i2c_transaction (u8g2_esp32_i2c_byte_cb esp) n bs u = Some v \<and> hal_idle esp v \<and>
      hal_wire v = hal_wire u @ frame (i2c_address u) (take (unat n) bs)) \<and>
    (\<exists>w. i2c_transaction (u8x8_byte_sw_i2c u8g2_esp32_gpio_and_delay_cb) n bs u = Some w \<and>
      sw_idle hal_lines hal_wired w \<and>
      sw_wire hal_lines w = sw_wire hal_lines u @ frame (i2c_address u) (take (unat n) bs))"
  using esp32.puts_transaction [OF assms(1)] esp32_pins.sw.puts_transaction [OF assms(1)] assms(2,3)
  unfolding puts_def by blast

theorem i2c_procedures_agree_witness:
  "\<exists>w. i2c_transaction (u8x8_byte_sw_i2c u8g2_esp32_gpio_and_delay_cb) 2 [0x00, 0xAF]
      (u8g2_zero\<lparr>i2c_address := 0x78, u8g2_esp32_hal := U8G2_ESP32_HAL_DEFAULT\<lparr>hal_sda := 21, hal_scl := 22\<rparr>\<rparr>) = Some w \<and>
    sw_wire hal_lines w = [Start_Condition, Wire_Byte 0x78, Wire_Byte 0x00, Wire_Byte 0xAF, Stop_Condition]"
proof -
  let ?u = "u8g2_zero\<lparr>i2c_address := 0x78, u8g2_esp32_hal := U8G2_ESP32_HAL_DEFAULT\<lparr>hal_sda := 21, hal_scl := 22\<rparr>\<rparr>"
  have "hal_idle (\<lambda>_ _. 0) ?u"
    by (simp add: hal_idle_def esp_ok_def i2c_driver_def u8g2_zero_def)
  moreover have "sw_idle hal_lines hal_wired ?u" "sw_wire hal_lines ?u = []"
    by (simp_all add: sw_idle_def sw_wire_def hal_lines_def hal_wired_def watched_def u8g2_zero_def
      U8G2_ESP32_HAL_DEFAULT_def)
  ultimately show ?thesis
    using i2c_procedures_agree [of 2 "[0x00, 0xAF]" "\<lambda>_ _. 0" ?u] by (auto simp: frame_def)
qed

end
