(* ===== verification/U8x8_Cad.thy ===== *)
theory U8x8_Cad
  imports Esp32_Hal
begin

text \<open>
  libs/u8g2/csrc/u8x8_cad.c: the command/argument/data interface to a display controller. A cad
  procedure turns the messages into bytes for a byte procedure, with the command/data
  distinction made by a pin, by a control byte or by the address, depending on the controller.
  The procedures for the two-wire bus are verified against the contract \<open>i2c_bus\<close>.
\<close>

abbreviation (input) "U8X8_MSG_CAD_INIT \<equiv> (20 :: u8)"
abbreviation (input) "U8X8_MSG_CAD_SEND_CMD \<equiv> (21 :: u8)"
abbreviation (input) "U8X8_MSG_CAD_SEND_ARG \<equiv> (22 :: u8)"
abbreviation (input) "U8X8_MSG_CAD_SEND_DATA \<equiv> (23 :: u8)"
abbreviation (input) "U8X8_MSG_CAD_START_TRANSFER \<equiv> (24 :: u8)"
abbreviation (input) "U8X8_MSG_CAD_END_TRANSFER \<equiv> (25 :: u8)"

text \<open>A call for its effect.\<close>

definition void :: "('r \<times> 's) option \<Rightarrow> 's option" where
  "void = map_option snd"

section \<open>Sending commands\<close>

definition u8x8_cad_SendCmd :: "'s msg_cb \<Rightarrow> u8 \<Rightarrow> 's \<Rightarrow> (u8 \<times> 's) option" where
  "u8x8_cad_SendCmd cad cmd u = cad U8X8_MSG_CAD_SEND_CMD cmd [] u"

definition u8x8_cad_SendArg :: "'s msg_cb \<Rightarrow> u8 \<Rightarrow> 's \<Rightarrow> (u8 \<times> 's) option" where
  "u8x8_cad_SendArg cad arg u = cad U8X8_MSG_CAD_SEND_ARG arg [] u"

function u8x8_cad_SendMultipleArg :: "'s msg_cb \<Rightarrow> u8 \<Rightarrow> u8 \<Rightarrow> 's \<Rightarrow> (u8 \<times> 's) option" where
  "u8x8_cad_SendMultipleArg cad cnt arg u =
     (if cnt > 0 then do {
        u \<leftarrow> void (cad U8X8_MSG_CAD_SEND_ARG arg [] u);
        u8x8_cad_SendMultipleArg cad (cnt - 1) arg u }
      else Some (1, u))"
  by pat_completeness auto
termination
  by (relation "measure (\<lambda>(cad, cnt, arg, u). unat cnt)") (simp_all add: unat_pred unat_gt_0)

definition u8x8_cad_SendData :: "'s msg_cb \<Rightarrow> u8 \<Rightarrow> u8 list \<Rightarrow> 's \<Rightarrow> (u8 \<times> 's) option" where
  "u8x8_cad_SendData cad cnt data u = cad U8X8_MSG_CAD_SEND_DATA cnt data u"

definition u8x8_cad_StartTransfer :: "'s msg_cb \<Rightarrow> 's \<Rightarrow> (u8 \<times> 's) option" where
  "u8x8_cad_StartTransfer cad u = cad U8X8_MSG_CAD_START_TRANSFER 0 [] u"

definition u8x8_cad_EndTransfer :: "'s msg_cb \<Rightarrow> 's \<Rightarrow> (u8 \<times> 's) option" where
  "u8x8_cad_EndTransfer cad u = cad U8X8_MSG_CAD_END_TRANSFER 0 [] u"

text \<open>The format characters up to the NUL, with the arguments they take; an argument that was not
  passed is undefined.\<close>

fun vsendf_loop :: "'s msg_cb \<Rightarrow> string \<Rightarrow> int list \<Rightarrow> 's \<Rightarrow> 's option" where
  "vsendf_loop cad [] va u = Some u"
| "vsendf_loop cad (c # fmt) [] u = None"
| "vsendf_loop cad (c # fmt) (v # va) u =
     (let d = word_of_int v in do {
        u \<leftarrow> (if c = CHR ''a'' then void (u8x8_cad_SendArg cad d u)
             else if c = CHR ''c'' then void (u8x8_cad_SendCmd cad d u)
             else if c = CHR ''d'' then void (u8x8_cad_SendData cad 1 [d] u)
             else Some u);
        vsendf_loop cad fmt va u })"

definition u8x8_cad_vsendf :: "'s msg_cb \<Rightarrow> string \<Rightarrow> int list \<Rightarrow> 's \<Rightarrow> 's option" where
  "u8x8_cad_vsendf cad fmt va u = do {
     u \<leftarrow> void (u8x8_cad_StartTransfer cad u);
     u \<leftarrow> vsendf_loop cad fmt va u;
     void (u8x8_cad_EndTransfer cad u) }"

definition u8x8_SendF :: "'s msg_cb \<Rightarrow> string \<Rightarrow> int list \<Rightarrow> 's \<Rightarrow> 's option" where
  "u8x8_SendF cad fmt va u = u8x8_cad_vsendf cad fmt va u"

text \<open>A recorded sequence; reading past its end is undefined.\<close>

fun u8x8_cad_SendSequence :: "'s msg_cb \<Rightarrow> 's msg_cb \<Rightarrow> u8 list \<Rightarrow> 's \<Rightarrow> 's option" where
  "u8x8_cad_SendSequence cad gpio [] u = None"
| "u8x8_cad_SendSequence cad gpio (cmd # data) u =
     (if cmd = U8X8_MSG_CAD_SEND_CMD \<or> cmd = U8X8_MSG_CAD_SEND_ARG then
        (case data of [] \<Rightarrow> None | v # data \<Rightarrow>
           Option.bind (void (cad cmd v [] u)) (u8x8_cad_SendSequence cad gpio data))
      else if cmd = U8X8_MSG_CAD_SEND_DATA then
        (case data of [] \<Rightarrow> None | v # data \<Rightarrow>
           Option.bind (void (u8x8_cad_SendData cad 1 [v] u)) (u8x8_cad_SendSequence cad gpio data))
      else if cmd = U8X8_MSG_CAD_START_TRANSFER \<or> cmd = U8X8_MSG_CAD_END_TRANSFER then
        Option.bind (void (cad cmd 0 [] u)) (u8x8_cad_SendSequence cad gpio data)
      else if cmd = 0xfe then
        (case data of [] \<Rightarrow> None | v # data \<Rightarrow>
           Option.bind (u8x8_gpio_Delay gpio U8X8_MSG_DELAY_MILLI v u) (u8x8_cad_SendSequence cad gpio data))
      else Some u)"

section \<open>Command and data by a pin\<close>

definition u8x8_cad_empty :: "'s msg_cb \<Rightarrow> 's msg_cb" where
  "u8x8_cad_empty byte msg arg_int arg_ptr u =
     (if msg = U8X8_MSG_CAD_SEND_CMD then returning 1 (void (u8x8_byte_SendByte byte arg_int u))
      else if msg = U8X8_MSG_CAD_SEND_ARG then returning 1 (void (u8x8_byte_SendByte byte arg_int u))
      else if msg = U8X8_MSG_CAD_SEND_DATA \<or> msg = U8X8_MSG_CAD_INIT \<or>
              msg = U8X8_MSG_CAD_START_TRANSFER \<or> msg = U8X8_MSG_CAD_END_TRANSFER
        then byte msg arg_int arg_ptr u
      else Some (0, u))"

text \<open>The four procedures that set the pin: \<open>dc_cmd\<close>, \<open>dc_arg\<close> and \<open>dc_data\<close> are its levels.\<close>

definition cad_dc :: "u8 \<Rightarrow> u8 \<Rightarrow> u8 \<Rightarrow> 's msg_cb \<Rightarrow> 's msg_cb" where
  "cad_dc dc_cmd dc_arg dc_data byte msg arg_int arg_ptr u =
     (if msg = U8X8_MSG_CAD_SEND_CMD then
        returning 1 (do {
          u \<leftarrow> void (u8x8_byte_SetDC byte dc_cmd u);
          void (u8x8_byte_SendByte byte arg_int u) })
      else if msg = U8X8_MSG_CAD_SEND_ARG then
        returning 1 (do {
          u \<leftarrow> void (u8x8_byte_SetDC byte dc_arg u);
          void (u8x8_byte_SendByte byte arg_int u) })
      else if msg = U8X8_MSG_CAD_SEND_DATA then
        do {
          u \<leftarrow> void (u8x8_byte_SetDC byte dc_data u);
          byte msg arg_int arg_ptr u }
      else if msg = U8X8_MSG_CAD_INIT \<or> msg = U8X8_MSG_CAD_START_TRANSFER \<or> msg = U8X8_MSG_CAD_END_TRANSFER
        then byte msg arg_int arg_ptr u
      else Some (0, u))"

definition u8x8_cad_110 :: "'s msg_cb \<Rightarrow> 's msg_cb" where "u8x8_cad_110 = cad_dc 1 1 0"
definition u8x8_cad_100 :: "'s msg_cb \<Rightarrow> 's msg_cb" where "u8x8_cad_100 = cad_dc 1 0 0"
definition u8x8_cad_001 :: "'s msg_cb \<Rightarrow> 's msg_cb" where "u8x8_cad_001 = cad_dc 0 0 1"
definition u8x8_cad_011 :: "'s msg_cb \<Rightarrow> 's msg_cb" where "u8x8_cad_011 = cad_dc 0 1 1"

section \<open>The ST7920\<close>

text \<open>Each byte is sent as two, a nibble in the high half of each.\<close>

definition nibbles :: "u8 \<Rightarrow> u8 list" where
  "nibbles b = [b AND 0xf0, push_bit 4 b]"

function st7920_fast ::
    "'s msg_cb \<Rightarrow> u8 \<Rightarrow> u8 list \<Rightarrow> 's \<Rightarrow> (u8 \<times> u8 list \<times> 's) option" where
  "st7920_fast byte n data u =
     (if n \<ge> 8 then
        (if length data < 8 then None
         else do {
           u \<leftarrow> void (u8x8_byte_SendBytes byte 16 (concat (map nibbles (take 8 data))) u);
           st7920_fast byte (n - 8) (drop 8 data) u })
      else Some (n, data, u))"
  by pat_completeness auto
termination
  by (relation "measure (\<lambda>(byte, n, data, u). unat n)") (simp_all add: unat_sub word_le_nat_alt)

definition u8x8_cad_st7920_spi :: "'s msg_cb \<Rightarrow> 's msg_cb \<Rightarrow> 's msg_cb" where
  "u8x8_cad_st7920_spi byte gpio msg arg_int arg_ptr u =
     (if msg = U8X8_MSG_CAD_SEND_CMD then
        returning 1 (do {
          u \<leftarrow> void (u8x8_byte_SendByte byte 0xf8 u);
          u \<leftarrow> u8x8_gpio_Delay gpio U8X8_MSG_DELAY_NANO 1 u;
          u \<leftarrow> void (u8x8_byte_SendByte byte (arg_int AND 0xf0) u);
          u \<leftarrow> u8x8_gpio_Delay gpio U8X8_MSG_DELAY_NANO 1 u;
          u \<leftarrow> void (u8x8_byte_SendByte byte (push_bit 4 arg_int) u);
          u8x8_gpio_Delay gpio U8X8_MSG_DELAY_NANO 1 u })
      else if msg = U8X8_MSG_CAD_SEND_ARG then
        returning 1 (do {
          u \<leftarrow> void (u8x8_byte_SendByte byte 0xf8 u);
          u \<leftarrow> void (u8x8_byte_SendByte byte (arg_int AND 0xf0) u);
          void (u8x8_byte_SendByte byte (push_bit 4 arg_int) u) })
      else if msg = U8X8_MSG_CAD_SEND_DATA then
        returning 1 (do {
          u \<leftarrow> void (u8x8_byte_SendByte byte 0xfa u);
          u \<leftarrow> u8x8_gpio_Delay gpio U8X8_MSG_DELAY_NANO 1 u;
          (arg_int, data, u) \<leftarrow> st7920_fast byte arg_int arg_ptr u;
          u \<leftarrow> for_bytes (\<lambda>b u. do {
            u \<leftarrow> void (u8x8_byte_SendByte byte (b AND 0xf0) u);
            void (u8x8_byte_SendByte byte (push_bit 4 b) u) }) arg_int data u;
          u8x8_gpio_Delay gpio U8X8_MSG_DELAY_NANO 1 u })
      else if msg = U8X8_MSG_CAD_INIT \<or> msg = U8X8_MSG_CAD_START_TRANSFER \<or> msg = U8X8_MSG_CAD_END_TRANSFER
        then byte msg arg_int arg_ptr u
      else Some (0, u))"

declare u8x8_cad_SendMultipleArg.simps [simp del] st7920_fast.simps [simp del]

section \<open>Two-wire procedures\<close>

definition u8x8_i2c_data_transfer :: "'s msg_cb \<Rightarrow> u8 \<Rightarrow> u8 list \<Rightarrow> 's \<Rightarrow> 's option" where
  "u8x8_i2c_data_transfer byte arg_int arg_ptr u = do {
     u \<leftarrow> void (u8x8_byte_StartTransfer byte u);
     u \<leftarrow> void (u8x8_byte_SendByte byte 0x40 u);
     u \<leftarrow> void (byte U8X8_MSG_CAD_SEND_DATA arg_int arg_ptr u);
     void (u8x8_byte_EndTransfer byte u) }"

text \<open>The loop \<open>while ( arg_int > 24 )\<close> over 24 bytes each, and what follows it.\<close>

function by_24 :: "(u8 list \<Rightarrow> 's \<Rightarrow> 's option) \<Rightarrow> (u8 \<Rightarrow> u8 list \<Rightarrow> 's \<Rightarrow> 's option) \<Rightarrow>
    u8 \<Rightarrow> u8 list \<Rightarrow> 's \<Rightarrow> 's option" where
  "by_24 body rest n p u =
     (if n > 24 then Option.bind (body p u) (by_24 body rest (n - 24) (drop 24 p)) else rest n p u)"
  by pat_completeness auto
termination
  by (relation "measure (\<lambda>(body, rest, n, p, u). unat n)") (simp_all add: unat_sub word_less_nat_alt word_le_nat_alt)

declare by_24.simps [simp del]

lemma by_24_more: "n > 24 \<Longrightarrow>
    by_24 body rest n p = (\<lambda>u. Option.bind (body p u) (by_24 body rest (n - 24) (drop 24 p)))"
  and by_24_rest: "\<not> n > 24 \<Longrightarrow> by_24 body rest n p = rest n p"
  by (rule ext, subst by_24.simps, simp)+

text \<open>\<open>CAD_INIT\<close>: the default address, unless one was set.\<close>

definition default_address :: "u8 \<Rightarrow> 'a u8x8_scheme \<Rightarrow> 'a u8x8_scheme" where
  "default_address a u = (if i2c_address u = 255 then u\<lparr>i2c_address := a\<rparr> else u)"

definition u8x8_cad_ssd13xx_i2c :: "'a u8x8_scheme msg_cb \<Rightarrow> 'a u8x8_scheme msg_cb" where
  "u8x8_cad_ssd13xx_i2c byte msg arg_int arg_ptr u =
     (if msg = U8X8_MSG_CAD_SEND_CMD \<or> msg = U8X8_MSG_CAD_SEND_ARG then
        returning 1 (do {
          u \<leftarrow> void (u8x8_byte_StartTransfer byte u);
          u \<leftarrow> void (u8x8_byte_SendByte byte 0 u);
          u \<leftarrow> void (u8x8_byte_SendByte byte arg_int u);
          void (u8x8_byte_EndTransfer byte u) })
      else if msg = U8X8_MSG_CAD_SEND_DATA then
        returning 1 (by_24 (u8x8_i2c_data_transfer byte 24) (u8x8_i2c_data_transfer byte) arg_int arg_ptr u)
      else if msg = U8X8_MSG_CAD_INIT then byte msg arg_int arg_ptr (default_address 0x78 u)
      else if msg = U8X8_MSG_CAD_START_TRANSFER \<or> msg = U8X8_MSG_CAD_END_TRANSFER then Some (1, u)
      else Some (0, u))"

definition u8x8_cad_ssd13xx_fast_i2c :: "'a u8x8_scheme msg_cb \<Rightarrow> 'a u8x8_scheme msg_cb" where
  "u8x8_cad_ssd13xx_fast_i2c byte msg arg_int arg_ptr u =
     (if msg = U8X8_MSG_CAD_SEND_CMD then
        returning 1 (do {
          u \<leftarrow> doif (ssd13xx_in_transfer u \<noteq> 0) (\<lambda>u. void (u8x8_byte_EndTransfer byte u)) u;
          u \<leftarrow> void (u8x8_byte_StartTransfer byte u);
          u \<leftarrow> void (u8x8_byte_SendByte byte 0 u);
          u \<leftarrow> void (u8x8_byte_SendByte byte arg_int u);
          Some (u\<lparr>ssd13xx_in_transfer := 1\<rparr>) })
      else if msg = U8X8_MSG_CAD_SEND_ARG then returning 1 (void (u8x8_byte_SendByte byte arg_int u))
      else if msg = U8X8_MSG_CAD_SEND_DATA then
        returning 1 (do {
          u \<leftarrow> doif (ssd13xx_in_transfer u \<noteq> 0) (\<lambda>u. void (u8x8_byte_EndTransfer byte u)) u;
          u \<leftarrow> by_24 (u8x8_i2c_data_transfer byte 24) (u8x8_i2c_data_transfer byte) arg_int arg_ptr u;
          Some (u\<lparr>ssd13xx_in_transfer := 0\<rparr>) })
      else if msg = U8X8_MSG_CAD_INIT then byte msg arg_int arg_ptr (default_address 0x78 u)
      else if msg = U8X8_MSG_CAD_START_TRANSFER then Some (1, u\<lparr>ssd13xx_in_transfer := 0\<rparr>)
      else if msg = U8X8_MSG_CAD_END_TRANSFER then
        returning 1 (do {
          u \<leftarrow> doif (ssd13xx_in_transfer u \<noteq> 0) (\<lambda>u. void (u8x8_byte_EndTransfer byte u)) u;
          Some (u\<lparr>ssd13xx_in_transfer := 0\<rparr>) })
      else Some (0, u))"

definition u8x8_cad_st75256_i2c :: "'a u8x8_scheme msg_cb \<Rightarrow> 'a u8x8_scheme msg_cb" where
  "u8x8_cad_st75256_i2c byte msg arg_int arg_ptr u =
     (if msg = U8X8_MSG_CAD_SEND_CMD then
        returning 1 (do {
          u \<leftarrow> void (u8x8_byte_StartTransfer byte u);
          u \<leftarrow> void (u8x8_byte_SendByte byte 0 u);
          u \<leftarrow> void (u8x8_byte_SendByte byte arg_int u);
          void (u8x8_byte_EndTransfer byte u) })
      else if msg = U8X8_MSG_CAD_SEND_ARG then
        returning 1 (do {
          u \<leftarrow> void (u8x8_byte_StartTransfer byte u);
          u \<leftarrow> void (u8x8_byte_SendByte byte 0x40 u);
          u \<leftarrow> void (u8x8_byte_SendByte byte arg_int u);
          void (u8x8_byte_EndTransfer byte u) })
      else if msg = U8X8_MSG_CAD_SEND_DATA then
        returning 1 (by_24 (u8x8_i2c_data_transfer byte 24) (u8x8_i2c_data_transfer byte) arg_int arg_ptr u)
      else if msg = U8X8_MSG_CAD_INIT then byte msg arg_int arg_ptr (default_address 0x78 u)
      else if msg = U8X8_MSG_CAD_START_TRANSFER \<or> msg = U8X8_MSG_CAD_END_TRANSFER then Some (1, u)
      else Some (0, u))"

definition u8x8_cad_ld7032_i2c :: "'a u8x8_scheme msg_cb \<Rightarrow> 'a u8x8_scheme msg_cb" where
  "u8x8_cad_ld7032_i2c byte msg arg_int arg_ptr u =
     (if msg = U8X8_MSG_CAD_SEND_CMD then
        returning 1 (do {
          u \<leftarrow> doif (ld7032_in_transfer u \<noteq> 0) (\<lambda>u. void (u8x8_byte_EndTransfer byte u)) u;
          u \<leftarrow> void (u8x8_byte_StartTransfer byte u);
          u \<leftarrow> void (u8x8_byte_SendByte byte arg_int u);
          Some (u\<lparr>ld7032_in_transfer := 1\<rparr>) })
      else if msg = U8X8_MSG_CAD_SEND_ARG then returning 1 (void (u8x8_byte_SendByte byte arg_int u))
      else if msg = U8X8_MSG_CAD_SEND_DATA then
        returning 1 (by_24
          (\<lambda>p u. do {
             u \<leftarrow> void (byte U8X8_MSG_CAD_SEND_DATA 24 p u);
             u \<leftarrow> void (u8x8_byte_EndTransfer byte u);
             u \<leftarrow> void (u8x8_byte_StartTransfer byte u);
             void (u8x8_byte_SendByte byte 0x08 u) })
          (\<lambda>n p u. void (byte U8X8_MSG_CAD_SEND_DATA n p u)) arg_int arg_ptr u)
      else if msg = U8X8_MSG_CAD_INIT then byte msg arg_int arg_ptr (default_address 0x60 u)
      else if msg = U8X8_MSG_CAD_START_TRANSFER then Some (1, u\<lparr>ld7032_in_transfer := 0\<rparr>)
      else if msg = U8X8_MSG_CAD_END_TRANSFER then
        returning 1 (doif (ld7032_in_transfer u \<noteq> 0) (\<lambda>u. void (u8x8_byte_EndTransfer byte u)) u)
      else Some (0, u))"

text \<open>The UC16xx has the command/data distinction in bit 1 of the address. \<open>uc16xx_address\<close> brings the
  transfer to the address for what is sent next; \<open>other\<close> is whether the transfer in progress is
  taken to be of the other kind.\<close>

definition uc16xx_address ::
    "'a u8x8_scheme msg_cb \<Rightarrow> bool \<Rightarrow> u8 \<Rightarrow> 'a u8x8_scheme \<Rightarrow> 'a u8x8_scheme option" where
  "uc16xx_address byte other kind u =
     (if uc16xx_in_transfer u \<noteq> 0 then
        (if other then do {
           u \<leftarrow> void (u8x8_byte_EndTransfer byte u);
           let u = u\<lparr>i2c_address := (i2c_address u AND 0xfc) OR kind\<rparr>;
           void (u8x8_byte_StartTransfer byte u) }
         else Some u)
      else (let u = u\<lparr>i2c_address := (i2c_address u AND 0xfc) OR kind\<rparr>
            in void (u8x8_byte_StartTransfer byte u)))"

definition u8x8_cad_uc16xx_i2c :: "'a u8x8_scheme msg_cb \<Rightarrow> 'a u8x8_scheme msg_cb" where
  "u8x8_cad_uc16xx_i2c byte msg arg_int arg_ptr u =
     (if msg = U8X8_MSG_CAD_SEND_CMD \<or> msg = U8X8_MSG_CAD_SEND_ARG then
        returning 1 (do {
          u \<leftarrow> uc16xx_address byte (uc16xx_is_data u \<noteq> 0) 0 u;
          u \<leftarrow> void (u8x8_byte_SendByte byte arg_int u);
          Some (u\<lparr>uc16xx_in_transfer := 1\<rparr>) })
      else if msg = U8X8_MSG_CAD_SEND_DATA then
        returning 1 (do {
          u \<leftarrow> uc16xx_address byte (uc16xx_is_data u = 0) 2 u;
          let u = u\<lparr>uc16xx_in_transfer := 1\<rparr>;
          by_24
            (\<lambda>p u. do {
               u \<leftarrow> void (byte U8X8_MSG_CAD_SEND_DATA 24 p u);
               u \<leftarrow> void (u8x8_byte_EndTransfer byte u);
               void (u8x8_byte_StartTransfer byte u) })
            (\<lambda>n p u. void (byte U8X8_MSG_CAD_SEND_DATA n p u)) arg_int arg_ptr u })
      else if msg = U8X8_MSG_CAD_INIT then byte msg arg_int arg_ptr (default_address 0x70 u)
      else if msg = U8X8_MSG_CAD_START_TRANSFER then Some (1, u\<lparr>uc16xx_in_transfer := 0\<rparr>)
      else if msg = U8X8_MSG_CAD_END_TRANSFER then
        returning 1 (do {
          u \<leftarrow> doif (uc16xx_in_transfer u \<noteq> 0) (\<lambda>u. void (u8x8_byte_EndTransfer byte u)) u;
          Some (u\<lparr>uc16xx_in_transfer := 0\<rparr>) })
      else Some (0, u))"

section \<open>On a bus that keeps its contract\<close>

lemma void_calls [simp]:
  "void (u8x8_byte_StartTransfer byte u) = call byte U8X8_MSG_BYTE_START_TRANSFER 0 [] u"
  "void (u8x8_byte_EndTransfer byte u) = call byte U8X8_MSG_BYTE_END_TRANSFER 0 [] u"
  "void (u8x8_byte_SendByte byte b u) = call byte U8X8_MSG_BYTE_SEND 1 [b] u"
  by (simp_all add: void_def call_def u8x8_byte_StartTransfer_def u8x8_byte_EndTransfer_def
      u8x8_byte_SendByte_def u8x8_byte_SendBytes_def)

lemma void_call [simp]: "void (byte msg n p u) = call byte msg n p u"
  by (simp add: void_def call_def)

lemma void_returning [simp]: "void (returning r x) = x"
  by (simp add: void_def)

text \<open>The pieces of a long transfer.\<close>

fun pieces :: "u8 list \<Rightarrow> u8 list list" where
  "pieces bs = (if length bs > 24 then take 24 bs # pieces (drop 24 bs) else [bs])"

declare pieces.simps [simp del]

lemma pieces_more: "length bs > 24 \<Longrightarrow> pieces bs = take 24 bs # pieces (drop 24 bs)"
  and pieces_rest: "\<not> length bs > 24 \<Longrightarrow> pieces bs = [bs]"
  by (subst pieces.simps, simp)+

lemma concat_pieces: "concat (pieces bs) = bs"
proof (induction bs rule: pieces.induct)
  case (1 bs)
  show ?case
  proof (cases "length bs > 24")
    case True
    show ?thesis using 1 True unfolding pieces_more [OF True] by simp
  next
    case False
    show ?thesis unfolding pieces_rest [OF False] by simp
  qed
qed

lemma pieces_length: "c \<in> set (pieces bs) \<Longrightarrow> length c \<le> 24"
proof (induction bs rule: pieces.induct)
  case (1 bs)
  show ?case
  proof (cases "length bs > 24")
    case True
    show ?thesis using 1 True unfolding pieces_more [OF True] by auto
  next
    case False
    show ?thesis using 1(2) False unfolding pieces_rest [OF False] by auto
  qed
qed

context i2c_bus
begin

lemma puts_two: "puts wire a idle
    (\<lambda>u. do {
       u \<leftarrow> void (u8x8_byte_StartTransfer byte u);
       u \<leftarrow> void (u8x8_byte_SendByte byte c u);
       u \<leftarrow> void (u8x8_byte_SendByte byte b u);
       void (u8x8_byte_EndTransfer byte u) }) (frame a [c, b]) idle"
  using puts_bind [OF puts_start puts_bind [OF puts_byte puts_bind [OF puts_byte puts_stop]]]
  by (simp add: frame_def)

lemma puts_data_transfer: "unat n \<le> length bs \<Longrightarrow>
    puts wire a idle (u8x8_i2c_data_transfer byte n bs) (frame a (0x40 # take (unat n) bs)) idle"
  using puts_bind [OF puts_start puts_bind [OF puts_byte [of _ "0x40"] puts_bind [OF puts_send puts_stop]]]
  by (simp add: frame_def u8x8_i2c_data_transfer_def [abs_def])

lemma puts_data: "unat n \<le> length bs \<Longrightarrow>
    puts wire a idle (by_24 (u8x8_i2c_data_transfer byte 24) (u8x8_i2c_data_transfer byte) n bs)
      (concat (map (\<lambda>c. frame a (0x40 # c)) (pieces (take (unat n) bs)))) idle"
proof (induction "unat n" arbitrary: n bs rule: less_induct)
  case less
  show ?case
  proof (cases "n > 24")
    case True
    then have n: "unat (n - 24) = unat n - 24" "24 < unat n"
      by (simp_all add: unat_sub word_le_nat_alt word_less_nat_alt)
    then have "puts wire a idle (by_24 (u8x8_i2c_data_transfer byte 24) (u8x8_i2c_data_transfer byte) (n - 24)
        (drop 24 bs)) (concat (map (\<lambda>c. frame a (0x40 # c)) (pieces (take (unat n - 24) (drop 24 bs))))) idle"
      using less.hyps [of "n - 24" "drop 24 bs"] less.prems by simp
    from puts_bind [OF puts_data_transfer [of 24 bs a] this]
    have "puts wire a idle (\<lambda>u. Option.bind (u8x8_i2c_data_transfer byte 24 bs u)
        (by_24 (u8x8_i2c_data_transfer byte 24) (u8x8_i2c_data_transfer byte) (n - 24) (drop 24 bs)))
        (frame a (0x40 # take 24 bs) @
         concat (map (\<lambda>c. frame a (0x40 # c)) (pieces (take (unat n - 24) (drop 24 bs))))) idle"
      using n less.prems by simp
    moreover have "pieces (take (unat n) bs) = take 24 bs # pieces (take (unat n - 24) (drop 24 bs))"
      using n less.prems pieces_more [of "take (unat n) bs"] by (simp add: drop_take min_def)
    ultimately show ?thesis unfolding by_24_more [OF True] by simp
  next
    case False
    then have "unat n \<le> 24" by (simp add: word_less_nat_alt)
    then have "pieces (take (unat n) bs) = [take (unat n) bs]"
      using less.prems pieces_rest [of "take (unat n) bs"] by simp
    then show ?thesis unfolding by_24_rest [OF False] using puts_data_transfer [OF less.prems] by simp
  qed
qed

end

section \<open>Messages and what a controller receives\<close>

type_synonym cad_msg = "u8 \<times> u8 \<times> u8 list"

definition cad_run :: "'s msg_cb \<Rightarrow> cad_msg list \<Rightarrow> 's \<Rightarrow> 's option" where
  "cad_run cad = foldo (\<lambda>u (msg, n, p). call cad msg n p u)"

text \<open>The bytes a message carries, and the control byte that announces them.\<close>

definition msg_payload :: "cad_msg \<Rightarrow> u8 list" where
  "msg_payload m = (case m of (msg, n, p) \<Rightarrow>
     if msg = U8X8_MSG_CAD_SEND_CMD \<or> msg = U8X8_MSG_CAD_SEND_ARG then [n]
     else if msg = U8X8_MSG_CAD_SEND_DATA then take (unat n) p else [])"

definition msg_control :: "cad_msg \<Rightarrow> u8" where
  "msg_control m = (if fst m = U8X8_MSG_CAD_SEND_DATA then 0x40 else 0)"

text \<open>The messages between \<open>StartTransfer\<close> and \<open>EndTransfer\<close>: an argument follows a command or an
  argument.\<close>

datatype cad_phase = Closed | Open | In_Command

definition cad_step :: "cad_phase \<Rightarrow> cad_msg \<Rightarrow> cad_phase option" where
  "cad_step ph m = (case m of (msg, n, p) \<Rightarrow>
     if msg = U8X8_MSG_CAD_START_TRANSFER then (if ph = Closed then Some Open else None)
     else if ph = Closed then None
     else if msg = U8X8_MSG_CAD_SEND_CMD then Some In_Command
     else if msg = U8X8_MSG_CAD_SEND_ARG then (if ph = In_Command then Some In_Command else None)
     else if msg = U8X8_MSG_CAD_SEND_DATA then (if unat n \<le> length p then Some Open else None)
     else if msg = U8X8_MSG_CAD_END_TRANSFER then Some Closed
     else None)"

definition cad_protocol :: "cad_msg list \<Rightarrow> bool" where
  "cad_protocol ms \<longleftrightarrow> foldo cad_step ms Closed = Some Closed"

text \<open>An SSD13xx on the bus: in each transaction the address and a control byte, then bytes. It
  records each byte with its address and control byte.\<close>

datatype receiver = Rx_Idle | Rx_Address | Rx_Control u8 | Rx_Bytes u8 u8

type_synonym reception = "receiver \<times> (u8 \<times> u8 \<times> u8) list"

fun rx_step :: "reception \<Rightarrow> wire_event \<Rightarrow> reception" where
  "rx_step (st, out) Start_Condition = (Rx_Address, out)"
| "rx_step (st, out) Stop_Condition = (Rx_Idle, out)"
| "rx_step (Rx_Idle, out) (Wire_Byte b) = (Rx_Idle, out)"
| "rx_step (Rx_Address, out) (Wire_Byte b) = (Rx_Control b, out)"
| "rx_step (Rx_Control a, out) (Wire_Byte b) = (Rx_Bytes a b, out)"
| "rx_step (Rx_Bytes a c, out) (Wire_Byte b) = (Rx_Bytes a c, out @ [(a, c, b)])"

definition received :: "wire_event list \<Rightarrow> reception" where
  "received es = foldl rx_step (Rx_Idle, []) es"

lemma received_append: "received (es @ fs) = foldl rx_step (received es) fs"
  by (simp add: received_def)

lemma rx_bytes: "foldl rx_step (Rx_Bytes a c, out) (map Wire_Byte bs) =
    (Rx_Bytes a c, out @ map (\<lambda>b. (a, c, b)) bs)"
  by (induction bs arbitrary: out) simp_all

lemma rx_frame: "foldl rx_step (st, out) (frame a (c # bs)) = (Rx_Idle, out @ map (\<lambda>b. (a, c, b)) bs)"
  by (simp add: frame_def rx_bytes)

lemma rx_frames: "foldl rx_step (Rx_Idle, out) (concat (map (\<lambda>f. frame a (c # f)) fs)) =
    (Rx_Idle, out @ map (\<lambda>b. (a, c, b)) (concat fs))"
  by (induction fs arbitrary: out) (simp_all add: rx_frame)

section \<open>The SSD13xx procedure\<close>

definition ssd13xx_frames :: "cad_msg \<Rightarrow> u8 list list" where
  "ssd13xx_frames m = (case m of (msg, n, p) \<Rightarrow>
     if msg = U8X8_MSG_CAD_SEND_CMD \<or> msg = U8X8_MSG_CAD_SEND_ARG then [[n]]
     else if msg = U8X8_MSG_CAD_SEND_DATA then pieces (take (unat n) p) else [])"

lemma ssd13xx_frames:
  "concat (ssd13xx_frames m) = msg_payload m" "f \<in> set (ssd13xx_frames m) \<Longrightarrow> length f \<le> 24"
  by (auto simp: ssd13xx_frames_def msg_payload_def concat_pieces pieces_length split: prod.splits if_splits)

text \<open>The messages a cad procedure takes, with enough bytes behind the pointer.\<close>

definition cad_message :: "cad_msg \<Rightarrow> bool" where
  "cad_message m = (case m of (msg, n, p) \<Rightarrow>
     msg = U8X8_MSG_CAD_SEND_CMD \<or> msg = U8X8_MSG_CAD_SEND_ARG \<or>
     msg = U8X8_MSG_CAD_SEND_DATA \<and> unat n \<le> length p \<or>
     msg = U8X8_MSG_CAD_START_TRANSFER \<or> msg = U8X8_MSG_CAD_END_TRANSFER)"

lemma cad_step_message: "cad_step ph m = Some ph' \<Longrightarrow> cad_message m"
  by (auto simp: cad_step_def cad_message_def split: prod.splits if_splits)

lemma protocol_messages: "foldo cad_step ms ph = Some ph' \<Longrightarrow> list_all cad_message ms"
  by (induction ms arbitrary: ph) (auto simp: bind_Some_iff dest: cad_step_message)

context i2c_bus
begin

lemma puts_none: "puts wire a idle Some [] idle"
  by (simp add: puts_def)

lemma puts_ssd13xx:
  assumes "cad_message (msg, n, p)"
  shows "puts wire a idle (call (u8x8_cad_ssd13xx_i2c byte) msg n p)
    (concat (map (\<lambda>f. frame a (msg_control (msg, n, p) # f)) (ssd13xx_frames (msg, n, p)))) idle"
proof -
  consider "msg = U8X8_MSG_CAD_SEND_CMD \<or> msg = U8X8_MSG_CAD_SEND_ARG"
    | "msg = U8X8_MSG_CAD_SEND_DATA" "unat n \<le> length p"
    | "msg = U8X8_MSG_CAD_START_TRANSFER \<or> msg = U8X8_MSG_CAD_END_TRANSFER"
    using assms by (auto simp: cad_message_def)
  then show ?thesis
  proof cases
    case 1
    then have "call (u8x8_cad_ssd13xx_i2c byte) msg n p = (\<lambda>u. do {
        u \<leftarrow> void (u8x8_byte_StartTransfer byte u);
        u \<leftarrow> void (u8x8_byte_SendByte byte 0 u);
        u \<leftarrow> void (u8x8_byte_SendByte byte n u);
        void (u8x8_byte_EndTransfer byte u) })"
      by (auto simp: call_def u8x8_cad_ssd13xx_i2c_def fun_eq_iff)
    with 1 puts_two show ?thesis by (auto simp: ssd13xx_frames_def msg_control_def)
  next
    case 2
    then have "call (u8x8_cad_ssd13xx_i2c byte) msg n p =
        by_24 (u8x8_i2c_data_transfer byte 24) (u8x8_i2c_data_transfer byte) n p"
      by (simp add: call_def u8x8_cad_ssd13xx_i2c_def fun_eq_iff)
    with 2 puts_data show ?thesis by (simp add: ssd13xx_frames_def msg_control_def)
  next
    case 3
    then have "call (u8x8_cad_ssd13xx_i2c byte) msg n p = Some"
      by (auto simp: call_def u8x8_cad_ssd13xx_i2c_def fun_eq_iff)
    with 3 puts_none show ?thesis by (auto simp: ssd13xx_frames_def msg_control_def)
  qed
qed

end

section \<open>The fast procedure\<close>

definition stream :: "u8 \<Rightarrow> cad_msg \<Rightarrow> (u8 \<times> u8 \<times> u8) list" where
  "stream a m = map (\<lambda>b. (a, msg_control m, b)) (msg_payload m)"

text \<open>Between the messages: no transaction is open, or one with a command.\<close>

definition fast_state ::
    "('a u8x8_scheme \<Rightarrow> wire_event list) \<Rightarrow> ('a u8x8_scheme \<Rightarrow> bool) \<Rightarrow> ('a u8x8_scheme \<Rightarrow> bool) \<Rightarrow>
     u8 \<Rightarrow> cad_phase \<Rightarrow> (u8 \<times> u8 \<times> u8) list \<Rightarrow> 'a u8x8_scheme \<Rightarrow> bool" where
  "fast_state wire idle busy a ph out u \<longleftrightarrow> i2c_address u = a \<and>
     (case ph of
        Closed \<Rightarrow> idle u \<and> received (wire u) = (Rx_Idle, out)
      | Open \<Rightarrow> idle u \<and> ssd13xx_in_transfer u = 0 \<and> received (wire u) = (Rx_Idle, out)
      | In_Command \<Rightarrow> busy u \<and> ssd13xx_in_transfer u \<noteq> 0 \<and> received (wire u) = (Rx_Bytes a 0, out))"

context i2c_bus
begin

lemma ssd13xx_receives:
  assumes "cad_message m" and "idle u" and "received (wire u) = (Rx_Idle, out)"
  shows "\<exists>u'. call (u8x8_cad_ssd13xx_i2c byte) (fst m) (fst (snd m)) (snd (snd m)) u = Some u' \<and> idle u' \<and>
    bus_only u u' \<and> received (wire u') = (Rx_Idle, out @ stream (i2c_address u) m)"
proof -
  obtain msg n p where m: "m = (msg, n, p)" by (cases m)
  let ?fs = "concat (map (\<lambda>f. frame (i2c_address u) (msg_control m # f)) (ssd13xx_frames m))"
  obtain u' where u': "call (u8x8_cad_ssd13xx_i2c byte) msg n p u = Some u'" "wire u' = wire u @ ?fs"
      "idle u'" "bus_only u u'"
    using assms(1,2) unfolding m by (rule putsD [OF puts_ssd13xx]) simp
  have "received (wire u') = (Rx_Idle, out @ stream (i2c_address u) m)"
    by (simp add: u'(2) received_append assms(3) rx_frames ssd13xx_frames stream_def)
  with u' m show ?thesis by auto
qed

lemma ssd13xx_run:
  assumes "list_all cad_message ms" and "idle u" and "received (wire u) = (Rx_Idle, out)"
  shows "\<exists>u'. cad_run (u8x8_cad_ssd13xx_i2c byte) ms u = Some u' \<and> idle u' \<and> bus_only u u' \<and>
    received (wire u') = (Rx_Idle, out @ concat (map (stream (i2c_address u)) ms))"
  using assms
proof (induction ms arbitrary: u out)
  case Nil
  then show ?case by (auto simp: cad_run_def intro: bus_only_refl)
next
  case (Cons m ms)
  obtain v where v: "call (u8x8_cad_ssd13xx_i2c byte) (fst m) (fst (snd m)) (snd (snd m)) u = Some v" "idle v"
      "bus_only u v" "received (wire v) = (Rx_Idle, out @ stream (i2c_address u) m)"
    using ssd13xx_receives [of m u out] Cons.prems by auto
  obtain w where "cad_run (u8x8_cad_ssd13xx_i2c byte) ms v = Some w" "idle w" "bus_only v w"
      "received (wire w) = (Rx_Idle, (out @ stream (i2c_address u) m) @ concat (map (stream (i2c_address v)) ms))"
    using Cons.IH [OF _ v(2,4)] Cons.prems by auto
  with v bus_onlyD [OF v(3)] show ?case
    by (auto simp: cad_run_def case_prod_beta intro: bus_only_trans)
qed

text \<open>Setting the procedure's static variable does not touch the bus.\<close>

lemma static_framed:
  "wire (u\<lparr>ssd13xx_in_transfer := x\<rparr>) = wire u" "idle (u\<lparr>ssd13xx_in_transfer := x\<rparr>) = idle u"
  "busy (u\<lparr>ssd13xx_in_transfer := x\<rparr>) = busy u"
  using framed [of u "u\<lparr>ssd13xx_in_transfer := x\<rparr>"] by (simp_all add: bus_eq_def)

text \<open>Ending the transaction that is open, if one is.\<close>

lemma fast_close:
  assumes "fast_state wire idle busy a ph out u" and "ph \<noteq> Closed"
  shows "\<exists>v. doif (ssd13xx_in_transfer u \<noteq> 0) (\<lambda>u. void (u8x8_byte_EndTransfer byte u)) u = Some v \<and>
    idle v \<and> i2c_address v = a \<and> received (wire v) = (Rx_Idle, out)"
proof (cases ph)
  case Open
  with assms show ?thesis by (simp add: fast_state_def doif_def)
next
  case In_Command
  with assms have u: "busy u" "i2c_address u = a" "ssd13xx_in_transfer u \<noteq> 0"
      "received (wire u) = (Rx_Bytes a 0, out)" by (simp_all add: fast_state_def)
  obtain v where v: "call byte U8X8_MSG_BYTE_END_TRANSFER 0 [] u = Some v" "wire v = wire u @ [Stop_Condition]"
      "idle v" "bus_only u v"
    using putsD [OF puts_stop u(1,2)] by blast
  with u bus_onlyD [OF v(4)] show ?thesis by (simp add: doif_def received_append)
qed (use assms in simp)

lemma fast_cmd:
  assumes "fast_state wire idle busy a ph out u" and "ph \<noteq> Closed"
  shows "\<exists>u'. call (u8x8_cad_ssd13xx_fast_i2c byte) U8X8_MSG_CAD_SEND_CMD n p u = Some u' \<and>
    fast_state wire idle busy a In_Command (out @ [(a, 0, n)]) u'"
proof -
  obtain v where v: "doif (ssd13xx_in_transfer u \<noteq> 0) (\<lambda>u. void (u8x8_byte_EndTransfer byte u)) u = Some v"
      "idle v" "i2c_address v = a" "received (wire v) = (Rx_Idle, out)"
    using fast_close [OF assms] by blast
  have "puts wire a idle (\<lambda>u. do {
      u \<leftarrow> void (u8x8_byte_StartTransfer byte u);
      u \<leftarrow> void (u8x8_byte_SendByte byte 0 u);
      void (u8x8_byte_SendByte byte n u) }) [Start_Condition, Wire_Byte a, Wire_Byte 0, Wire_Byte n] busy"
    using puts_bind [OF puts_start puts_bind [OF puts_byte [of _ 0] puts_byte]] by simp
  from putsD [OF this v(2,3)] obtain w where w:
    "do { u \<leftarrow> void (u8x8_byte_StartTransfer byte v);
          u \<leftarrow> void (u8x8_byte_SendByte byte 0 u);
          void (u8x8_byte_SendByte byte n u) } = Some w"
    "wire w = wire v @ [Start_Condition, Wire_Byte a, Wire_Byte 0, Wire_Byte n]" "busy w" "bus_only v w" .
  have "call (u8x8_cad_ssd13xx_fast_i2c byte) U8X8_MSG_CAD_SEND_CMD n p u = Some (w\<lparr>ssd13xx_in_transfer := 1\<rparr>)"
    using v(1) w(1) by (auto simp: call_def u8x8_cad_ssd13xx_fast_i2c_def bind_Some_iff)
  moreover have "fast_state wire idle busy a In_Command (out @ [(a, 0, n)]) (w\<lparr>ssd13xx_in_transfer := 1\<rparr>)"
    using v(3,4) w(2,3) bus_onlyD [OF w(4)] by (simp add: fast_state_def static_framed received_append)
  ultimately show ?thesis by blast
qed

lemma fast_arg:
  assumes "fast_state wire idle busy a In_Command out u"
  shows "\<exists>u'. call (u8x8_cad_ssd13xx_fast_i2c byte) U8X8_MSG_CAD_SEND_ARG n p u = Some u' \<and>
    fast_state wire idle busy a In_Command (out @ [(a, 0, n)]) u'"
proof -
  have u: "busy u" "i2c_address u = a" "ssd13xx_in_transfer u \<noteq> 0" "received (wire u) = (Rx_Bytes a 0, out)"
    using assms by (simp_all add: fast_state_def)
  from putsD [OF puts_byte u(1,2)] obtain v where
    v: "call byte U8X8_MSG_BYTE_SEND 1 [n] u = Some v" "wire v = wire u @ [Wire_Byte n]" "busy v" "bus_only u v" .
  have "call (u8x8_cad_ssd13xx_fast_i2c byte) U8X8_MSG_CAD_SEND_ARG n p u = Some v"
    using v(1) by (simp add: call_def [of "u8x8_cad_ssd13xx_fast_i2c byte"] u8x8_cad_ssd13xx_fast_i2c_def)
  moreover have "fast_state wire idle busy a In_Command (out @ [(a, 0, n)]) v"
    using u v bus_onlyD [OF v(4)] by (simp add: fast_state_def received_append)
  ultimately show ?thesis by blast
qed

lemma fast_data:
  assumes "fast_state wire idle busy a ph out u" and "ph \<noteq> Closed" and "unat n \<le> length p"
  shows "\<exists>u'. call (u8x8_cad_ssd13xx_fast_i2c byte) U8X8_MSG_CAD_SEND_DATA n p u = Some u' \<and>
    fast_state wire idle busy a Open (out @ map (\<lambda>b. (a, 0x40, b)) (take (unat n) p)) u'"
proof -
  obtain v where v: "doif (ssd13xx_in_transfer u \<noteq> 0) (\<lambda>u. void (u8x8_byte_EndTransfer byte u)) u = Some v"
      "idle v" "i2c_address v = a" "received (wire v) = (Rx_Idle, out)"
    using fast_close [OF assms(1,2)] by blast
  from putsD [OF puts_data [OF assms(3)] v(2,3)] obtain w where w:
    "by_24 (u8x8_i2c_data_transfer byte 24) (u8x8_i2c_data_transfer byte) n p v = Some w"
    "wire w = wire v @ concat (map (\<lambda>c. frame a (0x40 # c)) (pieces (take (unat n) p)))" "idle w" "bus_only v w" .
  have "call (u8x8_cad_ssd13xx_fast_i2c byte) U8X8_MSG_CAD_SEND_DATA n p u = Some (w\<lparr>ssd13xx_in_transfer := 0\<rparr>)"
    using v(1) w(1) by (auto simp: call_def u8x8_cad_ssd13xx_fast_i2c_def bind_Some_iff)
  moreover have "fast_state wire idle busy a Open (out @ map (\<lambda>b. (a, 0x40, b)) (take (unat n) p))
      (w\<lparr>ssd13xx_in_transfer := 0\<rparr>)"
    using v(3,4) w(2,3) bus_onlyD [OF w(4)]
    by (simp add: fast_state_def static_framed received_append rx_frames concat_pieces)
  ultimately show ?thesis by blast
qed

lemma fast_step:
  assumes "fast_state wire idle busy a ph out u" and "cad_step ph (msg, n, p) = Some ph'"
  shows "\<exists>u'. call (u8x8_cad_ssd13xx_fast_i2c byte) msg n p u = Some u' \<and>
    fast_state wire idle busy a ph' (out @ stream a (msg, n, p)) u'"
proof -
  consider (start) "msg = U8X8_MSG_CAD_START_TRANSFER" "ph = Closed" "ph' = Open"
    | (cmd) "msg = U8X8_MSG_CAD_SEND_CMD" "ph \<noteq> Closed" "ph' = In_Command"
    | (arg) "msg = U8X8_MSG_CAD_SEND_ARG" "ph = In_Command" "ph' = In_Command"
    | (data) "msg = U8X8_MSG_CAD_SEND_DATA" "ph \<noteq> Closed" "unat n \<le> length p" "ph' = Open"
    | (stop) "msg = U8X8_MSG_CAD_END_TRANSFER" "ph \<noteq> Closed" "ph' = Closed"
    using assms(2) by (auto simp: cad_step_def split: if_splits)
  then show ?thesis
  proof cases
    case start
    with assms(1) show ?thesis
      by (simp add: call_def u8x8_cad_ssd13xx_fast_i2c_def fast_state_def static_framed stream_def msg_payload_def)
  next
    case cmd
    with fast_cmd [OF assms(1)] show ?thesis by (simp add: stream_def msg_payload_def msg_control_def)
  next
    case arg
    with fast_arg assms(1) show ?thesis by (simp add: stream_def msg_payload_def msg_control_def)
  next
    case data
    with fast_data [OF assms(1)] show ?thesis by (simp add: stream_def msg_payload_def msg_control_def)
  next
    case stop
    obtain v where v: "doif (ssd13xx_in_transfer u \<noteq> 0) (\<lambda>u. void (u8x8_byte_EndTransfer byte u)) u = Some v"
        "idle v" "i2c_address v = a" "received (wire v) = (Rx_Idle, out)"
      using fast_close [OF assms(1) stop(2)] by blast
    with stop show ?thesis
      by (simp add: call_def [of "u8x8_cad_ssd13xx_fast_i2c byte"] u8x8_cad_ssd13xx_fast_i2c_def
        fast_state_def static_framed stream_def msg_payload_def)
  qed
qed

lemma fast_run:
  assumes "fast_state wire idle busy a ph out u" and "foldo cad_step ms ph = Some ph'"
  shows "\<exists>u'. cad_run (u8x8_cad_ssd13xx_fast_i2c byte) ms u = Some u' \<and>
    fast_state wire idle busy a ph' (out @ concat (map (stream a) ms)) u'"
  using assms
proof (induction ms arbitrary: u out ph)
  case (Cons m ms)
  obtain msg n p where m: "m = (msg, n, p)" by (cases m)
  obtain ph1 where ph1: "cad_step ph (msg, n, p) = Some ph1" "foldo cad_step ms ph1 = Some ph'"
    using Cons.prems(2) m by (auto simp: bind_Some_iff)
  obtain v where v: "call (u8x8_cad_ssd13xx_fast_i2c byte) msg n p u = Some v"
      "fast_state wire idle busy a ph1 (out @ stream a (msg, n, p)) v"
    using fast_step [OF Cons.prems(1) ph1(1)] by blast
  from Cons.IH [OF v(2) ph1(2)] v(1) show ?case by (simp add: cad_run_def m)
qed (simp add: cad_run_def)

end

section \<open>Properties\<close>

text \<open>C16: on the firmware's bus each message to the SSD13xx/SH1106 becomes transactions of at most 24
  bytes behind the control byte, which together carry exactly the bytes of the message in order;
  the start and end of a transfer put nothing on the bus.\<close>

theorem ssd13xx_messages:
  fixes u :: "'a u8x8_scheme"
  assumes "cad_message (msg, n, p)" and "hal_idle esp u"
  shows "\<exists>u' fs. call (u8x8_cad_ssd13xx_i2c (u8g2_esp32_i2c_byte_cb esp)) msg n p u = Some u' \<and> hal_idle esp u' \<and>
    hal_wire u' = hal_wire u @ concat (map (\<lambda>f. frame (i2c_address u) (msg_control (msg, n, p) # f)) fs) \<and>
    concat fs = msg_payload (msg, n, p) \<and> (\<forall>f \<in> set fs. length f \<le> 24)"
proof -
  obtain u' where "call (u8x8_cad_ssd13xx_i2c (u8g2_esp32_i2c_byte_cb esp)) msg n p u = Some u'"
    "hal_wire u' = hal_wire u @
       concat (map (\<lambda>f. frame (i2c_address u) (msg_control (msg, n, p) # f)) (ssd13xx_frames (msg, n, p)))"
    "hal_idle esp u'"
    using putsD [OF esp32.puts_ssd13xx [OF assms(1)] assms(2) refl] by blast
  then show ?thesis using ssd13xx_frames by blast
qed

lemma zero_idle: "hal_idle (\<lambda>_ _. 0) (u8g2_zero\<lparr>i2c_address := a\<rparr>)" "hal_wire (u8g2_zero\<lparr>i2c_address := a\<rparr>) = []"
  by (simp_all add: hal_idle_def hal_wire_def esp_ok_def i2c_driver_def u8g2_zero_def)

theorem ssd13xx_messages_witness:
  "\<exists>u' fs. call (u8x8_cad_ssd13xx_i2c (u8g2_esp32_i2c_byte_cb (\<lambda>_ _. 0))) U8X8_MSG_CAD_SEND_DATA 128
      (replicate 128 0xAA) (u8g2_zero\<lparr>i2c_address := 0x78\<rparr>) = Some u' \<and>
    hal_wire u' = concat (map (\<lambda>f. frame 0x78 (0x40 # f)) fs) \<and> concat fs = replicate 128 0xAA"
  using ssd13xx_messages [OF _ zero_idle(1) [of "0x78"], of U8X8_MSG_CAD_SEND_DATA 128 "replicate 128 0xAA"]
  by (auto simp: zero_idle(2) cad_message_def msg_payload_def msg_control_def)

text \<open>C15: the fast procedure is equivalent to the classic one: for every sequence of messages that
  keeps the protocol (within a transfer, an argument after a command or an argument) the
  controller receives the same command and data bytes, although the fast procedure keeps a
  transaction open between a command and its arguments.\<close>

theorem fast_equals_classic:
  fixes u :: "'a u8x8_scheme"
  assumes "cad_protocol ms" and "hal_idle esp u" and "fst (received (hal_wire u)) = Rx_Idle"
  shows "\<exists>v w. cad_run (u8x8_cad_ssd13xx_i2c (u8g2_esp32_i2c_byte_cb esp)) ms u = Some v \<and>
    cad_run (u8x8_cad_ssd13xx_fast_i2c (u8g2_esp32_i2c_byte_cb esp)) ms u = Some w \<and>
    hal_idle esp v \<and> hal_idle esp w \<and> received (hal_wire v) = received (hal_wire w) \<and>
    snd (received (hal_wire w)) = snd (received (hal_wire u)) @ concat (map (stream (i2c_address u)) ms)"
proof -
  obtain out where out: "received (hal_wire u) = (Rx_Idle, out)" using assms(3) by (metis prod.collapse)
  have "list_all cad_message ms" using assms(1) unfolding cad_protocol_def by (rule protocol_messages)
  then obtain v where v: "cad_run (u8x8_cad_ssd13xx_i2c (u8g2_esp32_i2c_byte_cb esp)) ms u = Some v" "hal_idle esp v"
      "received (hal_wire v) = (Rx_Idle, out @ concat (map (stream (i2c_address u)) ms))"
    using esp32.ssd13xx_run [OF _ assms(2) out] by blast
  have "fast_state hal_wire (hal_idle esp) (hal_busy esp) (i2c_address u) Closed out u"
    using assms(2) out by (simp add: fast_state_def)
  then obtain w where w: "cad_run (u8x8_cad_ssd13xx_fast_i2c (u8g2_esp32_i2c_byte_cb esp)) ms u = Some w"
      "fast_state hal_wire (hal_idle esp) (hal_busy esp) (i2c_address u) Closed
        (out @ concat (map (stream (i2c_address u)) ms)) w"
    using esp32.fast_run assms(1) unfolding cad_protocol_def by blast
  then show ?thesis using v out by (auto simp: fast_state_def)
qed

theorem fast_equals_classic_witness:
  "\<exists>v w. cad_run (u8x8_cad_ssd13xx_i2c (u8g2_esp32_i2c_byte_cb (\<lambda>_ _. 0)))
      [(24, 0, []), (21, 0x81, []), (22, 0xFF, []), (23, 2, [1, 2]), (25, 0, [])] (u8g2_zero\<lparr>i2c_address := 0x78\<rparr>) = Some v \<and>
    cad_run (u8x8_cad_ssd13xx_fast_i2c (u8g2_esp32_i2c_byte_cb (\<lambda>_ _. 0)))
      [(24, 0, []), (21, 0x81, []), (22, 0xFF, []), (23, 2, [1, 2]), (25, 0, [])] (u8g2_zero\<lparr>i2c_address := 0x78\<rparr>) = Some w \<and>
    snd (received (hal_wire w)) = [(0x78, 0, 0x81), (0x78, 0, 0xFF), (0x78, 0x40, 1), (0x78, 0x40, 2)] \<and>
    received (hal_wire v) = received (hal_wire w)"
proof -
  have "cad_protocol [(24, 0, []), (21, 0x81, []), (22, 0xFF, []), (23, 2, [1, 2]), (25, 0, [])]"
    by (simp add: cad_protocol_def cad_step_def)
  from fast_equals_classic [OF this zero_idle(1) [of "0x78"]] show ?thesis
    by (auto simp: zero_idle(2) received_def stream_def msg_payload_def msg_control_def)
qed

text \<open>The UC16xx procedure never records that it is sending data, so a command that follows data
  within a transfer is sent on to the data address: the controller takes it for another data byte.\<close>

theorem uc16xx_command_as_data:
  fixes u :: "'a u8x8_scheme"
  assumes "hal_idle esp u" and "uc16xx_is_data u = 0"
  shows "\<exists>u'. cad_run (u8x8_cad_uc16xx_i2c (u8g2_esp32_i2c_byte_cb esp))
      [(U8X8_MSG_CAD_START_TRANSFER, 0, []), (U8X8_MSG_CAD_SEND_DATA, 1, [d]), (U8X8_MSG_CAD_SEND_CMD, c, []),
       (U8X8_MSG_CAD_END_TRANSFER, 0, [])] u = Some u' \<and>
    hal_wire u' = hal_wire u @ frame ((i2c_address u AND 0xfc) OR 2) [d, c] \<and> uc16xx_is_data u' = 0"
proof -
  have ok: "esp_ok esp" and q: "queued (i2c_driver (io u)) = []" using assms(1) by (simp_all add: hal_idle_def)
  show ?thesis using q assms(2)
    by (simp add: cad_run_def call_def u8x8_cad_uc16xx_i2c_def uc16xx_address_def u8g2_esp32_i2c_byte_cb_def
      by_24_rest ESP_ERROR_CHECK_ok [OF ok] doif_def hal_wire_def i2c_driver_append frame_def emit_def)
qed

theorem uc16xx_command_as_data_witness:
  "\<exists>u'. cad_run (u8x8_cad_uc16xx_i2c (u8g2_esp32_i2c_byte_cb (\<lambda>_ _. 0)))
      [(24, 0, []), (23, 1, [0x55]), (21, 0xAF, []), (25, 0, [])] (u8g2_zero\<lparr>i2c_address := 0x70\<rparr>) = Some u' \<and>
    hal_wire u' = [Start_Condition, Wire_Byte 0x72, Wire_Byte 0x55, Wire_Byte 0xAF, Stop_Condition]"
proof -
  have "uc16xx_is_data (u8g2_zero\<lparr>i2c_address := 0x70\<rparr>) = 0" by (simp add: u8g2_zero_def)
  from uc16xx_command_as_data [OF zero_idle(1) this, of "0x55" "0xAF"] show ?thesis
    by (auto simp: zero_idle(2) frame_def)
qed

end
