(* ===== verification/U8x8_Display.thy ===== *)
theory U8x8_Display
  imports U8x8_Cad
begin

text \<open>
  libs/u8g2/csrc/u8x8_display.c, u8x8_setup.c and u8x8_d_ssd1306_128x64_noname.c: the display
  procedures. A display procedure takes a message for the whole display (set up, initialise, draw a
  row of tiles, ...) and sends the commands of its controller through a cad procedure. The
  firmware's display is \<open>u8x8_d_sh1106_128x64_winstar\<close>.
\<close>

abbreviation (input) "U8X8_MSG_DISPLAY_SETUP_MEMORY \<equiv> (9 :: u8)"
abbreviation (input) "U8X8_MSG_DISPLAY_INIT \<equiv> (10 :: u8)"
abbreviation (input) "U8X8_MSG_DISPLAY_SET_POWER_SAVE \<equiv> (11 :: u8)"
abbreviation (input) "U8X8_MSG_DISPLAY_SET_FLIP_MODE \<equiv> (13 :: u8)"
abbreviation (input) "U8X8_MSG_DISPLAY_SET_CONTRAST \<equiv> (14 :: u8)"
abbreviation (input) "U8X8_MSG_DISPLAY_DRAW_TILE \<equiv> (15 :: u8)"
abbreviation (input) "U8X8_MSG_DISPLAY_REFRESH \<equiv> (16 :: u8)"

record u8x8_tile_t =
  tile_ptr :: "u8 list"
  tile_cnt :: u8
  tile_x_pos :: u8
  tile_y_pos :: u8

text \<open>A display procedure; its pointer argument is a tile, or null.\<close>

type_synonym 's display_cb = "u8 \<Rightarrow> u8 \<Rightarrow> u8x8_tile_t option \<Rightarrow> 's \<Rightarrow> (u8 \<times> 's) option"

section \<open>Display operations\<close>

definition u8x8_d_helper_display_init ::
    "'a u8x8_scheme msg_cb \<Rightarrow> 'a u8x8_scheme msg_cb \<Rightarrow> 'a u8x8_scheme \<Rightarrow> 'a u8x8_scheme option" where
  "u8x8_d_helper_display_init cad gpio u = do {
     u \<leftarrow> call gpio U8X8_MSG_GPIO_AND_DELAY_INIT 0 [] u;
     u \<leftarrow> call cad U8X8_MSG_CAD_INIT 0 [] u;
     u \<leftarrow> u8x8_gpio_SetReset gpio 1 u;
     u \<leftarrow> u8x8_gpio_Delay gpio U8X8_MSG_DELAY_MILLI (reset_pulse_width_ms (display_info u)) u;
     u \<leftarrow> u8x8_gpio_SetReset gpio 0 u;
     u \<leftarrow> u8x8_gpio_Delay gpio U8X8_MSG_DELAY_MILLI (reset_pulse_width_ms (display_info u)) u;
     u \<leftarrow> u8x8_gpio_SetReset gpio 1 u;
     u8x8_gpio_Delay gpio U8X8_MSG_DELAY_MILLI (post_reset_wait_ms (display_info u)) u }"

definition u8x8_DrawTile ::
    "'s display_cb \<Rightarrow> u8 \<Rightarrow> u8 \<Rightarrow> u8 \<Rightarrow> u8 list \<Rightarrow> 's \<Rightarrow> (u8 \<times> 's) option" where
  "u8x8_DrawTile display x y c ptr s =
     display U8X8_MSG_DISPLAY_DRAW_TILE 1
       (Some \<lparr>tile_ptr = ptr, tile_cnt = c, tile_x_pos = x, tile_y_pos = y\<rparr>) s"

definition u8x8_SetupMemory :: "'s display_cb \<Rightarrow> 's \<Rightarrow> 's option" where
  "u8x8_SetupMemory display s = void (display U8X8_MSG_DISPLAY_SETUP_MEMORY 0 None s)"

definition u8x8_InitDisplay :: "'s display_cb \<Rightarrow> 's \<Rightarrow> 's option" where
  "u8x8_InitDisplay display s = void (display U8X8_MSG_DISPLAY_INIT 0 None s)"

definition u8x8_SetPowerSave :: "'s display_cb \<Rightarrow> u8 \<Rightarrow> 's \<Rightarrow> 's option" where
  "u8x8_SetPowerSave display is_enable s = void (display U8X8_MSG_DISPLAY_SET_POWER_SAVE is_enable None s)"

definition u8x8_SetFlipMode :: "'s display_cb \<Rightarrow> u8 \<Rightarrow> 's \<Rightarrow> 's option" where
  "u8x8_SetFlipMode display mode s = void (display U8X8_MSG_DISPLAY_SET_FLIP_MODE mode None s)"

definition u8x8_SetContrast :: "'s display_cb \<Rightarrow> u8 \<Rightarrow> 's \<Rightarrow> 's option" where
  "u8x8_SetContrast display value s = void (display U8X8_MSG_DISPLAY_SET_CONTRAST value None s)"

definition u8x8_RefreshDisplay :: "'s display_cb \<Rightarrow> 's \<Rightarrow> 's option" where
  "u8x8_RefreshDisplay display s = void (display U8X8_MSG_DISPLAY_REFRESH 0 None s)"

text \<open>The loop over the rows; \<open>h\<close> is the number of rows.\<close>

lemma unat_below:
  fixes z h :: u8
  assumes "z < h"
  shows "unat (z + 1) = unat z + 1"
proof -
  have "unat z < unat h" using assms by (simp add: word_less_nat_alt)
  then have "unat z + 1 < 256" using unat_u8_less [of h] by linarith
  then show ?thesis by (simp add: unat_word_ariths)
qed

lemma row_decreases:
  fixes y h :: u8
  assumes "y + 1 < h"
  shows "unat h - unat (y + 1 + 1) < unat h - unat (y + 1)"
  using unat_below [OF assms] assms unfolding word_less_nat_alt by linarith

function clear_rows ::
    "'a u8x8_scheme display_cb \<Rightarrow> u8 list \<Rightarrow> u8 \<Rightarrow> u8 \<Rightarrow> 'a u8x8_scheme \<Rightarrow> 'a u8x8_scheme option" where
  "clear_rows display buf y h u = do {
     u \<leftarrow> void (display U8X8_MSG_DISPLAY_DRAW_TILE (tile_width (display_info u))
            (Some \<lparr>tile_ptr = buf, tile_cnt = 1, tile_x_pos = 0, tile_y_pos = y\<rparr>) u);
     if y + 1 < h then clear_rows display buf (y + 1) h u else Some u }"
  by pat_completeness auto
termination
  by (relation "measure (\<lambda>(display, buf, y, h, u). unat h - unat (y + 1))")
    (use row_decreases in auto)

declare clear_rows.simps [simp del]

definition u8x8_ClearDisplayWithTile ::
    "'a u8x8_scheme display_cb \<Rightarrow> u8 list \<Rightarrow> 'a u8x8_scheme \<Rightarrow> 'a u8x8_scheme option" where
  "u8x8_ClearDisplayWithTile display buf u = clear_rows display buf 0 (tile_height (display_info u)) u"

definition u8x8_ClearDisplay :: "'a u8x8_scheme display_cb \<Rightarrow> 'a u8x8_scheme \<Rightarrow> 'a u8x8_scheme option" where
  "u8x8_ClearDisplay display u = u8x8_ClearDisplayWithTile display (replicate 8 0) u"

definition u8x8_FillDisplay :: "'a u8x8_scheme display_cb \<Rightarrow> 'a u8x8_scheme \<Rightarrow> 'a u8x8_scheme option" where
  "u8x8_FillDisplay display u = u8x8_ClearDisplayWithTile display (replicate 8 255) u"

definition u8x8_ClearLine :: "'a u8x8_scheme display_cb \<Rightarrow> u8 \<Rightarrow> 'a u8x8_scheme \<Rightarrow> 'a u8x8_scheme option" where
  "u8x8_ClearLine display line u =
     (if line < tile_height (display_info u)
      then void (display U8X8_MSG_DISPLAY_DRAW_TILE (tile_width (display_info u))
             (Some \<lparr>tile_ptr = replicate 8 0, tile_cnt = 1, tile_x_pos = 0, tile_y_pos = line\<rparr>) u)
      else Some u)"

section \<open>Setup\<close>

definition u8x8_dummy_cb :: "u8 \<Rightarrow> u8 \<Rightarrow> 'p \<Rightarrow> 's \<Rightarrow> (u8 \<times> 's) option" where
  "u8x8_dummy_cb msg arg_int arg_ptr s = Some (0, s)"

definition u8x8_null_display_info :: u8x8_display_info where
  "u8x8_null_display_info = \<lparr>chip_enable_level = 0, chip_disable_level = 1,
     post_chip_enable_wait_ns = 0, pre_chip_disable_wait_ns = 0, reset_pulse_width_ms = 0,
     post_reset_wait_ms = 0, sda_setup_time_ns = 0, sck_pulse_width_ns = 0, sck_clock_hz = 4000000,
     spi_mode = 0, i2c_bus_clock_100kHz = 4, data_setup_time_ns = 0, write_pulse_width_ns = 0,
     tile_width = 1, tile_height = 1, default_x_offset = 0, flipmode_x_offset = 0,
     pixel_width = 8, pixel_height = 8\<rparr>"

definition u8x8_d_null_cb ::
    "'a u8x8_scheme msg_cb \<Rightarrow> 'a u8x8_scheme msg_cb \<Rightarrow> 'a u8x8_scheme display_cb" where
  "u8x8_d_null_cb cad gpio msg arg_int arg_ptr u =
     returning 1
       (if msg = U8X8_MSG_DISPLAY_SETUP_MEMORY
        then Some (u8x8_d_helper_display_setup_memory u8x8_null_display_info u)
        else if msg = U8X8_MSG_DISPLAY_INIT then u8x8_d_helper_display_init cad gpio u
        else Some u)"

text \<open>The procedures given to \<open>u8x8_Setup\<close> stay arguments of the operations; what is left of it is
  the data of the structure.\<close>

definition u8x8_Setup :: "'a u8x8_scheme display_cb \<Rightarrow> 'a u8x8_scheme \<Rightarrow> 'a u8x8_scheme option" where
  "u8x8_Setup display u = u8x8_SetupMemory display (u8x8_SetupDefaults u)"

section \<open>The SSD1306 and SH1106 of 128 by 64 pixels\<close>

definition U8X8_C :: "u8 \<Rightarrow> u8 list" where
  "U8X8_C c0 = [U8X8_MSG_CAD_SEND_CMD, c0]"

definition U8X8_CA :: "u8 \<Rightarrow> u8 \<Rightarrow> u8 list" where
  "U8X8_CA c0 a0 = [U8X8_MSG_CAD_SEND_CMD, c0, U8X8_MSG_CAD_SEND_ARG, a0]"

abbreviation (input) "U8X8_START_TRANSFER \<equiv> [U8X8_MSG_CAD_START_TRANSFER]"
abbreviation (input) "U8X8_END_TRANSFER \<equiv> [U8X8_MSG_CAD_END_TRANSFER]"
abbreviation (input) "U8X8_END \<equiv> [0xff :: u8]"

definition u8x8_d_ssd1306_128x64_noname_init_seq :: "u8 list" where
  "u8x8_d_ssd1306_128x64_noname_init_seq =
     U8X8_START_TRANSFER @
     U8X8_C 0xae @ U8X8_CA 0xd5 0x80 @ U8X8_CA 0xa8 0x3f @ U8X8_CA 0xd3 0x00 @ U8X8_C 0x40 @
     U8X8_CA 0x8d 0x14 @ U8X8_CA 0x20 0x00 @ U8X8_C 0xa1 @ U8X8_C 0xc8 @ U8X8_CA 0xda 0x12 @
     U8X8_CA 0x81 0xcf @ U8X8_CA 0xd9 0xf1 @ U8X8_CA 0xdb 0x40 @ U8X8_C 0x2e @ U8X8_C 0xa4 @ U8X8_C 0xa6 @
     U8X8_END_TRANSFER @ U8X8_END"

definition u8x8_d_ssd1306_128x64_vcomh0_init_seq :: "u8 list" where
  "u8x8_d_ssd1306_128x64_vcomh0_init_seq =
     U8X8_START_TRANSFER @
     U8X8_C 0xae @ U8X8_CA 0xd5 0x80 @ U8X8_CA 0xa8 0x3f @ U8X8_CA 0xd3 0x00 @ U8X8_C 0x40 @
     U8X8_CA 0x8d 0x14 @ U8X8_CA 0x20 0x00 @ U8X8_C 0xa1 @ U8X8_C 0xc8 @ U8X8_CA 0xda 0x12 @
     U8X8_CA 0x81 0xef @ U8X8_CA 0xd9 0xa1 @ U8X8_CA 0xdb 0x00 @ U8X8_C 0x2e @ U8X8_C 0xa4 @ U8X8_C 0xa6 @
     U8X8_END_TRANSFER @ U8X8_END"

definition u8x8_d_ssd1306_128x64_alt0_init_seq :: "u8 list" where
  "u8x8_d_ssd1306_128x64_alt0_init_seq =
     U8X8_START_TRANSFER @
     U8X8_C 0xae @ U8X8_CA 0xd5 0x80 @ U8X8_CA 0xa8 0x3f @ U8X8_CA 0xd3 0x00 @ U8X8_C 0x40 @
     U8X8_CA 0x8d 0x14 @ U8X8_CA 0x20 0x00 @ U8X8_C 0xa1 @ U8X8_C 0xc8 @ U8X8_CA 0xda 0x02 @
     U8X8_CA 0x81 0xcf @ U8X8_CA 0xd9 0xf1 @ U8X8_CA 0xdb 0x40 @ U8X8_C 0x2e @ U8X8_C 0xa4 @ U8X8_C 0xa6 @
     U8X8_END_TRANSFER @ U8X8_END"

definition u8x8_d_sh1106_128x64_winstar_init_seq :: "u8 list" where
  "u8x8_d_sh1106_128x64_winstar_init_seq =
     U8X8_START_TRANSFER @
     U8X8_C 0xae @ U8X8_C 0xa4 @ U8X8_CA 0xd5 0x50 @ U8X8_CA 0xa8 0x3f @ U8X8_CA 0xd3 0x00 @ U8X8_C 0x40 @
     U8X8_CA 0xad 0x8b @ U8X8_CA 0xd9 0x22 @ U8X8_CA 0xdb 0x35 @ U8X8_C 0x32 @ U8X8_CA 0x81 0xff @
     U8X8_C 0xa6 @ U8X8_CA 0xda 0x12 @
     U8X8_END_TRANSFER @ U8X8_END"

definition u8x8_d_ssd1306_128x64_noname_powersave0_seq :: "u8 list" where
  "u8x8_d_ssd1306_128x64_noname_powersave0_seq = U8X8_START_TRANSFER @ U8X8_C 0xaf @ U8X8_END_TRANSFER @ U8X8_END"

definition u8x8_d_ssd1306_128x64_noname_powersave1_seq :: "u8 list" where
  "u8x8_d_ssd1306_128x64_noname_powersave1_seq = U8X8_START_TRANSFER @ U8X8_C 0xae @ U8X8_END_TRANSFER @ U8X8_END"

definition u8x8_d_ssd1306_128x64_noname_flip0_seq :: "u8 list" where
  "u8x8_d_ssd1306_128x64_noname_flip0_seq =
     U8X8_START_TRANSFER @ U8X8_C 0xa1 @ U8X8_C 0xc8 @ U8X8_END_TRANSFER @ U8X8_END"

definition u8x8_d_ssd1306_128x64_noname_flip1_seq :: "u8 list" where
  "u8x8_d_ssd1306_128x64_noname_flip1_seq =
     U8X8_START_TRANSFER @ U8X8_C 0xa0 @ U8X8_C 0xc0 @ U8X8_END_TRANSFER @ U8X8_END"

text \<open>The tiles of a row, \<open>n\<close> times over: a loop that tests its counter at the end. A data message
  carries at most 255 bytes; the byte count \<open>c * 8\<close> is taken modulo 256.\<close>

function send_tiles :: "'s msg_cb \<Rightarrow> u8x8_tile_t \<Rightarrow> u8 \<Rightarrow> 's \<Rightarrow> 's option" where
  "send_tiles cad tile n u = do {
     u \<leftarrow> void (u8x8_cad_SendData cad (tile_cnt tile * 8) (tile_ptr tile) u);
     if n - 1 > 0 then send_tiles cad tile (n - 1) u else Some u }"
  by pat_completeness auto
termination
  by (relation "measure (\<lambda>(cad, tile, n, u). unat (n - 1))")
    (use len_decreases in \<open>auto simp: word_gt_0\<close>)

declare send_tiles.simps [simp del]

definition ssd1306_draw_tile ::
    "'a u8x8_scheme msg_cb \<Rightarrow> u8 \<Rightarrow> u8x8_tile_t \<Rightarrow> 'a u8x8_scheme \<Rightarrow> 'a u8x8_scheme option" where
  "ssd1306_draw_tile cad arg_int tile u = do {
     u \<leftarrow> void (u8x8_cad_StartTransfer cad u);
     let x = tile_x_pos tile;
     let x = x * 8;
     let x = x + x_offset u;
     u \<leftarrow> void (u8x8_cad_SendCmd cad 0x40 u);
     u \<leftarrow> void (u8x8_cad_SendCmd cad (0x10 OR drop_bit 4 x) u);
     u \<leftarrow> void (u8x8_cad_SendArg cad (0x00 OR (x AND 15)) u);
     u \<leftarrow> void (u8x8_cad_SendArg cad (0xb0 OR tile_y_pos tile) u);
     u \<leftarrow> send_tiles cad tile arg_int u;
     void (u8x8_cad_EndTransfer cad u) }"

definition u8x8_d_ssd1306_sh1106_generic ::
    "'a u8x8_scheme msg_cb \<Rightarrow> 'a u8x8_scheme msg_cb \<Rightarrow> 'a u8x8_scheme display_cb" where
  "u8x8_d_ssd1306_sh1106_generic cad gpio msg arg_int arg_ptr u =
     (if msg = U8X8_MSG_DISPLAY_SET_POWER_SAVE then
        returning 1 (u8x8_cad_SendSequence cad gpio
          (if arg_int = 0 then u8x8_d_ssd1306_128x64_noname_powersave0_seq
           else u8x8_d_ssd1306_128x64_noname_powersave1_seq) u)
      else if msg = U8X8_MSG_DISPLAY_SET_FLIP_MODE then
        returning 1
          (if arg_int = 0 then do {
             u \<leftarrow> u8x8_cad_SendSequence cad gpio u8x8_d_ssd1306_128x64_noname_flip0_seq u;
             Some (u\<lparr>x_offset := default_x_offset (display_info u)\<rparr>) }
           else do {
             u \<leftarrow> u8x8_cad_SendSequence cad gpio u8x8_d_ssd1306_128x64_noname_flip1_seq u;
             Some (u\<lparr>x_offset := flipmode_x_offset (display_info u)\<rparr>) })
      else if msg = U8X8_MSG_DISPLAY_SET_CONTRAST then
        returning 1 (do {
          u \<leftarrow> void (u8x8_cad_StartTransfer cad u);
          u \<leftarrow> void (u8x8_cad_SendCmd cad 0x81 u);
          u \<leftarrow> void (u8x8_cad_SendArg cad arg_int u);
          void (u8x8_cad_EndTransfer cad u) })
      else if msg = U8X8_MSG_DISPLAY_DRAW_TILE then
        (case arg_ptr of None \<Rightarrow> None | Some tile \<Rightarrow> returning 1 (ssd1306_draw_tile cad arg_int tile u))
      else Some (0, u))"

definition u8x8_ssd1306_128x64_noname_display_info :: u8x8_display_info where
  "u8x8_ssd1306_128x64_noname_display_info = \<lparr>chip_enable_level = 0, chip_disable_level = 1,
     post_chip_enable_wait_ns = 20, pre_chip_disable_wait_ns = 10, reset_pulse_width_ms = 100,
     post_reset_wait_ms = 100, sda_setup_time_ns = 50, sck_pulse_width_ns = 50, sck_clock_hz = 8000000,
     spi_mode = 0, i2c_bus_clock_100kHz = 4, data_setup_time_ns = 40, write_pulse_width_ns = 150,
     tile_width = 16, tile_height = 8, default_x_offset = 0, flipmode_x_offset = 0,
     pixel_width = 128, pixel_height = 64\<rparr>"

text \<open>The six display procedures have one body, with their own sequence and description.\<close>

definition ssd1306_variant ::
    "u8 list \<Rightarrow> u8x8_display_info \<Rightarrow> 'a u8x8_scheme msg_cb \<Rightarrow> 'a u8x8_scheme msg_cb \<Rightarrow> 'a u8x8_scheme display_cb" where
  "ssd1306_variant init_seq info cad gpio msg arg_int arg_ptr u = do {
     (r, u) \<leftarrow> u8x8_d_ssd1306_sh1106_generic cad gpio msg arg_int arg_ptr u;
     if r \<noteq> 0 then Some (1, u)
     else if msg = U8X8_MSG_DISPLAY_INIT then
       returning 1 (do {
         u \<leftarrow> u8x8_d_helper_display_init cad gpio u;
         u8x8_cad_SendSequence cad gpio init_seq u })
     else if msg = U8X8_MSG_DISPLAY_SETUP_MEMORY then
       Some (1, u8x8_d_helper_display_setup_memory info u)
     else Some (0, u) }"

definition u8x8_d_ssd1306_128x64_noname ::
    "'a u8x8_scheme msg_cb \<Rightarrow> 'a u8x8_scheme msg_cb \<Rightarrow> 'a u8x8_scheme display_cb" where
  "u8x8_d_ssd1306_128x64_noname =
     ssd1306_variant u8x8_d_ssd1306_128x64_noname_init_seq u8x8_ssd1306_128x64_noname_display_info"

definition u8x8_d_ssd1306_128x64_vcomh0 ::
    "'a u8x8_scheme msg_cb \<Rightarrow> 'a u8x8_scheme msg_cb \<Rightarrow> 'a u8x8_scheme display_cb" where
  "u8x8_d_ssd1306_128x64_vcomh0 =
     ssd1306_variant u8x8_d_ssd1306_128x64_vcomh0_init_seq u8x8_ssd1306_128x64_noname_display_info"

definition u8x8_d_ssd1306_128x64_alt0 ::
    "'a u8x8_scheme msg_cb \<Rightarrow> 'a u8x8_scheme msg_cb \<Rightarrow> 'a u8x8_scheme display_cb" where
  "u8x8_d_ssd1306_128x64_alt0 =
     ssd1306_variant u8x8_d_ssd1306_128x64_alt0_init_seq u8x8_ssd1306_128x64_noname_display_info"

definition u8x8_d_sh1106_128x64_noname ::
    "'a u8x8_scheme msg_cb \<Rightarrow> 'a u8x8_scheme msg_cb \<Rightarrow> 'a u8x8_scheme display_cb" where
  "u8x8_d_sh1106_128x64_noname =
     ssd1306_variant u8x8_d_ssd1306_128x64_noname_init_seq u8x8_sh1106_128x64_noname_display_info"

definition u8x8_d_sh1106_128x64_vcomh0 ::
    "'a u8x8_scheme msg_cb \<Rightarrow> 'a u8x8_scheme msg_cb \<Rightarrow> 'a u8x8_scheme display_cb" where
  "u8x8_d_sh1106_128x64_vcomh0 =
     ssd1306_variant u8x8_d_ssd1306_128x64_vcomh0_init_seq u8x8_sh1106_128x64_noname_display_info"

definition u8x8_d_sh1106_128x64_winstar ::
    "'a u8x8_scheme msg_cb \<Rightarrow> 'a u8x8_scheme msg_cb \<Rightarrow> 'a u8x8_scheme display_cb" where
  "u8x8_d_sh1106_128x64_winstar =
     ssd1306_variant u8x8_d_sh1106_128x64_winstar_init_seq u8x8_sh1106_128x64_noname_display_info"

section \<open>Recorded sequences\<close>

text \<open>A recorded sequence is a list of messages, each written with its code.\<close>

definition seq_code :: "cad_msg \<Rightarrow> u8 list" where
  "seq_code m = (case m of (msg, n, p) \<Rightarrow>
     if msg = U8X8_MSG_CAD_SEND_CMD \<or> msg = U8X8_MSG_CAD_SEND_ARG then [msg, n] else [msg])"

definition seq_message :: "cad_msg \<Rightarrow> bool" where
  "seq_message m = (case m of (msg, n, p) \<Rightarrow> p = [] \<and>
     (msg = U8X8_MSG_CAD_SEND_CMD \<or> msg = U8X8_MSG_CAD_SEND_ARG \<or>
      n = 0 \<and> (msg = U8X8_MSG_CAD_START_TRANSFER \<or> msg = U8X8_MSG_CAD_END_TRANSFER)))"

lemma cad_run_simps:
  "cad_run cad [] = Some"
  "cad_run cad ((msg, n, p) # ms) = (\<lambda>u. Option.bind (call cad msg n p u) (cad_run cad ms))"
  by (simp_all add: cad_run_def foldo_fun)

lemma seq_code_msg:
  "seq_code (msg, n, p) =
     (if msg = U8X8_MSG_CAD_SEND_CMD \<or> msg = U8X8_MSG_CAD_SEND_ARG then [msg, n] else [msg])"
  by (simp add: seq_code_def)

lemma SendSequence_run:
  "list_all seq_message ms \<Longrightarrow>
     u8x8_cad_SendSequence cad gpio (concat (map seq_code ms) @ [0xff]) u = cad_run cad ms u"
proof (induction ms arbitrary: u)
  case (Cons m ms)
  obtain msg n p where m: "m = (msg, n, p)" by (cases m)
  have ih: "u8x8_cad_SendSequence cad gpio (concat (map seq_code ms) @ [0xff]) = cad_run cad ms"
    using Cons by (intro ext) simp
  have "seq_message (msg, n, p)" using Cons.prems m by simp
  then show ?case by (auto simp: m seq_message_def seq_code_msg cad_run_simps ih)
qed (simp add: cad_run_simps)

abbreviation (input) "START_msg \<equiv> (U8X8_MSG_CAD_START_TRANSFER, 0 :: u8, [] :: u8 list)"
abbreviation (input) "END_msg \<equiv> (U8X8_MSG_CAD_END_TRANSFER, 0 :: u8, [] :: u8 list)"
abbreviation (input) "CMD_msg c \<equiv> (U8X8_MSG_CAD_SEND_CMD, c :: u8, [] :: u8 list)"
abbreviation (input) "ARG_msg c \<equiv> (U8X8_MSG_CAD_SEND_ARG, c :: u8, [] :: u8 list)"

definition winstar_init_msgs :: "cad_msg list" where
  "winstar_init_msgs =
     [START_msg, CMD_msg 0xae, CMD_msg 0xa4, CMD_msg 0xd5, ARG_msg 0x50, CMD_msg 0xa8, ARG_msg 0x3f,
      CMD_msg 0xd3, ARG_msg 0x00, CMD_msg 0x40, CMD_msg 0xad, ARG_msg 0x8b, CMD_msg 0xd9, ARG_msg 0x22,
      CMD_msg 0xdb, ARG_msg 0x35, CMD_msg 0x32, CMD_msg 0x81, ARG_msg 0xff, CMD_msg 0xa6, CMD_msg 0xda,
      ARG_msg 0x12, END_msg]"

lemma winstar_init_code:
  "u8x8_d_sh1106_128x64_winstar_init_seq = concat (map seq_code winstar_init_msgs) @ [0xff]"
  "list_all seq_message winstar_init_msgs" "list_all cad_message winstar_init_msgs"
  by (simp_all add: winstar_init_msgs_def u8x8_d_sh1106_128x64_winstar_init_seq_def U8X8_C_def U8X8_CA_def
      seq_code_def seq_message_def cad_message_def)

lemma powersave_code:
  "u8x8_d_ssd1306_128x64_noname_powersave0_seq =
     concat (map seq_code [START_msg, CMD_msg 0xaf, END_msg]) @ [0xff]"
  "u8x8_d_ssd1306_128x64_noname_powersave1_seq =
     concat (map seq_code [START_msg, CMD_msg 0xae, END_msg]) @ [0xff]"
  by (simp_all add: u8x8_d_ssd1306_128x64_noname_powersave0_seq_def
      u8x8_d_ssd1306_128x64_noname_powersave1_seq_def U8X8_C_def seq_code_def)

section \<open>Drawing tiles\<close>

definition tile_msgs :: "u8 \<Rightarrow> u8x8_tile_t \<Rightarrow> cad_msg list" where
  "tile_msgs off tile =
     (let x = tile_x_pos tile * 8 + off in
      [START_msg, CMD_msg 0x40, CMD_msg (0x10 OR drop_bit 4 x), ARG_msg (x AND 15),
       ARG_msg (0xb0 OR tile_y_pos tile),
       (U8X8_MSG_CAD_SEND_DATA, tile_cnt tile * 8, tile_ptr tile), END_msg])"

lemma ssd1306_draw_tile_run:
  assumes "call cad U8X8_MSG_CAD_START_TRANSFER 0 [] u = Some u"
  shows "ssd1306_draw_tile cad 1 tile u = cad_run cad (tile_msgs (x_offset u) tile) u"
proof -
  have v: "void (u8x8_cad_StartTransfer cad w) = call cad U8X8_MSG_CAD_START_TRANSFER 0 [] w"
    "void (u8x8_cad_SendCmd cad c w) = call cad U8X8_MSG_CAD_SEND_CMD c [] w"
    "void (u8x8_cad_SendArg cad c w) = call cad U8X8_MSG_CAD_SEND_ARG c [] w"
    "void (u8x8_cad_SendData cad c p w) = call cad U8X8_MSG_CAD_SEND_DATA c p w"
    "void (u8x8_cad_EndTransfer cad w) = call cad U8X8_MSG_CAD_END_TRANSFER 0 [] w" for c p w
    by (simp_all add: void_def call_def u8x8_cad_StartTransfer_def u8x8_cad_SendCmd_def u8x8_cad_SendArg_def
        u8x8_cad_SendData_def u8x8_cad_EndTransfer_def)
  have t: "send_tiles cad tile 1 w = call cad U8X8_MSG_CAD_SEND_DATA (tile_cnt tile * 8) (tile_ptr tile) w" for w
    by (subst send_tiles.simps) (simp add: v(4))
  show ?thesis
    unfolding ssd1306_draw_tile_def tile_msgs_def Let_def v t cad_run_simps using assms by simp
qed

text \<open>What the controller receives for a row of tiles: line offset, column and page, then the bytes.\<close>

definition tile_stream :: "u8 \<Rightarrow> u8 \<Rightarrow> u8 \<Rightarrow> u8 \<Rightarrow> u8 list \<Rightarrow> (u8 \<times> u8 \<times> u8) list" where
  "tile_stream a off x y bs =
     [(a, 0, 0x40), (a, 0, 0x10 OR drop_bit 4 (x * 8 + off)), (a, 0, (x * 8 + off) AND 15), (a, 0, 0xb0 OR y)] @
     map (\<lambda>b. (a, 0x40, b)) bs"

lemma tile_msgs_stream:
  "concat (map (stream a) (tile_msgs off tile)) =
     tile_stream a off (tile_x_pos tile) (tile_y_pos tile) (take (unat (tile_cnt tile * 8)) (tile_ptr tile))"
  by (simp add: tile_msgs_def tile_stream_def stream_def msg_payload_def msg_control_def Let_def)

context i2c_bus
begin

lemma ssd1306_DrawTile:
  assumes "idle u" and "received (wire u) = (Rx_Idle, out)" and "unat (c * 8) \<le> length p"
  shows "\<exists>u'. void (u8x8_DrawTile (ssd1306_variant seq info (u8x8_cad_ssd13xx_i2c byte) gpio) x y c p u) = Some u' \<and>
    idle u' \<and> bus_only u u' \<and> received (wire u') =
      (Rx_Idle, out @ tile_stream (i2c_address u) (x_offset u) x y (take (unat (c * 8)) p))"
proof -
  let ?tile = "\<lparr>tile_ptr = p, tile_cnt = c, tile_x_pos = x, tile_y_pos = y\<rparr>"
  have "list_all cad_message (tile_msgs (x_offset u) ?tile)"
    using assms(3) by (simp add: tile_msgs_def cad_message_def Let_def)
  from ssd13xx_run [OF this assms(1,2)] obtain u' where u':
    "cad_run (u8x8_cad_ssd13xx_i2c byte) (tile_msgs (x_offset u) ?tile) u = Some u'" "idle u'" "bus_only u u'"
    "received (wire u') = (Rx_Idle, out @ concat (map (stream (i2c_address u)) (tile_msgs (x_offset u) ?tile)))"
    by blast
  have "ssd1306_draw_tile (u8x8_cad_ssd13xx_i2c byte) 1 ?tile u = Some u'"
    using u'(1) by (subst ssd1306_draw_tile_run) (simp_all add: call_def u8x8_cad_ssd13xx_i2c_def)
  then have "void (u8x8_DrawTile (ssd1306_variant seq info (u8x8_cad_ssd13xx_i2c byte) gpio) x y c p u) = Some u'"
    by (simp add: void_def u8x8_DrawTile_def ssd1306_variant_def u8x8_d_ssd1306_sh1106_generic_def)
  with u' show ?thesis by (auto simp: tile_msgs_stream)
qed

end

section \<open>Starting the firmware's display\<close>

text \<open>The pins as task_lcd sets them: only the bus, no reset line.\<close>

definition firmware_pins :: "u8g2_esp32_hal_t \<Rightarrow> bool" where
  "firmware_pins hal \<longleftrightarrow> hal_sda hal \<noteq> -1 \<and> hal_scl hal \<noteq> -1 \<and>
     hal_cs hal = -1 \<and> hal_reset hal = -1 \<and> hal_dc hal = -1"

definition init_events :: "'a u8x8_scheme \<Rightarrow> io_event list" where
  "init_events u =
     (let hal = u8g2_esp32_hal u; di = display_info u in
      [I2c_param_config (hal_sda hal) (hal_scl hal), I2c_driver_install,
       VTaskDelay (ucast (reset_pulse_width_ms di)), VTaskDelay (ucast (reset_pulse_width_ms di)),
       VTaskDelay (ucast (post_reset_wait_ms di))])"

lemma helper_display_init:
  assumes "esp_ok esp" and "firmware_pins (u8g2_esp32_hal u)" and "i2c_address u \<noteq> 255"
  shows "u8x8_d_helper_display_init (u8x8_cad_ssd13xx_i2c (u8g2_esp32_i2c_byte_cb esp)) u8g2_esp32_gpio_and_delay_cb u
    = Some (emit (init_events u) u)"
  using assms(2,3)
  by (simp add: u8x8_d_helper_display_init_def call_def u8x8_cad_ssd13xx_i2c_def default_address_def
      u8g2_esp32_i2c_byte_cb_def u8g2_esp32_gpio_and_delay_cb_def u8x8_gpio_call_def firmware_pins_def
      pin_mask_def set_pin_def ESP_ERROR_CHECK_ok [OF assms(1)] init_events_def Let_def)

lemma init_events_silent: "hal_wire (emit (init_events u) u) = hal_wire u"
  "hal_idle esp (emit (init_events u) u) = hal_idle esp u"
  by (simp_all add: hal_wire_def hal_idle_def i2c_driver_append init_events_def Let_def)

text \<open>The display procedure of the firmware, as task_lcd composes it (the cad procedure is that of
  \<open>u8g2_Setup_sh1106_i2c_128x64_winstar_f\<close>).\<close>

definition firmware_lcd :: "esp_results \<Rightarrow> 'a u8x8_scheme display_cb" where
  "firmware_lcd esp = u8x8_d_sh1106_128x64_winstar (u8x8_cad_ssd13xx_i2c (u8g2_esp32_i2c_byte_cb esp))
     u8g2_esp32_gpio_and_delay_cb"

text \<open>The start-up keeps everything but the bus.\<close>

lemma display_on:
  fixes u :: "'a u8x8_scheme"
  assumes "hal_idle esp u" and "received (hal_wire u) = (Rx_Idle, out)"
    and "firmware_pins (u8g2_esp32_hal u)" and "i2c_address u \<noteq> 255"
  shows "\<exists>w u'. u8x8_InitDisplay (firmware_lcd esp) u = Some w \<and> u8x8_SetPowerSave (firmware_lcd esp) 0 w = Some u' \<and>
    hal_idle esp u' \<and> bus_only u u' \<and>
    received (hal_wire u') = (Rx_Idle, out @ map (\<lambda>c. (i2c_address u, 0, c))
      [0xae, 0xa4, 0xd5, 0x50, 0xa8, 0x3f, 0xd3, 0x00, 0x40, 0xad, 0x8b, 0xd9, 0x22, 0xdb, 0x35, 0x32,
       0x81, 0xff, 0xa6, 0xda, 0x12, 0xaf])"
proof -
  let ?cad = "u8x8_cad_ssd13xx_i2c (u8g2_esp32_i2c_byte_cb esp)"
  let ?v = "emit (init_events u) u"
  have ok: "esp_ok esp" using assms(1) by (simp add: hal_idle_def)
  have v: "hal_idle esp ?v" "received (hal_wire ?v) = (Rx_Idle, out)"
    using assms(1,2) by (simp_all add: init_events_silent)
  obtain w where w: "cad_run ?cad winstar_init_msgs ?v = Some w" "hal_idle esp w" "bus_only ?v w"
      "received (hal_wire w) = (Rx_Idle, out @ concat (map (stream (i2c_address u)) winstar_init_msgs))"
    using esp32.ssd13xx_run [OF winstar_init_code(3) v] by auto
  have init: "u8x8_InitDisplay (firmware_lcd esp) u = Some w"
    using helper_display_init [OF ok assms(3,4)] w(1)
    by (simp add: SendSequence_run [OF winstar_init_code(2)] firmware_lcd_def u8x8_InitDisplay_def u8x8_d_sh1106_128x64_winstar_def ssd1306_variant_def
        u8x8_d_ssd1306_sh1106_generic_def winstar_init_code(1) void_def)
  let ?on = "[START_msg, CMD_msg 0xaf, END_msg]"
  have on: "list_all cad_message ?on" "list_all seq_message ?on" by (simp_all add: cad_message_def seq_message_def)
  obtain x where x: "cad_run ?cad ?on w = Some x" "hal_idle esp x" "bus_only w x"
      "received (hal_wire x) = (Rx_Idle, (out @ concat (map (stream (i2c_address u)) winstar_init_msgs)) @
        concat (map (stream (i2c_address u)) ?on))"
    using esp32.ssd13xx_run [OF on(1) w(2,4)] bus_onlyD [OF w(3)] by auto
  have "u8x8_SetPowerSave (firmware_lcd esp) 0 w = Some x"
    using x(1) SendSequence_run [OF on(2), of ?cad u8g2_esp32_gpio_and_delay_cb w]
    by (simp add: firmware_lcd_def u8x8_SetPowerSave_def u8x8_d_sh1106_128x64_winstar_def ssd1306_variant_def
        u8x8_d_ssd1306_sh1106_generic_def powersave_code(1) void_def)
  moreover have "bus_only u x" using bus_only_trans [OF bus_only_emit bus_only_trans [OF w(3) x(3)]] .
  ultimately show ?thesis using init x(2,4)
    by (simp add: winstar_init_msgs_def stream_def msg_payload_def msg_control_def)
qed

text \<open>C13: the start of the display. \<open>u8x8_InitDisplay\<close> and \<open>u8x8_SetPowerSave\<close> configure the I2C
  driver, wait through the reset times and send the SH1106 exactly the commands of the winstar
  sequence and then \<open>display on\<close>, each with the control byte of a command, and leave the bus idle.\<close>

theorem display_startup:
  fixes u :: "'a u8x8_scheme"
  assumes "hal_idle esp u" and "received (hal_wire u) = (Rx_Idle, out)"
    and "firmware_pins (u8g2_esp32_hal u)" and "i2c_address u \<noteq> 255"
  shows "\<exists>u'. Option.bind (u8x8_InitDisplay (firmware_lcd esp) u) (u8x8_SetPowerSave (firmware_lcd esp) 0) = Some u' \<and>
    hal_idle esp u' \<and>
    received (hal_wire u') = (Rx_Idle, out @ map (\<lambda>c. (i2c_address u, 0, c))
      [0xae, 0xa4, 0xd5, 0x50, 0xa8, 0x3f, 0xd3, 0x00, 0x40, 0xad, 0x8b, 0xd9, 0x22, 0xdb, 0x35, 0x32,
       0x81, 0xff, 0xa6, 0xda, 0x12, 0xaf])"
  using display_on [OF assms] by auto

definition lcd_example :: u8g2 where
  "lcd_example = u8g2_zero\<lparr>i2c_address := 0x78,
     u8g2_esp32_hal := U8G2_ESP32_HAL_DEFAULT\<lparr>hal_sda := 21, hal_scl := 22\<rparr>\<rparr>"

theorem display_startup_witness:
  "\<exists>u'. Option.bind (u8x8_InitDisplay (firmware_lcd (\<lambda>_ _. 0)) lcd_example) (u8x8_SetPowerSave (firmware_lcd (\<lambda>_ _. 0)) 0) = Some u' \<and>
    snd (received (hal_wire u')) = map (\<lambda>c. (0x78, 0, c))
      [0xae, 0xa4, 0xd5, 0x50, 0xa8, 0x3f, 0xd3, 0x00, 0x40, 0xad, 0x8b, 0xd9, 0x22, 0xdb, 0x35, 0x32,
       0x81, 0xff, 0xa6, 0xda, 0x12, 0xaf]"
proof -
  have "hal_idle (\<lambda>_ _. 0) lcd_example" "received (hal_wire lcd_example) = (Rx_Idle, [])"
    by (simp_all add: lcd_example_def hal_idle_def hal_wire_def esp_ok_def i2c_driver_def u8g2_zero_def received_def)
  moreover have "firmware_pins (u8g2_esp32_hal lcd_example)" "i2c_address lcd_example = 0x78"
    by (simp_all add: lcd_example_def firmware_pins_def U8G2_ESP32_HAL_DEFAULT_def u8g2_zero_def)
  ultimately show ?thesis using display_startup [of "\<lambda>_ _. 0" lcd_example "[]"] by auto
qed

end
