(* ===== verification/U8x8_Text.thy ===== *)
theory U8x8_Text
  imports U8x8_Display
begin

text \<open>
  libs/u8g2/csrc: the text parts of u8x8 that the drawing library builds on. From u8x8_8x8.c the
  character decoders and the loop over a string, u8x8_string.c (lines of a string), u8x8_u8toa.c
  and u8x8_u16toa.c (numbers). Strings are read through \<^const>\<open>c_peek\<close>, which gives NUL at their end.
\<close>

section \<open>Reading bytes\<close>

definition u8x8_pgm_read :: "u8 list \<Rightarrow> nat \<Rightarrow> u8 option" where
  "u8x8_pgm_read p i = (if i < length p then Some (p ! i) else None)"

text \<open>Loops that count up to a bound.\<close>

lemma count_up [termination_simp]:
  assumes "i < (n :: 'a::len word)"
  shows "unat n - unat (i + 1) < unat n - unat i" "unat (i + 1) = unat i + 1"
proof -
  have less: "unat i < unat n" using assms by (simp add: word_less_nat_alt)
  moreover have "unat n < 2 ^ LENGTH('a)" by (rule unsigned_less)
  ultimately have "unat i + 1 < 2 ^ LENGTH('a)" by linarith
  then show "unat (i + 1) = unat i + 1" by (simp add: unat_word_ariths)
  with less show "unat n - unat (i + 1) < unat n - unat i" by simp
qed

section \<open>Character decoders\<close>

definition u8x8_utf8_init :: "'a u8x8_scheme \<Rightarrow> 'a u8x8_scheme" where
  "u8x8_utf8_init u = u\<lparr>utf8_state := 0\<rparr>"

definition u8x8_ascii_next :: "u8 \<Rightarrow> 'a u8x8_scheme \<Rightarrow> u16 \<times> 'a u8x8_scheme" where
  "u8x8_ascii_next b u = (if b = 0 \<or> b = byte_of LF then (0xffff, u) else (ucast b, u))"

definition u8x8_utf8_next :: "u8 \<Rightarrow> 'a u8x8_scheme \<Rightarrow> u16 \<times> 'a u8x8_scheme" where
  "u8x8_utf8_next b u =
     (if b = 0 \<or> b = byte_of LF then (0xffff, u)
      else if utf8_state u = 0 then
        (if b \<ge> 0xfc then (0xfffe, u\<lparr>utf8_state := 5, encoding := ucast (b AND 1)\<rparr>)
         else if b \<ge> 0xf8 then (0xfffe, u\<lparr>utf8_state := 4, encoding := ucast (b AND 3)\<rparr>)
         else if b \<ge> 0xf0 then (0xfffe, u\<lparr>utf8_state := 3, encoding := ucast (b AND 7)\<rparr>)
         else if b \<ge> 0xe0 then (0xfffe, u\<lparr>utf8_state := 2, encoding := ucast (b AND 15)\<rparr>)
         else if b \<ge> 0xc0 then (0xfffe, u\<lparr>utf8_state := 1, encoding := ucast (b AND 0x1f)\<rparr>)
         else (ucast b, u))
      else
        (let u = u\<lparr>utf8_state := utf8_state u - 1, encoding := push_bit 6 (encoding u)\<rparr>;
             b = b AND 0x3f;
             u = u\<lparr>encoding := encoding u OR ucast b\<rparr>
         in if utf8_state u \<noteq> 0 then (0xfffe, u) else (encoding u, u)))"

text \<open>The call through \<open>next_cb\<close>; a null pointer cannot be called.\<close>

definition call_next_cb :: "u8 \<Rightarrow> 'a u8x8_scheme \<Rightarrow> (u16 \<times> 'a u8x8_scheme) option" where
  "call_next_cb b u =
     (case next_cb u of
        None \<Rightarrow> None
      | Some Ascii_Next \<Rightarrow> Some (u8x8_ascii_next b u)
      | Some Utf8_Next \<Rightarrow> Some (u8x8_utf8_next b u))"

lemma call_next_end: "call_next_cb 0 u = Some (e, v) \<Longrightarrow> e = 0xffff \<and> v = u"
  by (auto simp: call_next_cb_def u8x8_ascii_next_def u8x8_utf8_next_def split: option.splits u8x8_char_cb.splits)

text \<open>The loop every procedure on a string has: decode the next byte, stop at the end of the
  string, and do the work for each complete character. Going on behind the terminating NUL is
  undefined.\<close>

function each_char ::
    "(u8 \<Rightarrow> 'a u8x8_scheme \<Rightarrow> (u16 \<times> 'a u8x8_scheme) option) \<Rightarrow>
     (u16 \<Rightarrow> 'b \<times> 'a u8x8_scheme \<Rightarrow> ('b \<times> 'a u8x8_scheme) option) \<Rightarrow> string \<Rightarrow> 'b \<times> 'a u8x8_scheme \<Rightarrow>
       ('b \<times> 'a u8x8_scheme) option" where
  "each_char nxt body str (acc, u) =
     (case nxt (byte_of (c_peek str)) u of
        None \<Rightarrow> None
      | Some (e, u) \<Rightarrow>
          if e = 0xffff then Some (acc, u)
          else if str = [] then None
          else
            let str = tl str in
            case (if e \<noteq> 0xfffe then body e (acc, u) else Some (acc, u)) of
              None \<Rightarrow> None
            | Some st \<Rightarrow> each_char nxt body str st)"
  by pat_completeness auto
termination
  by (relation "measure (\<lambda>(nxt, body, str, st). length str)") auto

declare each_char.simps [simp del]

definition u8x8_GetUTF8Len :: "string \<Rightarrow> 'a u8x8_scheme \<Rightarrow> (u8 \<times> 'a u8x8_scheme) option" where
  "u8x8_GetUTF8Len s u =
     each_char (\<lambda>b u. Some (u8x8_utf8_next b u)) (\<lambda>e (cnt, u). Some (cnt + 1, u)) s (0, u8x8_utf8_init u)"

section \<open>Lines of a string\<close>

fun line_cnt_loop :: "u8 \<Rightarrow> string \<Rightarrow> u8" where
  "line_cnt_loop line_cnt [] = line_cnt"
| "line_cnt_loop line_cnt (e # str) =
     (if e = NUL then line_cnt else line_cnt_loop (if e = LF then line_cnt + 1 else line_cnt) str)"

definition u8x8_GetStringLineCnt :: "string option \<Rightarrow> u8" where
  "u8x8_GetStringLineCnt str = (case str of None \<Rightarrow> 0 | Some str \<Rightarrow> line_cnt_loop 1 str)"

fun line_start_loop :: "u8 \<Rightarrow> u8 \<Rightarrow> string \<Rightarrow> string option" where
  "line_start_loop line_idx line_cnt [] = None"
| "line_start_loop line_idx line_cnt (e # str) =
     (if e = NUL then None
      else if e = LF then
        (if line_cnt = line_idx then Some str else line_start_loop line_idx (line_cnt + 1) str)
      else line_start_loop line_idx line_cnt str)"

definition u8x8_GetStringLineStart :: "u8 \<Rightarrow> string \<Rightarrow> string option" where
  "u8x8_GetStringLineStart line_idx str =
     (if line_idx = 0 then Some str else line_start_loop line_idx 1 str)"

text \<open>The copy writes into a buffer of the caller; a write behind its end is undefined.\<close>

definition put_char :: "nat \<Rightarrow> char \<Rightarrow> string \<Rightarrow> string option" where
  "put_char i c dest = (if i < length dest then Some (dest[i := c]) else None)"

fun copy_line_loop :: "string \<Rightarrow> nat \<Rightarrow> string \<Rightarrow> (nat \<times> string) option" where
  "copy_line_loop [] i dest = Some (i, dest)"
| "copy_line_loop (c # str) i dest =
     (if c = LF \<or> c = NUL then Some (i, dest)
      else case put_char i c dest of None \<Rightarrow> None | Some dest \<Rightarrow> copy_line_loop str (i + 1) dest)"

text \<open>The destination is the buffer behind the pointer, so the call with a null destination, which
  returns without effect, is not part of the model.\<close>

definition u8x8_CopyStringLine :: "string \<Rightarrow> u8 \<Rightarrow> string \<Rightarrow> string option" where
  "u8x8_CopyStringLine dest line_idx str =
     (case u8x8_GetStringLineStart line_idx str of
        None \<Rightarrow> put_char 0 NUL dest
      | Some str \<Rightarrow> (case copy_line_loop str 0 dest of None \<Rightarrow> None | Some (i, dest) \<Rightarrow> put_char i NUL dest))"

section \<open>Numbers as text\<close>

text \<open>The digit loop counts how often the power of ten fits.\<close>

function digit_loop :: "'a::len word \<Rightarrow> 'a word \<Rightarrow> u8 \<Rightarrow> 'a word \<times> u8" where
  "digit_loop c v d = (if v \<ge> c \<and> c \<noteq> 0 then digit_loop c (v - c) (d + 1) else (v, d))"
  by pat_completeness auto
termination
  by (relation "measure (\<lambda>(c, v, d). unat v)")
    (auto simp: unat_sub_if' word_le_nat_alt intro!: diff_less, metis leD unat_gt_0 not_gr_zero, metis leD unat_gt_0 not_gr_zero le_zero_eq)

declare digit_loop.simps [simp del]

fun toap_loop :: "'a::len word list \<Rightarrow> 'a word \<Rightarrow> u8 list" where
  "toap_loop [] v = []"
| "toap_loop (c # cs) v = (let (v, d) = digit_loop c v 48 in d # toap_loop cs v)"

definition u8x8_u8toap :: "u8 \<Rightarrow> u8 list" where
  "u8x8_u8toap v = toap_loop [100, 10, 1] v @ [0]"

definition u8x8_u8toa :: "u8 \<Rightarrow> u8 \<Rightarrow> u8 list option" where
  "u8x8_u8toa v d = (let d = 3 - d in if d \<le> 3 then Some (drop (unat d) (u8x8_u8toap v)) else None)"

definition u8x8_u16toap :: "u16 \<Rightarrow> u8 list" where
  "u8x8_u16toap v = toap_loop [10000, 1000, 100, 10, 1] v @ [0]"

definition u8x8_u16toa :: "u16 \<Rightarrow> u8 \<Rightarrow> u8 list option" where
  "u8x8_u16toa v d = (let d = 5 - d in if d \<le> 5 then Some (drop (unat d) (u8x8_u16toap v)) else None)"

text \<open>The bytes the pointer leads to, as a string.\<close>

definition digits_text :: "u8 list \<Rightarrow> string" where
  "digits_text bs = c_str (map (\<lambda>b. char_of (unat b)) bs)"

lemma digit_loop_div:
  "c \<noteq> 0 \<Longrightarrow> digit_loop c v d = (v mod c, d + of_nat (unat v div unat c))"
proof (induction c v d rule: digit_loop.induct)
  case (1 c v d)
  show ?case
  proof (cases "v \<ge> c")
    case True
    have u: "unat (v - c) = unat v - unat c" using True by (simp add: unat_sub word_le_nat_alt)
    have c: "0 < unat c" "unat c \<le> unat v" using 1(2) True by (simp_all add: unat_gt_0 word_le_nat_alt)
    have "unat v div unat c = Suc ((unat v - unat c) div unat c)" using c by (simp add: le_div_geq)
    moreover have "(v - c) mod c = v mod c"
      using c by (simp add: word_unat_eq_iff unat_mod u le_mod_geq)
    ultimately show ?thesis
      using 1 True by (simp add: digit_loop.simps [of c v] u)
  next
    case False
    then have "unat v < unat c" by (simp add: word_less_nat_alt not_le)
    then show ?thesis
      using False by (simp add: digit_loop.simps [of c v] word_unat_eq_iff unat_mod)
  qed
qed

end
