(* ===== verification/U8g2_Font.thy ===== *)
theory U8g2_Font
  imports U8g2_Canvas U8x8_Text "HOL-Library.Monad_Syntax"
begin

text \<open>
  libs/u8g2/csrc: u8g2_font.c, fonts in the compressed format and the text procedures, and
  u8g2_kerning.c. A font is its bytes; a pointer into it is an offset, and a read behind the end is
  undefined. Signed bytes are kept as their bit patterns, read with \<^const>\<open>sint\<close> where the code
  compares or divides.
\<close>

section \<open>Reading a font\<close>

abbreviation (input) "U8G2_FONT_DATA_STRUCT_SIZE \<equiv> (23 :: nat)"

definition u8g2_font_get_byte :: "u8 list \<Rightarrow> nat \<Rightarrow> u8 \<Rightarrow> u8 option" where
  "u8g2_font_get_byte bytes ptr offset = u8x8_pgm_read bytes (ptr + unat offset)"

definition u8g2_font_get_word :: "u8 list \<Rightarrow> nat \<Rightarrow> u8 \<Rightarrow> u16 option" where
  "u8g2_font_get_word bytes ptr offset = do {
     let ptr = ptr + unat offset;
     hi \<leftarrow> u8x8_pgm_read bytes ptr;
     let pos = push_bit 8 (ucast hi);
     lo \<leftarrow> u8x8_pgm_read bytes (ptr + 1);
     Some (pos + ucast lo) }"

definition u8g2_read_font_info :: "u8 list \<Rightarrow> u8g2_font_info option" where
  "u8g2_read_font_info bytes = do {
     a0 \<leftarrow> u8g2_font_get_byte bytes 0 0;
     a1 \<leftarrow> u8g2_font_get_byte bytes 0 1;
     a2 \<leftarrow> u8g2_font_get_byte bytes 0 2;
     a3 \<leftarrow> u8g2_font_get_byte bytes 0 3;
     a4 \<leftarrow> u8g2_font_get_byte bytes 0 4;
     a5 \<leftarrow> u8g2_font_get_byte bytes 0 5;
     a6 \<leftarrow> u8g2_font_get_byte bytes 0 6;
     a7 \<leftarrow> u8g2_font_get_byte bytes 0 7;
     a8 \<leftarrow> u8g2_font_get_byte bytes 0 8;
     a9 \<leftarrow> u8g2_font_get_byte bytes 0 9;
     a10 \<leftarrow> u8g2_font_get_byte bytes 0 10;
     a11 \<leftarrow> u8g2_font_get_byte bytes 0 11;
     a12 \<leftarrow> u8g2_font_get_byte bytes 0 12;
     a13 \<leftarrow> u8g2_font_get_byte bytes 0 13;
     a14 \<leftarrow> u8g2_font_get_byte bytes 0 14;
     a15 \<leftarrow> u8g2_font_get_byte bytes 0 15;
     a16 \<leftarrow> u8g2_font_get_byte bytes 0 16;
     w17 \<leftarrow> u8g2_font_get_word bytes 0 17;
     w19 \<leftarrow> u8g2_font_get_word bytes 0 19;
     w21 \<leftarrow> u8g2_font_get_word bytes 0 21;
     Some \<lparr>glyph_cnt = a0, bbx_mode = a1, bits_per_0 = a2, bits_per_1 = a3, bits_per_char_width = a4,
       bits_per_char_height = a5, bits_per_char_x = a6, bits_per_char_y = a7, bits_per_delta_x = a8,
       max_char_width = a9, max_char_height = a10, fi_x_offset = a11, fi_y_offset = a12, ascent_A = a13,
       descent_g = a14, ascent_para = a15, descent_para = a16, start_pos_upper_A = w17,
       start_pos_lower_a = w19, start_pos_unicode = w21\<rparr> }"

text \<open>The whole length of a font. A glyph entry holds the distance to the next one; a distance of 0
  ends the first section, but in the unicode section it would be followed for ever.\<close>

function skip_glyphs :: "u8 list \<Rightarrow> nat \<Rightarrow> nat option" where
  "skip_glyphs bytes ptr =
     (case u8x8_pgm_read bytes (ptr + 1) of
        None \<Rightarrow> None
      | Some n \<Rightarrow> if n = 0 then Some ptr else skip_glyphs bytes (ptr + unat n))"
  by pat_completeness auto
termination
  by (relation "measure (\<lambda>(bytes, ptr). length bytes - ptr)")
    (auto simp: u8x8_pgm_read_def unat_gt_0 split: if_splits intro!: diff_less_mono2)

declare skip_glyphs.simps [simp del]

partial_function (option) skip_unicode :: "u8 list \<Rightarrow> nat \<Rightarrow> nat option" where
  "skip_unicode bytes ptr =
     Option.bind (u8g2_font_get_word bytes ptr 0) (\<lambda>e.
       if e = 0 then Some ptr
       else Option.bind (u8x8_pgm_read bytes (ptr + 2)) (\<lambda>n. skip_unicode bytes (ptr + unat n)))"

definition u8g2_GetFontSize :: "u8 list \<Rightarrow> nat option" where
  "u8g2_GetFontSize bytes = do {
     ptr \<leftarrow> skip_glyphs bytes U8G2_FONT_DATA_STRUCT_SIZE;
     let ptr = ptr + 2;
     n \<leftarrow> u8g2_font_get_word bytes ptr 0;
     let ptr = ptr + unat n;
     ptr \<leftarrow> skip_unicode bytes ptr;
     Some (ptr + 2) }"

definition u8g2_GetFontBBXWidth :: "u8g2 \<Rightarrow> u8" where
  "u8g2_GetFontBBXWidth u = max_char_width (font_info u)"

definition u8g2_GetFontBBXHeight :: "u8g2 \<Rightarrow> u8" where
  "u8g2_GetFontBBXHeight u = max_char_height (font_info u)"

definition u8g2_GetFontBBXOffX :: "u8g2 \<Rightarrow> u8" where
  "u8g2_GetFontBBXOffX u = fi_x_offset (font_info u)"

definition u8g2_GetFontBBXOffY :: "u8g2 \<Rightarrow> u8" where
  "u8g2_GetFontBBXOffY u = fi_y_offset (font_info u)"

definition u8g2_GetFontCapitalAHeight :: "u8g2 \<Rightarrow> u8" where
  "u8g2_GetFontCapitalAHeight u = ascent_A (font_info u)"

section \<open>The bit stream of a glyph\<close>

text \<open>Shifts by 32 or more are undefined, which the guard rules out.\<close>

definition u8g2_font_decode_get_unsigned_bits ::
    "u8 list \<Rightarrow> u8g2_font_decode \<Rightarrow> u8 \<Rightarrow> (u8 \<times> u8g2_font_decode) option" where
  "u8g2_font_decode_get_unsigned_bits bytes f cnt =
     (if decode_bit_pos f \<le> 8 \<and> cnt < 32 then do {
        let bit_pos = decode_bit_pos f;
        val \<leftarrow> u8x8_pgm_read bytes (decode_ptr f);
        let val = drop_bit (unat bit_pos) val;
        let bit_pos_plus_cnt = bit_pos + cnt;
        (val, bit_pos_plus_cnt, f) \<leftarrow>
          (if bit_pos_plus_cnt \<ge> 8 then do {
             let s = 8 - bit_pos;
             let f = f\<lparr>decode_ptr := decode_ptr f + 1\<rparr>;
             b \<leftarrow> u8x8_pgm_read bytes (decode_ptr f);
             Some (val OR ucast (push_bit (unat s) (ucast b :: u32)), bit_pos_plus_cnt - 8, f) }
           else Some (val, bit_pos_plus_cnt, f));
        let val = val AND ucast (push_bit (unat cnt) 1 - 1 :: u32);
        Some (val, f\<lparr>decode_bit_pos := bit_pos_plus_cnt\<rparr>) }
      else None)"

definition u8g2_font_decode_get_signed_bits ::
    "u8 list \<Rightarrow> u8g2_font_decode \<Rightarrow> u8 \<Rightarrow> (u8 \<times> u8g2_font_decode) option" where
  "u8g2_font_decode_get_signed_bits bytes f cnt = do {
     (v, f) \<leftarrow> u8g2_font_decode_get_unsigned_bits bytes f cnt;
     if cnt = 0 then None
     else Some (v - push_bit (unat (cnt - 1)) 1, f) }"

text \<open>The same on the drawing state, whose font the stream belongs to.\<close>

definition get_unsigned :: "u8g2 \<Rightarrow> u8 \<Rightarrow> (u8 \<times> u8g2) option" where
  "get_unsigned u cnt = do {
     bytes \<leftarrow> font u;
     (v, f) \<leftarrow> u8g2_font_decode_get_unsigned_bits bytes (font_decode u) cnt;
     Some (v, u\<lparr>font_decode := f\<rparr>) }"

definition get_signed :: "u8g2 \<Rightarrow> u8 \<Rightarrow> (u8 \<times> u8g2) option" where
  "get_signed u cnt = do {
     bytes \<leftarrow> font u;
     (v, f) \<leftarrow> u8g2_font_decode_get_signed_bits bytes (font_decode u) cnt;
     Some (v, u\<lparr>font_decode := f\<rparr>) }"

section \<open>Drawing a glyph\<close>

definition u8g2_add_vector_y :: "u8 \<Rightarrow> u8 \<Rightarrow> u8 \<Rightarrow> u8 \<Rightarrow> u8" where
  "u8g2_add_vector_y dy x y dir =
     (if dir = 0 then dy + y else if dir = 1 then dy + x else if dir = 2 then dy - y else dy - x)"

definition u8g2_add_vector_x :: "u8 \<Rightarrow> u8 \<Rightarrow> u8 \<Rightarrow> u8 \<Rightarrow> u8" where
  "u8g2_add_vector_x dx x y dir =
     (if dir = 0 then dx + x else if dir = 1 then dx - y else if dir = 2 then dx - x else dx + y)"

text \<open>A run of pixels, cut at the right edge of the glyph; with a width of 0 the loop does not end.\<close>

definition draw_run :: "u8g2 \<Rightarrow> u8 \<Rightarrow> u8 \<Rightarrow> u8 \<Rightarrow> u8 \<Rightarrow> u8g2 option" where
  "draw_run u lx ly current is_foreground =
     (let decode = font_decode u;
          x = target_x decode;
          y = target_y decode;
          x = u8g2_add_vector_x x lx ly (fd_dir decode);
          y = u8g2_add_vector_y y lx ly (fd_dir decode)
      in if is_foreground \<noteq> 0 then
           u8g2_DrawHVLine (u\<lparr>draw_color := fg_color decode\<rparr>) x y current (fd_dir decode)
         else if is_transparent decode = 0 then
           u8g2_DrawHVLine (u\<lparr>draw_color := bg_color decode\<rparr>) x y current (fd_dir decode)
         else Some u)"

partial_function (option) decode_len_loop :: "u8 \<Rightarrow> u8g2 \<Rightarrow> u8 \<Rightarrow> u8 \<Rightarrow> u8 \<Rightarrow> u8g2 option" where
  "decode_len_loop is_foreground u cnt lx ly =
     (let rem = glyph_width (font_decode u) - lx;
          current = (if cnt < rem then cnt else rem)
      in Option.bind (draw_run u lx ly current is_foreground) (\<lambda>u.
           if cnt < rem then Some (u\<lparr>font_decode := (font_decode u)\<lparr>fd_x := lx + cnt, fd_y := ly\<rparr>\<rparr>)
           else decode_len_loop is_foreground u (cnt - rem) 0 (ly + 1)))"

definition u8g2_font_decode_len :: "u8g2 \<Rightarrow> u8 \<Rightarrow> u8 \<Rightarrow> u8g2 option" where
  "u8g2_font_decode_len u len is_foreground =
     decode_len_loop is_foreground u len (fd_x (font_decode u)) (fd_y (font_decode u))"

definition u8g2_font_setup_decode :: "u8g2 \<Rightarrow> nat \<Rightarrow> u8g2 option" where
  "u8g2_font_setup_decode u glyph_data = do {
     let u = u\<lparr>font_decode := (font_decode u)\<lparr>decode_ptr := glyph_data, decode_bit_pos := 0\<rparr>\<rparr>;
     (w, u) \<leftarrow> get_unsigned u (bits_per_char_width (font_info u));
     let u = u\<lparr>font_decode := (font_decode u)\<lparr>glyph_width := w\<rparr>\<rparr>;
     (h, u) \<leftarrow> get_unsigned u (bits_per_char_height (font_info u));
     let u = u\<lparr>font_decode := (font_decode u)\<lparr>glyph_height := h\<rparr>\<rparr>;
     let u = u\<lparr>font_decode := (font_decode u)\<lparr>fg_color := draw_color u\<rparr>\<rparr>;
     Some (u\<lparr>font_decode := (font_decode u)\<lparr>bg_color := (if fg_color (font_decode u) = 0 then 1 else 0)\<rparr>\<rparr>) }"

partial_function (option) repeat_run :: "u8 \<Rightarrow> u8 \<Rightarrow> u8g2 \<Rightarrow> u8g2 option" where
  "repeat_run a b u =
     Option.bind (u8g2_font_decode_len u a 0) (\<lambda>u.
     Option.bind (u8g2_font_decode_len u b 1) (\<lambda>u.
     Option.bind (get_unsigned u 1) (\<lambda>(again, u).
       if again \<noteq> 0 then repeat_run a b u else Some u)))"

partial_function (option) decode_loop :: "u8 \<Rightarrow> u8g2 \<Rightarrow> u8g2 option" where
  "decode_loop h u =
     Option.bind (get_unsigned u (bits_per_0 (font_info u))) (\<lambda>(a, u).
     Option.bind (get_unsigned u (bits_per_1 (font_info u))) (\<lambda>(b, u).
     Option.bind (repeat_run a b u) (\<lambda>u.
       if sint (fd_y (font_decode u)) \<ge> sint h then Some u else decode_loop h u)))"

text \<open>The box of the glyph on the display, for the test whether any of it is visible.\<close>

definition glyph_box :: "u8g2 \<Rightarrow> u8 \<Rightarrow> u8 \<times> u8 \<times> u8 \<times> u8" where
  "glyph_box u h =
     (let x0 = target_x (font_decode u);
          y0 = target_y (font_decode u);
          x1 = x0;
          y1 = y0;
          w = glyph_width (font_decode u);
          dir = fd_dir (font_decode u)
      in if dir = 0 then (x0, y0, x1 + w, y1 + h)
         else if dir = 1 then (x0 - h + 1, y0, x1 + 1, y1 + w)
         else if dir = 2 then (x0 - w + 1, y0 - h + 1, x1 + 1, y1 + 1)
         else if dir = 3 then (x0, y0 - w + 1, x1 + h, y1 + 1)
         else (x0, y0, x1, y1))"

definition u8g2_font_decode_glyph :: "u8g2 \<Rightarrow> nat \<Rightarrow> (u8 \<times> u8g2) option" where
  "u8g2_font_decode_glyph u glyph_data = do {
     u \<leftarrow> u8g2_font_setup_decode u glyph_data;
     let h = glyph_height (font_decode u);
     (x, u) \<leftarrow> get_signed u (bits_per_char_x (font_info u));
     (y, u) \<leftarrow> get_signed u (bits_per_char_y (font_info u));
     (d, u) \<leftarrow> get_signed u (bits_per_delta_x (font_info u));
     if sint (glyph_width (font_decode u)) > 0 then do {
       let dir = fd_dir (font_decode u);
       let u = u\<lparr>font_decode := (font_decode u)
             \<lparr>target_x := u8g2_add_vector_x (target_x (font_decode u)) x (- (h + y)) dir,
              target_y := u8g2_add_vector_y (target_y (font_decode u)) x (- (h + y)) dir\<rparr>\<rparr>;
       let (x0, y0, x1, y1) = glyph_box u h;
       if u8g2_IsIntersection u x0 y0 x1 y1 = 0 then Some (d, u)
       else do {
         let u = u\<lparr>font_decode := (font_decode u)\<lparr>fd_x := 0, fd_y := 0\<rparr>\<rparr>;
         u \<leftarrow> decode_loop h u;
         Some (d, u\<lparr>draw_color := fg_color (font_decode u)\<rparr>) } }
     else Some (d, u) }"

section \<open>Finding a glyph\<close>

text \<open>The result is the position of the glyph's data, or \<^term>\<open>None\<close> inside for the null pointer.\<close>

function find_glyph :: "u8 list \<Rightarrow> u16 \<Rightarrow> nat \<Rightarrow> nat option option" where
  "find_glyph bytes enc ptr =
     (case u8x8_pgm_read bytes (ptr + 1) of
        None \<Rightarrow> None
      | Some n \<Rightarrow>
          if n = 0 then Some None
          else if ucast (bytes ! ptr) = enc then Some (Some (ptr + 2))
          else find_glyph bytes enc (ptr + unat n))"
  by pat_completeness auto
termination
  by (relation "measure (\<lambda>(bytes, enc, ptr). length bytes - ptr)")
    (auto simp: u8x8_pgm_read_def unat_gt_0 split: if_splits intro!: diff_less_mono2)

declare find_glyph.simps [simp del]

text \<open>The lookup table of the unicode section: pairs of a distance and the last encoding it is for.\<close>

function unicode_lookup :: "u8 list \<Rightarrow> u16 \<Rightarrow> nat \<Rightarrow> nat \<Rightarrow> nat option" where
  "unicode_lookup bytes enc ptr table =
     (case (u8g2_font_get_word bytes table 0, u8g2_font_get_word bytes table 2) of
        (Some n, Some e) \<Rightarrow>
          (let ptr = ptr + unat n; table = table + 4
           in if e < enc then unicode_lookup bytes enc ptr table else Some ptr)
      | _ \<Rightarrow> None)"
  by pat_completeness auto
termination
  by (relation "measure (\<lambda>(bytes, enc, ptr, table). length bytes - table)")
    (auto simp: u8g2_font_get_word_def u8x8_pgm_read_def Let_def split: if_splits bind_splits)

declare unicode_lookup.simps [simp del]

partial_function (option) find_unicode :: "u8 list \<Rightarrow> u16 \<Rightarrow> nat \<Rightarrow> nat option option" where
  "find_unicode bytes enc ptr =
     Option.bind (u8g2_font_get_word bytes ptr 0) (\<lambda>e.
       if e = 0 then Some None
       else if e = enc then Some (Some (ptr + 3))
       else Option.bind (u8x8_pgm_read bytes (ptr + 2)) (\<lambda>n. find_unicode bytes enc (ptr + unat n)))"

definition u8g2_font_get_glyph_data :: "u8g2 \<Rightarrow> u16 \<Rightarrow> nat option option" where
  "u8g2_font_get_glyph_data u enc = do {
     bytes \<leftarrow> font u;
     let ptr = U8G2_FONT_DATA_STRUCT_SIZE;
     if enc \<le> 255 then
       (let ptr =
          (if enc \<ge> 97 then ptr + unat (start_pos_lower_a (font_info u))
           else if enc \<ge> 65 then ptr + unat (start_pos_upper_A (font_info u))
           else ptr)
        in find_glyph bytes enc ptr)
     else do {
       let ptr = ptr + unat (start_pos_unicode (font_info u));
       ptr \<leftarrow> unicode_lookup bytes enc ptr ptr;
       find_unicode bytes enc ptr } }"

definition u8g2_font_draw_glyph :: "u8g2 \<Rightarrow> u8 \<Rightarrow> u8 \<Rightarrow> u16 \<Rightarrow> (u8 \<times> u8g2) option" where
  "u8g2_font_draw_glyph u x y enc = do {
     let u = u\<lparr>font_decode := (font_decode u)\<lparr>target_x := x, target_y := y\<rparr>\<rparr>;
     glyph_data \<leftarrow> u8g2_font_get_glyph_data u enc;
     case glyph_data of
       None \<Rightarrow> Some (0, u)
     | Some glyph_data \<Rightarrow> u8g2_font_decode_glyph u glyph_data }"

definition u8g2_IsGlyph :: "u8g2 \<Rightarrow> u16 \<Rightarrow> u8 option" where
  "u8g2_IsGlyph u requested_encoding =
     map_option (\<lambda>glyph_data. if glyph_data \<noteq> None then 1 else 0) (u8g2_font_get_glyph_data u requested_encoding)"

definition u8g2_GetGlyphWidth :: "u8g2 \<Rightarrow> u16 \<Rightarrow> (u8 \<times> u8g2) option" where
  "u8g2_GetGlyphWidth u requested_encoding = do {
     glyph_data \<leftarrow> u8g2_font_get_glyph_data u requested_encoding;
     case glyph_data of
       None \<Rightarrow> Some (0, u)
     | Some glyph_data \<Rightarrow> do {
         u \<leftarrow> u8g2_font_setup_decode u glyph_data;
         (ox, u) \<leftarrow> get_signed u (bits_per_char_x (font_info u));
         let u = u\<lparr>glyph_x_offset := ox\<rparr>;
         (_, u) \<leftarrow> get_signed u (bits_per_char_y (font_info u));
         get_signed u (bits_per_delta_x (font_info u)) } }"

section \<open>Reference point and font selection\<close>

definition u8g2_SetFontMode :: "u8g2 \<Rightarrow> u8 \<Rightarrow> u8g2" where
  "u8g2_SetFontMode u mode = u\<lparr>font_decode := (font_decode u)\<lparr>is_transparent := mode\<rparr>\<rparr>"

definition u8g2_SetFontDirection :: "u8g2 \<Rightarrow> u8 \<Rightarrow> u8g2" where
  "u8g2_SetFontDirection u dir = u\<lparr>font_decode := (font_decode u)\<lparr>fd_dir := dir\<rparr>\<rparr>"

abbreviation (input) "U8G2_FONT_HEIGHT_MODE_TEXT \<equiv> (0 :: u8)"
abbreviation (input) "U8G2_FONT_HEIGHT_MODE_XTEXT \<equiv> (1 :: u8)"
abbreviation (input) "U8G2_FONT_HEIGHT_MODE_ALL \<equiv> (2 :: u8)"

definition u8g2_UpdateRefHeight :: "u8g2 \<Rightarrow> u8g2" where
  "u8g2_UpdateRefHeight u =
     (if font u = None then u
      else
        let i = font_info u;
            u = u\<lparr>font_ref_ascent := ascent_A i\<rparr>;
            u = u\<lparr>font_ref_descent := descent_g i\<rparr>
        in if font_height_mode u = U8G2_FONT_HEIGHT_MODE_TEXT then u
           else if font_height_mode u = U8G2_FONT_HEIGHT_MODE_XTEXT then
             let u = (if sint (font_ref_ascent u) < sint (ascent_para i) then u\<lparr>font_ref_ascent := ascent_para i\<rparr> else u)
             in if sint (font_ref_descent u) > sint (descent_para i) then u\<lparr>font_ref_descent := descent_para i\<rparr> else u
           else
             let top = sint (max_char_height i) + sint (fi_y_offset i);
                 u = (if sint (font_ref_ascent u) < top then u\<lparr>font_ref_ascent := word_of_int top\<rparr> else u)
             in if sint (font_ref_descent u) > sint (fi_y_offset i) then u\<lparr>font_ref_descent := fi_y_offset i\<rparr> else u)"

definition u8g2_SetFontRefHeightText :: "u8g2 \<Rightarrow> u8g2" where
  "u8g2_SetFontRefHeightText u = u8g2_UpdateRefHeight (u\<lparr>font_height_mode := U8G2_FONT_HEIGHT_MODE_TEXT\<rparr>)"

definition u8g2_SetFontRefHeightExtendedText :: "u8g2 \<Rightarrow> u8g2" where
  "u8g2_SetFontRefHeightExtendedText u = u8g2_UpdateRefHeight (u\<lparr>font_height_mode := U8G2_FONT_HEIGHT_MODE_XTEXT\<rparr>)"

definition u8g2_SetFontRefHeightAll :: "u8g2 \<Rightarrow> u8g2" where
  "u8g2_SetFontRefHeightAll u = u8g2_UpdateRefHeight (u\<lparr>font_height_mode := U8G2_FONT_HEIGHT_MODE_ALL\<rparr>)"

definition u8g2_font_calc_vref_font :: "u8g2 \<Rightarrow> u8" where
  "u8g2_font_calc_vref_font u = 0"

definition u8g2_SetFontPosBaseline :: "u8g2 \<Rightarrow> u8g2" where
  "u8g2_SetFontPosBaseline u = u\<lparr>font_calc_vref := Vref_Font\<rparr>"

definition u8g2_font_calc_vref_bottom :: "u8g2 \<Rightarrow> u8" where
  "u8g2_font_calc_vref_bottom u = font_ref_descent u"

definition u8g2_SetFontPosBottom :: "u8g2 \<Rightarrow> u8g2" where
  "u8g2_SetFontPosBottom u = u\<lparr>font_calc_vref := Vref_Bottom\<rparr>"

definition u8g2_font_calc_vref_top :: "u8g2 \<Rightarrow> u8" where
  "u8g2_font_calc_vref_top u = font_ref_ascent u + 1"

definition u8g2_SetFontPosTop :: "u8g2 \<Rightarrow> u8g2" where
  "u8g2_SetFontPosTop u = u\<lparr>font_calc_vref := Vref_Top\<rparr>"

definition u8g2_font_calc_vref_center :: "u8g2 \<Rightarrow> u8" where
  "u8g2_font_calc_vref_center u =
     (let tmp = font_ref_ascent u;
          tmp = tmp - font_ref_descent u;
          tmp = word_of_int (c_div (sint tmp) 2)
      in tmp + font_ref_descent u)"

definition u8g2_SetFontPosCenter :: "u8g2 \<Rightarrow> u8g2" where
  "u8g2_SetFontPosCenter u = u\<lparr>font_calc_vref := Vref_Center\<rparr>"

definition call_calc_vref :: "u8g2 \<Rightarrow> u8" where
  "call_calc_vref u =
     (case font_calc_vref u of
        Vref_Font \<Rightarrow> u8g2_font_calc_vref_font u
      | Vref_Bottom \<Rightarrow> u8g2_font_calc_vref_bottom u
      | Vref_Top \<Rightarrow> u8g2_font_calc_vref_top u
      | Vref_Center \<Rightarrow> u8g2_font_calc_vref_center u)"

definition u8g2_SetFont :: "u8g2 \<Rightarrow> u8 list \<Rightarrow> u8g2 option" where
  "u8g2_SetFont u bytes =
     (if font u \<noteq> Some bytes then do {
        let u = u\<lparr>font := Some bytes\<rparr>;
        i \<leftarrow> u8g2_read_font_info bytes;
        let u = u\<lparr>font_info := i\<rparr>;
        Some (u8g2_UpdateRefHeight u) }
      else Some u)"

section \<open>Drawing text\<close>

definition u8g2_DrawGlyph :: "u8g2 \<Rightarrow> u8 \<Rightarrow> u8 \<Rightarrow> u16 \<Rightarrow> (u8 \<times> u8g2) option" where
  "u8g2_DrawGlyph u x y enc =
     (let dir = fd_dir (font_decode u);
          (x, y) =
            (if dir = 0 then (x, y + call_calc_vref u)
             else if dir = 1 then (x - call_calc_vref u, y)
             else if dir = 2 then (x, y - call_calc_vref u)
             else if dir = 3 then (x + call_calc_vref u, y)
             else (x, y))
      in u8g2_font_draw_glyph u x y enc)"

definition draw_char :: "u16 \<Rightarrow> (u8 \<times> u8 \<times> u8) \<times> u8g2 \<Rightarrow> ((u8 \<times> u8 \<times> u8) \<times> u8g2) option" where
  "draw_char e = (\<lambda>((x, y, sum), u). do {
     (delta, u) \<leftarrow> u8g2_DrawGlyph u x y e;
     let dir = fd_dir (font_decode u);
     let (x, y) =
       (if dir = 0 then (x + delta, y)
        else if dir = 1 then (x, y + delta)
        else if dir = 2 then (x - delta, y)
        else if dir = 3 then (x, y - delta)
        else (x, y));
     Some ((x, y, sum + delta), u) })"

definition u8g2_draw_string :: "u8g2 \<Rightarrow> u8 \<Rightarrow> u8 \<Rightarrow> string \<Rightarrow> (u8 \<times> u8g2) option" where
  "u8g2_draw_string u x y str = do {
     let u = u8x8_utf8_init u;
     ((x, y, sum), u) \<leftarrow> each_char call_next_cb draw_char str ((x, y, 0), u);
     Some (sum, u) }"

definition u8g2_DrawStr :: "u8g2 \<Rightarrow> u8 \<Rightarrow> u8 \<Rightarrow> string \<Rightarrow> (u8 \<times> u8g2) option" where
  "u8g2_DrawStr u x y str = u8g2_draw_string (u\<lparr>next_cb := Some Ascii_Next\<rparr>) x y str"

definition u8g2_DrawUTF8 :: "u8g2 \<Rightarrow> u8 \<Rightarrow> u8 \<Rightarrow> string \<Rightarrow> (u8 \<times> u8g2) option" where
  "u8g2_DrawUTF8 u x y str = u8g2_draw_string (u\<lparr>next_cb := Some Utf8_Next\<rparr>) x y str"

end
