(* ===== verification/U8g2_Shapes.thy ===== *)
theory U8g2_Shapes
  imports U8g2_Canvas "HOL-Library.Monad_Syntax"
begin

text \<open>
  libs/u8g2/csrc: u8g2_box.c, u8g2_circle.c and u8g2_line.c, the shapes drawn with lines and
  pixels. A shape's drawing commands form a list; the locale of a painter gives what running such
  a list does, and is interpreted by the pixel and the line command of the library.
\<close>

section \<open>Steps of byte counters\<close>

lemma unat_inc: "x < (y :: u8) \<Longrightarrow> unat (x + 1) = Suc (unat x)"
proof -
  assume "x < y"
  then have "Suc (unat x) < 256" using unat_u8_less [of y] unfolding word_less_nat_alt by linarith
  then show ?thesis by (simp add: unat_word_ariths)
qed

lemma unat_dec: "x < (y :: u8) \<Longrightarrow> unat (y - 1) = unat y - 1"
  using unat_minus_one [of y] by (cases "y = 0") auto

lemma unat_less_u8: "x < (y :: u8) \<Longrightarrow> unat x < unat y"
  by (simp add: word_less_nat_alt)

section \<open>Boxes and frames\<close>

text \<open>The loop of \<open>u8g2_DrawBox\<close>: one horizontal line per row.\<close>

function box_rows :: "u8g2 \<Rightarrow> u8 \<Rightarrow> u8 \<Rightarrow> u8 \<Rightarrow> u8 \<Rightarrow> u8g2 option" where
  "box_rows u x y w h =
     (if h \<noteq> 0 then
        (case u8g2_DrawHVLine u x y w 0 of
           None \<Rightarrow> None
         | Some u \<Rightarrow> box_rows u x (y + 1) w (h - 1))
      else Some u)"
  by auto
termination
  by (relation "measure (\<lambda>(u, x, y, w, h). unat h)") (auto simp: unat_minus_one unat_gt_0)

declare box_rows.simps [simp del]

definition u8g2_DrawBox :: "u8g2 \<Rightarrow> u8 \<Rightarrow> u8 \<Rightarrow> u8 \<Rightarrow> u8 \<Rightarrow> u8g2 option" where
  "u8g2_DrawBox u x y w h =
     (if u8g2_IsIntersection u x y (x + w) (y + h) = 0 then Some u else box_rows u x y w h)"

definition u8g2_DrawFrame :: "u8g2 \<Rightarrow> u8 \<Rightarrow> u8 \<Rightarrow> u8 \<Rightarrow> u8 \<Rightarrow> u8g2 option" where
  "u8g2_DrawFrame u x y w h =
     (let xtmp = x in
      if u8g2_IsIntersection u x y (x + w) (y + h) = 0 then Some u
      else do {
        u \<leftarrow> u8g2_DrawHVLine u x y w 0;
        u \<leftarrow> u8g2_DrawHVLine u x y h 1;
        let x = x + w - 1;
        u \<leftarrow> u8g2_DrawHVLine u x y h 1;
        let y = y + h - 1;
        u8g2_DrawHVLine u xtmp y w 0
      })"

section \<open>Circles and discs\<close>

abbreviation (input) "U8G2_DRAW_UPPER_RIGHT \<equiv> (1 :: u8)"
abbreviation (input) "U8G2_DRAW_UPPER_LEFT \<equiv> (2 :: u8)"
abbreviation (input) "U8G2_DRAW_LOWER_LEFT \<equiv> (4 :: u8)"
abbreviation (input) "U8G2_DRAW_LOWER_RIGHT \<equiv> (8 :: u8)"

definition u8g2_draw_circle_section :: "u8g2 \<Rightarrow> u8 \<Rightarrow> u8 \<Rightarrow> u8 \<Rightarrow> u8 \<Rightarrow> u8 \<Rightarrow> u8g2 option" where
  "u8g2_draw_circle_section u x y x0 y0 option = do {
     u \<leftarrow> doif (option AND U8G2_DRAW_UPPER_RIGHT \<noteq> 0) (\<lambda>u. do {
            u \<leftarrow> u8g2_DrawPixel u (x0 + x) (y0 - y);
            u8g2_DrawPixel u (x0 + y) (y0 - x)
          }) u;
     u \<leftarrow> doif (option AND U8G2_DRAW_UPPER_LEFT \<noteq> 0) (\<lambda>u. do {
            u \<leftarrow> u8g2_DrawPixel u (x0 - x) (y0 - y);
            u8g2_DrawPixel u (x0 - y) (y0 - x)
          }) u;
     u \<leftarrow> doif (option AND U8G2_DRAW_LOWER_RIGHT \<noteq> 0) (\<lambda>u. do {
            u \<leftarrow> u8g2_DrawPixel u (x0 + x) (y0 + y);
            u8g2_DrawPixel u (x0 + y) (y0 + x)
          }) u;
     doif (option AND U8G2_DRAW_LOWER_LEFT \<noteq> 0) (\<lambda>u. do {
            u \<leftarrow> u8g2_DrawPixel u (x0 - x) (y0 + y);
            u8g2_DrawPixel u (x0 - y) (y0 + x)
          }) u
   }"

definition u8g2_draw_disc_section :: "u8g2 \<Rightarrow> u8 \<Rightarrow> u8 \<Rightarrow> u8 \<Rightarrow> u8 \<Rightarrow> u8 \<Rightarrow> u8g2 option" where
  "u8g2_draw_disc_section u x y x0 y0 option = do {
     u \<leftarrow> doif (option AND U8G2_DRAW_UPPER_RIGHT \<noteq> 0) (\<lambda>u. do {
            u \<leftarrow> u8g2_DrawVLine u (x0 + x) (y0 - y) (y + 1);
            u8g2_DrawVLine u (x0 + y) (y0 - x) (x + 1)
          }) u;
     u \<leftarrow> doif (option AND U8G2_DRAW_UPPER_LEFT \<noteq> 0) (\<lambda>u. do {
            u \<leftarrow> u8g2_DrawVLine u (x0 - x) (y0 - y) (y + 1);
            u8g2_DrawVLine u (x0 - y) (y0 - x) (x + 1)
          }) u;
     u \<leftarrow> doif (option AND U8G2_DRAW_LOWER_RIGHT \<noteq> 0) (\<lambda>u. do {
            u \<leftarrow> u8g2_DrawVLine u (x0 + x) y0 (y + 1);
            u8g2_DrawVLine u (x0 + y) y0 (x + 1)
          }) u;
     doif (option AND U8G2_DRAW_LOWER_LEFT \<noteq> 0) (\<lambda>u. do {
            u \<leftarrow> u8g2_DrawVLine u (x0 - x) y0 (y + 1);
            u8g2_DrawVLine u (x0 - y) y0 (x + 1)
          }) u
   }"

text \<open>The midpoint loop, which circles and discs share; \<open>f\<close>, \<open>ddF_x\<close> and \<open>ddF_y\<close> are \<open>int8_t\<close>.\<close>

function circle_loop ::
  "(u8g2 \<Rightarrow> u8 \<Rightarrow> u8 \<Rightarrow> u8g2 option) \<Rightarrow> u8g2 \<Rightarrow> u8 \<Rightarrow> u8 \<Rightarrow> u8 \<Rightarrow> u8 \<Rightarrow> u8 \<Rightarrow> u8g2 option" where
  "circle_loop sect u f ddF_x ddF_y x y =
     (if x < y then
        (let (y, ddF_y, f) =
               (if 0 \<le> sint f then (y - 1, ddF_y + 2, f + (ddF_y + 2)) else (y, ddF_y, f));
             x = x + 1; ddF_x = ddF_x + 2; f = f + ddF_x
         in case sect u x y of None \<Rightarrow> None | Some u \<Rightarrow> circle_loop sect u f ddF_x ddF_y x y)
      else Some u)"
  by auto
termination
  by (relation "measure (\<lambda>(sect, u, f, ddF_x, ddF_y, x, y). unat y - unat x)";
    auto simp: unat_inc unat_dec split: if_splits; drule unat_less_u8; arith)

declare circle_loop.simps [simp del]

definition draw_round ::
  "(u8g2 \<Rightarrow> u8 \<Rightarrow> u8 \<Rightarrow> u8g2 option) \<Rightarrow> u8g2 \<Rightarrow> u8 \<Rightarrow> u8g2 option" where
  "draw_round sect u rad = do {
     let f = 1 - rad;
     let ddF_x = 1;
     let ddF_y = (0 - rad) * 2;
     let x = 0;
     let y = rad;
     u \<leftarrow> sect u x y;
     circle_loop sect u f ddF_x ddF_y x y
   }"

definition u8g2_draw_circle :: "u8g2 \<Rightarrow> u8 \<Rightarrow> u8 \<Rightarrow> u8 \<Rightarrow> u8 \<Rightarrow> u8g2 option" where
  "u8g2_draw_circle u x0 y0 rad option =
     draw_round (\<lambda>u x y. u8g2_draw_circle_section u x y x0 y0 option) u rad"

definition u8g2_DrawCircle :: "u8g2 \<Rightarrow> u8 \<Rightarrow> u8 \<Rightarrow> u8 \<Rightarrow> u8 \<Rightarrow> u8g2 option" where
  "u8g2_DrawCircle u x0 y0 rad option =
     (if u8g2_IsIntersection u (x0 - rad) (y0 - rad) (x0 + rad + 1) (y0 + rad + 1) = 0 then Some u
      else u8g2_draw_circle u x0 y0 rad option)"

definition u8g2_draw_disc :: "u8g2 \<Rightarrow> u8 \<Rightarrow> u8 \<Rightarrow> u8 \<Rightarrow> u8 \<Rightarrow> u8g2 option" where
  "u8g2_draw_disc u x0 y0 rad option =
     draw_round (\<lambda>u x y. u8g2_draw_disc_section u x y x0 y0 option) u rad"

definition u8g2_DrawDisc :: "u8g2 \<Rightarrow> u8 \<Rightarrow> u8 \<Rightarrow> u8 \<Rightarrow> u8 \<Rightarrow> u8g2 option" where
  "u8g2_DrawDisc u x0 y0 rad option =
     (if u8g2_IsIntersection u (x0 - rad) (y0 - rad) (x0 + rad + 1) (y0 + rad + 1) = 0 then Some u
      else u8g2_draw_disc u x0 y0 rad option)"

section \<open>Rounded boxes and frames\<close>

definition u8g2_DrawRBox :: "u8g2 \<Rightarrow> u8 \<Rightarrow> u8 \<Rightarrow> u8 \<Rightarrow> u8 \<Rightarrow> u8 \<Rightarrow> u8g2 option" where
  "u8g2_DrawRBox u x y w h r =
     (if u8g2_IsIntersection u x y (x + w) (y + h) = 0 then Some u
      else do {
        let xl = x + r;
        let yu = y + r;
        let xr = x + w - r - 1;
        let yl = y + h - r - 1;
        u \<leftarrow> u8g2_DrawDisc u xl yu r U8G2_DRAW_UPPER_LEFT;
        u \<leftarrow> u8g2_DrawDisc u xr yu r U8G2_DRAW_UPPER_RIGHT;
        u \<leftarrow> u8g2_DrawDisc u xl yl r U8G2_DRAW_LOWER_LEFT;
        u \<leftarrow> u8g2_DrawDisc u xr yl r U8G2_DRAW_LOWER_RIGHT;
        let ww = w - r - r;
        let xl = xl + 1;
        let yu = yu + 1;
        u \<leftarrow> doif (ww \<ge> 3) (\<lambda>u. do {
               let ww = ww - 2;
               u \<leftarrow> u8g2_DrawBox u xl y ww (r + 1);
               u8g2_DrawBox u xl yl ww (r + 1)
             }) u;
        let hh = h - r - r;
        doif (hh \<ge> 3) (\<lambda>u. u8g2_DrawBox u x yu w (hh - 2)) u
      })"

definition u8g2_DrawRFrame :: "u8g2 \<Rightarrow> u8 \<Rightarrow> u8 \<Rightarrow> u8 \<Rightarrow> u8 \<Rightarrow> u8 \<Rightarrow> u8g2 option" where
  "u8g2_DrawRFrame u x y w h r =
     (if u8g2_IsIntersection u x y (x + w) (y + h) = 0 then Some u
      else do {
        let xl = x + r;
        let yu = y + r;
        let xr = x + w - r - 1;
        let yl = y + h - r - 1;
        u \<leftarrow> u8g2_DrawCircle u xl yu r U8G2_DRAW_UPPER_LEFT;
        u \<leftarrow> u8g2_DrawCircle u xr yu r U8G2_DRAW_UPPER_RIGHT;
        u \<leftarrow> u8g2_DrawCircle u xl yl r U8G2_DRAW_LOWER_LEFT;
        u \<leftarrow> u8g2_DrawCircle u xr yl r U8G2_DRAW_LOWER_RIGHT;
        let ww = w - r - r;
        let hh = h - r - r;
        let xl = xl + 1;
        let yu = yu + 1;
        let h = (if ww \<ge> 3 then h - 1 else h);
        u \<leftarrow> doif (ww \<ge> 3) (\<lambda>u. do {
               let ww = ww - 2;
               u \<leftarrow> u8g2_DrawHLine u xl y ww;
               u8g2_DrawHLine u xl (y + h) ww
             }) u;
        doif (hh \<ge> 3) (\<lambda>u. do {
               let hh = hh - 2;
               let w = w - 1;
               u \<leftarrow> u8g2_DrawVLine u x yu hh;
               u8g2_DrawVLine u (x + w) yu hh
             }) u
      })"

section \<open>Ellipses\<close>

text \<open>The two loops of an ellipse over \<open>int16_t\<close> variables; a loop may not end, which is
  \<^term>\<open>None\<close>.\<close>

definition u8g2_draw_ellipse_section :: "u8g2 \<Rightarrow> u8 \<Rightarrow> u8 \<Rightarrow> u8 \<Rightarrow> u8 \<Rightarrow> u8 \<Rightarrow> u8g2 option" where
  "u8g2_draw_ellipse_section u x y x0 y0 option = do {
     u \<leftarrow> doif (option AND U8G2_DRAW_UPPER_RIGHT \<noteq> 0) (\<lambda>u. u8g2_DrawPixel u (x0 + x) (y0 - y)) u;
     u \<leftarrow> doif (option AND U8G2_DRAW_UPPER_LEFT \<noteq> 0) (\<lambda>u. u8g2_DrawPixel u (x0 - x) (y0 - y)) u;
     u \<leftarrow> doif (option AND U8G2_DRAW_LOWER_RIGHT \<noteq> 0) (\<lambda>u. u8g2_DrawPixel u (x0 + x) (y0 + y)) u;
     doif (option AND U8G2_DRAW_LOWER_LEFT \<noteq> 0) (\<lambda>u. u8g2_DrawPixel u (x0 - x) (y0 + y)) u
   }"

definition u8g2_draw_filled_ellipse_section :: "u8g2 \<Rightarrow> u8 \<Rightarrow> u8 \<Rightarrow> u8 \<Rightarrow> u8 \<Rightarrow> u8 \<Rightarrow> u8g2 option" where
  "u8g2_draw_filled_ellipse_section u x y x0 y0 option = do {
     u \<leftarrow> doif (option AND U8G2_DRAW_UPPER_RIGHT \<noteq> 0) (\<lambda>u. u8g2_DrawVLine u (x0 + x) (y0 - y) (y + 1)) u;
     u \<leftarrow> doif (option AND U8G2_DRAW_UPPER_LEFT \<noteq> 0) (\<lambda>u. u8g2_DrawVLine u (x0 - x) (y0 - y) (y + 1)) u;
     u \<leftarrow> doif (option AND U8G2_DRAW_LOWER_RIGHT \<noteq> 0) (\<lambda>u. u8g2_DrawVLine u (x0 + x) y0 (y + 1)) u;
     doif (option AND U8G2_DRAW_LOWER_LEFT \<noteq> 0) (\<lambda>u. u8g2_DrawVLine u (x0 - x) y0 (y + 1)) u
   }"

type_synonym ellipse_state = "u8 \<times> u8 \<times> u16 \<times> u16 \<times> u16 \<times> u16 \<times> u16"

partial_function (option) ellipse_loop1 ::
  "(u8g2 \<Rightarrow> u8 \<Rightarrow> u8 \<Rightarrow> u8g2 option) \<Rightarrow> u16 \<Rightarrow> u16 \<Rightarrow> u8g2 \<Rightarrow> ellipse_state \<Rightarrow> u8g2 option" where
  "ellipse_loop1 sect rxrx2 ryry2 u st =
     (case st of (x, y, xchg, ychg, err, stopx, stopy) \<Rightarrow>
      if sint stopx \<ge> sint stopy then
        Option.bind (sect u x y) (\<lambda>u.
          (let y = y + 1; stopy = stopy + rxrx2; err = err + ychg; ychg = ychg + rxrx2 in
           if 2 * sint err + sint xchg > 0
           then ellipse_loop1 sect rxrx2 ryry2 u (x - 1, y, xchg + ryry2, ychg, err + xchg, stopx - ryry2, stopy)
           else ellipse_loop1 sect rxrx2 ryry2 u (x, y, xchg, ychg, err, stopx, stopy)))
      else Some u)"

partial_function (option) ellipse_loop2 ::
  "(u8g2 \<Rightarrow> u8 \<Rightarrow> u8 \<Rightarrow> u8g2 option) \<Rightarrow> u16 \<Rightarrow> u16 \<Rightarrow> u8g2 \<Rightarrow> ellipse_state \<Rightarrow> u8g2 option" where
  "ellipse_loop2 sect rxrx2 ryry2 u st =
     (case st of (x, y, xchg, ychg, err, stopx, stopy) \<Rightarrow>
      if sint stopx \<le> sint stopy then
        Option.bind (sect u x y) (\<lambda>u.
          (let x = x + 1; stopx = stopx + ryry2; err = err + xchg; xchg = xchg + ryry2 in
           if 2 * sint err + sint ychg > 0
           then ellipse_loop2 sect rxrx2 ryry2 u (x, y - 1, xchg, ychg + rxrx2, err + ychg, stopx, stopy - rxrx2)
           else ellipse_loop2 sect rxrx2 ryry2 u (x, y, xchg, ychg, err, stopx, stopy)))
      else Some u)"

definition draw_oval ::
  "(u8g2 \<Rightarrow> u8 \<Rightarrow> u8 \<Rightarrow> u8g2 option) \<Rightarrow> u8g2 \<Rightarrow> u8 \<Rightarrow> u8 \<Rightarrow> u8g2 option" where
  "draw_oval sect u rx ry = do {
     let rxrx2 = ucast rx * ucast rx * 2;
     let ryry2 = ucast ry * ucast ry * 2;
     let xchg = (1 - ucast rx - ucast rx) * ucast ry * ucast ry;
     let ychg = ucast rx * ucast rx;
     let stopx = ryry2 * ucast rx;
     u \<leftarrow> ellipse_loop1 sect rxrx2 ryry2 u (rx, 0, xchg, ychg, 0, stopx, 0);
     let xchg = ucast ry * ucast ry;
     let ychg = (1 - ucast ry - ucast ry) * ucast rx * ucast rx;
     let stopy = rxrx2 * ucast ry;
     ellipse_loop2 sect rxrx2 ryry2 u (0, ry, xchg, ychg, 0, 0, stopy)
   }"

definition u8g2_draw_ellipse :: "u8g2 \<Rightarrow> u8 \<Rightarrow> u8 \<Rightarrow> u8 \<Rightarrow> u8 \<Rightarrow> u8 \<Rightarrow> u8g2 option" where
  "u8g2_draw_ellipse u x0 y0 rx ry option =
     draw_oval (\<lambda>u x y. u8g2_draw_ellipse_section u x y x0 y0 option) u rx ry"

definition u8g2_DrawEllipse :: "u8g2 \<Rightarrow> u8 \<Rightarrow> u8 \<Rightarrow> u8 \<Rightarrow> u8 \<Rightarrow> u8 \<Rightarrow> u8g2 option" where
  "u8g2_DrawEllipse u x0 y0 rx ry option =
     (if u8g2_IsIntersection u (x0 - rx) (y0 - ry) (x0 + rx + 1) (y0 + ry + 1) = 0 then Some u
      else u8g2_draw_ellipse u x0 y0 rx ry option)"

definition u8g2_draw_filled_ellipse :: "u8g2 \<Rightarrow> u8 \<Rightarrow> u8 \<Rightarrow> u8 \<Rightarrow> u8 \<Rightarrow> u8 \<Rightarrow> u8g2 option" where
  "u8g2_draw_filled_ellipse u x0 y0 rx ry option =
     draw_oval (\<lambda>u x y. u8g2_draw_filled_ellipse_section u x y x0 y0 option) u rx ry"

definition u8g2_DrawFilledEllipse :: "u8g2 \<Rightarrow> u8 \<Rightarrow> u8 \<Rightarrow> u8 \<Rightarrow> u8 \<Rightarrow> u8 \<Rightarrow> u8g2 option" where
  "u8g2_DrawFilledEllipse u x0 y0 rx ry option =
     (if u8g2_IsIntersection u (x0 - rx) (y0 - ry) (x0 + rx + 1) (y0 + ry + 1) = 0 then Some u
      else u8g2_draw_filled_ellipse u x0 y0 rx ry option)"

section \<open>Lines\<close>

partial_function (option) line_loop ::
  "bool \<Rightarrow> u8 \<Rightarrow> u8 \<Rightarrow> u8 \<Rightarrow> u8 \<Rightarrow> u8g2 \<Rightarrow> u8 \<Rightarrow> u8 \<Rightarrow> u8 \<Rightarrow> u8g2 option" where
  "line_loop swapxy dx dy ystep x2 u x y err =
     (if x \<le> x2 then
        Option.bind (if \<not> swapxy then u8g2_DrawPixel u x y else u8g2_DrawPixel u y x) (\<lambda>u.
          (let err = err - dy in
           if sint err < 0
           then line_loop swapxy dx dy ystep x2 u (x + 1) (y + ystep) (err + dx)
           else line_loop swapxy dx dy ystep x2 u (x + 1) y err))
      else Some u)"

definition u8g2_DrawLine :: "u8g2 \<Rightarrow> u8 \<Rightarrow> u8 \<Rightarrow> u8 \<Rightarrow> u8 \<Rightarrow> u8g2 option" where
  "u8g2_DrawLine u x1 y1 x2 y2 =
     (let dx = (if x1 > x2 then x1 - x2 else x2 - x1);
          dy = (if y1 > y2 then y1 - y2 else y2 - y1);
          (swapxy, dx, dy, x1, y1, x2, y2) =
            (if dy > dx then (True, dy, dx, y1, x1, y2, x2) else (False, dx, dy, x1, y1, x2, y2));
          (x1, y1, x2, y2) = (if x1 > x2 then (x2, y2, x1, y1) else (x1, y1, x2, y2));
          err = drop_bit 1 dx;
          ystep = (if y2 > y1 then 1 else -1);
          y = y1;
          x2 = (if x2 = 255 then x2 - 1 else x2)
      in line_loop swapxy dx dy ystep x2 u x1 y err)"

section \<open>Painters\<close>

text \<open>Drawing keeps the view.\<close>

lemma view_ok_buf: "length buf = length (tile_buf u) \<Longrightarrow> view_ok (u\<lparr>tile_buf := buf\<rparr>) = view_ok u"
  unfolding view_ok_def Let_def canvas_size_upd
  by (simp add: canvas_ok_def cong: u8g2_cb.case_cong)

lemma window_buf [simp]: "window (u\<lparr>tile_buf := buf\<rparr>) = window u"
  by (simp add: window_def)

lemma rot_buf [simp]: "rot (u\<lparr>tile_buf := buf\<rparr>) = rot u"
  unfolding rot_def by (simp cong: u8g2_cb.case_cong)

lemma canvas_area_buf [simp]: "canvas_area (u\<lparr>tile_buf := buf\<rparr>) = canvas_area u"
  by (simp add: canvas_area_def)

lemma draws_keeps:
  assumes "draws u S u'"
  obtains buf where "u' = u\<lparr>tile_buf := buf\<rparr>" "length buf = length (tile_buf u)"
  using assms by (auto simp: draws_def)

lemma draws_view:
  assumes "draws u S u'"
  shows "view_ok u' = view_ok u" "window u' = window u" "draw_color u' = draw_color u"
  by (rule draws_keeps [OF assms]; simp add: view_ok_buf)+

definition solid :: "u8g2 \<Rightarrow> bool" where
  "solid u = (draw_color u = 0 \<or> draw_color u = 1)"

lemma draws_trans:
  assumes ok: "view_ok u" and 1: "draws u S u1" and 2: "draws u1 T u2"
    and dis: "solid u \<or> S \<inter> T = {}"
  shows "draws u (S \<union> T) u2"
proof -
  obtain b1 where b1: "u1 = u\<lparr>tile_buf := b1\<rparr>" "length b1 = length (tile_buf u)"
    and p1: "\<And>q. q \<in> canvas_area u \<Longrightarrow>
      pixel u1 q = paint_on (draw_color u) (rot u ` (S \<inter> window u)) (pixel u) q"
    using 1 by (auto simp: draws_def)
  obtain b2 where b2: "u2 = u1\<lparr>tile_buf := b2\<rparr>" "length b2 = length (tile_buf u1)"
    and p2: "\<And>q. q \<in> canvas_area u \<Longrightarrow>
      pixel u2 q = paint_on (draw_color u) (rot u ` (T \<inter> window u)) (pixel u1) q"
    using 2 by (auto simp: draws_def b1)
  let ?R = "\<lambda>S. rot u ` (S \<inter> window u)"
  have un: "?R (S \<union> T) = ?R T \<union> ?R S" by blast
  have key: "paint_on (draw_color u) (?R T) (paint_on (draw_color u) (?R S) (pixel u)) =
      paint_on (draw_color u) (?R (S \<union> T)) (pixel u)"
  proof (cases "solid u")
    case True
    then show ?thesis unfolding un solid_def by (rule paint_on_solid)
  next
    case False
    then have "?R T \<inter> ?R S = {}"
      using dis inj_on_image_Int [OF rot_inj [OF ok], of "T \<inter> window u" "S \<inter> window u"] by blast
    then show ?thesis unfolding un by (rule paint_on_disjoint)
  qed
  have "pixel u2 q = paint_on (draw_color u) (?R (S \<union> T)) (pixel u) q" if q: "q \<in> canvas_area u" for q
  proof -
    have "pixel u2 q = paint_on (draw_color u) (?R T) (paint_on (draw_color u) (?R S) (pixel u)) q"
      using p2 [OF q] p1 [OF q] by (simp add: paint_on_def)
    with key show ?thesis by simp
  qed
  moreover have "u2 = u\<lparr>tile_buf := b2\<rparr>" "length b2 = length (tile_buf u)" using b1 b2 by simp_all
  ultimately show ?thesis unfolding draws_def by blast
qed

lemma draws_empty: "view_ok u \<Longrightarrow> draws u {} u"
  by (rule draws_none) simp_all

text \<open>The contract of a drawing command: when it is ready it paints its points, and readiness
  depends on the view, not on the picture.\<close>

locale painter =
  fixes act :: "u8g2 \<Rightarrow> 'a \<Rightarrow> u8g2 option" and pts :: "'a \<Rightarrow> (int \<times> int) set"
    and ready :: "u8g2 \<Rightarrow> 'a \<Rightarrow> bool"
  assumes act_draws: "view_ok u \<Longrightarrow> ready u a \<Longrightarrow> \<exists>u'. act u a = Some u' \<and> draws u (pts a) u'"
    and ready_buf: "ready (u\<lparr>tile_buf := buf\<rparr>) a = ready u a"
begin

lemma fold_draws:
  assumes "view_ok u" and "\<forall>a \<in> set as. ready u a"
    and "solid u \<or> sorted_wrt (\<lambda>a b. pts a \<inter> pts b = {}) as"
  shows "\<exists>u'. foldo act as u = Some u' \<and> draws u (\<Union>a \<in> set as. pts a) u'"
  using assms
proof (induction as arbitrary: u)
  case Nil
  then show ?case by (simp add: draws_empty)
next
  case (Cons a as)
  from Cons.prems obtain u1 where u1: "act u a = Some u1" "draws u (pts a) u1"
    using act_draws [of u a] by auto
  from draws_keeps [OF this(2)] obtain buf where buf: "u1 = u\<lparr>tile_buf := buf\<rparr>" .
  have "view_ok u1" using draws_view(1) [OF u1(2)] Cons.prems(1) by simp
  moreover have "\<forall>a \<in> set as. ready u1 a" using Cons.prems(2) by (simp add: buf ready_buf)
  moreover have "solid u1 \<or> sorted_wrt (\<lambda>a b. pts a \<inter> pts b = {}) as"
    using Cons.prems(3) draws_view(3) [OF u1(2)] by (auto simp: solid_def)
  ultimately obtain u2 where u2: "foldo act as u1 = Some u2" "draws u1 (\<Union>a \<in> set as. pts a) u2"
    using Cons.IH by blast
  have "solid u \<or> pts a \<inter> (\<Union>a \<in> set as. pts a) = {}" using Cons.prems(3) by auto
  from draws_trans [OF Cons.prems(1) u1(2) u2(2) this] u1(1) u2(1) show ?case by simp
qed

end

text \<open>The pixel command and the line command are painters.\<close>

definition draw_px :: "u8g2 \<Rightarrow> u8 \<times> u8 \<Rightarrow> u8g2 option" where
  "draw_px u p = u8g2_DrawPixel u (fst p) (snd p)"

definition px_pts :: "u8 \<times> u8 \<Rightarrow> (int \<times> int) set" where
  "px_pts p = {(uint (fst p), uint (snd p))}"

lemma DrawPixel_draws:
  assumes ok: "view_ok u"
  shows "\<exists>u'. u8g2_DrawPixel u x y = Some u' \<and> draws u {(uint x, uint y)} u'"
proof (cases "(uint x, uint y) \<in> window u")
  case True
  have "hv_clear u x y 1 0"
    using True uint_u8 [of x] uint_u8 [of "user_x1 u"]
    by (auto simp: hv_clear_def hv_x_def range_clear_def window_def)
  from DrawHVLine_draws [OF ok _ this]
  obtain u' where "u8g2_DrawHVLine u x y 1 0 = Some u'" "draws u (hv_line x y 1 0) u'" by auto
  moreover have "hv_line x y 1 0 = {(uint x, uint y)}"
    using True uint_u8 [of x] uint_u8 [of "user_x1 u"]
    by (auto simp: hv_line_def hv_x_def hv_y_def iseg_def ipt_def range_start_def window_def)
  moreover have "u8g2_DrawPixel u x y = u8g2_DrawHVLine u x y 1 0"
    using True by (auto simp: u8g2_DrawPixel_def window_def word_less_def word_le_def)
  ultimately show ?thesis by auto
next
  case False
  have out: "u8g2_DrawPixel u x y = Some u"
    using False by (auto simp: u8g2_DrawPixel_def window_def word_less_def word_le_def)
  have "draws u {(uint x, uint y)} u" by (rule draws_none [OF ok]) (use False in simp)
  with out show ?thesis by simp
qed

interpretation px: painter draw_px px_pts "\<lambda>u p. True"
  by unfold_locales (auto simp: draw_px_def px_pts_def DrawPixel_draws)

definition draw_hv :: "u8g2 \<Rightarrow> u8 \<times> u8 \<times> u8 \<times> u8 \<Rightarrow> u8g2 option" where
  "draw_hv u = (\<lambda>(x, y, len, dir). u8g2_DrawHVLine u x y len dir)"

definition hv_pts :: "u8 \<times> u8 \<times> u8 \<times> u8 \<Rightarrow> (int \<times> int) set" where
  "hv_pts = (\<lambda>(x, y, len, dir). hv_line x y len dir)"

definition hv_ready :: "u8g2 \<Rightarrow> u8 \<times> u8 \<times> u8 \<times> u8 \<Rightarrow> bool" where
  "hv_ready u = (\<lambda>(x, y, len, dir). len = 0 \<or> hv_clear u x y len dir)"

lemma hv_line_0: "hv_line x y 0 dir = {}"
  by (simp add: hv_line_def iseg_def)

interpretation hv: painter draw_hv hv_pts hv_ready
proof unfold_locales
  fix u :: u8g2 and a :: "u8 \<times> u8 \<times> u8 \<times> u8"
  assume ok: "view_ok u" and r: "hv_ready u a"
  obtain x y len dir where a: "a = (x, y, len, dir)" by (cases a)
  show "\<exists>u'. draw_hv u a = Some u' \<and> draws u (hv_pts a) u'"
  proof (cases "len = 0")
    case True
    then show ?thesis
      using draws_empty [OF ok] by (simp add: a draw_hv_def hv_pts_def hv_line_0 u8g2_DrawHVLine_def)
  next
    case False
    then show ?thesis
      using DrawHVLine_draws [OF ok False] r by (simp add: a draw_hv_def hv_pts_def hv_ready_def)
  qed
next
  show "hv_ready (u\<lparr>tile_buf := buf\<rparr>) a = hv_ready u a" for u :: u8g2 and buf a
    by (auto simp: hv_ready_def hv_clear_def split: prod.splits)
qed

section \<open>What boxes and frames draw\<close>

definition box_cmds :: "u8 \<Rightarrow> u8 \<Rightarrow> u8 \<Rightarrow> nat \<Rightarrow> (u8 \<times> u8 \<times> u8 \<times> u8) list" where
  "box_cmds x y w n = map (\<lambda>k. (x, y + of_nat k, w, 0)) [0..<n]"

lemma box_cmds_Suc: "box_cmds x y w (Suc n) = (x, y, w, 0) # box_cmds x (y + 1) w n"
  by (simp add: box_cmds_def upt_conv_Cons map_Suc_upt [symmetric] comp_def ac_simps
    del: upt_Suc map_Suc_upt)

lemma box_rows_foldo: "box_rows u x y w h = foldo draw_hv (box_cmds x y w (unat h)) u"
proof (induction "unat h" arbitrary: u y h)
  case 0
  then have "h = 0" by (simp add: unat_eq_0)
  then show ?case by (simp add: box_rows.simps [of u] box_cmds_def)
next
  case (Suc n)
  then have h: "h \<noteq> 0" by auto
  with Suc.hyps(2) have "n = unat (h - 1)" using unat_minus_one [of h] by simp
  note h = h this
  show ?case
    using Suc.hyps(1) [OF h(2)] h unfolding Suc.hyps(2) [symmetric] box_cmds_Suc
    by (simp add: box_rows.simps [of u] draw_hv_def split: bind_splits option.split)
qed

text \<open>The pixels of a box; the left edge may lie outside the display, as for lines.\<close>

definition box_area :: "u8 \<Rightarrow> u8 \<Rightarrow> u8 \<Rightarrow> u8 \<Rightarrow> (int \<times> int) set" where
  "box_area x y w h = (\<Union>k < unat h. hv_line x (y + of_nat k) w 0)"

lemma hv_line_row: "(i, j) \<in> hv_line x y w 0 \<longleftrightarrow>
    range_start x w \<le> i \<and> i < range_start x w + uint w \<and> j = uint y"
  by (simp add: hv_line_def hv_x_def hv_y_def iseg_mem)

lemma wrap_rangeI:
  assumes "range_start x w \<le> i" "i < range_start x w + uint w" "0 \<le> i" "i < uint d" "range_clear x w d"
  shows "i \<in> wrap_range x (x + w)"
proof -
  note r = uint_u8 [of x] uint_u8 [of w] uint_u8 [of d]
  have i: "0 \<le> i" "i < 256" using assms(3,4) r(6) by linarith+
  show ?thesis
  proof (cases "uint x + uint w < 256")
    case True
    then have e: "uint (x + w) = uint x + uint w" "range_start x w = uint x"
      by (simp_all add: uint_u8_add range_start_def)
    show ?thesis unfolding wrap_range_def mem_Collect_eq word_le_def e
      using assms(1,2) e i r(3) by simp
  next
    case False
    then have e: "uint (x + w) = uint x + uint w - 256" "range_start x w = uint x - 256"
      by (simp_all add: uint_u8_add range_start_def)
    show ?thesis unfolding wrap_range_def mem_Collect_eq word_le_def e
      using assms(1,2) e i r by simp
  qed
qed

lemma wrap_range_row:
  assumes "k < unat h"
  shows "uint (y + of_nat k) \<in> wrap_range y (y + h)"
proof -
  note r = uint_u8 [of y] uint_u8 [of h]
  define j where "j = int k"
  have k: "0 \<le> j" "j < uint h" using assms by (simp_all add: j_def flip: of_nat_less_iff [where 'a = int])
  have "k < 256" using assms unat_u8_less [of h] by linarith
  then have "uint (of_nat k :: u8) = j" by (simp add: j_def uint_nat unat_of_nat)
  then have a: "uint (y + of_nat k) = (if 256 \<le> uint y + j then uint y + j - 256 else uint y + j)"
    unfolding uint_u8_add by simp
  have b: "uint (y + h) = (if 256 \<le> uint y + uint h then uint y + uint h - 256 else uint y + uint h)"
    by (rule uint_u8_add)
  show ?thesis
    unfolding wrap_range_def mem_Collect_eq word_le_def a b using k r by (auto split: if_splits)
qed

lemma box_area_window:
  assumes "range_clear x w (user_x1 u)" and p: "p \<in> box_area x y w h" "p \<in> window u"
  shows "p \<in> wrap_range x (x + w) \<times> wrap_range y (y + h)"
proof -
  obtain k i where k: "k < unat h" "p = (i, uint (y + of_nat k))"
    "range_start x w \<le> i" "i < range_start x w + uint w"
    using p(1) by (cases p) (auto simp: box_area_def hv_line_row)
  have "uint (user_x0 u) \<le> i" "i < uint (user_x1 u)" using p(2) by (auto simp: k(2) window_def)
  then have i: "0 \<le> i" "i < uint (user_x1 u)" using uint_u8(1) [of "user_x0 u"] by linarith+
  show ?thesis using wrap_rangeI [OF k(3,4) i assms(1)] wrap_range_row [OF k(1)] by (simp add: k(2))
qed

lemma of_nat_rows_distinct:
  assumes "i < j" "j < unat (h :: u8)"
  shows "uint (y + of_nat i :: u8) \<noteq> uint (y + of_nat j)"
proof
  assume "uint (y + of_nat i :: u8) = uint (y + of_nat j)"
  then have "(of_nat i :: u8) = of_nat j" by (simp add: word_uint_eq_iff [symmetric])
  then have "unat (of_nat i :: u8) = unat (of_nat j :: u8)" by (rule arg_cong)
  moreover have "i < 256" "j < 256" using assms unat_u8_less [of h] by linarith+
  ultimately show False using assms(1) by (simp add: unat_of_nat)
qed

lemma DrawBox_draws:
  assumes ok: "view_ok u" and wh: "w \<noteq> 0" "h \<noteq> 0" and clear: "range_clear x w (user_x1 u)"
  shows "\<exists>u'. u8g2_DrawBox u x y w h = Some u' \<and> draws u (box_area x y w h) u'"
proof (cases "u8g2_IsIntersection u x y (x + w) (y + h) = 0")
  case True
  have "window u \<inter> (wrap_range x (x + w) \<times> wrap_range y (y + h)) = {}"
    using IsIntersection_window [of u x "x + w" y "y + h"] True wh view_okD(3,4) [OF ok] by simp
  then have "box_area x y w h \<inter> window u = {}" using box_area_window [OF clear] by blast
  with True show ?thesis using draws_none [OF ok] by (simp add: u8g2_DrawBox_def)
next
  case False
  let ?c = "box_cmds x y w (unat h)"
  have ready: "\<forall>a \<in> set ?c. hv_ready u a"
    using clear by (auto simp: box_cmds_def hv_ready_def hv_clear_def hv_x_def)
  have dis: "sorted_wrt (\<lambda>a b. hv_pts a \<inter> hv_pts b = {}) ?c"
    unfolding box_cmds_def sorted_wrt_map sorted_wrt_iff_nth_less
  proof (intro allI impI, goal_cases)
    case ij: (1 i j)
    then have "uint (y + of_nat i :: u8) \<noteq> uint (y + of_nat j)"
      by (intro of_nat_rows_distinct [of i j h]) simp_all
    with ij show ?case
      by (auto simp: hv_pts_def hv_line_row)
  qed
  have "(\<Union>a \<in> set ?c. hv_pts a) = box_area x y w h"
    by (auto simp: box_cmds_def hv_pts_def box_area_def)
  with hv.fold_draws [OF ok ready, OF disjI2 [OF dis]] show ?thesis
    using False by (simp add: u8g2_DrawBox_def box_rows_foldo)
qed

lemma hv_line_col: "(i, j) \<in> hv_line x y h 1 \<longleftrightarrow>
    i = uint x \<and> range_start y h \<le> j \<and> j < range_start y h + uint h"
  by (simp add: hv_line_def hv_x_def hv_y_def iseg_mem)

definition frame_area :: "u8 \<Rightarrow> u8 \<Rightarrow> u8 \<Rightarrow> u8 \<Rightarrow> (int \<times> int) set" where
  "frame_area x y w h =
     hv_line x y w 0 \<union> hv_line x y h 1 \<union> hv_line (x + w - 1) y h 1 \<union> hv_line x (y + h - 1) w 0"

lemma last_offset: "w \<noteq> 0 \<Longrightarrow> \<exists>k < unat w. x + of_nat k = x + w - (1 :: u8)"
proof (intro exI conjI)
  assume w: "w \<noteq> 0"
  show "unat (w - 1) < unat w" using w unat_gt_0 [of w] by (simp add: unat_minus_one)
  show "x + of_nat (unat (w - 1)) = x + w - 1" by simp
qed

lemma frame_window:
  assumes wh: "w \<noteq> 0" "h \<noteq> 0" and c: "range_clear x w (user_x1 u)" "range_clear y h (user_y1 u)"
    and p: "p \<in> frame_area x y w h" "p \<in> window u"
  shows "p \<in> wrap_range x (x + w) \<times> wrap_range y (y + h)"
proof -
  obtain i j where ij: "p = (i, j)" by (cases p)
  have b: "uint (user_x0 u) \<le> i" "i < uint (user_x1 u)" "uint (user_y0 u) \<le> j" "j < uint (user_y1 u)"
    using p(2) by (auto simp: ij window_def)
  then have nn: "0 \<le> i" "0 \<le> j" using uint_u8(1) [of "user_x0 u"] uint_u8(1) [of "user_y0 u"] by linarith+
  obtain kx ky where k: "kx < unat w" "x + of_nat kx = x + w - 1" "ky < unat h" "y + of_nat ky = y + h - 1"
    using last_offset [OF wh(1), of x] last_offset [OF wh(2), of y] by blast
  have z: "0 < unat w" "0 < unat h" using wh by (simp_all add: unat_gt_0)
  have edges: "uint x \<in> wrap_range x (x + w)" "uint (x + w - 1) \<in> wrap_range x (x + w)"
    "uint y \<in> wrap_range y (y + h)" "uint (y + h - 1) \<in> wrap_range y (y + h)"
    using wrap_range_row [OF z(1), of x] wrap_range_row [OF k(1), of x]
      wrap_range_row [OF z(2), of y] wrap_range_row [OF k(3), of y] unfolding k by simp_all
  show ?thesis
    using p(1) edges wrap_rangeI [OF _ _ nn(1) b(2) c(1)] wrap_rangeI [OF _ _ nn(2) b(4) c(2)]
    unfolding frame_area_def ij by (auto simp: hv_line_row hv_line_col)
qed

lemma DrawFrame_draws:
  assumes ok: "view_ok u" and col: "solid u" and wh: "w \<noteq> 0" "h \<noteq> 0"
    and clear: "range_clear x w (user_x1 u)" "range_clear y h (user_y1 u)"
  shows "\<exists>u'. u8g2_DrawFrame u x y w h = Some u' \<and> draws u (frame_area x y w h) u'"
proof (cases "u8g2_IsIntersection u x y (x + w) (y + h) = 0")
  case True
  have "window u \<inter> (wrap_range x (x + w) \<times> wrap_range y (y + h)) = {}"
    using IsIntersection_window [of u x "x + w" y "y + h"] True wh view_okD(3,4) [OF ok] by simp
  then have "frame_area x y w h \<inter> window u = {}" using frame_window [OF wh clear] by blast
  with True show ?thesis using draws_none [OF ok] by (simp add: u8g2_DrawFrame_def)
next
  case False
  let ?c = "[(x, y, w, 0), (x, y, h, 1), (x + w - 1, y, h, 1), (x, y + h - 1, w, 0)]"
  have "\<forall>a \<in> set ?c. hv_ready u a"
    using clear by (simp add: hv_ready_def hv_clear_def hv_x_def hv_y_def)
  from hv.fold_draws [OF ok this, OF disjI1 [OF col]]
  obtain u' where "foldo draw_hv ?c u = Some u'" "draws u (\<Union>a \<in> set ?c. hv_pts a) u'" by blast
  moreover have "(\<Union>a \<in> set ?c. hv_pts a) = frame_area x y w h"
    by (simp add: hv_pts_def frame_area_def Un_assoc)
  moreover have "u8g2_DrawFrame u x y w h = foldo draw_hv ?c u"
    using False by (simp add: u8g2_DrawFrame_def draw_hv_def foldo_fun)
  ultimately show ?thesis by simp
qed

section \<open>What circles draw\<close>

text \<open>The points of the midpoint loop, as the loop computes them.\<close>

function circle_steps :: "u8 \<Rightarrow> u8 \<Rightarrow> u8 \<Rightarrow> u8 \<Rightarrow> u8 \<Rightarrow> (u8 \<times> u8) list" where
  "circle_steps f ddF_x ddF_y x y =
     (if x < y then
        (let (y, ddF_y, f) =
               (if 0 \<le> sint f then (y - 1, ddF_y + 2, f + (ddF_y + 2)) else (y, ddF_y, f));
             x = x + 1; ddF_x = ddF_x + 2; f = f + ddF_x
         in (x, y) # circle_steps f ddF_x ddF_y x y)
      else [])"
  by auto
termination
  by (relation "measure (\<lambda>(f, ddF_x, ddF_y, x, y). unat y - unat x)";
    auto simp: unat_inc unat_dec split: if_splits; drule unat_less_u8; arith)

declare circle_steps.simps [simp del]

lemma circle_loop_steps:
  assumes sect: "\<And>u x y. sect u x y = foldo act (pts (x, y)) u"
  shows "circle_loop sect u f ddx ddy x y = foldo act (concat (map pts (circle_steps f ddx ddy x y))) u"
proof (induction f ddx ddy x y arbitrary: u rule: circle_steps.induct)
  case (1 f ddx ddy x y)
  show ?case
  proof (cases "x < y")
    case False
    then show ?thesis by (simp add: circle_loop.simps [of sect] circle_steps.simps [of f])
  next
    case xy: True
    show ?thesis
    proof (cases "0 \<le> sint f")
      case True
      note IH = "1.IH" [OF xy refl, unfolded if_P [OF True], OF refl refl refl refl refl]
      show ?thesis
        unfolding circle_loop.simps [of sect u] circle_steps.simps [of f] if_P [OF xy] if_P [OF True] Let_def
          prod.case list.map concat.simps foldo_append sect [of u "x + 1" "y - 1"] IH
        by (cases "foldo act (pts (x + 1, y - 1)) u") simp_all
    next
      case False
      note IH = "1.IH" [OF xy refl, unfolded if_not_P [OF False], OF refl refl refl refl refl]
      show ?thesis
        unfolding circle_loop.simps [of sect u] circle_steps.simps [of f] if_P [OF xy] if_not_P [OF False] Let_def
          prod.case list.map concat.simps foldo_append sect [of u "x + 1" y] IH
        by (cases "foldo act (pts (x + 1, y)) u") simp_all
    qed
  qed
qed

text \<open>How far a point is from the circle: the midpoint loop keeps it within half a pixel.\<close>

definition off_circle :: "int \<Rightarrow> int \<Rightarrow> int \<Rightarrow> int" where
  "off_circle r x y = x * x + y * y - r * r"

definition near_circle :: "int \<Rightarrow> int \<Rightarrow> int \<Rightarrow> bool" where
  "near_circle r x y = (\<bar>off_circle r x y\<bar> \<le> max \<bar>x\<bar> \<bar>y\<bar>)"

text \<open>One step of the loop, on integers: \<open>f = off_circle r x y + 2 * x + 1 - y\<close>.\<close>

definition mid_inv :: "int \<Rightarrow> int \<Rightarrow> int \<Rightarrow> bool" where
  "mid_inv r x y = (0 \<le> x \<and> x < y \<and> y \<le> r \<and> - y \<le> off_circle r x y \<and> off_circle r x y < y)"

lemma off_circle_steps:
  "off_circle r (x + 1) y = off_circle r x y + 2 * x + 1"
  "off_circle r x (y - 1) = off_circle r x y - 2 * y + 1"
  by (simp_all add: off_circle_def algebra_simps)

lemma mid_down:
  assumes "mid_inv r x y" and "0 \<le> off_circle r x y + 2 * x + 1 - y"
  shows "near_circle r (x + 1) (y - 1)" and "x + 1 < y - 1 \<Longrightarrow> mid_inv r (x + 1) (y - 1)"
  using assms unfolding mid_inv_def near_circle_def off_circle_steps by (auto simp: abs_le_iff max_def)

lemma mid_straight:
  assumes "mid_inv r x y" and "off_circle r x y + 2 * x + 1 - y < 0"
  shows "near_circle r (x + 1) y" and "x + 1 < y \<Longrightarrow> mid_inv r (x + 1) y"
  using assms unfolding mid_inv_def near_circle_def off_circle_steps by (auto simp: abs_le_iff max_def)

lemma near_end:
  assumes "near_circle r x y" and "0 \<le> y" "y \<le> x" "x < a"
  shows "r * r < 2 * (a * a)"
proof -
  have "r * r \<le> x * x + y * y + x" using assms(1-3) unfolding near_circle_def off_circle_def by auto
  moreover have "y * y \<le> x * x" using assms(2,3) by (intro mult_mono) auto
  moreover have "(x + 1) * (x + 1) \<le> a * a" using assms(2-4) by (intro mult_mono) auto
  moreover have "(x + 1) * (x + 1) = x * x + 2 * x + 1" by (simp add: algebra_simps)
  ultimately show ?thesis using assms(2,3) by linarith
qed

lemma sint_small: "- 128 \<le> i \<Longrightarrow> i < 128 \<Longrightarrow> sint (word_of_int i :: u8) = i"
  by (simp add: signed_of_int signed_take_bit_int_eq_self)

lemma unat_uint_less: "x < (y :: u8) \<longleftrightarrow> uint x < uint y"
  by (simp add: word_less_def)

lemma circle_steps_near:
  assumes "f = word_of_int (off_circle r (uint x) (uint y) + 2 * uint x + 1 - uint y)"
    and "ddx = word_of_int (2 * uint x + 1)" and "ddy = word_of_int (- 2 * uint y)"
    and "r \<le> 63" and "x < y \<Longrightarrow> mid_inv r (uint x) (uint y)" and "near_circle r (uint x) (uint y)"
    and "0 \<le> r"
  shows "(\<forall>(a, b) \<in> set (circle_steps f ddx ddy x y). near_circle r (uint a) (uint b) \<and> uint a \<le> r \<and> uint b \<le> r) \<and>
    (\<forall>a. uint x < a \<and> 2 * (a * a) \<le> r * r \<longrightarrow> a \<in> uint ` fst ` set (circle_steps f ddx ddy x y))"
  using assms
proof (induction f ddx ddy x y rule: circle_steps.induct)
  case (1 f ddx ddy x y)
  define X Y d where "X = uint x" and "Y = uint y" and "d = off_circle r X Y"
  show ?case
  proof (cases "x < y")
    case False
    then have "Y \<le> X" by (simp add: X_def Y_def unat_uint_less)
    then have "r * r < 2 * (a * a)" if "X < a" for a
      using near_end [of r X Y a] 1(7) that uint_u8(1) [of y] by (simp add: X_def Y_def)
    with False show ?thesis
      by (auto simp: circle_steps.simps [of f] X_def dest: leD)
  next
    case xy: True
    note inv = 1(6) [OF xy, folded X_def Y_def, unfolded mid_inv_def, folded d_def]
    note r = uint_u8 [of x, folded X_def] uint_u8 [of y, folded Y_def]
    have x1: "uint (x + 1) = X + 1" and y1: "uint (y - 1) = Y - 1"
      using inv 1(5) r by (simp_all add: uint_u8_add uint_u8_sub flip: X_def Y_def)
    have sf: "sint f = d + 2 * X + 1 - Y"
      unfolding 1(2) X_def [symmetric] Y_def [symmetric] d_def [symmetric]
      using inv 1(5) by (intro sint_small) linarith+
    show ?thesis
    proof (cases "0 \<le> sint f")
      case True
      let ?f = "f + (ddy + 2)"
      have E: "off_circle r (uint (x + 1)) (uint (y - 1)) + 2 * uint (x + 1) + 1 - uint (y - 1) =
          off_circle r X Y + 2 * X + 1 - Y + (- 2 * Y + 2) + (2 * X + 1 + 2)"
        unfolding x1 y1 off_circle_steps by simp
      have F: "?f + (ddx + 2) = word_of_int (off_circle r (uint (x + 1)) (uint (y - 1)) + 2 * uint (x + 1) + 1 - uint (y - 1))"
        unfolding E unfolding 1(2-4) X_def [symmetric] Y_def [symmetric] by (simp only: of_int_add of_int_numeral)
      have DX: "ddx + 2 = word_of_int (2 * uint (x + 1) + 1)"
        unfolding 1(3) x1 by (simp add: X_def)
      have DY: "ddy + 2 = word_of_int (- 2 * uint (y - 1))"
        unfolding 1(4) y1 by (simp add: Y_def)
      note mid = mid_down [OF 1(6) [OF xy]]
      have c: "0 \<le> off_circle r (uint x) (uint y) + 2 * uint x + 1 - uint y" using True sf by (simp add: d_def X_def Y_def)
      have nr: "near_circle r (uint (x + 1)) (uint (y - 1))"
        using mid(1) [OF c] unfolding x1 y1 by (simp add: X_def Y_def)
      have nx: "x + 1 < y - 1 \<Longrightarrow> mid_inv r (uint (x + 1)) (uint (y - 1))"
        using mid(2) [OF c] unfolding unat_uint_less x1 y1 by (simp add: X_def Y_def)
      note IH = "1.IH" [OF xy refl, unfolded if_P [OF True], OF refl refl refl refl refl F DX DY 1(5) nx nr 1(8)]
      have step: "circle_steps f ddx ddy x y = (x + 1, y - 1) # circle_steps (?f + (ddx + 2)) (ddx + 2) (ddy + 2) (x + 1) (y - 1)"
        unfolding circle_steps.simps [of f] if_P [OF xy] if_P [OF True] Let_def prod.case ..
      show ?thesis
        unfolding step
      proof (intro conjI allI impI, goal_cases)
        case 1
        show ?case using IH [THEN conjunct1] nr inv by (simp add: x1 y1)
      next
        case (2 a)
        then show ?case
          using IH [THEN conjunct2, rule_format, of a] x1 by (cases "a = X + 1") (simp_all add: X_def)
      qed
    next
      case False
      let ?f = "f"
      have E: "off_circle r (uint (x + 1)) (uint (y)) + 2 * uint (x + 1) + 1 - uint (y) =
          off_circle r X Y + 2 * X + 1 - Y + (2 * X + 1 + 2)"
        unfolding x1 Y_def [symmetric] off_circle_steps by simp
      have F: "?f + (ddx + 2) = word_of_int (off_circle r (uint (x + 1)) (uint (y)) + 2 * uint (x + 1) + 1 - uint (y))"
        unfolding E unfolding 1(2-4) X_def [symmetric] Y_def [symmetric] by (simp only: of_int_add of_int_numeral)
      have DX: "ddx + 2 = word_of_int (2 * uint (x + 1) + 1)"
        unfolding 1(3) x1 by (simp add: X_def)
      have DY: "ddy = word_of_int (- 2 * uint (y))"
        unfolding 1(4) Y_def [symmetric] by (simp add: Y_def)
      note mid = mid_straight [OF 1(6) [OF xy]]
      have c: "off_circle r (uint x) (uint y) + 2 * uint x + 1 - uint y < 0" using False sf by (simp add: d_def X_def Y_def)
      have nr: "near_circle r (uint (x + 1)) (uint (y))"
        using mid(1) [OF c] unfolding x1 Y_def [symmetric] by (simp add: X_def Y_def)
      have nx: "x + 1 < y \<Longrightarrow> mid_inv r (uint (x + 1)) (uint (y))"
        using mid(2) [OF c] unfolding unat_uint_less x1 Y_def [symmetric] by (simp add: X_def Y_def)
      note IH = "1.IH" [OF xy refl, unfolded if_not_P [OF False], OF refl refl refl refl refl F DX DY 1(5) nx nr 1(8)]
      have step: "circle_steps f ddx ddy x y = (x + 1, y) # circle_steps (?f + (ddx + 2)) (ddx + 2) (ddy) (x + 1) (y)"
        unfolding circle_steps.simps [of f] if_P [OF xy] if_not_P [OF False] Let_def prod.case ..
      show ?thesis
        unfolding step
      proof (intro conjI allI impI, goal_cases)
        case 1
        show ?case using IH [THEN conjunct1] nr inv by (simp add: x1 Y_def [symmetric])
      next
        case (2 a)
        then show ?case
          using IH [THEN conjunct2, rule_format, of a] x1 by (cases "a = X + 1") (simp_all add: X_def)
      qed
    qed
  qed
qed

text \<open>The pixels that one step of the loop draws, in the quadrants of the option.\<close>

definition circle_pts :: "u8 \<Rightarrow> u8 \<Rightarrow> u8 \<Rightarrow> u8 \<times> u8 \<Rightarrow> (u8 \<times> u8) list" where
  "circle_pts x0 y0 option = (\<lambda>(x, y).
     (if option AND U8G2_DRAW_UPPER_RIGHT \<noteq> 0 then [(x0 + x, y0 - y), (x0 + y, y0 - x)] else []) @
     (if option AND U8G2_DRAW_UPPER_LEFT \<noteq> 0 then [(x0 - x, y0 - y), (x0 - y, y0 - x)] else []) @
     (if option AND U8G2_DRAW_LOWER_RIGHT \<noteq> 0 then [(x0 + x, y0 + y), (x0 + y, y0 + x)] else []) @
     (if option AND U8G2_DRAW_LOWER_LEFT \<noteq> 0 then [(x0 - x, y0 + y), (x0 - y, y0 + x)] else []))"

definition circle_area :: "u8 \<Rightarrow> u8 \<Rightarrow> u8 \<Rightarrow> (u8 \<times> u8) set \<Rightarrow> (int \<times> int) set" where
  "circle_area x0 y0 option P = (\<Union>p \<in> P. \<Union>q \<in> set (circle_pts x0 y0 option p). px_pts q)"

lemma doif_fun [simp]: "doif True f = f" "doif False f = Some"
  by (simp_all add: doif_def fun_eq_iff)

lemma circle_section_foldo:
  "u8g2_draw_circle_section u x y x0 y0 option = foldo draw_px (circle_pts x0 y0 option (x, y)) u"
  unfolding u8g2_draw_circle_section_def circle_pts_def prod.case foldo_append
  by (simp add: foldo_fun draw_px_def)

lemma round_range:
  assumes a: "uint a \<le> uint rad" and r: "uint rad \<le> 127"
  shows "uint (x0 + a) \<in> wrap_range (x0 - rad) (x0 + rad + 1)"
    and "uint (x0 - a) \<in> wrap_range (x0 - rad) (x0 + rad + 1)"
proof -
  have u: "int (unat a) = uint a" "int (unat rad) = uint rad" by simp_all
  have le: "unat a \<le> unat rad" "unat rad \<le> 127" using a r u by linarith+
  have "uint (2 * rad + 1) = 2 * uint rad + 1"
    using r uint_u8(1) [of rad] by (simp add: uint_word_ariths)
  moreover have "int (unat (2 * rad + 1)) = uint (2 * rad + 1)" by simp
  ultimately have h: "unat (2 * rad + 1) = 2 * unat rad + 1" using u(2) by linarith
  have e: "x0 - rad + (2 * rad + 1) = x0 + rad + 1" by simp
  have p: "x0 - rad + of_nat (unat rad + unat a) = x0 + a" by simp
  have m: "x0 - rad + of_nat (unat rad - unat a) = x0 - a" using le(1) by (simp add: of_nat_diff)
  show "uint (x0 + a) \<in> wrap_range (x0 - rad) (x0 + rad + 1)"
    using wrap_range_row [of "unat rad + unat a" "2 * rad + 1" "x0 - rad"] le h unfolding e p by simp
  show "uint (x0 - a) \<in> wrap_range (x0 - rad) (x0 + rad + 1)"
    using wrap_range_row [of "unat rad - unat a" "2 * rad + 1" "x0 - rad"] le h unfolding e m by simp
qed

lemma round_box: "uint rad \<le> 127 \<Longrightarrow> x0 - rad \<noteq> x0 + rad + (1 :: u8)"
proof
  assume r: "uint rad \<le> 127" and e: "x0 - rad = x0 + rad + 1"
  have "2 * rad + 1 = (x0 + rad + 1) - (x0 - rad)" by simp
  then have "2 * rad + 1 = 0" unfolding e by simp
  moreover have "uint (2 * rad + 1) = 2 * uint rad + 1"
    using r uint_u8(1) [of rad] by (simp add: uint_word_ariths)
  ultimately show False using uint_u8(1) [of rad] by simp
qed

lemma circle_pts_box:
  assumes "uint a \<le> uint rad" "uint b \<le> uint rad" "uint rad \<le> 127" and q: "q \<in> set (circle_pts x0 y0 option (a, b))"
  shows "px_pts q \<subseteq> wrap_range (x0 - rad) (x0 + rad + 1) \<times> wrap_range (y0 - rad) (y0 + rad + 1)"
  using q round_range [OF assms(1,3), of x0] round_range [OF assms(2,3), of x0]
    round_range [OF assms(1,3), of y0] round_range [OF assms(2,3), of y0]
  by (auto simp: circle_pts_def px_pts_def split: if_splits)

definition round_steps :: "u8 \<Rightarrow> (u8 \<times> u8) list" where
  "round_steps rad = (0, rad) # circle_steps (1 - rad) 1 ((0 - rad) * 2) 0 rad"

lemma draw_round_foldo:
  assumes "\<And>u x y. sect u x y = foldo act (pts (x, y)) u"
  shows "draw_round sect u rad = foldo act (concat (map pts (round_steps rad))) u"
  by (simp add: draw_round_def round_steps_def assms foldo_append circle_loop_steps [of sect act pts, OF assms])

lemma round_steps_near:
  assumes r: "uint rad \<le> 63"
  shows "\<forall>(a, b) \<in> set (round_steps rad).
      near_circle (uint rad) (uint a) (uint b) \<and> uint a \<le> uint rad \<and> uint b \<le> uint rad"
    and "0 \<le> a \<Longrightarrow> 2 * (a * a) \<le> uint rad * uint rad \<Longrightarrow> a \<in> uint ` fst ` set (round_steps rad)"
proof -
  have o: "off_circle (uint rad) 0 (uint rad) = 0" by (simp add: off_circle_def)
  have z: "near_circle (uint rad) (uint (0 :: u8)) (uint rad)" by (simp add: near_circle_def o)
  have m: "0 < rad \<Longrightarrow> mid_inv (uint rad) (uint (0 :: u8)) (uint rad)"
    by (simp add: mid_inv_def o word_less_def)
  have "(\<forall>(a, b) \<in> set (circle_steps (1 - rad) 1 ((0 - rad) * 2) 0 rad).
        near_circle (uint rad) (uint a) (uint b) \<and> uint a \<le> uint rad \<and> uint b \<le> uint rad) \<and>
      (\<forall>a. uint (0 :: u8) < a \<and> 2 * (a * a) \<le> uint rad * uint rad \<longrightarrow>
        a \<in> uint ` fst ` set (circle_steps (1 - rad) 1 ((0 - rad) * 2) 0 rad))"
    by (rule circle_steps_near [OF _ _ _ r m z]) (simp_all add: o uint_u8)
  then have c: "\<forall>(a, b) \<in> set (circle_steps (1 - rad) 1 ((0 - rad) * 2) 0 rad).
        near_circle (uint rad) (uint a) (uint b) \<and> uint a \<le> uint rad \<and> uint b \<le> uint rad"
    "\<And>a. 0 < a \<Longrightarrow> 2 * (a * a) \<le> uint rad * uint rad \<Longrightarrow>
       a \<in> uint ` fst ` set (circle_steps (1 - rad) 1 ((0 - rad) * 2) 0 rad)"
    by simp_all
  show "\<forall>(a, b) \<in> set (round_steps rad).
      near_circle (uint rad) (uint a) (uint b) \<and> uint a \<le> uint rad \<and> uint b \<le> uint rad"
    using c(1) z by (simp add: round_steps_def uint_u8)
  show "a \<in> uint ` fst ` set (round_steps rad)" if "0 \<le> a" "2 * (a * a) \<le> uint rad * uint rad"
    using c(2) [of a] that by (cases "a = 0") (auto simp: round_steps_def)
qed

lemma DrawCircle_draws:
  assumes ok: "view_ok u" and col: "solid u" and r: "uint rad \<le> 63"
  shows "\<exists>u'. u8g2_DrawCircle u x0 y0 rad option = Some u' \<and>
    draws u (circle_area x0 y0 option (set (round_steps rad))) u'"
proof -
  let ?B = "wrap_range (x0 - rad) (x0 + rad + 1) \<times> wrap_range (y0 - rad) (y0 + rad + 1)"
  have r127: "uint rad \<le> 127" using r by simp
  have box: "circle_area x0 y0 option (set (round_steps rad)) \<subseteq> ?B"
  proof (unfold circle_area_def, intro UN_least)
    fix p q
    assume p: "p \<in> set (round_steps rad)" and q: "q \<in> set (circle_pts x0 y0 option p)"
    have "uint (fst p) \<le> uint rad" "uint (snd p) \<le> uint rad"
      using bspec [OF round_steps_near(1) [OF r] p] by (auto split: prod.splits)
    from circle_pts_box [OF this r127] q show "px_pts q \<subseteq> ?B" by simp
  qed
  show ?thesis
  proof (cases "u8g2_IsIntersection u (x0 - rad) (y0 - rad) (x0 + rad + 1) (y0 + rad + 1) = 0")
    case True
    then have "window u \<inter> ?B = {}"
      using IsIntersection_window [OF view_okD(3,4) [OF ok] round_box [OF r127] round_box [OF r127], of x0 y0]
      by simp
    then have "circle_area x0 y0 option (set (round_steps rad)) \<inter> window u = {}" using box by blast
    with True draws_none [OF ok] show ?thesis by (simp add: u8g2_DrawCircle_def)
  next
    case False
    let ?c = "concat (map (circle_pts x0 y0 option) (round_steps rad))"
    obtain u' where "foldo draw_px ?c u = Some u'" "draws u (\<Union>a \<in> set ?c. px_pts a) u'"
      using px.fold_draws [OF ok _ disjI1 [OF col], of ?c] by auto
    moreover have "(\<Union>a \<in> set ?c. px_pts a) = circle_area x0 y0 option (set (round_steps rad))"
      by (simp add: circle_area_def)
    ultimately show ?thesis
      using False draw_round_foldo [of "\<lambda>u x y. u8g2_draw_circle_section u x y x0 y0 option",
        OF circle_section_foldo] by (simp add: u8g2_DrawCircle_def u8g2_draw_circle_def)
  qed
qed

section \<open>What lines draw\<close>

text \<open>The pixels of the loop of \<open>u8g2_DrawLine\<close>, along the longer side.\<close>

primrec line_pts :: "nat \<Rightarrow> u8 \<Rightarrow> u8 \<Rightarrow> u8 \<Rightarrow> u8 \<Rightarrow> u8 \<Rightarrow> u8 \<Rightarrow> (u8 \<times> u8) list" where
  "line_pts 0 dx dy ystep x y err = []"
| "line_pts (Suc n) dx dy ystep x y err =
     (x, y) # (let err = err - dy in
       if sint err < 0 then line_pts n dx dy ystep (x + 1) (y + ystep) (err + dx)
       else line_pts n dx dy ystep (x + 1) y err)"

definition swap_if :: "bool \<Rightarrow> 'a \<times> 'a \<Rightarrow> 'a \<times> 'a" where
  "swap_if b p = (if b then (snd p, fst p) else p)"

lemma line_loop_foldo:
  assumes "x2 \<noteq> 255" and "n = unat x2 + 1 - unat x"
  shows "line_loop swapxy dx dy ystep x2 u x y err =
    foldo draw_px (map (swap_if swapxy) (line_pts n dx dy ystep x y err)) u"
  using assms(2)
proof (induction n arbitrary: u x y err)
  case 0
  then have "\<not> x \<le> x2" by (simp add: word_le_nat_alt)
  then show ?case by (simp add: line_loop.simps [of _ _ _ _ _ u])
next
  case (Suc n)
  then have x: "x \<le> x2" by (simp add: word_le_nat_alt)
  have "unat x2 \<noteq> 255" using assms(1) by (simp add: word_unat_eq_iff)
  then have "unat x < 255" using x unat_u8_less [of x2] unfolding word_le_nat_alt by linarith
  then have "x < 255" by (simp add: word_less_nat_alt)
  then have n: "n = unat x2 + 1 - unat (x + 1)" using Suc.prems unat_inc [of x 255] by simp
  show ?case
    unfolding line_loop.simps [of _ _ _ _ _ u] using x Suc.IH [OF n]
    by (cases swapxy; cases "sint (err - dy) < 0"; simp add: draw_px_def swap_if_def Let_def)
qed

lemma line_pts_length [simp]: "length (line_pts n dx dy ystep x y err) = n"
  by (induction n arbitrary: x y err) (simp_all add: Let_def)

lemma line_pts_nth:
  assumes "uint dx \<le> 127" "uint dy \<le> uint dx" and "err = word_of_int E" "0 \<le> E" "E < uint dx \<or> E = 0"
    and "k < n"
  shows "\<exists>m \<ge> 0. line_pts n dx dy ystep x y err ! k = (x + of_nat k, y + ystep * of_int m) \<and>
    0 \<le> E - int k * uint dy + m * uint dx \<and>
    (E - int k * uint dy + m * uint dx < uint dx \<or> E - int k * uint dy + m * uint dx = 0)"
  using assms(3-6)
proof (induction n arbitrary: x y err E k)
  case 0
  then show ?case by simp
next
  case (Suc n)
  show ?case
  proof (cases k)
    case 0
    with Suc.prems show ?thesis by (intro exI [of _ 0]) auto
  next
    case k: (Suc j)
    note b = uint_u8 [of dx] uint_u8 [of dy]
    have s: "sint (err - dy) = E - uint dy"
    proof -
      have "err - dy = word_of_int (E - uint dy)" using Suc.prems(1) by simp
      then show ?thesis using Suc.prems(2,3) assms(1,2) b by (simp only:) (intro sint_small; linarith)
    qed
    show ?thesis
    proof (cases "sint (err - dy) < 0")
      case True
      let ?E = "E - uint dy + uint dx"
      have e: "err - dy + dx = word_of_int ?E" using Suc.prems(1) by simp
      have "0 \<le> ?E" "?E < uint dx \<or> ?E = 0" "j < n"
        using True s Suc.prems(2-4) assms(2) b unfolding k by linarith+
      from Suc.IH [OF e this, of "x + 1" "y + ystep"] obtain m where m: "0 \<le> m"
        "line_pts n dx dy ystep (x + 1) (y + ystep) (err - dy + dx) ! j =
           (x + 1 + of_nat j, y + ystep + ystep * of_int m)"
        "0 \<le> ?E - int j * uint dy + m * uint dx"
        "?E - int j * uint dy + m * uint dx < uint dx \<or> ?E - int j * uint dy + m * uint dx = 0" by blast
      have E: "E - int k * uint dy + (m + 1) * uint dx = ?E - int j * uint dy + m * uint dx"
        by (simp add: k algebra_simps)
      show ?thesis
        using m True unfolding E [symmetric]
        by (intro exI [of _ "m + 1"]) (simp add: k algebra_simps)
    next
      case False
      let ?E = "E - uint dy"
      have e: "err - dy = word_of_int ?E" using Suc.prems(1) by simp
      have "0 \<le> ?E" "?E < uint dx \<or> ?E = 0" "j < n"
        using False s Suc.prems(2-4) b unfolding k by linarith+
      from Suc.IH [OF e this, of "x + 1" y] obtain m where m: "0 \<le> m"
        "line_pts n dx dy ystep (x + 1) y (err - dy) ! j = (x + 1 + of_nat j, y + ystep * of_int m)"
        "0 \<le> ?E - int j * uint dy + m * uint dx"
        "?E - int j * uint dy + m * uint dx < uint dx \<or> ?E - int j * uint dy + m * uint dx = 0" by blast
      have E: "E - int k * uint dy + m * uint dx = ?E - int j * uint dy + m * uint dx"
        by (simp add: k algebra_simps)
      show ?thesis
        using m False unfolding E [symmetric] by (intro exI [of _ m]) (simp add: k algebra_simps)
    qed
  qed
qed

text \<open>A point within half a pixel of the line through two points, measured along the shorter side.\<close>

definition near_line :: "int \<times> int \<Rightarrow> int \<times> int \<Rightarrow> int \<times> int \<Rightarrow> bool" where
  "near_line P Q p =
     (2 * \<bar>(fst p - fst P) * (snd Q - snd P) - (snd p - snd P) * (fst Q - fst P)\<bar>
        \<le> max \<bar>fst Q - fst P\<bar> \<bar>snd Q - snd P\<bar>)"

lemma near_line_sym: "near_line P Q p = near_line Q P p"
proof -
  have "(fst p - fst Q) * (snd P - snd Q) - (snd p - snd Q) * (fst P - fst Q) =
      - ((fst p - fst P) * (snd Q - snd P) - (snd p - snd P) * (fst Q - fst P))"
    by (simp add: algebra_simps)
  then show ?thesis unfolding near_line_def by (simp only: abs_minus_cancel abs_minus_commute)
qed

lemma near_line_swap: "near_line (swap_if b P) (swap_if b Q) (swap_if b p) = near_line P Q p"
proof -
  have "(snd p - snd P) * (fst Q - fst P) - (fst p - fst P) * (snd Q - snd P) =
      - ((fst p - fst P) * (snd Q - snd P) - (snd p - snd P) * (fst Q - fst P))" by simp
  then show ?thesis unfolding near_line_def swap_if_def
    by (simp only: if_True if_False fst_conv snd_conv abs_minus_cancel max.commute split: if_split) simp
qed

definition int_pt :: "u8 \<times> u8 \<Rightarrow> int \<times> int" where
  "int_pt p = (uint (fst p), uint (snd p))"

text \<open>The loop along the longer side, from left to right.\<close>

lemma line_offset:
  fixes k d D E m :: int
  assumes E: "2 * E \<le> D" "D \<le> 2 * E + 1" and k: "0 < k" "k \<le> D" and d: "0 \<le> d" "d \<le> D" and m: "0 \<le> m"
    and t: "0 \<le> E - k * d + m * D" "E - k * d + m * D < D"
  shows "2 * \<bar>k * d - m * D\<bar> \<le> D" and "m \<le> k" and "m \<le> d" and "k = D \<Longrightarrow> m = d"
proof -
  have D: "0 < D" using k by simp
  have "2 * \<bar>P - Q\<bar> \<le> D" if "0 \<le> E - P + Q" "E - P + Q < D" for P Q
    using that E by arith
  from this [OF t] show "2 * \<bar>k * d - m * D\<bar> \<le> D" .
  have kd: "k * d \<le> k * D" "k * d \<le> D * d" using k d by (auto intro: mult_left_mono mult_right_mono)
  show "m \<le> k"
  proof (rule ccontr)
    assume "\<not> m \<le> k"
    then have "(k + 1) * D \<le> m * D" using D by (intro mult_right_mono) auto
    with t kd(1) E show False by (simp add: algebra_simps)
  qed
  show md: "m \<le> d"
  proof (rule ccontr)
    assume "\<not> m \<le> d"
    then have "(d + 1) * D \<le> m * D" using D by (intro mult_right_mono) auto
    with t kd(2) E show False by (simp add: algebra_simps)
  qed
  show "m = d" if "k = D"
  proof (rule ccontr)
    assume "m \<noteq> d"
    with md have "(m + 1) * D \<le> d * D" using D by (intro mult_right_mono) auto
    with t that E D show False by (simp add: algebra_simps)
  qed
qed

lemma line_points:
  fixes a1 a2 b1 b2 dx dy :: u8
  assumes dx: "uint dx \<le> 127" "uint dx = uint a2 - uint a1" and dy: "uint dy \<le> uint dx"
    and s: "s = 1 \<and> uint b2 = uint b1 + uint dy \<or> s = -1 \<and> uint b2 = uint b1 - uint dy"
    and k: "k \<le> unat dx"
  defines "q \<equiv> \<lambda>k. int_pt (line_pts (Suc (unat dx)) dx dy (word_of_int s) a1 b1 (drop_bit 1 dx) ! k)"
  shows "\<exists>m. q k = (uint a1 + int k, uint b1 + s * m) \<and> 2 * \<bar>int k * uint dy - m * uint dx\<bar> \<le> uint dx \<and>
    0 \<le> m \<and> m \<le> int k \<and> (int k = uint dx \<longrightarrow> m = uint dy)"
proof (cases "k = 0")
  case True
  have "uint dx = 0 \<Longrightarrow> uint dy = 0" using dy uint_u8(1) [of dy] by linarith
  with True show ?thesis by (intro exI [of _ 0]) (auto simp: q_def int_pt_def uint_u8)
next
  case False
  define D d E where "D = uint dx" and "d = uint dy" and "E = D div 2"
  note r = uint_u8 [of a1] uint_u8 [of a2] uint_u8 [of b1] uint_u8 [of b2] uint_u8 [of dx] uint_u8 [of dy]
  have "uint (drop_bit 1 dx) = E" by (simp add: E_def D_def drop_bit_eq_div uint_div)
  then have e: "drop_bit 1 dx = word_of_int E" by (metis word_of_int_uint)
  have kD: "0 < int k" "int k \<le> D" using False k by (simp_all add: D_def flip: of_nat_le_iff [where 'a = int])
  have E: "0 \<le> E" "E < uint dx \<or> E = 0" "2 * E \<le> D" "D \<le> 2 * E + 1" using r kD by (auto simp: E_def D_def)
  from line_pts_nth [OF dx(1) dy e E(1,2), of k "Suc (unat dx)" "word_of_int s" a1 b1] k
  obtain m where m: "0 \<le> m" "q k = int_pt (a1 + of_nat k, b1 + word_of_int s * word_of_int m)"
    "0 \<le> E - int k * d + m * D" "E - int k * d + m * D < D"
    unfolding q_def D_def d_def using kD(1,2) by (auto simp: D_def)
  have d: "0 \<le> d" "d \<le> D" using r dy by (simp_all add: d_def D_def)
  note off = line_offset [OF E(3,4) kD d m(1,3,4)]
  have "k < 256" using k unat_u8_less [of dx] by linarith
  then have "uint (of_nat k :: u8) = int k" by (simp add: uint_nat unat_of_nat)
  then have x: "uint (a1 + of_nat k) = uint a1 + int k"
    using dx(2) kD r by (simp add: uint_u8_add D_def)
  have "uint (word_of_int m :: u8) = m"
    using m(1) off(3) d r by (simp add: uint_word_of_int take_bit_eq_mod d_def)
  note wm = this
  have y: "uint (b1 + word_of_int s * word_of_int m) = uint b1 + s * m"
    using s
  proof
    assume "s = 1 \<and> uint b2 = uint b1 + uint dy"
    then show ?thesis using wm off(3) r by (simp add: uint_u8_add d_def)
  next
    assume a: "s = - 1 \<and> uint b2 = uint b1 - uint dy"
    then have "b1 + word_of_int s * word_of_int m = b1 - word_of_int m" by simp
    moreover have "uint (b1 - word_of_int m) = uint b1 - m"
      using a wm off(3) r by (simp add: uint_u8_sub d_def)
    ultimately show ?thesis using a by simp
  qed
  show ?thesis
    using m(1,2) off x y by (intro exI [of _ m]) (simp add: int_pt_def D_def d_def)
qed

lemma uint_distance: "uint (if (a :: u8) > b then a - b else b - a) = \<bar>uint b - uint a\<bar>"
  by (simp add: uint_u8_sub word_less_def)

lemma DrawLine_cases:
  assumes "x1 \<noteq> 255" "x2 \<noteq> 255" "y1 \<noteq> 255" "y2 \<noteq> 255"
  shows "\<exists>b a1 b1 a2 b2 dx dy s.
    u8g2_DrawLine u x1 y1 x2 y2 = line_loop b dx dy (word_of_int s) a2 u a1 b1 (drop_bit 1 dx) \<and>
    (swap_if b (a1, b1), swap_if b (a2, b2)) \<in> {((x1, y1), (x2, y2)), ((x2, y2), (x1, y1))} \<and>
    uint dx = uint a2 - uint a1 \<and> uint dy \<le> uint dx \<and> a2 \<noteq> 255 \<and>
    (s = 1 \<and> uint b2 = uint b1 + uint dy \<or> s = -1 \<and> uint b2 = uint b1 - uint dy) \<and>
    uint dx = max \<bar>uint x2 - uint x1\<bar> \<bar>uint y2 - uint y1\<bar>"
proof -
  let ?dx = "if x1 > x2 then x1 - x2 else x2 - x1" and ?dy = "if y1 > y2 then y1 - y2 else y2 - y1"
  note u = uint_distance [of x2 x1] uint_distance [of y2 y1]
  have lt: "v < w \<longleftrightarrow> uint v < uint w" for v w :: u8 by (simp add: word_less_def)
  show ?thesis
  proof (cases "?dy > ?dx")
    case True
    have m: "\<bar>uint x2 - uint x1\<bar> < \<bar>uint y2 - uint y1\<bar>" using iffD1 [OF lt True] unfolding u .
    show ?thesis
    proof (cases "y1 > y2")
      case y: True
      let ?s = "if x1 > x2 then 1 else -1"
      have "u8g2_DrawLine u x1 y1 x2 y2 =
          line_loop True ?dy ?dx (word_of_int ?s) y1 u y2 x2 (drop_bit 1 ?dy)"
        unfolding u8g2_DrawLine_def Let_def using True y assms by (simp split del: if_split) simp
      moreover have "uint ?dy = uint y1 - uint y2" using y [unfolded lt] unfolding u by arith
      moreover have "uint ?dx \<le> uint ?dy" unfolding u using m by simp
      moreover have "?s = 1 \<and> uint x1 = uint x2 + uint ?dx \<or> ?s = -1 \<and> uint x1 = uint x2 - uint ?dx"
        unfolding u by (simp add: abs_if lt)
      moreover have "uint ?dy = max \<bar>uint x2 - uint x1\<bar> \<bar>uint y2 - uint y1\<bar>" unfolding u using m by simp
      moreover have "(swap_if True (y2, x2), swap_if True (y1, x1)) \<in> {((x1, y1), (x2, y2)), ((x2, y2), (x1, y1))}"
        by (simp add: swap_if_def)
      ultimately show ?thesis using assms by blast
    next
      case y: False
      let ?s = "if x2 > x1 then 1 else -1"
      have "u8g2_DrawLine u x1 y1 x2 y2 =
          line_loop True ?dy ?dx (word_of_int ?s) y2 u y1 x1 (drop_bit 1 ?dy)"
        unfolding u8g2_DrawLine_def Let_def using True y assms by (simp split del: if_split) simp
      moreover have "uint ?dy = uint y2 - uint y1" using y [unfolded lt] unfolding u by arith
      moreover have "uint ?dx \<le> uint ?dy" unfolding u using m by simp
      moreover have "?s = 1 \<and> uint x2 = uint x1 + uint ?dx \<or> ?s = -1 \<and> uint x2 = uint x1 - uint ?dx"
        unfolding u by (simp add: abs_if lt)
      moreover have "uint ?dy = max \<bar>uint x2 - uint x1\<bar> \<bar>uint y2 - uint y1\<bar>" unfolding u using m by simp
      moreover have "(swap_if True (y1, x1), swap_if True (y2, x2)) \<in> {((x1, y1), (x2, y2)), ((x2, y2), (x1, y1))}"
        by (simp add: swap_if_def)
      ultimately show ?thesis using assms by blast
    qed
  next
    case False
    have "\<not> uint ?dx < uint ?dy" using False lt [of ?dx ?dy] by blast
    then have m: "\<bar>uint y2 - uint y1\<bar> \<le> \<bar>uint x2 - uint x1\<bar>" unfolding u not_less .
    show ?thesis
    proof (cases "x1 > x2")
      case x: True
      let ?s = "if y1 > y2 then 1 else -1"
      have "u8g2_DrawLine u x1 y1 x2 y2 =
          line_loop False ?dx ?dy (word_of_int ?s) x1 u x2 y2 (drop_bit 1 ?dx)"
        unfolding u8g2_DrawLine_def Let_def using False x assms by (simp split del: if_split) simp
      moreover have "uint ?dx = uint x1 - uint x2" using x [unfolded lt] unfolding u by arith
      moreover have "uint ?dy \<le> uint ?dx" unfolding u using m by simp
      moreover have "?s = 1 \<and> uint y1 = uint y2 + uint ?dy \<or> ?s = -1 \<and> uint y1 = uint y2 - uint ?dy"
        unfolding u by (simp add: abs_if lt)
      moreover have "uint ?dx = max \<bar>uint x2 - uint x1\<bar> \<bar>uint y2 - uint y1\<bar>" unfolding u using m by simp
      moreover have "(swap_if False (x2, y2), swap_if False (x1, y1)) \<in> {((x1, y1), (x2, y2)), ((x2, y2), (x1, y1))}"
        by (simp add: swap_if_def)
      ultimately show ?thesis using assms by blast
    next
      case x: False
      let ?s = "if y2 > y1 then 1 else -1"
      have "u8g2_DrawLine u x1 y1 x2 y2 =
          line_loop False ?dx ?dy (word_of_int ?s) x2 u x1 y1 (drop_bit 1 ?dx)"
        unfolding u8g2_DrawLine_def Let_def using False x assms by (simp split del: if_split) simp
      moreover have "uint ?dx = uint x2 - uint x1" using x [unfolded lt] unfolding u by arith
      moreover have "uint ?dy \<le> uint ?dx" unfolding u using m by simp
      moreover have "?s = 1 \<and> uint y2 = uint y1 + uint ?dy \<or> ?s = -1 \<and> uint y2 = uint y1 - uint ?dy"
        unfolding u by (simp add: abs_if lt)
      moreover have "uint ?dx = max \<bar>uint x2 - uint x1\<bar> \<bar>uint y2 - uint y1\<bar>" unfolding u using m by simp
      moreover have "(swap_if False (x1, y1), swap_if False (x2, y2)) \<in> {((x1, y1), (x2, y2)), ((x2, y2), (x1, y1))}"
        by (simp add: swap_if_def)
      ultimately show ?thesis using assms by blast
    qed
  qed
qed

text \<open>A path of pixels from one point to another that advances one pixel at a time along the longer
  side and stays within half a pixel of the ideal line.\<close>

definition ideal_path :: "int \<times> int \<Rightarrow> int \<times> int \<Rightarrow> nat \<Rightarrow> (nat \<Rightarrow> int \<times> int) \<Rightarrow> bool" where
  "ideal_path P Q n p =
     (int n = max \<bar>fst Q - fst P\<bar> \<bar>snd Q - snd P\<bar> \<and> {p 0, p n} = {P, Q} \<and>
      (\<forall>k \<le> n. near_line P Q (p k) \<and> max \<bar>fst (p k) - fst (p 0)\<bar> \<bar>snd (p k) - snd (p 0)\<bar> = int k))"

lemma ideal_path_swap:
  assumes "ideal_path P Q n p"
  shows "ideal_path (swap_if b P) (swap_if b Q) n (\<lambda>k. swap_if b (p k))"
proof -
  have "{p 0, p n} = {P, Q} \<Longrightarrow> {swap_if b (p 0), swap_if b (p n)} = {swap_if b P, swap_if b Q}"
    by (metis image_empty image_insert)
  with assms show ?thesis
    unfolding ideal_path_def near_line_swap by (auto simp: swap_if_def max.commute)
qed

lemma ideal_path_sym: "ideal_path P Q n p \<Longrightarrow> ideal_path Q P n p"
  unfolding ideal_path_def by (simp add: near_line_sym [of Q P] abs_minus_commute insert_commute)

lemma line_ideal:
  fixes a1 a2 b1 b2 dx dy :: u8
  assumes dx: "uint dx \<le> 127" "uint dx = uint a2 - uint a1" and dy: "uint dy \<le> uint dx"
    and s: "s = 1 \<and> uint b2 = uint b1 + uint dy \<or> s = -1 \<and> uint b2 = uint b1 - uint dy"
  defines "q \<equiv> \<lambda>k. int_pt (line_pts (Suc (unat dx)) dx dy (word_of_int s) a1 b1 (drop_bit 1 dx) ! k)"
  shows "ideal_path (int_pt (a1, b1)) (int_pt (a2, b2)) (unat dx) q"
proof -
  have pts: "\<exists>m. q k = (uint a1 + int k, uint b1 + s * m) \<and>
      2 * \<bar>int k * uint dy - m * uint dx\<bar> \<le> uint dx \<and> 0 \<le> m \<and> m \<le> int k \<and>
      (int k = uint dx \<longrightarrow> m = uint dy)" if "k \<le> unat dx" for k
    unfolding q_def using that by (rule line_points [OF dx dy s])
  have sd: "uint b2 - uint b1 = s * uint dy" "\<bar>s\<bar> = 1" "s * s = 1" using s by auto
  have M: "max \<bar>uint a2 - uint a1\<bar> \<bar>uint b2 - uint b1\<bar> = uint dx"
    unfolding sd(1) using dx(2) dy uint_u8(1) [of dx] sd(2) by (simp add: abs_mult uint_u8)
  have q0: "q 0 = (uint a1, uint b1)" by (simp add: q_def int_pt_def)
  have qn: "q (unat dx) = (uint a2, uint b2)" using pts [of "unat dx"] dx(2) sd(1) by auto
  have "near_line (uint a1, uint b1) (uint a2, uint b2) (q k) \<and>
      max \<bar>fst (q k) - uint a1\<bar> \<bar>snd (q k) - uint b1\<bar> = int k" if k: "k \<le> unat dx" for k
  proof -
    obtain m where m: "q k = (uint a1 + int k, uint b1 + s * m)" "2 * \<bar>int k * uint dy - m * uint dx\<bar> \<le> uint dx"
      "0 \<le> m" "m \<le> int k" using pts [OF k] by blast
    have "(uint a1 + int k - uint a1) * (uint b2 - uint b1) - (uint b1 + s * m - uint b1) * (uint a2 - uint a1) =
        s * (int k * uint dy - m * uint dx)"
      unfolding sd(1) dx(2) [symmetric] by (simp add: algebra_simps)
    then have "near_line (uint a1, uint b1) (uint a2, uint b2) (q k)"
      unfolding near_line_def m(1) fst_conv snd_conv M using m(2) sd(2) by (simp add: abs_mult)
    moreover have "max \<bar>fst (q k) - uint a1\<bar> \<bar>snd (q k) - uint b1\<bar> = int k"
      using m(1,3,4) sd(2) by (simp add: abs_mult)
    ultimately show ?thesis ..
  qed
  then show ?thesis unfolding ideal_path_def by (simp add: int_pt_def M q0 qn)
qed

lemma DrawLine_draws:
  assumes ok: "view_ok u" and col: "solid u"
    and c: "x1 \<noteq> 255" "x2 \<noteq> 255" "y1 \<noteq> 255" "y2 \<noteq> 255"
    and D: "max \<bar>uint x2 - uint x1\<bar> \<bar>uint y2 - uint y1\<bar> \<le> 127"
  shows "\<exists>u' n p. u8g2_DrawLine u x1 y1 x2 y2 = Some u' \<and> draws u (p ` {0..n}) u' \<and>
    ideal_path (uint x1, uint y1) (uint x2, uint y2) n p"
proof -
  obtain b a1 b1 a2 b2 dx dy s where line:
    "u8g2_DrawLine u x1 y1 x2 y2 = line_loop b dx dy (word_of_int s) a2 u a1 b1 (drop_bit 1 dx)"
    "(swap_if b (a1, b1), swap_if b (a2, b2)) \<in> {((x1, y1), (x2, y2)), ((x2, y2), (x1, y1))}"
    "uint dx = uint a2 - uint a1" "uint dy \<le> uint dx" "a2 \<noteq> 255"
    "s = 1 \<and> uint b2 = uint b1 + uint dy \<or> s = -1 \<and> uint b2 = uint b1 - uint dy"
    "uint dx = max \<bar>uint x2 - uint x1\<bar> \<bar>uint y2 - uint y1\<bar>"
    using DrawLine_cases [OF c, of u] by blast
  let ?L = "line_pts (Suc (unat dx)) dx dy (word_of_int s) a1 b1 (drop_bit 1 dx)"
  define p where "p = (\<lambda>k. swap_if b (int_pt (?L ! k)))"
  have "int (unat a2) = int (unat a1) + int (unat dx)" using line(3) by simp
  then have n: "Suc (unat dx) = unat a2 + 1 - unat a1" by linarith
  let ?c = "map (swap_if b) ?L"
  obtain u' where u': "foldo draw_px ?c u = Some u'" "draws u (\<Union>a \<in> set ?c. px_pts a) u'"
    using px.fold_draws [OF ok _ disjI1 [OF col], of ?c] by auto
  have "(\<Union>a \<in> set ?c. px_pts a) = p ` {0..unat dx}"
  proof -
    have L: "set ?L = (\<lambda>k. ?L ! k) ` {0..unat dx}"
      unfolding set_conv_nth line_pts_length by (auto simp: less_Suc_eq_le)
    have px: "px_pts (swap_if b a) = {swap_if b (int_pt a)}" for a
      by (simp add: px_pts_def swap_if_def int_pt_def)
    have "(\<Union>a \<in> set ?c. px_pts a) = (\<lambda>a. swap_if b (int_pt a)) ` set ?L"
      unfolding set_map UN_simps px by blast
    then show ?thesis unfolding L image_image p_def .
  qed
  moreover have "u8g2_DrawLine u x1 y1 x2 y2 = foldo draw_px ?c u"
    unfolding line(1) by (rule line_loop_foldo [OF line(5) n])
  moreover have "ideal_path (uint x1, uint y1) (uint x2, uint y2) (unat dx) p"
  proof -
    have "uint dx \<le> 127" using D line(7) by simp
    from ideal_path_swap [OF line_ideal [OF this line(3,4,6)], of b]
    have "ideal_path (swap_if b (int_pt (a1, b1))) (swap_if b (int_pt (a2, b2))) (unat dx) p"
      unfolding p_def .
    moreover have "swap_if b (int_pt z) = int_pt (swap_if b z)" for z by (simp add: swap_if_def int_pt_def)
    ultimately show ?thesis using line(2) ideal_path_sym by (auto simp: int_pt_def)
  qed
  ultimately show ?thesis using u' by metis
qed

section \<open>Ellipses: termination\<close>

text \<open>With both radii zero the first loop never changes its condition.\<close>

lemma ellipse_loop1_stuck:
  "ellipse_loop1 sect rxrx2 ryry2 u st = Some r \<Longrightarrow>
     \<not> (rxrx2 = 0 \<and> ryry2 = 0 \<and> snd (snd st) = (0, 0, 0, 0, 0))"
proof (induction sect rxrx2 ryry2 u st r rule: ellipse_loop1.raw_induct [rotated, consumes 1])
  case (1 loop sect rxrx2 ryry2 u st r)
  show ?case
  proof
    assume z: "rxrx2 = 0 \<and> ryry2 = 0 \<and> snd (snd st) = (0, 0, 0, 0, 0)"
    then obtain x y where st: "st = (x, y, 0, 0, 0, 0, 0)" by (cases st) auto
    with z 1(2) obtain u' where "loop sect rxrx2 ryry2 u' (x, y + 1, 0, 0, 0, 0, 0) = Some r"
      by (auto simp: Let_def split: bind_splits)
    from 1(1) [OF this] z show False by simp
  qed
qed

lemma draw_oval_zero: "draw_oval sect u 0 0 = None"
proof -
  have "ellipse_loop1 sect 0 0 u (0, 0, 0, 0, 0, 0, 0) = None"
    using ellipse_loop1_stuck [of sect 0 0 u "(0, 0, 0, 0, 0, 0, 0)"]
    by (cases "ellipse_loop1 sect 0 0 u (0, 0, 0, 0, 0, 0, 0)") auto
  then show ?thesis by (simp add: draw_oval_def Let_def)
qed

text \<open>Drawing that changes nothing but the contents of the buffer.\<close>

definition in_buffer :: "u8g2 \<Rightarrow> u8g2 \<Rightarrow> bool" where
  "in_buffer u u' = (\<exists>buf. u' = u\<lparr>tile_buf := buf\<rparr> \<and> length buf = length (tile_buf u))"

lemma in_buffer_draws: "draws u S u' \<Longrightarrow> in_buffer u u'"
  by (auto simp: draws_def in_buffer_def)

lemma in_buffer_refl [simp]: "in_buffer u u"
  unfolding in_buffer_def by (intro exI [of _ "tile_buf u"]) simp

lemma in_buffer_trans: "in_buffer u v \<Longrightarrow> in_buffer v w \<Longrightarrow> in_buffer u w"
  by (auto simp: in_buffer_def)

lemma in_buffer_view: "in_buffer u u' \<Longrightarrow> view_ok u' = view_ok u"
  by (auto simp: in_buffer_def view_ok_buf)

definition safe_section :: "(u8g2 \<Rightarrow> u8 \<Rightarrow> u8 \<Rightarrow> u8g2 option) \<Rightarrow> bool" where
  "safe_section sect = (\<forall>u x y. view_ok u \<longrightarrow> (\<exists>u'. sect u x y = Some u' \<and> in_buffer u u'))"

lemma sint_add_16:
  "- 32768 \<le> sint a + sint b \<Longrightarrow> sint a + sint b < 32768 \<Longrightarrow> sint ((a :: u16) + b) = sint a + sint b"
  by (simp add: sint_word_ariths signed_take_bit_int_eq_self)

lemma sint_sub_16:
  "- 32768 \<le> sint a - sint b \<Longrightarrow> sint a - sint b < 32768 \<Longrightarrow> sint ((a :: u16) - b) = sint a - sint b"
  by (simp add: sint_word_ariths signed_take_bit_int_eq_self)

lemma sint_u16: "- 32768 \<le> sint (a :: u16)" "sint (a :: u16) < 32768"
  using sint_ge [of a] sint_lt [of a] by simp_all

lemma ellipse_loop1_returns:
  assumes sect: "safe_section sect" and rx: "0 < sint rxrx2" and ry: "0 \<le> sint ryry2"
  shows "view_ok u \<Longrightarrow> 0 \<le> sint stopy \<Longrightarrow> sint stopx + sint rxrx2 < 32768 \<Longrightarrow>
    \<exists>u'. ellipse_loop1 sect rxrx2 ryry2 u (x, y, xchg, ychg, err, stopx, stopy) = Some u' \<and> in_buffer u u'"
proof (induction "nat (sint stopx - sint stopy + 1)" arbitrary: u x y xchg ychg err stopx stopy rule: less_induct)
  case less
  show ?case
  proof (cases "sint stopx \<ge> sint stopy")
    case False
    then show ?thesis by (simp add: ellipse_loop1.simps [of _ _ _ u])
  next
    case True
    obtain v where v: "sect u x y = Some v" "in_buffer u v"
      using sect less.prems(1) unfolding safe_section_def by blast
    have sy: "sint (stopy + rxrx2) = sint stopy + sint rxrx2"
      using True less.prems rx by (intro sint_add_16) linarith+
    have sx: "sint (stopx - ryry2) = sint stopx - sint ryry2"
      using True less.prems(2) ry sint_u16 [of ryry2] sint_u16 [of stopx] by (intro sint_sub_16) linarith+
    have ok: "view_ok v" using in_buffer_view [OF v(2)] less.prems(1) by simp
    have "\<exists>u'. ellipse_loop1 sect rxrx2 ryry2 v (x', y', xchg', ychg', err', stopx', stopy + rxrx2) = Some u' \<and> in_buffer v u'"
      if "stopx' = stopx \<or> stopx' = stopx - ryry2" for x' y' xchg' ychg' err' stopx'
    proof (rule less.hyps)
      have le: "sint stopx' \<le> sint stopx" using that sx ry by auto
      show "nat (sint stopx' - sint (stopy + rxrx2) + 1) < nat (sint stopx - sint stopy + 1)"
        using True sy rx le by simp
      show "sint stopx' + sint rxrx2 < 32768" using le less.prems(3) by simp
      show "0 \<le> sint (stopy + rxrx2)" using sy less.prems(2) rx by simp
    qed (rule ok)
    then show ?thesis
      using True v in_buffer_trans [OF v(2)]
      by (simp add: ellipse_loop1.simps [of _ _ _ u] Let_def) blast
  qed
qed

lemma ellipse_loop2_returns:
  assumes sect: "safe_section sect" and ry: "0 < sint ryry2" and rx: "0 \<le> sint rxrx2"
  shows "view_ok u \<Longrightarrow> 0 \<le> sint stopx \<Longrightarrow> sint stopy + sint ryry2 < 32768 \<Longrightarrow>
    \<exists>u'. ellipse_loop2 sect rxrx2 ryry2 u (x, y, xchg, ychg, err, stopx, stopy) = Some u' \<and> in_buffer u u'"
proof (induction "nat (sint stopy - sint stopx + 1)" arbitrary: u x y xchg ychg err stopx stopy rule: less_induct)
  case less
  show ?case
  proof (cases "sint stopx \<le> sint stopy")
    case False
    then show ?thesis by (simp add: ellipse_loop2.simps [of _ _ _ u])
  next
    case True
    obtain v where v: "sect u x y = Some v" "in_buffer u v"
      using sect less.prems(1) unfolding safe_section_def by blast
    have sx: "sint (stopx + ryry2) = sint stopx + sint ryry2"
      using True less.prems ry by (intro sint_add_16) linarith+
    have sy: "sint (stopy - rxrx2) = sint stopy - sint rxrx2"
      using True less.prems(2) rx sint_u16 [of rxrx2] sint_u16 [of stopy] by (intro sint_sub_16) linarith+
    have ok: "view_ok v" using in_buffer_view [OF v(2)] less.prems(1) by simp
    have "\<exists>u'. ellipse_loop2 sect rxrx2 ryry2 v (x', y', xchg', ychg', err', stopx + ryry2, stopy') = Some u' \<and> in_buffer v u'"
      if "stopy' = stopy \<or> stopy' = stopy - rxrx2" for x' y' xchg' ychg' err' stopy'
    proof (rule less.hyps)
      have le: "sint stopy' \<le> sint stopy" using that sy rx by auto
      show "nat (sint stopy' - sint (stopx + ryry2) + 1) < nat (sint stopy - sint stopx + 1)"
        using True sx ry le by simp
      show "sint stopy' + sint ryry2 < 32768" using le less.prems(3) by simp
      show "0 \<le> sint (stopx + ryry2)" using sx less.prems(2) ry by simp
    qed (rule ok)
    then show ?thesis
      using True v in_buffer_trans [OF v(2)]
      by (simp add: ellipse_loop2.simps [of _ _ _ u] Let_def) blast
  qed
qed

lemma sint_small_16: "- 32768 \<le> i \<Longrightarrow> i < 32768 \<Longrightarrow> sint (word_of_int i :: u16) = i"
  by (simp add: signed_of_int signed_take_bit_int_eq_self)

lemma ucast_word_of_int: "(ucast (x :: u8) :: u16) = word_of_int (uint x)"
  by (simp add: unsigned_ucast_eq)

lemma draw_oval_returns:
  assumes sect: "safe_section sect" and ok: "view_ok u" and pos: "0 < rx" "0 < ry"
    and b: "2 * uint ry * uint ry * uint rx + 2 * uint rx * uint rx < 32768"
      "2 * uint rx * uint rx * uint ry + 2 * uint ry * uint ry < 32768"
  shows "\<exists>u'. draw_oval sect u rx ry = Some u' \<and> in_buffer u u'"
proof -
  define X Y where "X = uint rx" and "Y = uint ry"
  have p: "0 < X" "0 < Y" using pos by (simp_all add: X_def Y_def word_less_def)
  have nn: "0 < X * X" "0 < Y * Y" "0 < Y * Y * X" "0 < X * X * Y" using p by simp_all
  have bb: "2 * (Y * Y * X) + 2 * (X * X) < 32768" "2 * (X * X * Y) + 2 * (Y * Y) < 32768"
    using b by (simp_all add: X_def Y_def mult.assoc)
  let ?rx2 = "ucast rx * ucast rx * 2 :: u16" and ?ry2 = "ucast ry * ucast ry * 2 :: u16"
  have w: "?rx2 = word_of_int (2 * (X * X))" "?ry2 = word_of_int (2 * (Y * Y))"
    "?ry2 * ucast rx = word_of_int (2 * (Y * Y * X))" "?rx2 * ucast ry = word_of_int (2 * (X * X * Y))"
    unfolding ucast_word_of_int X_def Y_def by (simp_all add: ac_simps)
  have s: "sint ?rx2 = 2 * (X * X)" "sint ?ry2 = 2 * (Y * Y)"
    "sint (?ry2 * ucast rx) = 2 * (Y * Y * X)" "sint (?rx2 * ucast ry) = 2 * (X * X * Y)"
    unfolding w(1) w(2) subgoal using nn bb by (intro sint_small_16; linarith)
    subgoal using nn bb by (intro sint_small_16; linarith)
    subgoal unfolding w(2) [symmetric] w(3) using nn bb by (intro sint_small_16; linarith)
    subgoal unfolding w(1) [symmetric] w(4) using nn bb by (intro sint_small_16; linarith)
    done
  have q: "0 < sint ?rx2" "0 \<le> sint ?rx2" "0 < sint ?ry2" "0 \<le> sint ?ry2"
    "sint (?ry2 * ucast rx) + sint ?rx2 < 32768" "sint (?rx2 * ucast ry) + sint ?ry2 < 32768"
    using s nn bb by linarith+
  have z: "0 \<le> sint (0 :: u16)" by simp
  let ?xchg = "(1 - ucast rx - ucast rx) * ucast ry * ucast ry :: u16" and ?ychg = "ucast rx * ucast rx :: u16"
  let ?xchg2 = "ucast ry * ucast ry :: u16" and ?ychg2 = "(1 - ucast ry - ucast ry) * ucast rx * ucast rx :: u16"
  have "\<exists>v. ellipse_loop1 sect ?rx2 ?ry2 u (rx, 0, ?xchg, ?ychg, 0, ?ry2 * ucast rx, 0) = Some v \<and> in_buffer u v"
    by (rule ellipse_loop1_returns [OF sect q(1,4) ok z q(5)])
  then obtain v where v: "ellipse_loop1 sect ?rx2 ?ry2 u (rx, 0, ?xchg, ?ychg, 0, ?ry2 * ucast rx, 0) = Some v"
    "in_buffer u v" by blast
  have ok': "view_ok v" using in_buffer_view [OF v(2)] ok by simp
  have "\<exists>u'. ellipse_loop2 sect ?rx2 ?ry2 v (0, ry, ?xchg2, ?ychg2, 0, 0, ?rx2 * ucast ry) = Some u' \<and> in_buffer v u'"
    by (rule ellipse_loop2_returns [OF sect q(3,2) ok' z q(6)])
  then obtain u' where u': "ellipse_loop2 sect ?rx2 ?ry2 v (0, ry, ?xchg2, ?ychg2, 0, 0, ?rx2 * ucast ry) = Some u'"
    "in_buffer v u'" by blast
  have "draw_oval sect u rx ry = Some u'" unfolding draw_oval_def Let_def v(1) using u'(1) by simp
  with in_buffer_trans [OF v(2) u'(2)] show ?thesis by blast
qed

lemma ellipse_section_safe: "safe_section (\<lambda>u x y. u8g2_draw_ellipse_section u x y x0 y0 option)"
  unfolding safe_section_def
proof (intro allI impI)
  fix u x y
  assume ok: "view_ok u"
  let ?c = "(if option AND U8G2_DRAW_UPPER_RIGHT \<noteq> 0 then [(x0 + x, y0 - y)] else []) @
     (if option AND U8G2_DRAW_UPPER_LEFT \<noteq> 0 then [(x0 - x, y0 - y)] else []) @
     (if option AND U8G2_DRAW_LOWER_RIGHT \<noteq> 0 then [(x0 + x, y0 + y)] else []) @
     (if option AND U8G2_DRAW_LOWER_LEFT \<noteq> 0 then [(x0 - x, y0 + y)] else [])"
  have e: "u8g2_draw_ellipse_section u x y x0 y0 option = foldo draw_px ?c u"
    unfolding u8g2_draw_ellipse_section_def foldo_append by (simp add: foldo_fun draw_px_def)
  have pixels: "\<exists>u'. foldo draw_px c u = Some u' \<and> in_buffer u u'" if "view_ok u" for c u
    using that
  proof (induction c arbitrary: u)
    case Nil
    then show ?case by simp
  next
    case (Cons a c)
    obtain v where v: "draw_px u a = Some v" "in_buffer u v"
      using px.act_draws [of u a] Cons.prems in_buffer_draws by blast
    with Cons.IH [of v] in_buffer_view [OF v(2)] Cons.prems in_buffer_trans [OF v(2)]
    show ?case by fastforce
  qed
  show "\<exists>u'. u8g2_draw_ellipse_section u x y x0 y0 option = Some u' \<and> in_buffer u u'"
    unfolding e by (rule pixels [OF ok])
qed

lemma apply_clip_window_color: "draw_color (u8g2_apply_clip_window u) = draw_color u"
  by (simp add: u8g2_apply_clip_window_def Let_def)

lemma update_page_win_color: "draw_color (update_page_win u) = draw_color u"
  by (cases "cb u") (simp_all add: update_page_win_def u8g2_update_page_win_r0_def
    u8g2_update_page_win_r1_def u8g2_update_page_win_r2_def u8g2_update_page_win_r3_def Let_def
    apply_clip_window_color)

lemma update_dimension_color: "draw_color (update_dimension u) = draw_color u"
  by (cases "cb u") (simp_all add: update_dimension_def u8g2_update_dimension_r0_def
    u8g2_update_dimension_r1_def u8g2_update_dimension_r2_def u8g2_update_dimension_r3_def
    u8g2_update_dimension_common_def Let_def)

lemma SetupBuffer_color: "draw_color (u8g2_SetupBuffer buf h ll rotation u) = 1"
  by (simp add: u8g2_SetupBuffer_def u8g2_SetMaxClipWindow_def Let_def update_page_win_color
    update_dimension_color)

lemma firmware_solid: "solid (u8g2_Setup_sh1106_i2c_128x64_winstar_f rotation u)"
proof -
  have "draw_color (u8g2_Setup_sh1106_i2c_128x64_winstar_f rotation u) = 1"
    by (simp add: u8g2_Setup_sh1106_i2c_128x64_winstar_f_def u8g2_m_16_8_f_def SetupBuffer_color)
  then show ?thesis by (simp add: solid_def)
qed

section \<open>The properties\<close>

text \<open>A filled box is exact: in every colour, the exclusive-or colour included, it paints each
  pixel of its rows once, cut to the user window; the early exit on boxes outside the window never
  skips a visible pixel.\<close>

theorem box_exact:
  assumes "view_ok u" and "w \<noteq> 0" and "h \<noteq> 0" and "range_clear x w (user_x1 u)"
  shows "\<exists>u'. u8g2_DrawBox u x y w h = Some u' \<and> draws u (box_area x y w h) u'"
  by (rule DrawBox_draws [OF assms])

theorem box_exact_witness:
  "\<exists>u'. u8g2_DrawBox (u8g2_Setup_sh1106_i2c_128x64_winstar_f U8G2_R0 u8g2_zero) 100 60 50 10 = Some u' \<and>
     draws (u8g2_Setup_sh1106_i2c_128x64_winstar_f U8G2_R0 u8g2_zero) (box_area 100 60 50 10) u'"
  by (rule box_exact [OF firmware_view(1)]) (simp_all add: range_clear_def)

text \<open>C28: circles are round: up to radius 63 the library paints exactly the mirror images of a set of
  points that all lie within half a pixel of the ideal circle and leave no column of the octant
  out; the bounding-box test never skips a visible pixel.\<close>

theorem circle_exact:
  assumes "view_ok u" and "solid u" and "uint rad \<le> 63"
  shows "\<exists>P u'. u8g2_DrawCircle u x0 y0 rad option = Some u' \<and> draws u (circle_area x0 y0 option P) u' \<and>
    (\<forall>p \<in> P. near_circle (uint rad) (uint (fst p)) (uint (snd p))) \<and>
    (\<forall>a \<ge> 0. 2 * (a * a) \<le> uint rad * uint rad \<longrightarrow> (\<exists>p \<in> P. uint (fst p) = a))"
proof -
  obtain u' where u': "u8g2_DrawCircle u x0 y0 rad option = Some u'"
    "draws u (circle_area x0 y0 option (set (round_steps rad))) u'"
    using DrawCircle_draws [OF assms] by blast
  note n = round_steps_near [OF assms(3)]
  have "\<forall>p \<in> set (round_steps rad). near_circle (uint rad) (uint (fst p)) (uint (snd p))" using n(1) by auto
  moreover have "\<forall>a \<ge> 0. 2 * (a * a) \<le> uint rad * uint rad \<longrightarrow>
      (\<exists>p \<in> set (round_steps rad). uint (fst p) = a)"
    using n(2) by (auto simp: image_iff Bex_def) metis
  ultimately show ?thesis using u' by blast
qed

theorem circle_exact_witness:
  "\<exists>P u'. u8g2_DrawCircle (u8g2_Setup_sh1106_i2c_128x64_winstar_f U8G2_R0 u8g2_zero) 120 30 20 15 = Some u' \<and>
    draws (u8g2_Setup_sh1106_i2c_128x64_winstar_f U8G2_R0 u8g2_zero) (circle_area 120 30 15 P) u' \<and>
    (\<forall>p \<in> P. near_circle (uint (20 :: u8)) (uint (fst p)) (uint (snd p))) \<and>
    (\<forall>a \<ge> 0. 2 * (a * a) \<le> uint (20 :: u8) * uint (20 :: u8) \<longrightarrow> (\<exists>p \<in> P. uint (fst p) = a))"
  by (rule circle_exact [OF firmware_view(1)]) (simp_all add: firmware_solid)

text \<open>C27: lines between points at most 127 apart follow the ideal line: a path from one end to the
  other, one pixel per column (or row) of the longer side, each within half a pixel of the line.\<close>

theorem line_exact:
  assumes "view_ok u" and "solid u" and "x1 \<noteq> 255" and "x2 \<noteq> 255" and "y1 \<noteq> 255" and "y2 \<noteq> 255"
    and "max \<bar>uint x2 - uint x1\<bar> \<bar>uint y2 - uint y1\<bar> \<le> 127"
  shows "\<exists>u' n p. u8g2_DrawLine u x1 y1 x2 y2 = Some u' \<and> draws u (p ` {0..n}) u' \<and>
    ideal_path (uint x1, uint y1) (uint x2, uint y2) n p"
  by (rule DrawLine_draws [OF assms])

theorem line_exact_witness:
  "\<exists>u' n p. u8g2_DrawLine (u8g2_Setup_sh1106_i2c_128x64_winstar_f U8G2_R0 u8g2_zero) 100 60 10 3 = Some u' \<and>
    draws (u8g2_Setup_sh1106_i2c_128x64_winstar_f U8G2_R0 u8g2_zero) (p ` {0..n}) u' \<and>
    ideal_path (uint (100 :: u8), uint (60 :: u8)) (uint (10 :: u8), uint (3 :: u8)) n p"
  by (rule line_exact [OF firmware_view(1)]) (simp_all add: firmware_solid)

text \<open>C29: an ellipse whose loop bounds fit 16 bits is finished: both loops end and nothing outside
  the buffer is touched, whatever the decision variables do.\<close>

theorem ellipse_returns:
  assumes "view_ok u" and "0 < rx" and "0 < ry"
    and "2 * uint ry * uint ry * uint rx + 2 * uint rx * uint rx < 32768"
    and "2 * uint rx * uint rx * uint ry + 2 * uint ry * uint ry < 32768"
  shows "\<exists>u'. u8g2_DrawEllipse u x0 y0 rx ry option = Some u' \<and> in_buffer u u'"
  using draw_oval_returns [OF ellipse_section_safe assms(1-5), of x0 y0 option]
  by (simp add: u8g2_DrawEllipse_def u8g2_draw_ellipse_def)

theorem ellipse_returns_witness:
  "\<exists>u'. u8g2_DrawEllipse (u8g2_Setup_sh1106_i2c_128x64_winstar_f U8G2_R0 u8g2_zero) 60 30 24 20 15 = Some u' \<and>
    in_buffer (u8g2_Setup_sh1106_i2c_128x64_winstar_f U8G2_R0 u8g2_zero) u'"
  by (rule ellipse_returns [OF firmware_view(1)]) simp_all

text \<open>C40: an ellipse with both radii zero, a single point, that meets the user window is never
  finished, filled or not.\<close>

theorem ellipse_zero_diverges:
  assumes "u8g2_IsIntersection u x0 y0 (x0 + 1) (y0 + 1) \<noteq> 0"
  shows "u8g2_DrawEllipse u x0 y0 0 0 option = None \<and> u8g2_DrawFilledEllipse u x0 y0 0 0 option = None"
  using assms by (simp add: u8g2_DrawEllipse_def u8g2_draw_ellipse_def u8g2_DrawFilledEllipse_def
    u8g2_draw_filled_ellipse_def draw_oval_zero)

theorem ellipse_zero_diverges_witness:
  "u8g2_DrawEllipse (u8g2_zero\<lparr>user_x1 := 128, user_y1 := 64\<rparr>) 10 10 0 0 15 = None \<and>
   u8g2_DrawFilledEllipse (u8g2_zero\<lparr>user_x1 := 128, user_y1 := 64\<rparr>) 10 10 0 0 15 = None"
  by (rule ellipse_zero_diverges)
    (simp add: u8g2_IsIntersection_def u8g2_is_intersection_decision_tree_def u8g2_zero_def)

end
