(* ===== verification/U8g2_Glyph.thy ===== *)
theory U8g2_Glyph
  imports U8g2_Font U8g2_Shapes
begin

text \<open>
  What the glyph procedures of u8g2_font.c draw: the bits of a glyph in the stream of a font, the
  runs they stand for, and the pixels these set.
\<close>

section \<open>The bit stream\<close>

definition font_bits :: "u8 list \<Rightarrow> bool list" where
  "font_bits bytes = concat (map (\<lambda>b. map (bit b) [0..<8]) bytes)"

lemma font_bits_Nil [simp]: "font_bits [] = []"
  by (simp add: font_bits_def)

lemma font_bits_Cons: "font_bits (b # bytes) = map (bit b) [0..<8] @ font_bits bytes"
  by (simp add: font_bits_def)

lemma length_font_bits [simp]: "length (font_bits bytes) = 8 * length bytes"
  by (induction bytes) (simp_all add: font_bits_Cons)

lemma font_bits_nth: "k < 8 * length bytes \<Longrightarrow> font_bits bytes ! k = bit (bytes ! (k div 8)) (k mod 8)"
proof (induction bytes arbitrary: k)
  case (Cons b bytes)
  show ?case
  proof (cases "k < 8")
    case False
    then have "k div 8 = Suc ((k - 8) div 8)" "k mod 8 = (k - 8) mod 8" by (simp_all add: le_div_geq le_mod_geq)
    with False Cons show ?thesis by (simp add: font_bits_Cons nth_append)
  qed (simp add: font_bits_Cons nth_append)
qed simp

lemma byte_split: "a = 8 * p + r \<Longrightarrow> r < 8 \<Longrightarrow> a div 8 = p \<and> a mod 8 = (r :: nat)"
  by (simp only: div_mult_self4 mod_mult_self4 mod_less) simp

text \<open>A number in \<open>n\<close> bits, the lowest first.\<close>

definition code :: "u8 \<Rightarrow> u8 \<Rightarrow> bool list" where
  "code n v = map (bit v) [0..<unat n]"

definition fits :: "u8 \<Rightarrow> u8 \<Rightarrow> bool" where
  "fits n v \<longleftrightarrow> n \<le> 8 \<and> unat v < 2 ^ unat n"

lemma fits_bit: "fits n v \<Longrightarrow> bit v i \<Longrightarrow> i < unat n"
proof (rule ccontr)
  assume f: "fits n v" and b: "bit v i" and "\<not> i < unat n"
  then have "(2 :: nat) ^ unat n \<le> 2 ^ i" by (intro power_increasing) simp_all
  with f have "unat v < 2 ^ i" unfolding fits_def by (meson less_le_trans)
  then have "\<not> odd (unat v div 2 ^ i)" by simp
  moreover have "odd (unat v div 2 ^ i)" using b bit_unsigned_iff [where ?'a = nat, of v i] by (simp add: bit_iff_odd)
  ultimately show False by blast
qed

definition upcoming :: "u8 list \<Rightarrow> u8g2_font_decode \<Rightarrow> bool list" where
  "upcoming bytes f = drop (8 * decode_ptr f + unat (decode_bit_pos f)) (font_bits bytes)"

lemma get_unsigned_bits_code:
  assumes pos: "decode_bit_pos f < 8" and v: "fits cnt v"
    and up: "upcoming bytes f = code cnt v @ rest" "8 \<le> length rest"
  shows "\<exists>p b. u8g2_font_decode_get_unsigned_bits bytes f cnt = Some (v, f\<lparr>decode_ptr := p, decode_bit_pos := b\<rparr>) \<and>
    b < 8 \<and> upcoming bytes (f\<lparr>decode_ptr := p, decode_bit_pos := b\<rparr>) = rest"
proof -
  define i where "i = 8 * decode_ptr f + unat (decode_bit_pos f)"
  define k where "k = unat (decode_bit_pos f)"
  have k: "k < 8" "unat cnt \<le> 8" "i = 8 * decode_ptr f + k"
    using pos v by (simp_all add: k_def i_def fits_def word_less_nat_alt word_le_nat_alt)
  have "8 * length bytes - i = unat cnt + length rest"
    using arg_cong [OF up(1), of length] by (simp add: upcoming_def i_def code_def)
  then have len: "i + unat cnt + 8 \<le> 8 * length bytes" using up(2) by linarith
  have bits: "bit v j = bit (bytes ! ((i + j) div 8)) ((i + j) mod 8)" if "j < unat cnt" for j
  proof -
    have "bit v j = (code cnt v @ rest) ! j" using that by (simp add: code_def nth_append)
    also have "\<dots> = font_bits bytes ! (i + j)"
      unfolding up(1) [symmetric] upcoming_def i_def [symmetric] using len by (intro nth_drop) simp
    finally show ?thesis using len that by (simp add: font_bits_nth)
  qed
  have rest: "drop (i + unat cnt) (font_bits bytes) = rest"
    using arg_cong [OF up(1), of "drop (unat cnt)"] by (simp add: upcoming_def i_def code_def add.commute)
  have cnt: "cnt < 32" "decode_bit_pos f \<le> 8" using k(2) pos by (simp_all add: word_less_nat_alt word_le_nat_alt)
  have sum: "unat (decode_bit_pos f + cnt) = k + unat cnt" using k by (simp add: k_def unat_word_ariths)
  show ?thesis
  proof (cases "k + unat cnt < 8")
    case True
    have in_byte: "(i + j) div 8 = decode_ptr f" "(i + j) mod 8 = k + j" if "j < unat cnt" for j
      using byte_split [of "i + j" "decode_ptr f" "k + j"] k(3) True that by simp_all
    have "drop_bit k (bytes ! decode_ptr f) AND ucast (push_bit (unat cnt) 1 - 1 :: u32) = v" (is "?a = v")
    proof (rule bit_word_eqI)
      fix j assume "j < LENGTH(8)"
      show "bit ?a j = bit v j"
        using bits [of j] in_byte [of j] fits_bit [OF v, of j] \<open>j < LENGTH(8)\<close>
        by (cases "j < unat cnt") (auto simp: bit_simps push_bit_of_1 simp flip: mask_eq_exp_minus_1)
    qed
    moreover have "\<not> 8 \<le> decode_bit_pos f + cnt" "decode_bit_pos f + cnt < 8" "decode_ptr f < length bytes"
      using True sum len k by (simp_all add: word_le_nat_alt word_less_nat_alt)
    ultimately show ?thesis
      using cnt k sum rest by (intro exI [of _ "decode_ptr f"] exI [of _ "decode_bit_pos f + cnt"])
        (simp add: u8g2_font_decode_get_unsigned_bits_def u8x8_pgm_read_def upcoming_def k_def [symmetric] add.assoc)
  next
    case False
    let ?b = "decode_bit_pos f + cnt - 8"
    have b: "8 \<le> decode_bit_pos f + cnt" "unat ?b = k + unat cnt - 8"
      using False sum by (simp_all add: word_le_nat_alt unat_sub)
    have s: "unat (8 - decode_bit_pos f) = 8 - k" using cnt by (simp add: unat_sub k_def)
    have "(drop_bit k (bytes ! decode_ptr f) OR ucast (push_bit (8 - k) (ucast (bytes ! (decode_ptr f + 1)) :: u32))) AND
        ucast (push_bit (unat cnt) 1 - 1 :: u32) = v" (is "?a = v")
    proof (rule bit_word_eqI)
      fix j assume j: "j < LENGTH(8)"
      show "bit ?a j = bit v j"
      proof (cases "j < unat cnt")
        case True
        show ?thesis
        proof (cases "k + j < 8")
          case in_first: True
          then have "(i + j) div 8 = decode_ptr f" "(i + j) mod 8 = k + j"
            using byte_split [of "i + j" "decode_ptr f" "k + j"] k(3) by simp_all
          then show ?thesis using bits [OF True] True in_first j
            by (auto simp: bit_simps push_bit_of_1 simp flip: mask_eq_exp_minus_1)
        next
          case in_second: False
          then have "(i + j) div 8 = decode_ptr f + 1" "(i + j) mod 8 = k + j - 8"
            using byte_split [of "i + j" "decode_ptr f + 1" "k + j - 8"] k True by simp_all
          moreover have "8 - k \<le> j" "j - (8 - k) = k + j - 8" using in_second k(1) by simp_all
          ultimately show ?thesis using bits [OF True] True in_second j k(1)
            by (auto simp: bit_simps push_bit_of_1 simp flip: mask_eq_exp_minus_1 dest: bit_imp_le_length)
        qed
      next
        case False
        then show ?thesis using fits_bit [OF v, of j] by (auto simp: bit_simps push_bit_of_1 simp flip: mask_eq_exp_minus_1)
      qed
    qed
    moreover have "decode_ptr f + 1 < length bytes" using False len k by linarith
    moreover have "?b < 8" "8 * (decode_ptr f + 1) + unat ?b = i + unat cnt"
      using b(2) False k by (simp_all add: word_less_nat_alt)
    ultimately show ?thesis
      using cnt b(1) s rest by (intro exI [of _ "decode_ptr f + 1"] exI [of _ ?b])
        (simp add: u8g2_font_decode_get_unsigned_bits_def u8x8_pgm_read_def upcoming_def k_def [symmetric])
  qed
qed

section \<open>What is shown\<close>

text \<open>The picture in the user's coordinates, and a change of it that leaves everything alone but the
  buffer and the variables of the text procedures.\<close>

definition shown :: "u8g2 \<Rightarrow> (u8 \<times> u8) picture" where
  "shown u = (\<lambda>(x, y). pixel u (rot u (uint x, uint y)))"

definition visible :: "u8g2 \<Rightarrow> u8 \<times> u8 \<Rightarrow> bool" where
  "visible u = (\<lambda>(x, y). (uint x, uint y) \<in> window u)"

definition text_only :: "u8g2 \<Rightarrow> u8g2 \<Rightarrow> bool" where
  "text_only u u' \<longleftrightarrow> (\<exists>buf fd c. length buf = length (tile_buf u) \<and>
     u' = u\<lparr>tile_buf := buf, font_decode := fd, draw_color := c\<rparr>)"

lemma text_only_upd:
  "length buf = length (tile_buf u) \<Longrightarrow> text_only u (u\<lparr>tile_buf := buf, font_decode := fd, draw_color := c\<rparr>)"
  unfolding text_only_def by blast

lemma text_only_trans: "text_only u v \<Longrightarrow> text_only v w \<Longrightarrow> text_only u w"
  unfolding text_only_def by (elim exE conjE) (simp, blast)

lemma text_onlyD:
  assumes "text_only u v"
  shows "view_ok v = view_ok u" "window v = window u" "rot v = rot u" "canvas_area v = canvas_area u"
    "visible v = visible u" "font v = font u" "font_info v = font_info u" "user_x0 v = user_x0 u"
    "user_x1 v = user_x1 u" "user_y0 v = user_y0 u" "user_y1 v = user_y1 u" "length (tile_buf v) = length (tile_buf u)"
    "font_calc_vref v = font_calc_vref u" "font_ref_ascent v = font_ref_ascent u"
    "font_ref_descent v = font_ref_descent u" "next_cb v = next_cb u"
  using assms unfolding text_only_def visible_def window_def rot_def canvas_area_def view_ok_def canvas_ok_def
    canvas_w_def canvas_h_def by (auto simp: Let_def cong: u8g2_cb.case_cong)

definition renders :: "u8g2 \<Rightarrow> (u8 \<times> u8 \<Rightarrow> bool \<Rightarrow> bool) \<Rightarrow> u8g2 \<Rightarrow> bool" where
  "renders u f u' \<longleftrightarrow> text_only u u' \<and> (\<forall>p. visible u p \<longrightarrow> shown u' p = f p (shown u p)) \<and>
     (\<forall>q \<in> canvas_area u. q \<notin> rot u ` window u \<longrightarrow> pixel u' q = pixel u q)"

lemma renders_trans:
  assumes "renders u f v" and "renders v g w"
  shows "renders u (\<lambda>p b. g p (f p b)) w"
proof -
  note t = text_onlyD [of u v]
  show ?thesis using assms t text_only_trans [of u v w] unfolding renders_def by auto
qed

lemma renders_cong: "(\<And>p b. visible u p \<Longrightarrow> f p b = g p b) \<Longrightarrow> renders u f v = renders u g v"
  unfolding renders_def by auto

text \<open>Setting the text variables changes nothing on the display.\<close>

lemma pixel_text: "pixel (u\<lparr>font_decode := fd\<rparr>) = pixel u" "pixel (u\<lparr>draw_color := c\<rparr>) = pixel u"
  "pixel (u\<lparr>next_cb := nx\<rparr>) = pixel u" "pixel (u\<lparr>utf8_state := st\<rparr>) = pixel u"
  "pixel (u\<lparr>encoding := en\<rparr>) = pixel u"
  by (simp_all add: pixel_def cell_of_def canvas_w_def fun_eq_iff cong: ll_hvline_fn.case_cong)

lemma renders_text:
  assumes "text_only u v" and "tile_buf v = tile_buf u"
  shows "renders u (\<lambda>p b. b) v"
proof -
  have "pixel v = pixel u"
    using assms unfolding text_only_def by (auto simp: pixel_def cell_of_def canvas_w_def fun_eq_iff cong: ll_hvline_fn.case_cong)
  then show ?thesis using assms(1) text_onlyD [OF assms(1)] unfolding renders_def by (auto simp: shown_def)
qed

lemma draws_renders:
  assumes ok: "view_ok u" and d: "draws u S v"
  shows "renders u (\<lambda>(x, y) b. if (uint x, uint y) \<in> S then paint (draw_color u) b else b) v"
proof -
  obtain buf where buf: "v = u\<lparr>tile_buf := buf\<rparr>" "length buf = length (tile_buf u)" using d by (rule draws_keeps)
  have "text_only u v" using text_only_upd [OF buf(2), of "draw_color u" "font_decode u"] buf(1) by simp
  moreover have "pixel v q = paint_on (draw_color u) (rot u ` (S \<inter> window u)) (pixel u) q" if "q \<in> canvas_area u" for q
    using d that unfolding draws_def by blast
  moreover have "rot u q \<in> canvas_area u" if "q \<in> window u" for q using rot_area [OF ok] that by blast
  moreover have "rot u q \<in> rot u ` (S \<inter> window u) \<longleftrightarrow> q \<in> S" if "q \<in> window u" for q
    using rot_inj [OF ok] that by (auto dest: inj_onD)
  moreover have "rot v = rot u" using buf(1) by simp
  ultimately show ?thesis unfolding renders_def shown_def visible_def paint_on_def by auto
qed

section \<open>Runs of pixels\<close>

text \<open>The coordinates of a pixel inside a glyph whose upper left corner is at \<open>(tx, ty)\<close>, for the
  four directions of writing.\<close>

definition glyph_x :: "u8 \<Rightarrow> u8 \<Rightarrow> u8 \<Rightarrow> u8 \<times> u8 \<Rightarrow> u8" where
  "glyph_x dir tx ty = (\<lambda>(x, y). if dir = 0 then x - tx else if dir = 1 then y - ty else if dir = 2 then tx - x else ty - y)"

definition glyph_y :: "u8 \<Rightarrow> u8 \<Rightarrow> u8 \<Rightarrow> u8 \<times> u8 \<Rightarrow> u8" where
  "glyph_y dir tx ty = (\<lambda>(x, y). if dir = 0 then y - ty else if dir = 1 then tx - x else if dir = 2 then ty - y else x - tx)"

lemma directions: "(dir :: u8) < 4 \<Longrightarrow> dir = 0 \<or> dir = 1 \<or> dir = 2 \<or> dir = 3"
proof -
  assume "dir < 4"
  then have "unat dir < 4" by (simp add: word_less_nat_alt)
  then have "unat dir = 0 \<or> unat dir = 1 \<or> unat dir = 2 \<or> unat dir = 3" by linarith
  then show ?thesis by (auto simp: word_unat_eq_iff)
qed

text \<open>A run of \<open>n\<close> pixels has room if it cannot reach the display again by wrapping around.\<close>

definition has_room :: "u8g2 \<Rightarrow> u8 \<Rightarrow> u8 \<Rightarrow> bool" where
  "has_room u dir n \<longleftrightarrow> uint n + uint (if dir AND 1 = 0 then user_x1 u else user_y1 u) \<le> 256"

lemma has_room_text: "text_only u v \<Longrightarrow> has_room v dir n = has_room u dir n"
  by (simp add: has_room_def text_onlyD)

lemma range_int:
  fixes a i len d :: int
  assumes "0 \<le> a" "a < 256" "0 \<le> i" "i < d" "d < 256" "0 \<le> len" "len < 256" "len + d \<le> 256"
    and "a + len < 256 \<or> d \<le> a"
  shows "(if 256 \<le> a + len then a - 256 else a) \<le> i \<and> i < (if 256 \<le> a + len then a - 256 else a) + len \<longleftrightarrow>
    (if a \<le> i then i - a else i - a + 256) < len"
  using assms by auto

lemma range_word:
  assumes "range_clear a len d" and "i < d" and "uint len + uint d \<le> 256"
  shows "range_start a len \<le> uint i \<and> uint i < range_start a len + uint len \<longleftrightarrow> i - a < len"
  unfolding range_start_def word_less_def [of "i - a"] uint_u8_sub [of i a]
  using assms by (intro range_int) (simp_all add: uint_u8 range_clear_def word_less_def word_le_def)

lemma room_clear:
  assumes "uint len + uint d \<le> 256" and "len \<noteq> 0"
  shows "range_clear a len d"
  using assms uint_u8 [of a] uint_u8 [of d] unfolding range_clear_def word_le_def by linarith

lemma mirrored:
  assumes "len \<noteq> 0"
  shows "i - (a - len + 1) < len \<longleftrightarrow> a - i < (len :: u8)"
proof -
  have e: "i - (a - len + 1) = len - 1 - (a - i)" by simp
  have "uint len \<noteq> 0" using assms by (simp add: word_uint_eq_iff)
  then have l: "1 \<le> uint len" using uint_u8(1) [of len] by linarith
  then have "uint (len - 1) = uint len - 1" by (simp add: uint_u8_sub)
  moreover define d where "d = uint (a - i)"
  then have "0 \<le> d" "d < 256" using uint_u8 [of "a - i"] by simp_all
  ultimately show ?thesis
    using l unfolding e word_less_def uint_u8_sub [of "len - 1"] d_def [symmetric] by auto
qed

lemma hv_line_word:
  assumes "view_ok u" and "len \<noteq> 0" and "dir < 4" and "has_room u dir len" and "visible u p"
  shows "(case p of (i, j) \<Rightarrow> (uint i, uint j) \<in> hv_line x y len dir) \<longleftrightarrow>
    glyph_y dir x y p = 0 \<and> glyph_x dir x y p < len"
proof -
  obtain i j where p: "p = (i, j)" by (cases p)
  have v: "i < user_x1 u" "j < user_y1 u" using assms(5) by (simp_all add: p visible_def window_def word_less_def)
  have r: "uint len + uint (if dir AND 1 = 0 then user_x1 u else user_y1 u) \<le> 256"
    using assms(4) by (simp add: has_room_def)
  from directions [OF assms(3)] show ?thesis
  proof (elim disjE)
    assume d: "dir = 0"
    show ?thesis using range_word [OF room_clear [OF _ assms(2), of _ x] v(1)] r
      by (simp add: d p hv_line_row glyph_x_def glyph_y_def) (auto simp: word_uint_eq_iff)
  next
    assume d: "dir = 1"
    show ?thesis using range_word [OF room_clear [OF _ assms(2), of _ y] v(2)] r
      by (simp add: d p hv_line_col glyph_x_def glyph_y_def) (auto simp: word_uint_eq_iff)
  next
    assume d: "dir = 2"
    show ?thesis using range_word [OF room_clear [OF _ assms(2), of _ "x - len + 1"] v(1)] r mirrored [OF assms(2)]
      by (simp add: d p hv_line_def hv_x_def hv_y_def iseg_mem glyph_x_def glyph_y_def) (auto simp: word_uint_eq_iff)
  next
    assume d: "dir = 3"
    show ?thesis using range_word [OF room_clear [OF _ assms(2), of _ "y - len + 1"] v(2)] r mirrored [OF assms(2)]
      by (simp add: d p hv_line_def hv_x_def hv_y_def iseg_mem glyph_x_def glyph_y_def) (auto simp: word_uint_eq_iff)
  qed
qed

text \<open>Drawing a line, in these coordinates.\<close>

definition on_run :: "u8 \<Rightarrow> u8 \<Rightarrow> u8 \<Rightarrow> u8 \<Rightarrow> u8 \<times> u8 \<Rightarrow> bool" where
  "on_run dir x y len p \<longleftrightarrow> glyph_y dir x y p = 0 \<and> glyph_x dir x y p < len"

lemma DrawHVLine_renders:
  assumes "view_ok u" and "dir < 4" and "has_room u dir len" and "draw_color u = c"
  shows "\<exists>buf. u8g2_DrawHVLine u x y len dir = Some (u\<lparr>tile_buf := buf\<rparr>) \<and>
    renders u (\<lambda>p b. if on_run dir x y len p then paint c b else b) (u\<lparr>tile_buf := buf\<rparr>)"
proof (cases "len = 0")
  case True
  have "renders u (\<lambda>p b. b) u" using text_only_upd [of "tile_buf u" u "draw_color u" "font_decode u"] by (intro renders_text) simp_all
  then show ?thesis using True by (intro exI [of _ "tile_buf u"]) (simp add: u8g2_DrawHVLine_def on_run_def)
next
  case False
  have "hv_clear u x y len dir"
    using assms(3) room_clear [OF _ False] by (auto simp: hv_clear_def has_room_def)
  from DrawHVLine_draws [OF assms(1) False this] obtain v where
    v: "u8g2_DrawHVLine u x y len dir = Some v" "draws u (hv_line x y len dir) v" by blast
  from draws_keeps [OF v(2)] obtain buf where buf: "v = u\<lparr>tile_buf := buf\<rparr>" by blast
  have "renders u (\<lambda>(i, j) b. if (uint i, uint j) \<in> hv_line x y len dir then paint c b else b) v"
    using draws_renders [OF assms(1) v(2)] unfolding assms(4) .
  then have "renders u (\<lambda>p b. if on_run dir x y len p then paint c b else b) v"
  proof (rule iffD1 [OF renders_cong, rotated])
    fix p b
    assume "visible u p"
    from hv_line_word [OF assms(1) False assms(2,3) this, of x y]
    show "(case p of (i, j) \<Rightarrow> \<lambda>b. if (uint i, uint j) \<in> hv_line x y len dir then paint c b else b) b =
        (if on_run dir x y len p then paint c b else b)"
      by (cases p) (simp add: on_run_def)
  qed
  with v(1) buf show ?thesis by blast
qed

text \<open>A run of a glyph that starts at the local position \<open>(lx, ly)\<close> is the pixels whose local
  coordinates lie on it.\<close>

lemma on_run_glyph:
  "on_run dir (u8g2_add_vector_x tx lx ly dir) (u8g2_add_vector_y ty lx ly dir) len p \<longleftrightarrow>
     glyph_y dir tx ty p = ly \<and> glyph_x dir tx ty p - lx < len"
proof -
  obtain i j where p: "p = (i, j)" by (cases p)
  have e: "a - (b + c) = 0 \<longleftrightarrow> a - b = c" "b - c - a = 0 \<longleftrightarrow> b - a = c" for a b c :: u8
    by (auto simp: algebra_simps)
  show ?thesis
    unfolding on_run_def p glyph_x_def glyph_y_def u8g2_add_vector_x_def u8g2_add_vector_y_def prod.case
    by (auto simp: e algebra_simps)
qed

section \<open>A run of a glyph\<close>

text \<open>The number of a pixel of a glyph of width \<open>w\<close>, row by row, and what painting it does.\<close>

definition glyph_index :: "u8g2_font_decode \<Rightarrow> u8 \<times> u8 \<Rightarrow> nat" where
  "glyph_index f p = unat (glyph_y (fd_dir f) (target_x f) (target_y f) p) * unat (glyph_width f) +
     unat (glyph_x (fd_dir f) (target_x f) (target_y f) p)"

definition in_columns :: "u8g2_font_decode \<Rightarrow> u8 \<times> u8 \<Rightarrow> bool" where
  "in_columns f p \<longleftrightarrow> glyph_x (fd_dir f) (target_x f) (target_y f) p < glyph_width f"

definition ink :: "u8g2_font_decode \<Rightarrow> bool \<Rightarrow> bool \<Rightarrow> bool" where
  "ink f on b = (if on then paint (fg_color f) b else if is_transparent f = 0 then paint (bg_color f) b else b)"

definition run_effect :: "u8g2_font_decode \<Rightarrow> nat \<Rightarrow> nat \<Rightarrow> bool \<Rightarrow> u8 \<times> u8 \<Rightarrow> bool \<Rightarrow> bool" where
  "run_effect f n k on p b =
     (if in_columns f p \<and> n \<le> glyph_index f p \<and> glyph_index f p < n + k then ink f on b else b)"

lemma draw_run_renders:
  assumes "view_ok u" and "fd_dir (font_decode u) < 4" and "has_room u (fd_dir (font_decode u)) len"
  shows "\<exists>buf c. draw_run u lx ly len fg = Some (u\<lparr>tile_buf := buf, draw_color := c\<rparr>) \<and>
    renders u (\<lambda>p b. if glyph_y (fd_dir (font_decode u)) (target_x (font_decode u)) (target_y (font_decode u)) p = ly \<and>
        glyph_x (fd_dir (font_decode u)) (target_x (font_decode u)) (target_y (font_decode u)) p - lx < len
      then ink (font_decode u) (fg \<noteq> 0) b else b) (u\<lparr>tile_buf := buf, draw_color := c\<rparr>)"
proof -
  let ?f = "font_decode u"
  let ?x = "u8g2_add_vector_x (target_x ?f) lx ly (fd_dir ?f)"
  let ?y = "u8g2_add_vector_y (target_y ?f) lx ly (fd_dir ?f)"
  have colour: "\<exists>buf. u8g2_DrawHVLine (u\<lparr>draw_color := c\<rparr>) ?x ?y len (fd_dir ?f) = Some (u\<lparr>tile_buf := buf, draw_color := c\<rparr>) \<and>
      renders u (\<lambda>p b. if on_run (fd_dir ?f) ?x ?y len p then paint c b else b) (u\<lparr>tile_buf := buf, draw_color := c\<rparr>)" for c
  proof -
    let ?v = "u\<lparr>draw_color := c\<rparr>"
    have t: "text_only u ?v" using text_only_upd [of "tile_buf u" u c ?f] by simp
    have "view_ok ?v" "has_room ?v (fd_dir ?f) len"
      using assms text_onlyD(1) [OF t] has_room_text [OF t] by simp_all
    from DrawHVLine_renders [OF this(1) assms(2) this(2), of c ?x ?y] obtain buf where
      "u8g2_DrawHVLine ?v ?x ?y len (fd_dir ?f) = Some (?v\<lparr>tile_buf := buf\<rparr>)"
      "renders ?v (\<lambda>p b. if on_run (fd_dir ?f) ?x ?y len p then paint c b else b) (?v\<lparr>tile_buf := buf\<rparr>)" by auto
    moreover have "?v\<lparr>tile_buf := buf\<rparr> = u\<lparr>tile_buf := buf, draw_color := c\<rparr>" by simp
    ultimately show ?thesis using renders_trans [OF renders_text [OF t]] by (metis (no_types, lifting) u8g2.select_convs(3) u8g2.surjective u8g2.update_convs(31))
  qed
  show ?thesis
  proof (cases "fg = 0 \<and> is_transparent ?f \<noteq> 0")
    case True
    have "renders u (\<lambda>p b. b) u" using text_only_upd [of "tile_buf u" u "draw_color u" ?f] by (intro renders_text) simp_all
    then have R: "renders u (\<lambda>p b. if Q p then ink ?f (fg \<noteq> 0) b else b) u" for Q
      by (rule iffD1 [OF renders_cong, rotated]) (use True in \<open>simp add: ink_def\<close>)
    have D: "draw_run u lx ly len fg = Some u" using True by (simp add: draw_run_def Let_def)
    have e: "u\<lparr>tile_buf := tile_buf u, draw_color := draw_color u\<rparr> = u" by simp
    show ?thesis by (rule exI [of _ "tile_buf u"], rule exI [of _ "draw_color u"], unfold e, intro conjI D R)
  next
    case False
    define c where "c = (if fg \<noteq> 0 then fg_color ?f else bg_color ?f)"
    obtain buf where buf: "u8g2_DrawHVLine (u\<lparr>draw_color := c\<rparr>) ?x ?y len (fd_dir ?f) = Some (u\<lparr>tile_buf := buf, draw_color := c\<rparr>)"
        "renders u (\<lambda>p b. if on_run (fd_dir ?f) ?x ?y len p then paint c b else b) (u\<lparr>tile_buf := buf, draw_color := c\<rparr>)"
      using colour by blast
    have D: "draw_run u lx ly len fg = Some (u\<lparr>tile_buf := buf, draw_color := c\<rparr>)"
      using False buf(1) by (cases "fg = 0") (simp_all add: draw_run_def Let_def c_def)
    have I: "ink ?f (fg \<noteq> 0) = paint c" using False by (auto simp: ink_def c_def fun_eq_iff)
    show ?thesis unfolding I by (intro exI conjI) (rule D, rule buf(2) [unfolded on_run_glyph])
  qed
qed

lemma run_index:
  assumes w: "0 < unat (glyph_width f)" and m: "n mod unat (glyph_width f) + unat m \<le> unat (glyph_width f)"
    and rows: "n div unat (glyph_width f) < 256"
  shows "glyph_y (fd_dir f) (target_x f) (target_y f) p = of_nat (n div unat (glyph_width f)) \<and>
      glyph_x (fd_dir f) (target_x f) (target_y f) p - of_nat (n mod unat (glyph_width f)) < m \<longleftrightarrow>
    in_columns f p \<and> n \<le> glyph_index f p \<and> glyph_index f p < n + unat m" (is "?Y = ?ly \<and> ?X - ?lx < m \<longleftrightarrow> _")
proof -
  let ?w = "unat (glyph_width f)"
  define x y lx ly where d: "x = unat ?X" "y = unat ?Y" "lx = n mod ?w" "ly = n div ?w"
  have b: "lx < ?w" "?w < 256" "x < 256" using w unat_u8_less [of "glyph_width f"] unat_u8_less [of ?X] by (simp_all add: d)
  have "lx < 256" "ly < 256" using b(1,2) rows by (linarith, simp add: d(4))
  then have u: "unat ?lx = lx" "unat ?ly = ly" unfolding d(3,4) [symmetric] by (simp_all add: unat_of_nat)
  have n: "n = ly * ?w + lx" by (simp add: d)
  have Y: "?Y = ?ly \<longleftrightarrow> y = ly" using u(2) by (simp add: word_unat_eq_iff d)
  have "unat (?X - ?lx) = (if lx \<le> x then x - lx else x + 256 - lx)"
    using u(1) b by (simp add: unat_sub_if' d)
  moreover have "\<not> lx \<le> x \<Longrightarrow> \<not> x + 256 - lx < unat m" using m b(2) unfolding d(3) [symmetric] by linarith
  ultimately have X: "?X - ?lx < m \<longleftrightarrow> lx \<le> x \<and> x < lx + unat m"
    unfolding word_less_nat_alt by auto
  have C: "in_columns f p \<longleftrightarrow> x < ?w" by (simp add: in_columns_def d word_less_nat_alt)
  have R: "y = ly \<and> lx \<le> x \<and> x < lx + unat m \<longleftrightarrow> x < ?w \<and> n \<le> y * ?w + x \<and> y * ?w + x < n + unat m"
  proof
    assume r: "x < ?w \<and> n \<le> y * ?w + x \<and> y * ?w + x < n + unat m"
    moreover have "lx + unat m \<le> ?w" using m unfolding d(3) .
    ultimately have "y * ?w + x < (ly + 1) * ?w" "ly * ?w \<le> y * ?w + x" by (simp_all add: n)
    then have "(y * ?w + x) div ?w = ly" by (intro div_nat_eqI) (simp_all add: ac_simps)
    then have "y = ly" using r by simp
    with r show "y = ly \<and> lx \<le> x \<and> x < lx + unat m" by (simp add: n)
  next
    assume "y = ly \<and> lx \<le> x \<and> x < lx + unat m"
    moreover have "lx + unat m \<le> ?w" using m unfolding d(3) .
    ultimately show "x < ?w \<and> n \<le> y * ?w + x \<and> y * ?w + x < n + unat m" by (simp add: n)
  qed
  show ?thesis unfolding Y X C R glyph_index_def d(1,2) [symmetric] ..
qed

lemma split_div: "a = w * p + r \<Longrightarrow> r < w \<Longrightarrow> a div w = p \<and> a mod w = (r :: nat)"
  by auto

lemma within_row:
  fixes a k w :: nat
  assumes "a mod w + k < w"
  shows "(a + k) mod w = a mod w + k" "(a + k) div w = a div w"
  using split_div [OF _ assms, of "a + k" "a div w"] by simp_all

lemma to_row_end:
  assumes "0 < w"
  shows "n + (w - n mod w) = (n div w + 1) * (w :: nat)"
proof -
  have "(n div w + 1) * w = n div w * w + w" by simp
  then show ?thesis using div_mult_mod_eq [of n w] mod_less_divisor [OF assms, of n] by linarith
qed

lemma draw_run_effect:
  assumes "view_ok u" and "fd_dir (font_decode u) < 4" and "has_room u (fd_dir (font_decode u)) len"
    and "n mod unat (glyph_width (font_decode u)) + unat len \<le> unat (glyph_width (font_decode u))"
    and "0 < unat (glyph_width (font_decode u))" and "n div unat (glyph_width (font_decode u)) < 256"
  shows "\<exists>buf c. draw_run u (of_nat (n mod unat (glyph_width (font_decode u)))) (of_nat (n div unat (glyph_width (font_decode u)))) len fg
      = Some (u\<lparr>tile_buf := buf, draw_color := c\<rparr>) \<and>
    renders u (run_effect (font_decode u) n (unat len) (fg \<noteq> 0)) (u\<lparr>tile_buf := buf, draw_color := c\<rparr>)"
  using draw_run_renders [OF assms(1-3), of "of_nat (n mod unat (glyph_width (font_decode u)))"
      "of_nat (n div unat (glyph_width (font_decode u)))" fg]
  unfolding run_index [OF assms(5,4,6)] run_effect_def [abs_def] .

lemma run_effect_comp:
  "run_effect f (n + k) m on p (run_effect f n k on p b) = run_effect f n (k + m) on p b"
  by (auto simp: run_effect_def)

text \<open>The cursor after \<open>n\<close> pixels.\<close>

definition moved :: "u8g2_font_decode \<Rightarrow> nat \<Rightarrow> u8g2_font_decode" where
  "moved f n = f\<lparr>fd_x := of_nat (n mod unat (glyph_width f)), fd_y := of_nat (n div unat (glyph_width f))\<rparr>"

lemma room_less: "has_room u dir n \<Longrightarrow> m \<le> n \<Longrightarrow> has_room u dir m"
  by (simp add: has_room_def word_le_def)

lemma cursor_step:
  assumes "lx = of_nat (n mod unat w)" and "0 < unat w"
  shows "unat (w - lx :: u8) = unat w - n mod unat w" "unat lx = n mod unat w"
proof -
  have "n mod unat w < 256" using assms(2) unat_u8_less [of w] mod_less_divisor [of "unat w" n] by linarith
  then show l: "unat lx = n mod unat w" by (simp add: assms(1) unat_of_nat)
  then show "unat (w - lx) = unat w - n mod unat w"
    using assms(2) by (simp add: unat_sub word_le_nat_alt less_imp_le)
qed

lemma decode_len_loop_renders:
  assumes "view_ok u" and "fd_dir (font_decode u) < 4"
    and "has_room u (fd_dir (font_decode u)) (glyph_width (font_decode u))"
    and "0 < unat (glyph_width (font_decode u))" and "n + unat cnt < 256 * unat (glyph_width (font_decode u))"
    and "lx = of_nat (n mod unat (glyph_width (font_decode u)))"
    and "ly = of_nat (n div unat (glyph_width (font_decode u)))"
  shows "\<exists>buf c. decode_len_loop fg u cnt lx ly =
      Some (u\<lparr>tile_buf := buf, font_decode := moved (font_decode u) (n + unat cnt), draw_color := c\<rparr>) \<and>
    renders u (run_effect (font_decode u) n (unat cnt) (fg \<noteq> 0))
      (u\<lparr>tile_buf := buf, font_decode := moved (font_decode u) (n + unat cnt), draw_color := c\<rparr>)"
  using assms
proof (induction "unat cnt" arbitrary: u cnt n lx ly rule: less_induct)
  case less
  let ?f = "font_decode u"
  let ?w = "unat (glyph_width ?f)"
  define rem where "rem = glyph_width ?f - lx"
  define current where "current = (if cnt < rem then cnt else rem)"
  note cs = cursor_step [OF less.prems(6,4)]
  have rem: "unat rem = ?w - n mod ?w" "0 < unat rem" using cs(1) less.prems(4) by (simp_all add: rem_def)
  have cur: "unat current = min (unat cnt) (unat rem)" by (auto simp: current_def word_less_nat_alt)
  have row: "n div ?w < 256" using less.prems(4,5) by (intro less_mult_imp_div_less) simp
  have fit: "n mod ?w + unat current \<le> ?w" using cur rem by linarith
  have "current \<le> glyph_width ?f" using fit unfolding word_le_nat_alt by linarith
  from draw_run_effect [OF less.prems(1,2) room_less [OF less.prems(3) this] fit less.prems(4) row, of fg]
  obtain b1 c1 where u1: "draw_run u lx ly current fg = Some (u\<lparr>tile_buf := b1, draw_color := c1\<rparr>)"
    "renders u (run_effect ?f n (unat current) (fg \<noteq> 0)) (u\<lparr>tile_buf := b1, draw_color := c1\<rparr>)"
    unfolding less.prems(6,7) by blast
  let ?u1 = "u\<lparr>tile_buf := b1, draw_color := c1\<rparr>"
  have t1: "text_only u ?u1" using u1(2) by (simp add: renders_def)
  show ?case
  proof (cases "cnt < rem")
    case True
    then have c: "current = cnt" "n mod ?w + unat cnt < ?w" using rem by (simp_all add: current_def word_less_nat_alt)
    let ?u2 = "u\<lparr>tile_buf := b1, font_decode := moved ?f (n + unat cnt), draw_color := c1\<rparr>"
    have m: "(n + unat cnt) mod ?w = n mod ?w + unat cnt" "(n + unat cnt) div ?w = n div ?w"
      using within_row [OF c(2)] by simp_all
    have "lx + cnt = of_nat ((n + unat cnt) mod ?w)" "ly = of_nat ((n + unat cnt) div ?w)"
      unfolding m less.prems(6,7) by simp_all
    then have "decode_len_loop fg u cnt lx ly = Some ?u2"
      using True u1(1) by (subst decode_len_loop.simps) (simp add: rem_def [symmetric] c(1)[symmetric] current_def [symmetric] moved_def)
    moreover have "text_only ?u1 ?u2"
      using text_only_upd [of b1 ?u1 c1 "moved ?f (n + unat cnt)"] by simp
    from renders_trans [OF u1(2) renders_text [OF this]] have "renders u (run_effect ?f n (unat cnt) (fg \<noteq> 0)) ?u2"
      by (simp add: c(1))
    ultimately show ?thesis by blast
  next
    case False
    then have c: "current = rem" "unat rem \<le> unat cnt" by (simp_all add: current_def word_less_nat_alt)
    have k: "unat (cnt - rem) = unat cnt - unat rem" using c(2) by (simp add: unat_sub word_le_nat_alt)
    let ?n = "n + unat rem"
    have "n + unat rem = (n div ?w + 1) * ?w" unfolding rem(1) by (rule to_row_end [OF less.prems(4)])
    then have m: "?n mod ?w = 0" "?n div ?w = n div ?w + 1" using less.prems(4) by simp_all
    have "\<exists>buf c. decode_len_loop fg ?u1 (cnt - rem) 0 (ly + 1) =
        Some (?u1\<lparr>tile_buf := buf, font_decode := moved (font_decode ?u1) (?n + unat (cnt - rem)), draw_color := c\<rparr>) \<and>
      renders ?u1 (run_effect (font_decode ?u1) ?n (unat (cnt - rem)) (fg \<noteq> 0))
        (?u1\<lparr>tile_buf := buf, font_decode := moved (font_decode ?u1) (?n + unat (cnt - rem)), draw_color := c\<rparr>)"
      using less.prems text_onlyD(1) [OF t1] has_room_text [OF t1] rem(2) c(2) m k
      by (intro less.hyps) simp_all
    then obtain b2 c2 where u2: "decode_len_loop fg ?u1 (cnt - rem) 0 (ly + 1) =
        Some (u\<lparr>tile_buf := b2, font_decode := moved ?f (n + unat cnt), draw_color := c2\<rparr>)"
      "renders ?u1 (run_effect ?f ?n (unat cnt - unat rem) (fg \<noteq> 0))
        (u\<lparr>tile_buf := b2, font_decode := moved ?f (n + unat cnt), draw_color := c2\<rparr>)"
      using c(2) k by auto
    have "decode_len_loop fg u cnt lx ly = decode_len_loop fg ?u1 (cnt - rem) 0 (ly + 1)"
      using False u1(1) by (subst decode_len_loop.simps) (simp add: rem_def [symmetric] current_def)
    moreover have "renders u (run_effect ?f n (unat cnt) (fg \<noteq> 0))
        (u\<lparr>tile_buf := b2, font_decode := moved ?f (n + unat cnt), draw_color := c2\<rparr>)"
      using renders_trans [OF u1(2) u2(2)] c by (simp add: run_effect_comp)
    ultimately show ?thesis using u2(1) by auto
  qed
qed

section \<open>The runs of a glyph\<close>

text \<open>The pixels of a glyph, row by row: those drawn so far, and what a run adds to them.\<close>

definition pixels_effect :: "u8g2_font_decode \<Rightarrow> bool list \<Rightarrow> u8 \<times> u8 \<Rightarrow> bool \<Rightarrow> bool" where
  "pixels_effect f px p b =
     (if in_columns f p \<and> glyph_index f p < length px then ink f (px ! glyph_index f p) b else b)"

lemma pixels_effect_run:
  "run_effect f (length px) k on p (pixels_effect f px p b) = pixels_effect f (px @ replicate k on) p b"
  by (auto simp: run_effect_def pixels_effect_def nth_append)

lemma moved_fields [simp]:
  "glyph_width (moved f n) = glyph_width f" "glyph_height (moved f n) = glyph_height f"
  "target_x (moved f n) = target_x f" "target_y (moved f n) = target_y f" "fd_dir (moved f n) = fd_dir f"
  "fg_color (moved f n) = fg_color f" "bg_color (moved f n) = bg_color f"
  "is_transparent (moved f n) = is_transparent f" "decode_ptr (moved f n) = decode_ptr f"
  "decode_bit_pos (moved f n) = decode_bit_pos f"
  "fd_x (moved f n) = of_nat (n mod unat (glyph_width f))" "fd_y (moved f n) = of_nat (n div unat (glyph_width f))"
  by (simp_all add: moved_def)

lemma run_effect_moved [simp]:
  "run_effect (moved f m\<lparr>decode_ptr := p, decode_bit_pos := b\<rparr>) = run_effect f"
  by (simp add: run_effect_def in_columns_def glyph_index_def ink_def fun_eq_iff)

text \<open>The state \<open>v\<close> in which the glyph that was begun in \<open>u\<close> is drawn up to the pixels \<open>px\<close> and the
  bits \<open>rest\<close> are still to come.\<close>

definition drawn :: "u8 list \<Rightarrow> u8g2 \<Rightarrow> bool list \<Rightarrow> bool list \<Rightarrow> u8g2 \<Rightarrow> bool" where
  "drawn bytes u px rest v \<longleftrightarrow>
     (\<exists>buf p b c. v = u\<lparr>tile_buf := buf, font_decode := (moved (font_decode u) (length px))
        \<lparr>decode_ptr := p, decode_bit_pos := b\<rparr>, draw_color := c\<rparr> \<and> b < 8) \<and>
     upcoming bytes (font_decode v) = rest \<and> renders u (pixels_effect (font_decode u) px) v"

definition glyph_ready :: "u8 list \<Rightarrow> u8g2 \<Rightarrow> bool" where
  "glyph_ready bytes u \<longleftrightarrow> view_ok u \<and> font u = Some bytes \<and> fd_dir (font_decode u) < 4 \<and>
     has_room u (fd_dir (font_decode u)) (glyph_width (font_decode u)) \<and> 0 < unat (glyph_width (font_decode u))"

lemma drawn_len:
  assumes "glyph_ready bytes u" and "drawn bytes u px rest v"
    and "length px + unat len < 256 * unat (glyph_width (font_decode u))"
  shows "\<exists>v'. u8g2_font_decode_len v len fg = Some v' \<and> drawn bytes u (px @ replicate (unat len) (fg \<noteq> 0)) rest v'"
proof -
  obtain buf p b c where v: "v = u\<lparr>tile_buf := buf, font_decode := (moved (font_decode u) (length px))
      \<lparr>decode_ptr := p, decode_bit_pos := b\<rparr>, draw_color := c\<rparr>" "b < 8"
    using assms(2) unfolding drawn_def by blast
  have r: "renders u (pixels_effect (font_decode u) px) v" "upcoming bytes (font_decode v) = rest"
    using assms(2) by (simp_all add: drawn_def)
  then have t: "text_only u v" by (simp add: renders_def)
  have f: "fd_dir (font_decode v) = fd_dir (font_decode u)" "glyph_width (font_decode v) = glyph_width (font_decode u)"
    "fd_x (font_decode v) = of_nat (length px mod unat (glyph_width (font_decode u)))"
    "fd_y (font_decode v) = of_nat (length px div unat (glyph_width (font_decode u)))"
    "run_effect (font_decode v) = run_effect (font_decode u)"
    by (simp_all add: v(1))
  have "\<exists>buf c. decode_len_loop fg v len (fd_x (font_decode v)) (fd_y (font_decode v)) =
      Some (v\<lparr>tile_buf := buf, font_decode := moved (font_decode v) (length px + unat len), draw_color := c\<rparr>) \<and>
    renders v (run_effect (font_decode v) (length px) (unat len) (fg \<noteq> 0))
      (v\<lparr>tile_buf := buf, font_decode := moved (font_decode v) (length px + unat len), draw_color := c\<rparr>)"
    using assms(1,3) text_onlyD(1) [OF t] has_room_text [OF t] f
    by (intro decode_len_loop_renders) (simp_all add: glyph_ready_def)
  then obtain buf' c' where w: "u8g2_font_decode_len v len fg =
      Some (v\<lparr>tile_buf := buf', font_decode := moved (font_decode v) (length px + unat len), draw_color := c'\<rparr>)"
    "renders v (run_effect (font_decode u) (length px) (unat len) (fg \<noteq> 0))
      (v\<lparr>tile_buf := buf', font_decode := moved (font_decode v) (length px + unat len), draw_color := c'\<rparr>)" (is "renders v _ ?w")
    unfolding u8g2_font_decode_len_def f(5) by blast
  have "?w = u\<lparr>tile_buf := buf', font_decode := (moved (font_decode u) (length (px @ replicate (unat len) (fg \<noteq> 0))))
      \<lparr>decode_ptr := p, decode_bit_pos := b\<rparr>, draw_color := c'\<rparr>"
    by (simp add: v(1) moved_def)
  moreover have "upcoming bytes (font_decode ?w) = rest" using r(2) by (simp add: upcoming_def)
  moreover have "renders u (pixels_effect (font_decode u) (px @ replicate (unat len) (fg \<noteq> 0))) ?w"
    using renders_trans [OF r(1) w(2)] unfolding pixels_effect_run .
  ultimately show ?thesis using w(1) v(2) unfolding drawn_def by blast
qed

lemma drawn_bits:
  assumes "glyph_ready bytes u" and "drawn bytes u px (code cnt a @ rest) v" and "fits cnt a" and "8 \<le> length rest"
  shows "\<exists>v'. get_unsigned v cnt = Some (a, v') \<and> drawn bytes u px rest v'"
proof -
  obtain buf p b c where v: "v = u\<lparr>tile_buf := buf, font_decode := (moved (font_decode u) (length px))
      \<lparr>decode_ptr := p, decode_bit_pos := b\<rparr>, draw_color := c\<rparr>" "b < 8"
    using assms(2) unfolding drawn_def by blast
  have r: "renders u (pixels_effect (font_decode u) px) v" "upcoming bytes (font_decode v) = code cnt a @ rest"
    using assms(2) by (simp_all add: drawn_def)
  have "decode_bit_pos (font_decode v) < 8" using v by simp
  from get_unsigned_bits_code [OF this assms(3) r(2) assms(4)] obtain p' b' where
    g: "u8g2_font_decode_get_unsigned_bits bytes (font_decode v) cnt = Some (a, (font_decode v)\<lparr>decode_ptr := p', decode_bit_pos := b'\<rparr>)"
      "b' < 8" "upcoming bytes ((font_decode v)\<lparr>decode_ptr := p', decode_bit_pos := b'\<rparr>) = rest" by blast
  let ?w = "v\<lparr>font_decode := (font_decode v)\<lparr>decode_ptr := p', decode_bit_pos := b'\<rparr>\<rparr>"
  have "font v = Some bytes" using assms(1) by (simp add: v(1) glyph_ready_def)
  then have "get_unsigned v cnt = Some (a, ?w)" using g(1) by (simp add: get_unsigned_def)
  moreover have "?w = u\<lparr>tile_buf := buf, font_decode := (moved (font_decode u) (length px))
      \<lparr>decode_ptr := p', decode_bit_pos := b'\<rparr>, draw_color := c\<rparr>" by (simp add: v(1))
  moreover have "text_only v ?w" using text_only_upd [of "tile_buf v" v "draw_color v"] by simp
  from renders_trans [OF r(1) renders_text [OF this]] have "renders u (pixels_effect (font_decode u) px) ?w" by simp
  moreover have "upcoming bytes (font_decode ?w) = rest" using g(3) by simp
  ultimately show ?thesis using g(2) unfolding drawn_def by blast
qed

text \<open>A group of a glyph: so many pixels off, so many on, and how often this is repeated.\<close>

type_synonym glyph_group = "u8 \<times> u8 \<times> nat"

fun group_pixels :: "glyph_group \<Rightarrow> bool list" where
  "group_pixels (a, b, n) = concat (replicate (Suc n) (replicate (unat a) False @ replicate (unat b) True))"

fun group_code :: "u8g2_font_info \<Rightarrow> glyph_group \<Rightarrow> bool list" where
  "group_code i (a, b, n) = code (bits_per_0 i) a @ code (bits_per_1 i) b @ replicate n True @ [False]"

fun group_fits :: "u8g2_font_info \<Rightarrow> glyph_group \<Rightarrow> bool" where
  "group_fits i (a, b, n) = (fits (bits_per_0 i) a \<and> fits (bits_per_1 i) b)"

lemma code_bit: "code 1 1 = [True]" "code 1 0 = [False]" "fits 1 1" "fits 1 0"
  by (simp_all add: code_def fits_def)

lemma drawn_repeat:
  assumes "glyph_ready bytes u" and "8 \<le> length rest"
  shows "drawn bytes u px (replicate n True @ False # rest) v \<Longrightarrow>
      length px + length (group_pixels (a, b, n)) < 256 * unat (glyph_width (font_decode u)) \<Longrightarrow>
    \<exists>v'. repeat_run a b v = Some v' \<and> drawn bytes u (px @ group_pixels (a, b, n)) rest v'"
proof (induction n arbitrary: px v)
  case 0
  from drawn_len [OF assms(1) 0(1), of a 0] 0(2) obtain v1 where
    v1: "u8g2_font_decode_len v a 0 = Some v1" "drawn bytes u (px @ replicate (unat a) False) (False # rest) v1" by auto
  from drawn_len [OF assms(1) v1(2), of b 1] 0(2) obtain v2 where
    v2: "u8g2_font_decode_len v1 b 1 = Some v2"
      "drawn bytes u ((px @ replicate (unat a) False) @ replicate (unat b) True) (code 1 0 @ rest) v2" by (auto simp: code_bit)
  from drawn_bits [OF assms(1) v2(2) code_bit(4) assms(2)] v1(1) v2(1) show ?case
    by (subst repeat_run.simps) auto
next
  case (Suc n)
  from drawn_len [OF assms(1) Suc.prems(1), of a 0] Suc.prems(2) obtain v1 where
    v1: "u8g2_font_decode_len v a 0 = Some v1"
      "drawn bytes u (px @ replicate (unat a) False) (True # replicate n True @ False # rest) v1" by auto
  from drawn_len [OF assms(1) v1(2), of b 1] Suc.prems(2) obtain v2 where
    v2: "u8g2_font_decode_len v1 b 1 = Some v2"
      "drawn bytes u ((px @ replicate (unat a) False) @ replicate (unat b) True) (code 1 1 @ replicate n True @ False # rest) v2"
    by (auto simp: code_bit)
  from drawn_bits [OF assms(1) v2(2) code_bit(3)] assms(2) obtain v3 where
    v3: "get_unsigned v2 1 = Some (1, v3)"
      "drawn bytes u ((px @ replicate (unat a) False) @ replicate (unat b) True) (replicate n True @ False # rest) v3" by auto
  from Suc.IH [OF v3(2)] Suc.prems(2) v1(1) v2(1) v3(1) show ?case
    by (subst repeat_run.simps) auto
qed

text \<open>The code of a glyph with \<open>h\<close> rows ends when its pixels are complete.\<close>

lemma sint_below: "k < 128 \<Longrightarrow> sint (of_nat k :: u8) = int k"
  by (simp add: signed_of_nat signed_take_bit_int_eq_self)

lemma drawn_rows:
  assumes "drawn bytes u px rest v" and "glyph_ready bytes u" and "length px < 128 * unat (glyph_width (font_decode u))"
  shows "sint (fd_y (font_decode v)) = int (length px div unat (glyph_width (font_decode u)))"
proof -
  have "fd_y (font_decode v) = of_nat (length px div unat (glyph_width (font_decode u)))"
    using assms(1) by (auto simp: drawn_def)
  moreover have "length px div unat (glyph_width (font_decode u)) < 128"
    using assms(2,3) by (intro less_mult_imp_div_less) (simp add: mult.commute)
  ultimately show ?thesis by (simp add: sint_below)
qed

lemma drawn_font_info: "drawn bytes u px rest v \<Longrightarrow> font_info v = font_info u"
  by (auto simp: drawn_def)

lemma drawn_loop:
  assumes "glyph_ready bytes u" and "8 \<le> length rest" and "0 \<le> sint h"
    and "nat (sint h) * unat (glyph_width (font_decode u)) < 128 * unat (glyph_width (font_decode u))"
  shows "gs \<noteq> [] \<Longrightarrow> drawn bytes u px (concat (map (group_code (font_info u)) gs) @ rest) v \<Longrightarrow>
      list_all (group_fits (font_info u)) gs \<Longrightarrow>
      length px + length (concat (map group_pixels gs)) = nat (sint h) * unat (glyph_width (font_decode u)) \<Longrightarrow>
      length (group_pixels (last gs)) \<noteq> 0 \<Longrightarrow>
    \<exists>v'. decode_loop h v = Some v' \<and> drawn bytes u (px @ concat (map group_pixels gs)) rest v'"
proof (induction gs arbitrary: px v)
  case (Cons g gs)
  obtain a b n where g: "g = (a, b, n)" by (cases g)
  let ?w = "unat (glyph_width (font_decode u))"
  let ?rest = "concat (map (group_code (font_info u)) gs) @ rest"
  have w: "0 < ?w" using assms(1) by (simp add: glyph_ready_def)
  have d: "drawn bytes u px (code (bits_per_0 (font_info u)) a @ code (bits_per_1 (font_info u)) b @ replicate n True @ False # ?rest) v"
    using Cons.prems(2) by (simp add: g)
  have f: "fits (bits_per_0 (font_info u)) a" "fits (bits_per_1 (font_info u)) b" using Cons.prems(3) by (simp_all add: g)
  from drawn_bits [OF assms(1) d f(1)] assms(2) obtain v1 where
    v1: "get_unsigned v (bits_per_0 (font_info u)) = Some (a, v1)"
      "drawn bytes u px (code (bits_per_1 (font_info u)) b @ replicate n True @ False # ?rest) v1" by auto
  from drawn_bits [OF assms(1) v1(2) f(2)] assms(2) obtain v2 where
    v2: "get_unsigned v1 (bits_per_1 (font_info u)) = Some (b, v2)"
      "drawn bytes u px (replicate n True @ False # ?rest) v2" by auto
  have "length px + length (group_pixels g) \<le> nat (sint h) * ?w" using Cons.prems(4) by simp
  then have total: "length px + length (group_pixels g) < 128 * ?w" using assms(4) by linarith
  then have "length px + length (group_pixels (a, b, n)) < 256 * ?w" unfolding g by linarith
  from drawn_repeat [OF assms(1) _ v2(2) this] assms(2) obtain v3 where
    v3: "repeat_run a b v2 = Some v3" "drawn bytes u (px @ group_pixels g) ?rest v3" by (auto simp: g)
  have len: "length (px @ group_pixels g) < 128 * ?w" using total by simp
  note row = drawn_rows [OF v3(2) assms(1) len]
  have step: "decode_loop h v = (if sint h \<le> sint (fd_y (font_decode v3)) then Some v3 else decode_loop h v3)"
    using v1(1) v2(1) v3(1) drawn_font_info [OF Cons.prems(2)] drawn_font_info [OF v1(2)]
    by (subst decode_loop.simps) simp
  show ?case
  proof (cases "gs = []")
    case True
    then have "length (px @ group_pixels g) div ?w = nat (sint h)" using Cons.prems(4) w by simp
    then have "sint h \<le> sint (fd_y (font_decode v3))" using row assms(3) by simp
    then show ?thesis using step v3(2) True by simp
  next
    case False
    have "length (group_pixels (last gs)) \<le> length (concat (map group_pixels gs))"
      using False by (cases gs rule: rev_cases) auto
    moreover have "0 < length (group_pixels (last gs))" using Cons.prems(5) False by simp
    moreover have "length (px @ group_pixels g) + length (concat (map group_pixels gs)) = nat (sint h) * ?w"
      using Cons.prems(4) by simp
    ultimately have "length (px @ group_pixels g) < nat (sint h) * ?w" by linarith
    then have "length (px @ group_pixels g) div ?w < nat (sint h)" using w by (simp add: less_mult_imp_div_less)
    then have "\<not> sint h \<le> sint (fd_y (font_decode v3))" using row by simp
    moreover have "\<exists>v'. decode_loop h v3 = Some v' \<and> drawn bytes u ((px @ group_pixels g) @ concat (map group_pixels gs)) rest v'"
      using Cons.prems False v3(2) by (intro Cons.IH) simp_all
    ultimately show ?thesis using step by simp
  qed
qed simp

section \<open>A glyph\<close>

record glyph =
  g_width :: u8
  g_height :: u8
  g_x :: u8
  g_y :: u8
  g_delta :: u8
  g_groups :: "glyph_group list"

definition glyph_pixels :: "glyph \<Rightarrow> bool list" where
  "glyph_pixels g = concat (map group_pixels (g_groups g))"

text \<open>Its code in a font: signed numbers are stored with an offset.\<close>

definition biased :: "u8 \<Rightarrow> u8 \<Rightarrow> u8" where
  "biased n v = v + push_bit (unat (n - 1)) 1"

definition glyph_code :: "u8g2_font_info \<Rightarrow> glyph \<Rightarrow> bool list" where
  "glyph_code i g =
     code (bits_per_char_width i) (g_width g) @ code (bits_per_char_height i) (g_height g) @
     code (bits_per_char_x i) (biased (bits_per_char_x i) (g_x g)) @
     code (bits_per_char_y i) (biased (bits_per_char_y i) (g_y g)) @
     code (bits_per_delta_x i) (biased (bits_per_delta_x i) (g_delta g)) @
     concat (map (group_code i) (g_groups g))"

definition glyph_ok :: "u8g2_font_info \<Rightarrow> glyph \<Rightarrow> bool" where
  "glyph_ok i g \<longleftrightarrow>
     fits (bits_per_char_width i) (g_width g) \<and> fits (bits_per_char_height i) (g_height g) \<and>
     fits (bits_per_char_x i) (biased (bits_per_char_x i) (g_x g)) \<and> bits_per_char_x i \<noteq> 0 \<and>
     fits (bits_per_char_y i) (biased (bits_per_char_y i) (g_y g)) \<and> bits_per_char_y i \<noteq> 0 \<and>
     fits (bits_per_delta_x i) (biased (bits_per_delta_x i) (g_delta g)) \<and> bits_per_delta_x i \<noteq> 0 \<and>
     list_all (group_fits i) (g_groups g) \<and>
     (if g_width g = 0 then g_groups g = []
      else g_width g < 128 \<and> g_height g < 128 \<and> g_groups g \<noteq> [] \<and> group_pixels (last (g_groups g)) \<noteq> [] \<and>
        length (glyph_pixels g) = unat (g_height g) * unat (g_width g))"

definition glyph_at :: "u8g2_font_info \<Rightarrow> u8 list \<Rightarrow> nat \<Rightarrow> glyph \<Rightarrow> bool" where
  "glyph_at i bytes ptr g \<longleftrightarrow> glyph_ok i g \<and>
     (\<exists>rest. drop (8 * ptr) (font_bits bytes) = glyph_code i g @ rest \<and> 8 \<le> length rest)"

text \<open>The pixel of a glyph with its origin at \<open>(x, y)\<close> that lies on a point of the display.\<close>

definition glyph_pixel :: "u8 \<Rightarrow> u8 \<Rightarrow> u8 \<Rightarrow> glyph \<Rightarrow> u8 \<times> u8 \<Rightarrow> bool option" where
  "glyph_pixel dir x y g p =
     (let tx = u8g2_add_vector_x x (g_x g) (- (g_height g + g_y g)) dir;
          ty = u8g2_add_vector_y y (g_x g) (- (g_height g + g_y g)) dir;
          lx = glyph_x dir tx ty p; ly = glyph_y dir tx ty p
      in if lx < g_width g \<and> ly < g_height g
         then Some (glyph_pixels g ! (unat ly * unat (g_width g) + unat lx)) else None)"

definition text_paint :: "u8 \<Rightarrow> u8 \<Rightarrow> bool option \<Rightarrow> bool \<Rightarrow> bool" where
  "text_paint color transparent pix b =
     (case pix of
        None \<Rightarrow> b
      | Some True \<Rightarrow> paint color b
      | Some False \<Rightarrow> if transparent = 0 then paint (if color = 0 then 1 else 0) b else b)"

section \<open>Reading the head of a glyph\<close>

abbreviation (input) "bits_from bytes p b \<equiv> drop (8 * p + unat (b :: u8)) (font_bits bytes)"

lemma get_unsigned_code:
  assumes "font u = Some bytes" and "decode_bit_pos (font_decode u) < 8" and "fits cnt v"
    and "bits_from bytes (decode_ptr (font_decode u)) (decode_bit_pos (font_decode u)) = code cnt v @ rest" and "8 \<le> length rest"
  shows "\<exists>p b. get_unsigned u cnt = Some (v, u\<lparr>font_decode := (font_decode u)\<lparr>decode_ptr := p, decode_bit_pos := b\<rparr>\<rparr>) \<and>
    b < 8 \<and> bits_from bytes p b = rest"
proof -
  have "upcoming bytes (font_decode u) = code cnt v @ rest" using assms(4) by (simp add: upcoming_def)
  from get_unsigned_bits_code [OF assms(2,3) this assms(5)] obtain p b where
    "u8g2_font_decode_get_unsigned_bits bytes (font_decode u) cnt =
       Some (v, (font_decode u)\<lparr>decode_ptr := p, decode_bit_pos := b\<rparr>)" "b < 8" "bits_from bytes p b = rest"
    by (auto simp: upcoming_def)
  then show ?thesis using assms(1) by (intro exI [of _ p] exI [of _ b]) (simp add: get_unsigned_def)
qed

lemma get_signed_code:
  assumes "font u = Some bytes" and "decode_bit_pos (font_decode u) < 8" and "fits cnt (biased cnt v)"
    and "bits_from bytes (decode_ptr (font_decode u)) (decode_bit_pos (font_decode u)) = code cnt (biased cnt v) @ rest"
    and "8 \<le> length rest" and "cnt \<noteq> 0"
  shows "\<exists>p b. get_signed u cnt = Some (v, u\<lparr>font_decode := (font_decode u)\<lparr>decode_ptr := p, decode_bit_pos := b\<rparr>\<rparr>) \<and>
    b < 8 \<and> bits_from bytes p b = rest"
proof -
  have "upcoming bytes (font_decode u) = code cnt (biased cnt v) @ rest" using assms(4) by (simp add: upcoming_def)
  from get_unsigned_bits_code [OF assms(2,3) this assms(5)] obtain p b where
    "u8g2_font_decode_get_unsigned_bits bytes (font_decode u) cnt =
       Some (biased cnt v, (font_decode u)\<lparr>decode_ptr := p, decode_bit_pos := b\<rparr>)" "b < 8" "bits_from bytes p b = rest"
    by (auto simp: upcoming_def)
  then show ?thesis using assms(1,6)
    by (intro exI [of _ p] exI [of _ b]) (simp add: get_signed_def u8g2_font_decode_get_signed_bits_def biased_def)
qed

lemma setup_decode_code:
  assumes "font u = Some bytes" and "bits_from bytes ptr 0 =
      code (bits_per_char_width (font_info u)) w @ code (bits_per_char_height (font_info u)) h @ rest"
    and "fits (bits_per_char_width (font_info u)) w" and "fits (bits_per_char_height (font_info u)) h" and "8 \<le> length rest"
  shows "\<exists>p b. u8g2_font_setup_decode u ptr = Some (u\<lparr>font_decode := (font_decode u)\<lparr>decode_ptr := p, glyph_width := w,
      glyph_height := h, decode_bit_pos := b, fg_color := draw_color u,
      bg_color := (if draw_color u = 0 then 1 else 0)\<rparr>\<rparr>) \<and> b < 8 \<and> bits_from bytes p b = rest"
proof -
  let ?u1 = "u\<lparr>font_decode := (font_decode u)\<lparr>decode_ptr := ptr, decode_bit_pos := 0\<rparr>\<rparr>"
  have "\<exists>p b. get_unsigned ?u1 (bits_per_char_width (font_info u)) =
      Some (w, ?u1\<lparr>font_decode := (font_decode ?u1)\<lparr>decode_ptr := p, decode_bit_pos := b\<rparr>\<rparr>) \<and>
    b < 8 \<and> bits_from bytes p b = code (bits_per_char_height (font_info u)) h @ rest"
    using assms by (intro get_unsigned_code) simp_all
  then obtain p1 b1 where g1: "get_unsigned ?u1 (bits_per_char_width (font_info u)) =
      Some (w, ?u1\<lparr>font_decode := (font_decode ?u1)\<lparr>decode_ptr := p1, decode_bit_pos := b1\<rparr>\<rparr>)"
    "b1 < 8" "bits_from bytes p1 b1 = code (bits_per_char_height (font_info u)) h @ rest" by blast
  let ?u2 = "u\<lparr>font_decode := (font_decode u)\<lparr>decode_ptr := p1, decode_bit_pos := b1, glyph_width := w\<rparr>\<rparr>"
  have "\<exists>p b. get_unsigned ?u2 (bits_per_char_height (font_info u)) =
      Some (h, ?u2\<lparr>font_decode := (font_decode ?u2)\<lparr>decode_ptr := p, decode_bit_pos := b\<rparr>\<rparr>) \<and>
    b < 8 \<and> bits_from bytes p b = rest"
    using assms g1 by (intro get_unsigned_code) simp_all
  then obtain p2 b2 where g2: "get_unsigned ?u2 (bits_per_char_height (font_info u)) =
      Some (h, ?u2\<lparr>font_decode := (font_decode ?u2)\<lparr>decode_ptr := p2, decode_bit_pos := b2\<rparr>\<rparr>)"
    "b2 < 8" "bits_from bytes p2 b2 = rest" by blast
  have "u8g2_font_setup_decode u ptr = Some (u\<lparr>font_decode := (font_decode u)\<lparr>decode_ptr := p2, glyph_width := w,
      glyph_height := h, decode_bit_pos := b2, fg_color := draw_color u,
      bg_color := (if draw_color u = 0 then 1 else 0)\<rparr>\<rparr>)"
    using g1(1) g2(1) by (simp add: u8g2_font_setup_decode_def)
  with g2(2,3) show ?thesis by blast
qed

section \<open>The box of a glyph\<close>

lemma in_wrap_int:
  fixes i a n :: int
  assumes "0 \<le> i" "i < 256" "0 \<le> a" "a < 256" "0 \<le> n" "n < 256" "(if a \<le> i then i - a else i - a + 256) < n"
  shows "if a \<le> (if 256 \<le> a + n then a + n - 256 else a + n)
    then a \<le> i \<and> i < (if 256 \<le> a + n then a + n - 256 else a + n)
    else a \<le> i \<or> i < (if 256 \<le> a + n then a + n - 256 else a + n)"
  using assms by (auto split: if_splits)

lemma in_wrap: "i - a < n \<Longrightarrow> uint i \<in> wrap_range a (a + n)"
  using in_wrap_int [OF uint_u8 [of i] uint_u8 [of a] uint_u8 [of n]] uint_u8 [of i]
  unfolding wrap_range_def mem_Collect_eq word_less_def word_le_def uint_u8_sub uint_u8_add by simp

lemma in_wrap_mirrored: "a - i < n \<Longrightarrow> uint i \<in> wrap_range (a - n + 1) (a + 1)"
proof -
  assume "a - i < n"
  then have "i - (a - n + 1) < n" using mirrored [of n i a] by (cases "n = 0") auto
  from in_wrap [OF this] show ?thesis by (simp add: add.commute)
qed

lemma glyph_invisible:
  assumes "view_ok u" and dir: "fd_dir (font_decode u) < 4"
    and "glyph_width (font_decode u) \<noteq> 0" and "h \<noteq> 0"
    and "glyph_box u h = (x0, y0, x1, y1)" and "u8g2_IsIntersection u x0 y0 x1 y1 = 0" and "visible u p"
  shows "\<not> (glyph_x (fd_dir (font_decode u)) (target_x (font_decode u)) (target_y (font_decode u)) p < glyph_width (font_decode u) \<and>
    glyph_y (fd_dir (font_decode u)) (target_x (font_decode u)) (target_y (font_decode u)) p < h)"
proof
  assume in_box: "glyph_x (fd_dir (font_decode u)) (target_x (font_decode u)) (target_y (font_decode u)) p < glyph_width (font_decode u) \<and>
    glyph_y (fd_dir (font_decode u)) (target_x (font_decode u)) (target_y (font_decode u)) p < h"
  obtain i j where p: "p = (i, j)" by (cases p)
  from directions [OF dir] have b: "uint i \<in> wrap_range x0 x1 \<and> uint j \<in> wrap_range y0 y1 \<and> x0 \<noteq> x1 \<and> y0 \<noteq> y1"
    using in_box assms(3-5) by (elim disjE)
      (auto simp: p glyph_box_def Let_def glyph_x_def glyph_y_def in_wrap in_wrap_mirrored)
  have "(uint i, uint j) \<in> window u" using assms(7) by (simp add: visible_def p)
  with b IsIntersection_window [of u x0 x1 y0 y1] view_okD(3,4) [OF assms(1)] assms(6) show False by auto
qed

section \<open>Drawing a glyph\<close>

lemma u8_below_128: "v < (128 :: u8) \<Longrightarrow> sint v = int (unat v)"
  using sint_below [of "unat v"] by (simp add: word_less_nat_alt)

lemma decode_loop_glyph:
  assumes "glyph_ready bytes u" and "fd_x (font_decode u) = 0" and "fd_y (font_decode u) = 0"
    and "decode_bit_pos (font_decode u) < 8"
    and "bits_from bytes (decode_ptr (font_decode u)) (decode_bit_pos (font_decode u)) =
      concat (map (group_code (font_info u)) gs) @ rest" and "8 \<le> length rest"
    and "list_all (group_fits (font_info u)) gs" and "gs \<noteq> []" and "group_pixels (last gs) \<noteq> []" and "h < 128"
    and "length (concat (map group_pixels gs)) = unat h * unat (glyph_width (font_decode u))"
  shows "\<exists>v. decode_loop h u = Some v \<and> renders u (pixels_effect (font_decode u) (concat (map group_pixels gs))) v \<and>
    fd_dir (font_decode v) = fd_dir (font_decode u) \<and> is_transparent (font_decode v) = is_transparent (font_decode u) \<and>
    fg_color (font_decode v) = fg_color (font_decode u)"
proof -
  let ?f = "font_decode u"
  have m: "(moved ?f 0)\<lparr>decode_ptr := decode_ptr ?f, decode_bit_pos := decode_bit_pos ?f\<rparr> = ?f"
    using assms(2,3) by (simp add: moved_def)
  have "renders u (\<lambda>p b. b) u" using text_only_upd [of "tile_buf u" u "draw_color u" ?f] by (intro renders_text) simp_all
  then have "renders u (pixels_effect ?f []) u"
    by (rule iffD1 [OF renders_cong, rotated]) (simp add: pixels_effect_def)
  then have "drawn bytes u [] (concat (map (group_code (font_info u)) gs) @ rest) u"
    unfolding drawn_def using assms(4,5)
    by (intro conjI exI [of _ "tile_buf u"] exI [of _ "decode_ptr ?f"] exI [of _ "decode_bit_pos ?f"] exI [of _ "draw_color u"])
      (simp_all add: m upcoming_def)
  moreover have h: "0 \<le> sint h" "nat (sint h) = unat h" "unat h < 128"
    using u8_below_128 [OF assms(10)] assms(10) by (simp_all add: word_less_nat_alt)
  moreover have "0 < unat (glyph_width ?f)" using assms(1) by (simp add: glyph_ready_def)
  ultimately have "\<exists>v'. decode_loop h u = Some v' \<and> drawn bytes u ([] @ concat (map group_pixels gs)) rest v'"
    using assms by (intro drawn_loop) simp_all
  then show ?thesis unfolding drawn_def by auto
qed

lemma effect_paint:
  assumes "glyph_width f = g_width g" and "length (glyph_pixels g) = unat (g_height g) * unat (g_width g)"
    and "target_x f = u8g2_add_vector_x x (g_x g) (- (g_height g + g_y g)) (fd_dir f)"
    and "target_y f = u8g2_add_vector_y y (g_x g) (- (g_height g + g_y g)) (fd_dir f)"
    and "bg_color f = (if fg_color f = 0 then 1 else 0)"
  shows "pixels_effect f (glyph_pixels g) p b =
    text_paint (fg_color f) (is_transparent f) (glyph_pixel (fd_dir f) x y g p) b"
proof -
  let ?lx = "glyph_x (fd_dir f) (target_x f) (target_y f) p" and ?ly = "glyph_y (fd_dir f) (target_x f) (target_y f) p"
  have "glyph_index f p < unat (g_height g) * unat (g_width g) \<longleftrightarrow> ?ly < g_height g" if c: "?lx < g_width g"
  proof -
    have lx: "unat ?lx < unat (g_width g)" using c by (simp add: word_less_nat_alt)
    show ?thesis
    proof
      assume "?ly < g_height g"
      then have "unat ?ly + 1 \<le> unat (g_height g)" by (simp add: word_less_nat_alt)
      from mult_le_mono1 [OF this, of "unat (g_width g)"] lx
      show "glyph_index f p < unat (g_height g) * unat (g_width g)" by (simp add: glyph_index_def assms(1))
    next
      assume "glyph_index f p < unat (g_height g) * unat (g_width g)"
      then have "unat ?ly * unat (g_width g) < unat (g_height g) * unat (g_width g)"
        unfolding glyph_index_def assms(1) by linarith
      then show "?ly < g_height g" by (simp add: word_less_nat_alt)
    qed
  qed
  then have "in_columns f p \<and> glyph_index f p < length (glyph_pixels g) \<longleftrightarrow> ?lx < g_width g \<and> ?ly < g_height g"
    using assms(1,2) by (auto simp: in_columns_def)
  then show ?thesis
    unfolding pixels_effect_def glyph_pixel_def Let_def assms(3,4) [symmetric] text_paint_def
    by (auto simp: ink_def glyph_index_def assms(1,5) split: bool.splits)
qed

text \<open>Reading the head of a glyph: the size, then the offsets and the advance.\<close>

definition head_state :: "u8g2 \<Rightarrow> glyph \<Rightarrow> nat \<Rightarrow> u8 \<Rightarrow> u8g2" where
  "head_state u g p b = u\<lparr>font_decode := (font_decode u)\<lparr>decode_ptr := p, glyph_width := g_width g,
     glyph_height := g_height g, decode_bit_pos := b, fg_color := draw_color u,
     bg_color := (if draw_color u = 0 then 1 else 0)\<rparr>\<rparr>"

lemma head_state [simp]:
  "font (head_state u g p b) = font u" "font_info (head_state u g p b) = font_info u"
  "decode_ptr (font_decode (head_state u g p b)) = p" "decode_bit_pos (font_decode (head_state u g p b)) = b"
  "(head_state u g p b)\<lparr>font_decode := (font_decode (head_state u g p b))\<lparr>decode_ptr := p', decode_bit_pos := b'\<rparr>\<rparr> =
     head_state u g p' b'"
  "glyph_width (font_decode (head_state u g p b)) = g_width g" "glyph_height (font_decode (head_state u g p b)) = g_height g"
  "fd_dir (font_decode (head_state u g p b)) = fd_dir (font_decode u)"
  "target_x (font_decode (head_state u g p b)) = target_x (font_decode u)"
  "target_y (font_decode (head_state u g p b)) = target_y (font_decode u)"
  by (simp_all add: head_state_def)

lemma glyph_head:
  assumes "font u = Some bytes" and "glyph_at (font_info u) bytes ptr g"
  obtains p0 b0 p1 b1 p2 b2 p3 b3 rest where
    "u8g2_font_setup_decode u ptr = Some (head_state u g p0 b0)"
    "get_signed (head_state u g p0 b0) (bits_per_char_x (font_info u)) = Some (g_x g, head_state u g p1 b1)"
    "get_signed (head_state u g p1 b1) (bits_per_char_y (font_info u)) = Some (g_y g, head_state u g p2 b2)"
    "get_signed (head_state u g p2 b2) (bits_per_delta_x (font_info u)) = Some (g_delta g, head_state u g p3 b3)"
    "b3 < 8" "bits_from bytes p3 b3 = concat (map (group_code (font_info u)) (g_groups g)) @ rest" "8 \<le> length rest"
proof -
  let ?i = "font_info u"
  let ?groups = "concat (map (group_code ?i) (g_groups g))"
  obtain rest where rest: "bits_from bytes ptr 0 = glyph_code ?i g @ rest" "8 \<le> length rest" and ok: "glyph_ok ?i g"
    using assms(2) by (auto simp: glyph_at_def)
  note k = ok [unfolded glyph_ok_def]
  let ?at = "head_state u g"
  from setup_decode_code [OF assms(1) rest(1) [unfolded glyph_code_def append_assoc]] k rest(2) obtain p0 b0 where
    s0: "u8g2_font_setup_decode u ptr = Some (?at p0 b0)" "b0 < 8"
      "bits_from bytes p0 b0 = code (bits_per_char_x ?i) (biased (bits_per_char_x ?i) (g_x g)) @
        code (bits_per_char_y ?i) (biased (bits_per_char_y ?i) (g_y g)) @
        code (bits_per_delta_x ?i) (biased (bits_per_delta_x ?i) (g_delta g)) @ ?groups @ rest"
    by (auto simp: head_state_def)
  from get_signed_code [of "?at p0 b0" bytes] s0(2,3) k rest(2) assms(1) obtain p1 b1 where
    s1: "get_signed (?at p0 b0) (bits_per_char_x ?i) = Some (g_x g, ?at p1 b1)" "b1 < 8"
      "bits_from bytes p1 b1 = code (bits_per_char_y ?i) (biased (bits_per_char_y ?i) (g_y g)) @
        code (bits_per_delta_x ?i) (biased (bits_per_delta_x ?i) (g_delta g)) @ ?groups @ rest"
    unfolding head_state by (metis (no_types, lifting) length_append trans_le_add2)
  from get_signed_code [of "?at p1 b1" bytes] s1(2,3) k rest(2) assms(1) obtain p2 b2 where
    s2: "get_signed (?at p1 b1) (bits_per_char_y ?i) = Some (g_y g, ?at p2 b2)" "b2 < 8"
      "bits_from bytes p2 b2 = code (bits_per_delta_x ?i) (biased (bits_per_delta_x ?i) (g_delta g)) @ ?groups @ rest"
    unfolding head_state by (metis (no_types, lifting) length_append trans_le_add2)
  from get_signed_code [of "?at p2 b2" bytes] s2(2,3) k rest(2) assms(1) obtain p3 b3 where
    s3: "get_signed (?at p2 b2) (bits_per_delta_x ?i) = Some (g_delta g, ?at p3 b3)" "b3 < 8"
      "bits_from bytes p3 b3 = ?groups @ rest"
    unfolding head_state by (metis (no_types, lifting) length_append trans_le_add2)
  show thesis by (rule that [OF s0(1) s1(1) s2(1) s3 rest(2)])
qed

lemma decode_glyph_renders:
  assumes "view_ok u" and "font u = Some bytes" and "fd_dir (font_decode u) < 4"
    and "glyph_at (font_info u) bytes ptr g" and "has_room u (fd_dir (font_decode u)) (g_width g)"
  shows "\<exists>v. u8g2_font_decode_glyph u ptr = Some (g_delta g, v) \<and>
    renders u (\<lambda>p. text_paint (draw_color u) (is_transparent (font_decode u))
      (glyph_pixel (fd_dir (font_decode u)) (target_x (font_decode u)) (target_y (font_decode u)) g p)) v \<and>
    draw_color v = draw_color u \<and> fd_dir (font_decode v) = fd_dir (font_decode u) \<and>
    is_transparent (font_decode v) = is_transparent (font_decode u)"
proof -
  let ?i = "font_info u" and ?f = "font_decode u"
  let ?bg = "if draw_color u = 0 then 1 else (0 :: u8)"
  let ?at = "head_state u g"
  have ok: "glyph_ok ?i g" using assms(4) by (simp add: glyph_at_def)
  note k = ok [unfolded glyph_ok_def]
  obtain p0 b0 p1 b1 p2 b2 p3 b3 rest where begun: "u8g2_font_setup_decode u ptr = Some (?at p0 b0)"
    and s1: "get_signed (?at p0 b0) (bits_per_char_x ?i) = Some (g_x g, ?at p1 b1)"
    and s2: "get_signed (?at p1 b1) (bits_per_char_y ?i) = Some (g_y g, ?at p2 b2)"
    and s3: "get_signed (?at p2 b2) (bits_per_delta_x ?i) = Some (g_delta g, ?at p3 b3)" "b3 < 8"
      "bits_from bytes p3 b3 = concat (map (group_code ?i) (g_groups g)) @ rest"
    and rest: "8 \<le> length rest"
    by (rule glyph_head [OF assms(2,4)])
  define x where "x = u8g2_add_vector_x (target_x ?f) (g_x g) (- (g_height g + g_y g)) (fd_dir ?f)"
  define y where "y = u8g2_add_vector_y (target_y ?f) (g_x g) (- (g_height g + g_y g)) (fd_dir ?f)"
  define v1 where "v1 = (?at p3 b3)\<lparr>font_decode := (font_decode (?at p3 b3))\<lparr>target_x := x, target_y := y\<rparr>\<rparr>"
  define v2 where "v2 = v1\<lparr>font_decode := (font_decode v1)\<lparr>fd_x := 0, fd_y := 0\<rparr>\<rparr>"
  have keep: "fd_dir (font_decode v) = fd_dir ?f" "is_transparent (font_decode v) = is_transparent ?f"
    "draw_color v = draw_color u" "tile_buf v = tile_buf u" "text_only u v"
    if "v = ?at p3 b3 \<or> v = v1 \<or> v = v2" for v
    using that text_only_upd [of "tile_buf u" u "draw_color u"] by (auto simp: v2_def v1_def head_state_def)
  have glyph: "u8g2_font_decode_glyph u ptr =
      (if sint (g_width g) > 0 then
         (let (x0, y0, x1, y1) = glyph_box v1 (g_height g)
          in if u8g2_IsIntersection v1 x0 y0 x1 y1 = 0 then Some (g_delta g, v1)
             else Option.bind (decode_loop (g_height g) v2) (\<lambda>w. Some (g_delta g, w\<lparr>draw_color := fg_color (font_decode w)\<rparr>)))
       else Some (g_delta g, ?at p3 b3))"
    by (simp add: u8g2_font_decode_glyph_def begun s1 s2 s3(1) Let_def v2_def v1_def x_def y_def
      cong: if_cong split: prod.split)
  let ?paint = "\<lambda>p. text_paint (draw_color u) (is_transparent ?f) (glyph_pixel (fd_dir ?f) (target_x ?f) (target_y ?f) g p)"
  have nothing_drawn: "renders u ?paint v" if "v = ?at p3 b3 \<or> v = v1 \<or> v = v2"
      and "\<And>p. visible u p \<Longrightarrow> glyph_pixel (fd_dir ?f) (target_x ?f) (target_y ?f) g p = None" for v
    by (rule iffD1 [OF renders_cong renders_text [OF keep(5,4) [OF that(1)]]]) (simp add: that(2) text_paint_def)
  show ?thesis
  proof (cases "g_width g = 0")
    case True
    then have "\<not> sint (g_width g) > 0" by simp
    moreover have "glyph_pixel (fd_dir ?f) (target_x ?f) (target_y ?f) g p = None" for p
      using True by (simp add: glyph_pixel_def Let_def)
    ultimately show ?thesis using glyph nothing_drawn [of "?at p3 b3"] keep [of "?at p3 b3"] by simp
  next
    case False
    note big = k [unfolded if_not_P [OF False]]
    have "unat (g_width g) \<noteq> 0" using False by (simp add: unat_eq_0)
    moreover have "sint (g_width g) = int (unat (g_width g))" using big by (intro u8_below_128) simp
    ultimately have w: "sint (g_width g) > 0" by linarith
    obtain gs' l where "g_groups g = gs' @ [l]" using big by (metis rev_exhaust)
    then have "glyph_pixels g \<noteq> []" using big unfolding glyph_pixels_def by auto
    moreover have "length (glyph_pixels g) = unat (g_height g) * unat (g_width g)" using big by simp
    ultimately have h: "g_height g \<noteq> 0" by auto
    have f1: "glyph_width (font_decode v1) = g_width g" "target_x (font_decode v1) = x" "target_y (font_decode v1) = y"
      by (simp_all add: v1_def)
    obtain x0 y0 x1 y1 where box: "glyph_box v1 (g_height g) = (x0, y0, x1, y1)" by (metis prod_cases4)
    note t1 = text_onlyD [OF keep(5) [of v1]]
    show ?thesis
    proof (cases "u8g2_IsIntersection v1 x0 y0 x1 y1 = 0")
      case True
      have "glyph_pixel (fd_dir ?f) (target_x ?f) (target_y ?f) g p = None" if "visible u p" for p
        using glyph_invisible [OF _ _ _ h box True, of p] that assms(1,3) False t1(1,5) keep(1) [of v1] f1
        by (simp add: glyph_pixel_def Let_def x_def y_def)
      with glyph w box True nothing_drawn [of v1] keep [of v1] show ?thesis by simp
    next
      case vis: False
      note t2 = text_onlyD [OF keep(5) [of v2]]
      have f2: "glyph_width (font_decode v2) = g_width g" "target_x (font_decode v2) = x" "target_y (font_decode v2) = y"
        "fd_x (font_decode v2) = 0" "fd_y (font_decode v2) = 0" "decode_bit_pos (font_decode v2) = b3"
        "decode_ptr (font_decode v2) = p3" "fg_color (font_decode v2) = draw_color u"
        "bg_color (font_decode v2) = ?bg" "fd_dir (font_decode v2) = fd_dir ?f"
        "is_transparent (font_decode v2) = is_transparent ?f"
        by (simp_all add: v2_def v1_def head_state_def)
      have "glyph_ready bytes v2"
        using assms t2(1,6) has_room_text [OF keep(5) [of v2]] False f2 by (simp add: glyph_ready_def unat_gt_0)
      from decode_loop_glyph [OF this f2(4,5), of "g_groups g" rest "g_height g"] obtain w where
        w: "decode_loop (g_height g) v2 = Some w" "renders v2 (pixels_effect (font_decode v2) (glyph_pixels g)) w"
          "fd_dir (font_decode w) = fd_dir ?f" "is_transparent (font_decode w) = is_transparent ?f"
          "fg_color (font_decode w) = draw_color u"
        using s3(2,3) rest big t2(7) f2 unfolding glyph_pixels_def [symmetric] by auto
      have eff: "pixels_effect (font_decode v2) (glyph_pixels g) p b = ?paint p b" for p b
        using effect_paint [of "font_decode v2" g "target_x ?f" "target_y ?f" p b] f2 big by (simp add: x_def y_def)
      let ?v = "w\<lparr>draw_color := fg_color (font_decode w)\<rparr>"
      have "text_only w ?v" using text_only_upd [of "tile_buf w" w _ "font_decode w"] by simp
      from renders_trans [OF renders_trans [OF renders_text [OF keep(5,4) [of v2]] w(2)] renders_text [OF this]]
      have "renders u ?paint ?v" unfolding eff by simp
      then show ?thesis using glyph w vis box \<open>sint (g_width g) > 0\<close> by simp
    qed
  qed
qed

section \<open>Drawing a string\<close>

lemma text_paint_None [simp]: "text_paint color tr None = (\<lambda>b. b)"
  by (simp add: text_paint_def fun_eq_iff)

text \<open>What the font has for a character: a glyph, or nothing.\<close>

definition glyph_for :: "u8g2 \<Rightarrow> u16 \<Rightarrow> glyph option \<Rightarrow> bool" where
  "glyph_for u enc go \<longleftrightarrow>
     (case go of
        None \<Rightarrow> u8g2_font_get_glyph_data u enc = Some None
      | Some g \<Rightarrow> has_room u (fd_dir (font_decode u)) (g_width g) \<and>
          (\<exists>bytes ptr. font u = Some bytes \<and> u8g2_font_get_glyph_data u enc = Some (Some ptr) \<and>
            glyph_at (font_info u) bytes ptr g))"

text \<open>The paint a string puts on a point, glyph by glyph; \<open>vref\<close> is the shift of the reference
  point.\<close>

fun str_paint ::
    "u8 \<Rightarrow> u8 \<Rightarrow> u8 \<Rightarrow> u8 \<Rightarrow> (char \<Rightarrow> glyph option) \<Rightarrow> u8 \<Rightarrow> u8 \<Rightarrow> string \<Rightarrow> u8 \<times> u8 \<Rightarrow> bool \<Rightarrow> bool" where
  "str_paint dir color tr vref gl x y [] p b = b"
| "str_paint dir color tr vref gl x y (c # str) p b =
     (case gl c of
        None \<Rightarrow> str_paint dir color tr vref gl x y str p b
      | Some g \<Rightarrow>
          str_paint dir color tr vref gl
            (u8g2_add_vector_x x (g_delta g) 0 dir) (u8g2_add_vector_y y (g_delta g) 0 dir) str p
            (text_paint color tr
              (glyph_pixel dir (u8g2_add_vector_x x 0 vref dir) (u8g2_add_vector_y y 0 vref dir) g p) b))"

definition str_advance :: "(char \<Rightarrow> glyph option) \<Rightarrow> string \<Rightarrow> u8" where
  "str_advance gl str = sum_list (map (\<lambda>c. case gl c of None \<Rightarrow> 0 | Some g \<Rightarrow> g_delta g) str)"

lemma glyph_data_text:
  assumes "font v = font u" and "font_info v = font_info u"
  shows "u8g2_font_get_glyph_data v = u8g2_font_get_glyph_data u"
  by (rule ext) (simp only: u8g2_font_get_glyph_data_def assms)

lemma glyph_for_text:
  assumes "text_only u v" and "fd_dir (font_decode v) = fd_dir (font_decode u)"
  shows "glyph_for v = glyph_for u"
  using glyph_data_text [of v u] text_onlyD(6,7) [OF assms(1)] has_room_text [OF assms(1)] assms(2)
  by (simp add: glyph_for_def fun_eq_iff split: option.split)

lemma calc_vref_text: "text_only u v \<Longrightarrow> call_calc_vref v = call_calc_vref u"
  using text_onlyD(13-15) [of u v]
  by (simp add: call_calc_vref_def u8g2_font_calc_vref_font_def u8g2_font_calc_vref_bottom_def
    u8g2_font_calc_vref_top_def u8g2_font_calc_vref_center_def split: font_vref_fn.split)

lemma vref_position:
  assumes "(dir :: u8) < 4"
  shows "(if dir = 0 then (x, y + r) else if dir = 1 then (x - r, y) else if dir = 2 then (x, y - r)
      else if dir = 3 then (x + r, y) else (x, y)) = (u8g2_add_vector_x x 0 r dir, u8g2_add_vector_y y 0 r dir)"
    "(if dir = 0 then (x + r, y) else if dir = 1 then (x, y + r) else if dir = 2 then (x - r, y)
      else if dir = 3 then (x, y - r) else (x, y)) = (u8g2_add_vector_x x r 0 dir, u8g2_add_vector_y y r 0 dir)"
  using directions [OF assms] by (auto simp: u8g2_add_vector_x_def u8g2_add_vector_y_def)

lemma DrawGlyph_renders:
  assumes "view_ok u" and "fd_dir (font_decode u) < 4" and "glyph_for u enc go"
  shows "\<exists>v. u8g2_DrawGlyph u x y enc = Some (case go of None \<Rightarrow> 0 | Some g \<Rightarrow> g_delta g, v) \<and>
    renders u (\<lambda>p. text_paint (draw_color u) (is_transparent (font_decode u))
      (case go of None \<Rightarrow> None
       | Some g \<Rightarrow> glyph_pixel (fd_dir (font_decode u))
           (u8g2_add_vector_x x 0 (call_calc_vref u) (fd_dir (font_decode u)))
           (u8g2_add_vector_y y 0 (call_calc_vref u) (fd_dir (font_decode u))) g p)) v \<and>
    draw_color v = draw_color u \<and> fd_dir (font_decode v) = fd_dir (font_decode u) \<and>
    is_transparent (font_decode v) = is_transparent (font_decode u)"
proof -
  let ?x = "u8g2_add_vector_x x 0 (call_calc_vref u) (fd_dir (font_decode u))"
  let ?y = "u8g2_add_vector_y y 0 (call_calc_vref u) (fd_dir (font_decode u))"
  let ?u = "u\<lparr>font_decode := (font_decode u)\<lparr>target_x := ?x, target_y := ?y\<rparr>\<rparr>"
  have t: "text_only u ?u" using text_only_upd [of "tile_buf u" u "draw_color u"] by simp
  have id: "renders u (\<lambda>p b. b) ?u" using t by (intro renders_text) simp_all
  have d: "u8g2_DrawGlyph u x y enc = u8g2_font_draw_glyph u ?x ?y enc"
    by (simp only: u8g2_DrawGlyph_def Let_def vref_position [OF assms(2)] prod.case)
  have data: "u8g2_font_get_glyph_data ?u enc = u8g2_font_get_glyph_data u enc" using glyph_data_text [of ?u u] by simp
  show ?thesis
  proof (cases go)
    case None
    then show ?thesis using assms(3) id data by (auto simp: d u8g2_font_draw_glyph_def glyph_for_def text_paint_def)
  next
    case (Some g)
    then obtain bytes ptr where g: "font u = Some bytes" "u8g2_font_get_glyph_data u enc = Some (Some ptr)"
        "glyph_at (font_info u) bytes ptr g" "has_room u (fd_dir (font_decode u)) (g_width g)"
      using assms(3) by (auto simp: glyph_for_def)
    have "\<exists>v. u8g2_font_decode_glyph ?u ptr = Some (g_delta g, v) \<and>
      renders ?u (\<lambda>p. text_paint (draw_color ?u) (is_transparent (font_decode ?u))
        (glyph_pixel (fd_dir (font_decode ?u)) (target_x (font_decode ?u)) (target_y (font_decode ?u)) g p)) v \<and>
      draw_color v = draw_color ?u \<and> fd_dir (font_decode v) = fd_dir (font_decode ?u) \<and>
      is_transparent (font_decode v) = is_transparent (font_decode ?u)"
      using assms(1,2) g text_onlyD(1) [OF t] has_room_text [OF t] by (intro decode_glyph_renders) simp_all
    then obtain v where "u8g2_font_decode_glyph ?u ptr = Some (g_delta g, v)"
      "renders ?u (\<lambda>p. text_paint (draw_color u) (is_transparent (font_decode u))
        (glyph_pixel (fd_dir (font_decode u)) ?x ?y g p)) v"
      "draw_color v = draw_color u" "fd_dir (font_decode v) = fd_dir (font_decode u)"
      "is_transparent (font_decode v) = is_transparent (font_decode u)" by auto
    then show ?thesis using renders_trans [OF id] g(2) data Some by (auto simp: d u8g2_font_draw_glyph_def)
  qed
qed

lemma each_char_more:
  assumes "nxt (byte_of c) u = Some (e, v)" and "e \<noteq> 0xffff" and "e \<noteq> 0xfffe"
  shows "each_char nxt body (c # str) (acc, u) = Option.bind (body e (acc, v)) (each_char nxt body str)"
  using assms by (subst each_char.simps) (simp split: option.split bind_split)

lemma each_char_end: "nxt 0 u = Some (0xffff, v) \<Longrightarrow> each_char nxt body [] (acc, u) = Some (acc, v)"
  by (subst each_char.simps) (simp add: byte_of_def)

lemma ascii_next:
  assumes "next_cb u = Some Ascii_Next"
  shows "call_next_cb 0 u = Some (0xffff, u)"
    and "c \<noteq> NUL \<Longrightarrow> c \<noteq> LF \<Longrightarrow> call_next_cb (byte_of c) u = Some (ucast (byte_of c), u)"
proof -
  have "byte_of NUL = 0" by (simp add: byte_of_def)
  then have "byte_of c \<noteq> 0" if "c \<noteq> NUL" using that byte_of_inject [of c NUL] by simp
  then show "call_next_cb 0 u = Some (0xffff, u)"
    "c \<noteq> NUL \<Longrightarrow> c \<noteq> LF \<Longrightarrow> call_next_cb (byte_of c) u = Some (ucast (byte_of c), u)"
    using assms by (simp_all add: call_next_cb_def u8x8_ascii_next_def)
qed

lemma byte_not_special: "(ucast (b :: u8) :: u16) \<noteq> 0xffff" "(ucast (b :: u8) :: u16) \<noteq> 0xfffe"
proof -
  have l: "unat (ucast b :: u16) < 256" using unat_u8_less [of b] by (simp add: unsigned_ucast_eq)
  show "(ucast b :: u16) \<noteq> 0xffff"
  proof
    assume e: "(ucast b :: u16) = 0xffff"
    from l show False unfolding e by simp
  qed
  show "(ucast b :: u16) \<noteq> 0xfffe"
  proof
    assume e: "(ucast b :: u16) = 0xfffe"
    from l show False unfolding e by simp
  qed
qed

text \<open>Drawing does not touch the decoder of the characters.\<close>

definition plain :: "string \<Rightarrow> bool" where
  "plain str \<longleftrightarrow> NUL \<notin> set str \<and> LF \<notin> set str"

lemma DrawStr_loop:
  assumes "view_ok u" and "fd_dir (font_decode u) < 4" and "next_cb u = Some Ascii_Next" and "plain str"
    and "\<And>c. c \<in> set str \<Longrightarrow> glyph_for u (ucast (byte_of c)) (gl c)"
  shows "\<exists>v x' y'. each_char call_next_cb draw_char str ((x, y, sm), u) = Some ((x', y', sm + str_advance gl str), v) \<and>
    renders u (str_paint (fd_dir (font_decode u)) (draw_color u) (is_transparent (font_decode u)) (call_calc_vref u) gl x y str) v \<and>
    draw_color v = draw_color u \<and> fd_dir (font_decode v) = fd_dir (font_decode u) \<and>
    is_transparent (font_decode v) = is_transparent (font_decode u)"
  using assms
proof (induction str arbitrary: u x y sm)
  case Nil
  have "renders u (\<lambda>p b. b) u" using text_only_upd [of "tile_buf u" u "draw_color u" "font_decode u"] by (intro renders_text) simp_all
  moreover have "str_paint (fd_dir (font_decode u)) (draw_color u) (is_transparent (font_decode u)) (call_calc_vref u) gl x y [] = (\<lambda>p b. b)"
    by (simp add: fun_eq_iff)
  ultimately show ?case using ascii_next(1) [OF Nil(3)] by (simp add: each_char_end str_advance_def)
next
  case (Cons c str)
  let ?dir = "fd_dir (font_decode u)"
  let ?d = "case gl c of None \<Rightarrow> 0 | Some g \<Rightarrow> g_delta g"
  let ?x = "u8g2_add_vector_x x ?d 0 ?dir" and ?y = "u8g2_add_vector_y y ?d 0 ?dir"
  have c: "call_next_cb (byte_of c) u = Some (ucast (byte_of c), u)"
    by (rule ascii_next(2) [OF Cons.prems(3)]) (use Cons.prems(4) in \<open>auto simp: plain_def\<close>)
  have "c \<in> set (c # str)" by simp
  from DrawGlyph_renders [OF Cons.prems(1,2) Cons.prems(5) [OF this], of x y] obtain v where
    v: "u8g2_DrawGlyph u x y (ucast (byte_of c)) = Some (?d, v)"
      "renders u (\<lambda>p. text_paint (draw_color u) (is_transparent (font_decode u))
        (case gl c of None \<Rightarrow> None
         | Some g \<Rightarrow> glyph_pixel ?dir (u8g2_add_vector_x x 0 (call_calc_vref u) ?dir)
             (u8g2_add_vector_y y 0 (call_calc_vref u) ?dir) g p)) v"
      "draw_color v = draw_color u" "fd_dir (font_decode v) = ?dir"
      "is_transparent (font_decode v) = is_transparent (font_decode u)" by blast
  have t: "text_only u v" using v(2) by (simp add: renders_def)
  have step: "draw_char (ucast (byte_of c)) ((x, y, sm), u) = Some ((?x, ?y, sm + ?d), v)"
    unfolding draw_char_def prod.case v(1) bind.bind_lunit Let_def v(4) vref_position(2) [OF Cons.prems(2)] by simp
  have keep: "glyph_for v = glyph_for u" "call_calc_vref v = call_calc_vref u" "next_cb v = Some Ascii_Next" "view_ok v"
    using glyph_for_text [OF t v(4)] calc_vref_text [OF t] text_onlyD(1,16) [OF t] Cons.prems(1,3) by simp_all
  have "\<exists>w x' y'. each_char call_next_cb draw_char str ((?x, ?y, sm + ?d), v) = Some ((x', y', sm + ?d + str_advance gl str), w) \<and>
    renders v (str_paint (fd_dir (font_decode v)) (draw_color v) (is_transparent (font_decode v)) (call_calc_vref v) gl ?x ?y str) w \<and>
    draw_color w = draw_color v \<and> fd_dir (font_decode w) = fd_dir (font_decode v) \<and>
    is_transparent (font_decode w) = is_transparent (font_decode v)"
    using Cons.prems keep v(4) by (intro Cons.IH) (simp_all add: plain_def)
  then obtain w x' y' where w: "each_char call_next_cb draw_char str ((?x, ?y, sm + ?d), v) =
      Some ((x', y', sm + ?d + str_advance gl str), w)"
    "renders v (str_paint ?dir (draw_color u) (is_transparent (font_decode u)) (call_calc_vref u) gl ?x ?y str) w"
    "draw_color w = draw_color u" "fd_dir (font_decode w) = ?dir" "is_transparent (font_decode w) = is_transparent (font_decode u)"
    unfolding keep(2) v(3-5) by blast
  have "each_char call_next_cb draw_char (c # str) ((x, y, sm), u) = Some ((x', y', sm + str_advance gl (c # str)), w)"
    unfolding each_char_more [of call_next_cb, OF c byte_not_special] step bind.bind_lunit w(1) by (simp add: str_advance_def add.assoc)
  moreover have "renders u (str_paint ?dir (draw_color u) (is_transparent (font_decode u)) (call_calc_vref u) gl x y (c # str)) w"
    using renders_trans [OF v(2) w(2)]
    by (rule iffD1 [OF renders_cong, rotated]) (simp add: u8g2_add_vector_x_def u8g2_add_vector_y_def split: option.split)
  ultimately show ?case using w(3-5) by blast
qed

lemma text_paint_keeps: "str_paint dir color tr vref (\<lambda>_. None) x y str p b = b"
  by (induction str arbitrary: b) simp_all

text \<open>A string on the display, from the start of the procedure: the decoder is set first.\<close>

lemma DrawStr_renders:
  assumes "view_ok u" and "fd_dir (font_decode u) < 4" and "plain str"
    and "\<And>c. c \<in> set str \<Longrightarrow> glyph_for u (ucast (byte_of c)) (gl c)"
  shows "\<exists>v. u8g2_DrawStr u x y str = Some (str_advance gl str, v) \<and>
    renders (u\<lparr>next_cb := Some Ascii_Next, utf8_state := 0\<rparr>)
      (str_paint (fd_dir (font_decode u)) (draw_color u) (is_transparent (font_decode u)) (call_calc_vref u) gl x y str) v \<and>
    draw_color v = draw_color u \<and> fd_dir (font_decode v) = fd_dir (font_decode u) \<and>
    is_transparent (font_decode v) = is_transparent (font_decode u)"
proof -
  let ?u = "u\<lparr>next_cb := Some Ascii_Next, utf8_state := 0\<rparr>"
  have gd: "u8g2_font_get_glyph_data ?u = u8g2_font_get_glyph_data u" by (rule glyph_data_text) simp_all
  have keep: "view_ok ?u" "glyph_for ?u = glyph_for u" "call_calc_vref ?u = call_calc_vref u"
  proof -
    show "view_ok ?u" using assms(1)
      by (simp add: view_ok_def canvas_ok_def canvas_w_def canvas_h_def Let_def cong: u8g2_cb.case_cong)
    show "glyph_for ?u = glyph_for u" unfolding glyph_for_def [abs_def] has_room_def gd by simp
    show "call_calc_vref ?u = call_calc_vref u"
      by (simp add: call_calc_vref_def u8g2_font_calc_vref_font_def u8g2_font_calc_vref_bottom_def
        u8g2_font_calc_vref_top_def u8g2_font_calc_vref_center_def cong: font_vref_fn.case_cong)
  qed
  have "\<exists>v x' y'. each_char call_next_cb draw_char str ((x, y, 0), ?u) = Some ((x', y', 0 + str_advance gl str), v) \<and>
    renders ?u (str_paint (fd_dir (font_decode ?u)) (draw_color ?u) (is_transparent (font_decode ?u)) (call_calc_vref ?u) gl x y str) v \<and>
    draw_color v = draw_color ?u \<and> fd_dir (font_decode v) = fd_dir (font_decode ?u) \<and>
    is_transparent (font_decode v) = is_transparent (font_decode ?u)"
    by (rule DrawStr_loop) (use assms keep in simp_all)
  then obtain v x' y' where v: "each_char call_next_cb draw_char str ((x, y, 0), ?u) = Some ((x', y', str_advance gl str), v)"
    "renders ?u (str_paint (fd_dir (font_decode u)) (draw_color u) (is_transparent (font_decode u)) (call_calc_vref u) gl x y str) v"
    "draw_color v = draw_color u" "fd_dir (font_decode v) = fd_dir (font_decode u)"
    "is_transparent (font_decode v) = is_transparent (font_decode u)"
    unfolding keep by auto
  have "u8g2_DrawStr u x y str = Some (str_advance gl str, v)"
    using v(1) by (simp add: u8g2_DrawStr_def u8g2_draw_string_def u8x8_utf8_init_def)
  with v(2-5) show ?thesis by blast
qed

lemma shown_decoder [simp]:
  "shown (u\<lparr>next_cb := d, utf8_state := s\<rparr>) = shown u" "visible (u\<lparr>next_cb := d, utf8_state := s\<rparr>) = visible u"
  "pixel (u\<lparr>next_cb := d, utf8_state := s\<rparr>) = pixel u" "canvas_area (u\<lparr>next_cb := d, utf8_state := s\<rparr>) = canvas_area u"
  "window (u\<lparr>next_cb := d, utf8_state := s\<rparr>) = window u" "rot (u\<lparr>next_cb := d, utf8_state := s\<rparr>) = rot u"
proof -
  show p: "pixel (u\<lparr>next_cb := d, utf8_state := s\<rparr>) = pixel u" "window (u\<lparr>next_cb := d, utf8_state := s\<rparr>) = window u"
    "rot (u\<lparr>next_cb := d, utf8_state := s\<rparr>) = rot u" "canvas_area (u\<lparr>next_cb := d, utf8_state := s\<rparr>) = canvas_area u"
    by (auto simp: pixel_def cell_of_def window_def rot_def canvas_area_def canvas_w_def canvas_h_def fun_eq_iff
        cong: u8g2_cb.case_cong ll_hvline_fn.case_cong)
  show "shown (u\<lparr>next_cb := d, utf8_state := s\<rparr>) = shown u" "visible (u\<lparr>next_cb := d, utf8_state := s\<rparr>) = visible u"
    unfolding shown_def visible_def p by simp_all
qed

section \<open>A font of the firmware\<close>

text \<open>The start of u8g2_font_helvB08_tf with the entries of the characters \<open>.\<close>, \<open>0\<close>, \<open>1\<close> and \<open>_\<close>, the
  positions of its sections adapted, and the glyphs that the entries hold.\<close>

definition helvB08_excerpt :: "u8 list" where
  "helvB08_excerpt =
     [191, 0, 3, 3, 4, 4, 2, 4, 5, 11, 13, 255, 254, 8, 254, 8, 254, 0, 24, 0, 30, 0, 32,
      46, 6, 34, 226, 4, 1, 48, 11, 133, 162, 205, 68, 194, 23, 201, 4, 0, 49, 7, 131, 163, 77, 69, 31,
      95, 6, 22, 154, 133, 1, 0, 0, 0, 0]"

definition helvB08_info :: u8g2_font_info where
  "helvB08_info = \<lparr>glyph_cnt = 191, bbx_mode = 0, bits_per_0 = 3, bits_per_1 = 3, bits_per_char_width = 4,
     bits_per_char_height = 4, bits_per_char_x = 2, bits_per_char_y = 4, bits_per_delta_x = 5,
     max_char_width = 11, max_char_height = 13, fi_x_offset = 255, fi_y_offset = 254, ascent_A = 8,
     descent_g = 254, ascent_para = 8, descent_para = 254, start_pos_upper_A = 24,
     start_pos_lower_a = 30, start_pos_unicode = 32\<rparr>"

definition helvB08_dot :: glyph where
  "helvB08_dot = \<lparr>g_width = 2, g_height = 2, g_x = 0, g_y = 0, g_delta = 3, g_groups = [(0, 4, 0)]\<rparr>"

definition helvB08_0 :: glyph where
  "helvB08_0 = \<lparr>g_width = 5, g_height = 8, g_x = 0, g_y = 0, g_delta = 6,
     g_groups = [(1, 3, 0), (1, 2, 0), (1, 4, 4), (1, 2, 0), (1, 3, 0), (1, 0, 0)]\<rparr>"

definition helvB08_1 :: glyph where
  "helvB08_1 = \<lparr>g_width = 3, g_height = 8, g_x = 1, g_y = 0, g_delta = 6, g_groups = [(1, 5, 0), (1, 2, 5)]\<rparr>"

definition helvB08_underscore :: glyph where
  "helvB08_underscore = \<lparr>g_width = 6, g_height = 1, g_x = 0, g_y = -2, g_delta = 6, g_groups = [(0, 6, 0)]\<rparr>"

definition helvB08_glyph :: "char \<Rightarrow> glyph option" where
  "helvB08_glyph c =
     (if c = CHR ''.'' then Some helvB08_dot else if c = CHR ''0'' then Some helvB08_0
      else if c = CHR ''1'' then Some helvB08_1 else if c = CHR ''_'' then Some helvB08_underscore else None)"

lemma helvB08_info_read: "u8g2_read_font_info helvB08_excerpt = Some helvB08_info"
  by code_simp

text \<open>A check that a glyph's code is at a place of the font.\<close>

definition code_at :: "u8g2_font_info \<Rightarrow> u8 list \<Rightarrow> nat \<Rightarrow> glyph \<Rightarrow> bool" where
  "code_at i bytes ptr g \<longleftrightarrow>
     (let bs = drop (8 * ptr) (font_bits bytes); n = length (glyph_code i g)
      in glyph_ok i g \<and> take n bs = glyph_code i g \<and> 8 \<le> length (drop n bs))"

lemma code_at: "code_at i bytes ptr g \<Longrightarrow> glyph_at i bytes ptr g"
  unfolding code_at_def glyph_at_def Let_def by (metis append_take_drop_id)

definition has_glyph :: "u8g2_font_info \<Rightarrow> u8 list \<Rightarrow> char \<Rightarrow> glyph \<Rightarrow> bool" where
  "has_glyph i bytes c g \<longleftrightarrow>
     (case u8g2_font_get_glyph_data (u8g2_zero\<lparr>font := Some bytes, font_info := i\<rparr>) (ucast (byte_of c)) of
        Some (Some ptr) \<Rightarrow> code_at i bytes ptr g
      | _ \<Rightarrow> False)"

lemma has_glyph:
  assumes "has_glyph i bytes c g" and "font u = Some bytes" "font_info u = i" "has_room u (fd_dir (font_decode u)) (g_width g)"
  shows "glyph_for u (ucast (byte_of c)) (Some g)"
proof -
  have "u8g2_font_get_glyph_data (u8g2_zero\<lparr>font := Some bytes, font_info := i\<rparr>) = u8g2_font_get_glyph_data u"
    by (rule glyph_data_text) (simp_all add: assms(2,3))
  with assms code_at show ?thesis
    unfolding has_glyph_def glyph_for_def by (auto split: option.splits)
qed

lemma helvB08_has:
  "has_glyph helvB08_info helvB08_excerpt (CHR ''.'') helvB08_dot"
  "has_glyph helvB08_info helvB08_excerpt (CHR ''0'') helvB08_0"
  "has_glyph helvB08_info helvB08_excerpt (CHR ''1'') helvB08_1"
  "has_glyph helvB08_info helvB08_excerpt (CHR ''_'') helvB08_underscore"
  by code_simp+

section \<open>The text variables after the set-up\<close>

definition text_vars :: "u8g2 \<Rightarrow> u8 \<times> u8 \<times> u8 \<times> font_vref_fn \<times> u8 list option \<times> u8g2_cb" where
  "text_vars u = (fd_dir (font_decode u), is_transparent (font_decode u), draw_color u, font_calc_vref u, font u, cb u)"

lemma apply_clip_window_text: "text_vars (u8g2_apply_clip_window u) = text_vars u"
  by (simp add: u8g2_apply_clip_window_def Let_def text_vars_def)

lemma update_page_win_text: "text_vars (update_page_win u) = text_vars u"
  by (cases "cb u") (simp_all add: update_page_win_def u8g2_update_page_win_r0_def
    u8g2_update_page_win_r1_def u8g2_update_page_win_r2_def u8g2_update_page_win_r3_def Let_def
    apply_clip_window_text, simp_all add: text_vars_def)

lemma update_dimension_text: "text_vars (update_dimension u) = text_vars u"
  by (cases "cb u") (simp_all add: update_dimension_def u8g2_update_dimension_r0_def
    u8g2_update_dimension_r1_def u8g2_update_dimension_r2_def u8g2_update_dimension_r3_def
    u8g2_update_dimension_common_def Let_def text_vars_def)

lemma SetupBuffer_text: "text_vars (u8g2_SetupBuffer buf h ll r u) = (0, 0, 1, Vref_Font, None, r)"
proof -
  have a: "text_vars (v\<lparr>font_decode := (font_decode v)\<lparr>fd_dir := 0\<rparr>\<rparr>) = (0, snd (text_vars v))"
    "text_vars (v\<lparr>font_calc_vref := f\<rparr>) =
      (case text_vars v of (d, t, c, _, bytes) \<Rightarrow> (d, t, c, f, bytes))" for v f
    by (simp_all add: text_vars_def)
  have b: "text_vars (u8g2_SetMaxClipWindow v) = text_vars v" for v
    unfolding u8g2_SetMaxClipWindow_def update_page_win_text by (simp add: text_vars_def)
  show ?thesis unfolding u8g2_SetupBuffer_def Let_def a b update_dimension_text by (simp add: text_vars_def)
qed

lemma firmware_text:
  "text_vars (u8g2_Setup_sh1106_i2c_128x64_winstar_f r u) = (0, 0, 1, Vref_Font, None, r)"
  unfolding u8g2_Setup_sh1106_i2c_128x64_winstar_f_def Let_def u8g2_m_16_8_f_def prod.case SetupBuffer_text ..

lemma window_size:
  assumes "window u = {0..<m} \<times> {0..<n}" and "0 < m" "0 < n"
  shows "uint (user_x0 u) = 0" "uint (user_x1 u) = m" "uint (user_y0 u) = 0" "uint (user_y1 u) = n"
proof -
  have ends: "a = 0 \<and> b = k" if "{a..<b} = {0..<k}" "0 < k" for a b k :: int
  proof -
    have "0 \<in> {a..<b}" unfolding that(1) using that(2) by simp
    then have "a < b" by auto
    then show ?thesis using that atLeastLessThan_eq_iff [of a b 0 k] by auto
  qed
  have "{uint (user_x0 u)..<uint (user_x1 u)} = {0..<m}" "{uint (user_y0 u)..<uint (user_y1 u)} = {0..<n}"
    using assms unfolding window_def times_eq_iff by auto
  from ends [OF this(1) assms(2)] ends [OF this(2) assms(3)]
  show "uint (user_x0 u) = 0" "uint (user_x1 u) = m" "uint (user_y0 u) = 0" "uint (user_y1 u) = n" by blast+
qed

text \<open>Nothing is shown of an empty buffer.\<close>

lemma blank_shown:
  assumes "view_ok u" and "tile_buf u = replicate n 0" and "visible u p"
  shows "\<not> shown u p"
proof -
  obtain x y where p: "p = (x, y)" by fastforce
  have "rot u (uint x, uint y) \<in> canvas_area u" using rot_area [OF assms(1)] assms(3) by (simp add: p visible_def)
  from cell_of_bound(1) [OF _ this] assms(1,2) show ?thesis
    by (simp add: p shown_def pixel_def view_ok_def)
qed

section \<open>Properties\<close>

text \<open>C10: a string is drawn as its glyphs. For a font whose data holds the codes of the glyphs of the
  string, \<open>u8g2_DrawStr\<close> decodes them and returns the sum of their advances; every visible pixel
  gets the paint of the glyphs that cover it, one after the other at their positions, in each of
  the four directions and with both modes of the background, the pixels outside the window and the
  drawing colour stay as they are, and a character the font does not have takes no space.\<close>

theorem draw_str_shows_text:
  assumes "view_ok u" and "fd_dir (font_decode u) < 4" and "plain str"
    and "\<forall>c \<in> set str. glyph_for u (ucast (byte_of c)) (gl c)"
  shows "\<exists>v. u8g2_DrawStr u x y str = Some (str_advance gl str, v) \<and>
    (\<forall>p. visible u p \<longrightarrow> shown v p =
      str_paint (fd_dir (font_decode u)) (draw_color u) (is_transparent (font_decode u)) (call_calc_vref u) gl x y str p (shown u p)) \<and>
    (\<forall>q \<in> canvas_area u. q \<notin> rot u ` window u \<longrightarrow> pixel v q = pixel u q) \<and> draw_color v = draw_color u"
  using DrawStr_renders [OF assms(1-3), of gl x y] assms(4) unfolding renders_def shown_decoder by auto

theorem draw_str_shows_text_witness:
  "\<exists>v. u8g2_DrawStr ((u8g2_Setup_sh1106_i2c_128x64_winstar_f U8G2_R0 u8g2_zero)
          \<lparr>font := Some helvB08_excerpt, font_info := helvB08_info\<rparr>) 10 20 ''1.'' = Some (9, v) \<and>
     map (\<lambda>y. map (\<lambda>x. shown v (x, y)) [10, 11, 12, 13, 14, 15, 16, 17, 18]) [12, 13, 14, 17, 18, 19, 20] =
       [[False, False, True, True, False, False, False, False, False],
        [False, True, True, True, False, False, False, False, False],
        [False, False, True, True, False, False, False, False, False],
        [False, False, True, True, False, False, False, False, False],
        [False, False, True, True, False, False, True, True, False],
        [False, False, True, True, False, False, True, True, False],
        [False, False, False, False, False, False, False, False, False]]"
proof -
  let ?s = "u8g2_Setup_sh1106_i2c_128x64_winstar_f U8G2_R0 u8g2_zero"
  let ?u = "?s\<lparr>font := Some helvB08_excerpt, font_info := helvB08_info\<rparr>"
  have vis: "window ?u = window ?s" "user_x1 ?u = user_x1 ?s" by (simp_all add: window_def)
  have ok: "view_ok ?u" using firmware_view(1) [of u8g2_zero]
    by (simp add: view_ok_def canvas_ok_def canvas_w_def canvas_h_def Let_def cong: u8g2_cb.case_cong)
  have vars: "fd_dir (font_decode ?u) = 0" "is_transparent (font_decode ?u) = 0" "draw_color ?u = 1" "call_calc_vref ?u = 0"
    using firmware_text [of U8G2_R0 u8g2_zero] by (simp_all add: text_vars_def call_calc_vref_def u8g2_font_calc_vref_font_def)
  have "uint (user_x1 ?u) = 128" unfolding vis using window_size(2) [OF firmware_view(2)] by simp
  then have room: "has_room ?u (fd_dir (font_decode ?u)) n" if "n < 128" for n
    using that unfolding has_room_def vars by (simp add: word_less_def)
  have "glyph_for ?u (ucast (byte_of c)) (helvB08_glyph c)" if "c \<in> set ''1.''" for c
    using that has_glyph [OF helvB08_has(1), of ?u] has_glyph [OF helvB08_has(3), of ?u] room
    by (auto simp: helvB08_glyph_def helvB08_dot_def helvB08_1_def)
  then have gl: "\<forall>c \<in> set ''1.''. glyph_for ?u (ucast (byte_of c)) (helvB08_glyph c)" by blast
  define pic where "pic = str_paint 0 1 0 0 helvB08_glyph 10 20 ''1.''"
  have str: "fd_dir (font_decode ?u) < 4" "plain ''1.''" unfolding vars by (simp_all add: plain_def)
  obtain v where v: "u8g2_DrawStr ?u 10 20 ''1.'' = Some (str_advance helvB08_glyph ''1.'', v)"
    "\<forall>p. visible ?u p \<longrightarrow> shown v p = pic p (shown ?u p)"
    using draw_str_shows_text [OF ok str gl, of 10 20, unfolded vars, folded pic_def] by blast
  have "shown v (x, y) = pic (x, y) False" if "x < 128" "y < 64" for x y
  proof -
    have seen: "visible ?u (x, y)" using that by (simp add: visible_def vis(1) firmware_view(2) word_less_def)
    have "\<not> shown ?u (x, y)" by (rule blank_shown [OF ok _ seen, of 1024]) (simp add: firmware_view(3))
    with seen v(2) show ?thesis by simp
  qed
  moreover have "str_advance helvB08_glyph ''1.'' = 9" by code_simp
  moreover have "map (\<lambda>y. map (\<lambda>x. pic (x, y) False)
      [10, 11, 12, 13, 14, 15, 16, 17, 18]) [12, 13, 14, 17, 18, 19, 20] =
       [[False, False, True, True, False, False, False, False, False],
        [False, True, True, True, False, False, False, False, False],
        [False, False, True, True, False, False, False, False, False],
        [False, False, True, True, False, False, False, False, False],
        [False, False, True, True, False, False, True, True, False],
        [False, False, True, True, False, False, True, True, False],
        [False, False, False, False, False, False, False, False, False]]"
    unfolding pic_def by code_simp
  ultimately show ?thesis using v(1) by simp
qed

end
