(* ===== verification/U8g2_Buffer.thy ===== *)
theory U8g2_Buffer
  imports U8g2_Canvas U8x8_Display
begin

text \<open>
  libs/u8g2/csrc/u8g2_buffer.c and u8g2_cleardisplay.c: how the tile buffer gets to the display.
  The contract of a display that is sent rows of tiles is \<open>panel\<close>; the display procedures of
  \<open>U8x8_Display\<close> keep it on the firmware's bus. The page loop of \<open>u8g2_ClearDisplay\<close> runs as long as
  \<open>u8g2_NextPage\<close> says so; it is a partial function, with the value \<^term>\<open>None\<close> if it never ends.
\<close>

section \<open>Operations\<close>

definition u8g2_ClearBuffer :: "u8g2 \<Rightarrow> u8g2 option" where
  "u8g2_ClearBuffer u =
     (let cnt = unat (tile_width (display_info u));
          cnt = cnt * unat (tile_buf_height u);
          cnt = cnt * 8
      in if cnt \<le> length (tile_buf u)
         then Some (u\<lparr>tile_buf := replicate cnt 0 @ drop cnt (tile_buf u)\<rparr>) else None)"

definition u8g2_send_tile_row :: "u8g2 display_cb \<Rightarrow> u8 \<Rightarrow> u8 \<Rightarrow> u8g2 \<Rightarrow> u8g2 option" where
  "u8g2_send_tile_row display src_tile_row dest_tile_row u =
     (let w = tile_width (display_info u);
          offset = (ucast src_tile_row :: u16);
          offset = offset * ucast w;
          offset = offset * 8
      in void (u8x8_DrawTile display 0 dest_tile_row w (drop (unat offset) (tile_buf u)) u))"

function send_rows :: "u8g2 display_cb \<Rightarrow> u8 \<Rightarrow> u8 \<Rightarrow> u8 \<Rightarrow> u8 \<Rightarrow> u8g2 \<Rightarrow> u8g2 option" where
  "send_rows display src_row dest_row src_max dest_max u = do {
     u \<leftarrow> u8g2_send_tile_row display src_row dest_row u;
     if src_row + 1 < src_max \<and> dest_row + 1 < dest_max
     then send_rows display (src_row + 1) (dest_row + 1) src_max dest_max u else Some u }"
  by pat_completeness auto
termination
  by (relation "measure (\<lambda>(display, src_row, dest_row, src_max, dest_max, u). unat src_max - unat (src_row + 1))")
    (use row_decreases in auto)

declare send_rows.simps [simp del]

definition u8g2_send_buffer :: "u8g2 display_cb \<Rightarrow> u8g2 \<Rightarrow> u8g2 option" where
  "u8g2_send_buffer display u =
     send_rows display 0 (tile_curr_row u) (tile_buf_height u) (tile_height (display_info u)) u"

definition u8g2_SendBuffer :: "u8g2 display_cb \<Rightarrow> u8g2 \<Rightarrow> u8g2 option" where
  "u8g2_SendBuffer display u = do {
     u \<leftarrow> u8g2_send_buffer display u;
     u8x8_RefreshDisplay display u }"

definition u8g2_FirstPage :: "u8g2 \<Rightarrow> u8g2 option" where
  "u8g2_FirstPage u = do {
     u \<leftarrow> doif (is_auto_page_clear u \<noteq> 0) u8g2_ClearBuffer u;
     Some (u8g2_SetBufferCurrTileRow 0 u) }"

definition u8g2_NextPage :: "u8g2 display_cb \<Rightarrow> u8g2 \<Rightarrow> (u8 \<times> u8g2) option" where
  "u8g2_NextPage display u = do {
     u \<leftarrow> u8g2_send_buffer display u;
     let row = tile_curr_row u;
     let row = row + tile_buf_height u;
     if row \<ge> tile_height (display_info u)
     then returning 0 (u8x8_RefreshDisplay display u)
     else do {
       u \<leftarrow> doif (is_auto_page_clear u \<noteq> 0) u8g2_ClearBuffer u;
       Some (1, u8g2_SetBufferCurrTileRow row u) } }"

text \<open>\<open>page_size\<close> is a 16-bit number, but the pointer is moved in \<open>int\<close> arithmetic.\<close>

fun area_rows :: "u8g2 display_cb \<Rightarrow> nat \<Rightarrow> nat \<Rightarrow> u8 \<Rightarrow> u8 \<Rightarrow> u8 \<Rightarrow> nat \<Rightarrow> u8g2 \<Rightarrow> u8g2 option" where
  "area_rows display ptr page_size tx ty tw 0 u = Some u"
| "area_rows display ptr page_size tx ty tw (Suc th) u = do {
     u \<leftarrow> void (u8x8_DrawTile display tx ty tw (drop ptr (tile_buf u)) u);
     area_rows display (ptr + page_size) page_size tx (ty + 1) tw th u }"

definition u8g2_UpdateDisplayArea ::
    "u8g2 display_cb \<Rightarrow> u8 \<Rightarrow> u8 \<Rightarrow> u8 \<Rightarrow> u8 \<Rightarrow> u8g2 \<Rightarrow> u8g2 option" where
  "u8g2_UpdateDisplayArea display tx ty tw th u =
     (if tile_buf_height u \<noteq> tile_height (display_info u) then Some u
      else
        (let page_size = unat (pixel_buf_width u);
             ptr = unat tx * 8 + page_size * unat ty
         in area_rows display ptr page_size tx ty tw (unat th) u))"

definition u8g2_UpdateDisplay :: "u8g2 display_cb \<Rightarrow> u8g2 \<Rightarrow> u8g2 option" where
  "u8g2_UpdateDisplay display u = u8g2_send_buffer display u"

partial_function (option) page_loop :: "u8g2 display_cb \<Rightarrow> u8g2 \<Rightarrow> u8g2 option" where
  "page_loop display u = do {
     (r, u) \<leftarrow> u8g2_NextPage display u;
     if r \<noteq> 0 then page_loop display u else Some u }"

definition u8g2_ClearDisplay :: "u8g2 display_cb \<Rightarrow> u8g2 \<Rightarrow> u8g2 option" where
  "u8g2_ClearDisplay display u = do {
     u \<leftarrow> u8g2_FirstPage u;
     u \<leftarrow> page_loop display u;
     Some (u8g2_SetBufferCurrTileRow 0 u) }"

section \<open>What the pages leave alone\<close>

definition core :: "u8g2 \<Rightarrow> u8x8 \<times> u8 list \<times> u8 \<times> u8 \<times> u8 \<times> ll_hvline_fn" where
  "core u = (u8x8.truncate u, tile_buf u, tile_buf_height u, tile_curr_row u, is_auto_page_clear u, ll_hvline u)"

lemma apply_clip_window_core: "core (u8g2_apply_clip_window u) = core u"
  by (simp add: u8g2_apply_clip_window_def Let_def core_def u8x8.truncate_def)

lemma update_page_win_core: "core (update_page_win u) = core u"
  by (cases "cb u") (simp_all add: update_page_win_def u8g2_update_page_win_r0_def
    u8g2_update_page_win_r1_def u8g2_update_page_win_r2_def u8g2_update_page_win_r3_def Let_def
    apply_clip_window_core, simp_all add: core_def u8x8.truncate_def)

lemma update_dimension_core: "core (update_dimension u) = core u"
  by (cases "cb u") (simp_all add: update_dimension_def u8g2_update_dimension_r0_def
    u8g2_update_dimension_r1_def u8g2_update_dimension_r2_def u8g2_update_dimension_r3_def
    u8g2_update_dimension_common_def Let_def core_def u8x8.truncate_def)

lemma SetRow_core: "core (u8g2_SetBufferCurrTileRow row u) = core (u\<lparr>tile_curr_row := row\<rparr>)"
  by (simp add: u8g2_SetBufferCurrTileRow_def update_page_win_core update_dimension_core)

lemma SetRow_keeps:
  "u8x8.truncate (u8g2_SetBufferCurrTileRow row u) = u8x8.truncate u"
  "tile_buf (u8g2_SetBufferCurrTileRow row u) = tile_buf u"
  "tile_buf_height (u8g2_SetBufferCurrTileRow row u) = tile_buf_height u"
  "tile_curr_row (u8g2_SetBufferCurrTileRow row u) = row"
  "is_auto_page_clear (u8g2_SetBufferCurrTileRow row u) = is_auto_page_clear u"
  using SetRow_core [of row u] by (simp_all add: core_def u8x8.truncate_def)

lemma truncate_display_info: "u8x8.truncate u' = u8x8.truncate u \<Longrightarrow> display_info u' = display_info u"
  by (simp add: u8x8.truncate_def)

lemma bus_only_core:
  "bus_only u u' \<Longrightarrow> tile_buf u' = tile_buf u \<and> tile_buf_height u' = tile_buf_height u \<and>
     tile_curr_row u' = tile_curr_row u \<and> is_auto_page_clear u' = is_auto_page_clear u \<and>
     display_info u' = display_info u"
  for u u' :: u8g2
  unfolding bus_only_def by auto

section \<open>The contract of a display\<close>

text \<open>
  Drawing a row of \<open>w\<close> tiles shows the \<open>8 * w\<close> bytes (a number below 256) for that row, and
  changes nothing but the bus; a refresh shows nothing new. \<open>row\<close> is what a row of bytes looks like to
  the display.
\<close>

locale panel =
  fixes display :: "u8g2 display_cb"
    and ready :: "u8g2 \<Rightarrow> bool"
    and shown :: "u8g2 \<Rightarrow> 'e list"
    and row :: "u8g2 \<Rightarrow> u8 \<Rightarrow> u8 list \<Rightarrow> 'e list"
  assumes draw: "ready u \<Longrightarrow> unat (w * 8) \<le> length p \<Longrightarrow>
      \<exists>u'. void (u8x8_DrawTile display 0 y w p u) = Some u' \<and> ready u' \<and> bus_only u u' \<and>
        shown u' = shown u @ row u y (take (unat (w * 8)) p)"
    and refresh: "ready u \<Longrightarrow>
      \<exists>u'. u8x8_RefreshDisplay display u = Some u' \<and> ready u' \<and> bus_only u u' \<and> shown u' = shown u"
    and row_bus: "bus_only u u' \<Longrightarrow> row u' = row u"
    and drawing: "u8x8.truncate u' = u8x8.truncate u \<Longrightarrow> ready u' = ready u \<and> shown u' = shown u \<and> row u' = row u"

text \<open>The bytes of a row of tiles in the buffer, and a page of rows as the display shows it.\<close>

definition buf_row :: "u8g2 \<Rightarrow> nat \<Rightarrow> u8 list" where
  "buf_row u k = (let n = 8 * unat (tile_width (display_info u)) in take n (drop (n * k) (tile_buf u)))"

definition buf_rows :: "(u8g2 \<Rightarrow> u8 \<Rightarrow> u8 list \<Rightarrow> 'e list) \<Rightarrow> u8g2 \<Rightarrow> nat \<Rightarrow> nat \<Rightarrow> nat \<Rightarrow> 'e list" where
  "buf_rows row u src dest n = concat (map (\<lambda>k. row u (of_nat (dest + k)) (buf_row u (src + k))) [0..<n])"

lemma buf_rows_Suc: "buf_rows row u src dest (Suc n) =
    row u (of_nat dest) (buf_row u src) @ buf_rows row u (Suc src) (Suc dest) n"
proof -
  have "[0..<Suc n] = 0 # map Suc [0..<n]"
    by (simp only: map_Suc_upt upt_conv_Cons [OF zero_less_Suc] One_nat_def)
  then show ?thesis by (simp add: buf_rows_def comp_def ac_simps del: upt_Suc)
qed

text \<open>A buffer of \<open>tile_buf_height\<close> rows of less than 32 tiles.\<close>

definition buffer_ok :: "u8g2 \<Rightarrow> bool" where
  "buffer_ok u \<longleftrightarrow> unat (tile_width (display_info u)) < 32 \<and>
     length (tile_buf u) = 8 * unat (tile_width (display_info u)) * unat (tile_buf_height u)"

lemma row_offset:
  fixes w src :: u8
  assumes "unat w < 32"
  shows "unat (ucast src * ucast w * 8 :: u16) = 8 * unat w * unat src" and "unat (w * 8) = 8 * unat w"
proof -
  have "unat w * unat src \<le> 31 * 255"
    using assms unat_u8_less [of src] by (intro mult_le_mono; linarith)
  then have p: "unat src * unat w < 65536" "8 * (unat src * unat w) < 65536"
    by (simp_all add: mult.commute)
  have "unat (ucast src * ucast w :: u16) = unat src * unat w"
    using p(1) iffD1 [OF unat_mult_lem, of "ucast src :: u16" "ucast w"] by (simp add: unat_ucast_16)
  then have "unat (ucast src * ucast w * 8 :: u16) = unat src * unat w * 8"
    using p(2) iffD1 [OF unat_mult_lem, of "ucast src * ucast w :: u16" 8] by (simp add: mult.commute)
  then show "unat (ucast src * ucast w * 8 :: u16) = 8 * unat w * unat src" by (simp add: mult.commute)
  show "unat (w * 8) = 8 * unat w" using assms by (simp add: unat_word_ariths)
qed

context panel
begin

lemma send_tile_row:
  assumes "ready u" and "buffer_ok u" and "src < tile_buf_height u"
  shows "\<exists>u'. u8g2_send_tile_row display src dest u = Some u' \<and> ready u' \<and> bus_only u u' \<and>
    shown u' = shown u @ row u dest (buf_row u (unat src))"
proof -
  let ?w = "tile_width (display_info u)"
  have w: "unat ?w < 32" and l: "length (tile_buf u) = 8 * unat ?w * unat (tile_buf_height u)"
    using assms(2) by (simp_all add: buffer_ok_def)
  have "unat src + 1 \<le> unat (tile_buf_height u)" using assms(3) by (simp add: word_less_nat_alt)
  then have "8 * unat ?w * (unat src + 1) \<le> length (tile_buf u)" unfolding l by (rule mult_le_mono2)
  then have "unat (?w * 8) \<le> length (drop (8 * unat ?w * unat src) (tile_buf u))"
    by (simp add: row_offset(2) [OF w])
  from draw [OF assms(1) this, of dest] show ?thesis
    unfolding u8g2_send_tile_row_def Let_def row_offset(1) [OF w] buf_row_def row_offset(2) [OF w] by blast
qed

lemma send_rows_shown:
  assumes "ready u" and "buffer_ok u" and "src_max = tile_buf_height u"
    and "src < src_max" and "dest < dest_max"
  shows "\<exists>u'. send_rows display src dest src_max dest_max u = Some u' \<and> ready u' \<and> bus_only u u' \<and>
    shown u' = shown u @ buf_rows row u (unat src) (unat dest) (min (unat src_max - unat src) (unat dest_max - unat dest))"
  using assms
proof (induction "unat src_max - unat src" arbitrary: src dest u rule: less_induct)
  case less
  let ?n = "\<lambda>src dest. min (unat src_max - unat src) (unat dest_max - unat dest)"
  obtain v where v: "u8g2_send_tile_row display src dest u = Some v" "ready v" "bus_only u v"
      "shown v = shown u @ row u dest (buf_row u (unat src))"
    using send_tile_row [OF less.prems(1,2)] less.prems(3,4) by blast
  note keep = bus_only_core [OF v(3)]
  have step: "unat (src + 1) = unat src + 1" "unat (dest + 1) = unat dest + 1"
    using unat_below less.prems(4,5) by blast+
  have lt: "unat src < unat src_max" "unat dest < unat dest_max"
    using less.prems(4,5) by (simp_all add: word_less_nat_alt)
  show ?case
  proof (cases "src + 1 < src_max \<and> dest + 1 < dest_max")
    case True
    have "buffer_ok v" "src_max = tile_buf_height v" "unat src_max - unat (src + 1) < unat src_max - unat src"
      using less.prems(2,3) keep lt by (simp_all add: buffer_ok_def step)
    with True less.hyps [of "src + 1" v "dest + 1"] v(2) obtain w where
      w: "send_rows display (src + 1) (dest + 1) src_max dest_max v = Some w" "ready w" "bus_only v w"
        "shown w = shown v @ buf_rows row v (unat (src + 1)) (unat (dest + 1)) (?n (src + 1) (dest + 1))"
      by blast
    have "buf_rows row v = buf_rows row u"
      using row_bus [OF v(3)] keep by (simp add: buf_rows_def buf_row_def fun_eq_iff)
    moreover have "?n src dest = Suc (?n (src + 1) (dest + 1))" using lt step by linarith
    ultimately have "shown w = shown u @ buf_rows row u (unat src) (unat dest) (?n src dest)"
      using v(4) w(4) step by (simp add: buf_rows_Suc)
    with v w True show ?thesis by (subst send_rows.simps) (auto intro: bus_only_trans)
  next
    case False
    have "?n src dest = Suc 0" using False lt step unfolding word_less_nat_alt by linarith
    moreover have "buf_rows row u (unat src) (unat dest) (Suc 0) = row u dest (buf_row u (unat src))"
      by (simp add: buf_rows_def)
    ultimately show ?thesis using v False by (subst send_rows.simps) auto
  qed
qed

end

context panel
begin

lemma send_buffer_shown:
  assumes "ready u" and "buffer_ok u" and "tile_buf_height u > 0" and "tile_curr_row u < tile_height (display_info u)"
  shows "\<exists>u'. u8g2_send_buffer display u = Some u' \<and> ready u' \<and> bus_only u u' \<and>
    shown u' = shown u @ buf_rows row u 0 (unat (tile_curr_row u))
      (min (unat (tile_buf_height u)) (unat (tile_height (display_info u)) - unat (tile_curr_row u)))"
  using send_rows_shown [OF assms(1,2) refl assms(3,4)] by (simp add: u8g2_send_buffer_def)

end

section \<open>The page loop\<close>

lemma ClearBuffer_ok:
  "buffer_ok u \<Longrightarrow> u8g2_ClearBuffer u = Some (u\<lparr>tile_buf := replicate (length (tile_buf u)) 0\<rparr>)"
  by (simp add: u8g2_ClearBuffer_def buffer_ok_def Let_def mult.assoc mult.left_commute)

definition blank :: "u8 list \<Rightarrow> bool" where
  "blank bs \<longleftrightarrow> bs = replicate (length bs) 0"

lemma blank_replicate [simp]: "blank (replicate n 0)"
  by (simp add: blank_def)

lemma tile_buf_same: "tile_buf u = bs \<Longrightarrow> u\<lparr>tile_buf := bs\<rparr> = u" for u :: u8g2
  by (drule sym) simp

definition blank_row :: "u8g2 \<Rightarrow> u8 list" where
  "blank_row u = replicate (8 * unat (tile_width (display_info u))) 0"

lemma buf_row_blank:
  assumes "buffer_ok u" and "blank (tile_buf u)" and "k < unat (tile_buf_height u)"
  shows "buf_row u k = blank_row u"
proof -
  let ?n = "8 * unat (tile_width (display_info u))"
  have "?n * (k + 1) \<le> length (tile_buf u)"
    using assms(1,3) by (simp only: buffer_ok_def) (intro mult_le_mono, simp_all)
  then have "?n \<le> length (tile_buf u) - ?n * k" by simp
  then have "take ?n (drop (?n * k) (replicate (length (tile_buf u)) 0)) = replicate ?n (0 :: u8)"
    by (simp add: min_def)
  then show ?thesis using assms(2) unfolding blank_def buf_row_def blank_row_def Let_def by metis
qed

text \<open>A state between pages: the buffer is blank, and the rest is as before the loop.\<close>

definition page_state :: "(u8g2 \<Rightarrow> u8 \<Rightarrow> u8 list \<Rightarrow> 'e list) \<Rightarrow> u8g2 \<Rightarrow> u8g2 \<Rightarrow> bool" where
  "page_state row u v \<longleftrightarrow> buffer_ok v \<and> blank (tile_buf v) \<and>
     is_auto_page_clear v \<noteq> 0 \<and> display_info v = display_info u \<and>
     tile_buf_height v = tile_buf_height u \<and> row v = row u"

lemma buf_rows_blank:
  assumes "page_state row u v" and "n \<le> unat (tile_buf_height u)"
  shows "buf_rows row v 0 d n = concat (map (\<lambda>r. row u (of_nat r) (blank_row u)) [d..<d + n])"
proof -
  have b: "buf_row v k = blank_row u" if "k < n" for k
    using assms that buf_row_blank [of v k] by (simp add: page_state_def blank_row_def)
  have "[d..<d + n] = map (\<lambda>k. k + d) [0..<n]" using map_add_upt [of d n] by (simp add: add.commute)
  moreover have "map (\<lambda>k. row v (of_nat (d + k)) (buf_row v (0 + k))) [0..<n] =
      map (\<lambda>k. row u (of_nat (k + d)) (blank_row u)) [0..<n]"
    using assms(1) b by (intro map_cong refl) (simp add: page_state_def add.commute)
  ultimately show ?thesis by (simp only: buf_rows_def list.map_comp comp_def)
qed

lemma SetRow_buffer_ok: "buffer_ok (u8g2_SetBufferCurrTileRow r v) = buffer_ok v"
  "display_info (u8g2_SetBufferCurrTileRow r v) = display_info v"
  using truncate_display_info [OF SetRow_keeps(1) [of r v]] by (simp_all add: buffer_ok_def SetRow_keeps)

lemma page_state_bus:
  assumes "page_state row u v" and "bus_only v w" and "row w = row v"
  shows "page_state row u w"
  using assms(1,3) bus_only_core [OF assms(2)] unfolding page_state_def buffer_ok_def by metis

context panel
begin

lemma page_loop_blank:
  assumes "page_state row u v" and "ready v" and "tile_buf_height u > 0"
    and "unat (tile_height (display_info u)) + unat (tile_buf_height u) \<le> 256"
    and "tile_curr_row v < tile_height (display_info u)"
  shows "\<exists>v'. page_loop display v = Some v' \<and> ready v' \<and> page_state row u v' \<and>
    shown v' = shown v @ concat (map (\<lambda>r. row u (of_nat r) (blank_row u))
      [unat (tile_curr_row v)..<unat (tile_height (display_info u))])"
  using assms(1,2,5)
proof (induction "unat (tile_height (display_info u)) - unat (tile_curr_row v)" arbitrary: v rule: less_induct)
  case less
  let ?h = "tile_height (display_info u)" and ?t = "tile_buf_height u" and ?c = "tile_curr_row v"
  note ps = less.prems(1) [unfolded page_state_def]
  have t: "0 < unat ?t" using assms(3) by (simp add: unat_gt_0 word_gt_0)
  have c: "unat ?c < unat ?h" using less.prems(3) by (simp add: word_less_nat_alt)
  let ?n = "min (unat ?t) (unat ?h - unat ?c)"
  have "tile_buf_height v > 0" "tile_curr_row v < tile_height (display_info v)"
    using ps assms(3) less.prems(3) by simp_all
  then obtain w where w: "u8g2_send_buffer display v = Some w" "ready w" "bus_only v w"
      "shown w = shown v @ buf_rows row v 0 (unat ?c) ?n"
    using send_buffer_shown [OF less.prems(2)] ps by auto
  have shown_w: "shown w = shown v @ concat (map (\<lambda>r. row u (of_nat r) (blank_row u)) [unat ?c..<unat ?c + ?n])"
    using w(4) buf_rows_blank [OF less.prems(1), of ?n] by simp
  note keep = bus_only_core [OF w(3)]
  have psw: "page_state row u w"
    by (rule page_state_bus [OF less.prems(1) w(3) row_bus [OF w(3)]])
  have wrow: "tile_curr_row w + tile_buf_height w = ?c + ?t" "display_info w = display_info u" using keep ps by simp_all
  have add: "unat (?c + ?t) = unat ?c + unat ?t"
    using c assms(4) by (simp add: unat_word_ariths)
  show ?case
  proof (cases "?h \<le> ?c + ?t")
    case True
    obtain x where x: "u8x8_RefreshDisplay display w = Some x" "ready x" "bus_only w x" "shown x = shown w"
      using refresh [OF w(2)] by blast
    have "unat ?c + ?n = unat ?h" using True c unfolding word_le_nat_alt add by linarith
    moreover have "page_state row u x"
      by (rule page_state_bus [OF psw x(3) row_bus [OF x(3)]])
    moreover have "u8g2_NextPage display v = Some (0, x)"
      using w(1) x(1) True wrow by (simp add: u8g2_NextPage_def Let_def)
    ultimately show ?thesis using x shown_w by (subst page_loop.simps) simp
  next
    case False
    let ?x = "u8g2_SetBufferCurrTileRow (?c + ?t) w"
    have "w\<lparr>tile_buf := replicate (length (tile_buf w)) 0\<rparr> = w"
      using psw by (intro tile_buf_same) (simp add: page_state_def blank_def)
    then have "u8g2_ClearBuffer w = Some w"
      using psw ClearBuffer_ok [of w] by (simp add: page_state_def)
    then have n: "u8g2_NextPage display v = Some (1, ?x)"
      using w(1) False wrow psw by (simp add: u8g2_NextPage_def Let_def doif_def page_state_def)
    have tr: "ready ?x" "shown ?x = shown w" "row ?x = row w"
      using drawing [OF SetRow_keeps(1)] w(2) by simp_all
    have psx: "page_state row u ?x"
      using psw tr(3) by (simp add: page_state_def SetRow_buffer_ok SetRow_keeps)
    have lt: "?c + ?t < ?h" using False by simp
    then have m: "?n = unat ?t" "unat ?h - unat (?c + ?t) < unat ?h - unat ?c"
      using t unfolding word_less_nat_alt add by linarith+
    have "\<exists>v'. page_loop display ?x = Some v' \<and> ready v' \<and> page_state row u v' \<and>
      shown v' = shown ?x @ concat (map (\<lambda>r. row u (of_nat r) (blank_row u)) [unat (?c + ?t)..<unat ?h])"
      using less.hyps [of ?x] psx tr(1) lt m(2) by (simp add: SetRow_keeps)
    then obtain v' where v': "page_loop display ?x = Some v'" "ready v'" "page_state row u v'"
      "shown v' = shown w @ concat (map (\<lambda>r. row u (of_nat r) (blank_row u)) [unat ?c + unat ?t..<unat ?h])"
      unfolding tr(2) add by blast
    have "[unat ?c..<unat ?h] = [unat ?c..<unat ?c + unat ?t] @ [unat ?c + unat ?t..<unat ?h]"
      using lt upt_add_eq_append [of "unat ?c" "unat ?c + unat ?t" "unat ?h - (unat ?c + unat ?t)"]
      unfolding word_less_nat_alt add by simp
    with v' shown_w m(1) n show ?thesis by (subst page_loop.simps) auto
  qed
qed

lemma ClearDisplay_shown:
  assumes "ready u" and "buffer_ok u" and "is_auto_page_clear u \<noteq> 0" and "tile_buf_height u > 0"
    and "unat (tile_height (display_info u)) + unat (tile_buf_height u) \<le> 256"
    and "tile_height (display_info u) > 0"
  shows "\<exists>u'. u8g2_ClearDisplay display u = Some u' \<and> ready u' \<and> tile_curr_row u' = 0 \<and>
    tile_buf u' = replicate (length (tile_buf u)) 0 \<and>
    shown u' = shown u @ concat (map (\<lambda>r. row u (of_nat r) (blank_row u)) [0..<unat (tile_height (display_info u))])"
proof -
  let ?z = "u\<lparr>tile_buf := replicate (length (tile_buf u)) 0\<rparr>"
  let ?v = "u8g2_SetBufferCurrTileRow 0 ?z"
  have z: "ready ?z" "shown ?z = shown u" "row ?z = row u"
    using drawing [of ?z u] assms(1) by (simp_all add: u8x8.truncate_def)
  have v: "ready ?v" "shown ?v = shown u" "row ?v = row u"
    using drawing [OF SetRow_keeps(1) [of 0 ?z]] z by simp_all
  have first: "u8g2_FirstPage u = Some ?v"
    using assms(3) ClearBuffer_ok [OF assms(2)] by (simp add: u8g2_FirstPage_def doif_def)
  have ps: "page_state row u ?v"
    using assms(2,3) v(3) by (simp add: page_state_def SetRow_buffer_ok SetRow_keeps, simp add: buffer_ok_def)
  obtain v' where v': "page_loop display ?v = Some v'" "ready v'" "page_state row u v'"
    "shown v' = shown ?v @ concat (map (\<lambda>r. row u (of_nat r) (blank_row u)) [0..<unat (tile_height (display_info u))])"
    using page_loop_blank [OF ps v(1) assms(4,5)] assms(6) by (auto simp: SetRow_keeps)
  have len: "length (tile_buf v') = length (tile_buf u)"
    using v'(3) assms(2) by (simp add: page_state_def buffer_ok_def)
  have "u8g2_ClearDisplay display u = Some (u8g2_SetBufferCurrTileRow 0 v')"
    using first v'(1) by (simp add: u8g2_ClearDisplay_def)
  moreover have "ready (u8g2_SetBufferCurrTileRow 0 v')" "shown (u8g2_SetBufferCurrTileRow 0 v') = shown v'"
    using drawing [OF SetRow_keeps(1)] v'(2) by simp_all
  moreover have "tile_buf v' = replicate (length (tile_buf u)) 0" using v'(3) len unfolding page_state_def blank_def by metis
  ultimately show ?thesis using v'(4) v(2) by (simp add: SetRow_keeps)
qed

end

section \<open>The firmware's display\<close>

definition panel_ready :: "esp_results \<Rightarrow> u8g2 \<Rightarrow> bool" where
  "panel_ready esp u \<longleftrightarrow> hal_idle esp u \<and> fst (received (hal_wire u)) = Rx_Idle"

definition panel_shown :: "u8g2 \<Rightarrow> (u8 \<times> u8 \<times> u8) list" where
  "panel_shown u = snd (received (hal_wire u))"

definition panel_row :: "u8g2 \<Rightarrow> u8 \<Rightarrow> u8 list \<Rightarrow> (u8 \<times> u8 \<times> u8) list" where
  "panel_row u = tile_stream (i2c_address u) (x_offset u) 0"

abbreviation (input) "ssd1306_display seq info esp gpio \<equiv>
  ssd1306_variant seq info (u8x8_cad_ssd13xx_i2c (u8g2_esp32_i2c_byte_cb esp)) gpio"

interpretation ssd: panel "ssd1306_display seq info esp gpio" "panel_ready esp" panel_shown panel_row
  for seq info esp gpio
proof
  fix u :: u8g2 and w y :: u8 and p :: "u8 list"
  assume u: "panel_ready esp u" and p: "unat (w * 8) \<le> length p"
  then have "hal_idle esp u" "received (hal_wire u) = (Rx_Idle, panel_shown u)"
    by (simp_all add: panel_ready_def panel_shown_def prod_eq_iff)
  from esp32.ssd1306_DrawTile [OF this p]
  show "\<exists>u'. void (u8x8_DrawTile (ssd1306_display seq info esp gpio) 0 y w p u) = Some u' \<and> panel_ready esp u' \<and>
      bus_only u u' \<and> panel_shown u' = panel_shown u @ panel_row u y (take (unat (w * 8)) p)"
    unfolding panel_ready_def panel_shown_def panel_row_def by fastforce
next
  fix u :: u8g2
  assume "panel_ready esp u"
  then show "\<exists>u'. u8x8_RefreshDisplay (ssd1306_display seq info esp gpio) u = Some u' \<and> panel_ready esp u' \<and>
      bus_only u u' \<and> panel_shown u' = panel_shown u"
    by (simp add: u8x8_RefreshDisplay_def ssd1306_variant_def u8x8_d_ssd1306_sh1106_generic_def void_def)
next
  fix u u' :: u8g2
  assume "bus_only u u'"
  then show "panel_row u' = panel_row u" using bus_onlyD [of u u'] by (simp add: panel_row_def)
next
  fix u u' :: u8g2
  assume t: "u8x8.truncate u' = u8x8.truncate u"
  then have "io u' = io u" "i2c_address u' = i2c_address u" "x_offset u' = x_offset u"
    by (simp_all add: u8x8.truncate_def)
  then show "panel_ready esp u' = panel_ready esp u \<and> panel_shown u' = panel_shown u \<and> panel_row u' = panel_row u"
    by (simp add: panel_ready_def panel_shown_def panel_row_def hal_idle_def hal_wire_def)
qed

text \<open>
  The display memory of an SH1106 in page addressing mode: a command \<open>0x00\<close>-\<open>0x0f\<close> sets the low and
  \<open>0x10\<close>-\<open>0x1f\<close> the high half of the column, \<open>0xb0\<close>-\<open>0xbf\<close> the page; a data byte goes to the column of
  the page and moves on to the next column. Bit \<open>y mod 8\<close> of page \<open>y div 8\<close> is row \<open>y\<close> of the panel, and
  the 128 columns of the panel start at column 2 of the memory.
\<close>

record sh1106 =
  page :: nat
  column :: nat
  ram :: "nat \<Rightarrow> nat \<Rightarrow> u8"

definition sh1106_step :: "sh1106 \<Rightarrow> u8 \<times> u8 \<times> u8 \<Rightarrow> sh1106" where
  "sh1106_step d r = (case r of (a, c, b) \<Rightarrow>
     if c = 0x40 then
       d\<lparr>ram := (ram d)(page d := ((ram d) (page d))(column d := b)), column := column d + 1\<rparr>
     else if b AND 0xf0 = 0x00 then d\<lparr>column := column d div 16 * 16 + unat (b AND 15)\<rparr>
     else if b AND 0xf0 = 0x10 then d\<lparr>column := unat (b AND 15) * 16 + column d mod 16\<rparr>
     else if b AND 0xf0 = 0xb0 then d\<lparr>page := unat (b AND 15)\<rparr>
     else d)"

definition sh1106_lit :: "sh1106 \<Rightarrow> (nat \<times> nat) picture" where
  "sh1106_lit d = (\<lambda>(x, y). bit (ram d (y div 8) (x + 2)) (y mod 8))"

lemma sh1106_byte:
  "sh1106_step d (a, 0x40, b) =
     d\<lparr>ram := (ram d)(page d := ((ram d) (page d))(column d := b)), column := column d + 1\<rparr>"
  by (simp add: sh1106_step_def)

lemma sh1106_bytes:
  "page (foldl sh1106_step d (map (\<lambda>b. (a, 0x40, b)) bs)) = page d"
  "column (foldl sh1106_step d (map (\<lambda>b. (a, 0x40, b)) bs)) = column d + length bs"
  "ram (foldl sh1106_step d (map (\<lambda>b. (a, 0x40, b)) bs)) q k =
     (if q = page d \<and> column d \<le> k \<and> k < column d + length bs then bs ! (k - column d) else ram d q k)"
proof (induction bs arbitrary: d)
  case (Cons b bs)
  have e: "k - column d = Suc (k - Suc (column d))" if "Suc (column d) \<le> k" using that by simp
  { case 1 show ?case using Cons(1) by (simp add: sh1106_byte) }
  { case 2 show ?case using Cons(2) by (simp add: sh1106_byte) }
  { case 3 show ?case using Cons(3) e by (auto simp: sh1106_byte nth_Cons') }
qed auto

lemma page_numbers: "k < 8 \<Longrightarrow> k = 0 \<or> k = 1 \<or> k = 2 \<or> k = 3 \<or> k = 4 \<or> k = 5 \<or> k = 6 \<or> k = (7 :: nat)"
  by arith

lemma page_command:
  assumes "k < 8"
  shows "(0xb0 OR of_nat k) AND 0xf0 = (0xb0 :: u8)" "unat ((0xb0 OR of_nat k) AND 15 :: u8) = k"
  using page_numbers [OF assms] by (elim disjE; simp)+

lemma sh1106_row:
  assumes "k < 8"
  shows "ram (foldl sh1106_step d (tile_stream a 2 0 (of_nat k) bs)) q c =
    (if q = k \<and> 2 \<le> c \<and> c < 2 + length bs then bs ! (c - 2) else ram d q c)"
proof -
  have "foldl sh1106_step d [(a, 0, 0x40), (a, 0, 0x10 OR drop_bit 4 (0 * 8 + 2)), (a, 0, (0 * 8 + 2) AND 15),
      (a, 0, 0xb0 OR of_nat k)] = d\<lparr>page := k, column := 2\<rparr>"
    using page_command [OF assms] by (simp add: sh1106_step_def)
  then show ?thesis unfolding tile_stream_def foldl_append by (simp only:) (simp add: sh1106_bytes)
qed

lemma sh1106_rows:
  assumes "n \<le> 8" and "\<And>k. k < n \<Longrightarrow> length (rows k) = 128"
  shows "\<forall>k < n. \<forall>c < 128. ram (foldl sh1106_step d (concat (map (\<lambda>k. tile_stream a 2 0 (of_nat k) (rows k)) [0..<n]))) k (c + 2)
    = rows k ! c"
  using assms
proof (induction n)
  case (Suc n)
  have n: "n < 8" "length (rows n) = 128" using Suc.prems by simp_all
  show ?case using Suc.IH Suc.prems n by (auto simp: sh1106_row [OF n(1)] less_Suc_eq)
qed simp

text \<open>The state in which the firmware refreshes its display: the SH1106 with a full buffer.\<close>

definition firmware_screen :: "esp_results \<Rightarrow> u8g2 \<Rightarrow> bool" where
  "firmware_screen esp u \<longleftrightarrow> panel_ready esp u \<and> canvas_ok u \<and>
     display_info u = u8x8_sh1106_128x64_noname_display_info \<and> x_offset u = 2 \<and>
     length (tile_buf u) = 1024 \<and> tile_buf_height u = 8 \<and> tile_curr_row u = 0 \<and>
     ll_hvline u = LL_Vertical_Top_Lsb"

lemma firmware_sizes:
  "tile_width u8x8_sh1106_128x64_noname_display_info = 16" "tile_height u8x8_sh1106_128x64_noname_display_info = 8"
  by (simp_all add: u8x8_sh1106_128x64_noname_display_info_def)

lemma firmware_pixel:
  assumes "firmware_screen esp u" and "x < 128" and "y < 64"
  shows "pixel u (x, y) = bit (buf_row u (y div 8) ! x) (y mod 8)"
proof -
  have u: "display_info u = u8x8_sh1106_128x64_noname_display_info" "length (tile_buf u) = 1024"
    "ll_hvline u = LL_Vertical_Top_Lsb" using assms(1) by (simp_all add: firmware_screen_def)
  have "y div 8 < 8" using assms(3) by simp
  then have "128 * (y div 8) + x < 1024" using assms(2) by linarith
  then show ?thesis
    using assms(2) by (simp add: pixel_def cell_of_def canvas_w_def u firmware_sizes buf_row_def Let_def mult.commute)
qed

lemma refresh_stream:
  assumes "firmware_screen esp u"
  shows "\<exists>u'. u8g2_UpdateDisplay (ssd1306_display seq info esp gpio) u = Some u' \<and> firmware_screen esp u' \<and>
    bus_only u u' \<and> panel_shown u' = panel_shown u @
      concat (map (\<lambda>k. tile_stream (i2c_address u) 2 0 (of_nat k) (buf_row u k)) [0..<8])"
proof -
  note f = assms [unfolded firmware_screen_def]
  have ok: "panel_ready esp u" "buffer_ok u" "tile_buf_height u > 0" "tile_curr_row u < tile_height (display_info u)"
    using f by (simp_all add: buffer_ok_def firmware_sizes)
  from ssd.send_buffer_shown [OF ok, of seq info gpio] obtain u' where
    u': "u8g2_send_buffer (ssd1306_display seq info esp gpio) u = Some u'" "panel_ready esp u'" "bus_only u u'"
      "panel_shown u' = panel_shown u @ buf_rows panel_row u 0 0 8"
    using f by (auto simp: firmware_sizes)
  have "canvas_ok u'" "ll_hvline u' = ll_hvline u"
    using u'(3) f unfolding bus_only_def by (auto simp: canvas_ok_def canvas_w_def canvas_h_def)
  then have "firmware_screen esp u'"
    using f u'(2) bus_only_core [OF u'(3)] bus_onlyD [OF u'(3)] by (simp add: firmware_screen_def)
  with u' f show ?thesis by (simp add: u8g2_UpdateDisplay_def buf_rows_def panel_row_def)
qed

text \<open>The firmware's set-up of the display, followed by \<open>u8x8_SetI2CAddress\<close>, gives such a state.\<close>

lemma setup_core:
  "core (u8g2_Setup_sh1106_i2c_128x64_winstar_f r u) =
     (u8x8.truncate (u8x8_d_helper_display_setup_memory u8x8_sh1106_128x64_noname_display_info (u8x8_SetupDefaults u)),
      replicate 1024 0, 8, 0, 1, LL_Vertical_Top_Lsb)"
proof -
  have "core (u8g2_SetMaxClipWindow v) = core v" for v
    unfolding u8g2_SetMaxClipWindow_def update_page_win_core by (simp add: core_def u8x8.truncate_def)
  moreover have "core (v\<lparr>font_calc_vref := x\<rparr>) = core v" "core (v\<lparr>font_decode := y\<rparr>) = core v" for v x y
    by (simp_all add: core_def u8x8.truncate_def)
  ultimately show ?thesis
    unfolding u8g2_Setup_sh1106_i2c_128x64_winstar_f_def u8g2_SetupBuffer_def u8g2_m_16_8_f_def Let_def prod.case
      update_dimension_core by (simp only: update_dimension_core, simp add: core_def u8x8.truncate_def)
qed

lemma firmware_started:
  assumes "hal_idle esp u" and "fst (received (hal_wire u)) = Rx_Idle"
  shows "firmware_screen esp ((u8g2_Setup_sh1106_i2c_128x64_winstar_f U8G2_R0 u)\<lparr>i2c_address := a\<rparr>)"
    (is "firmware_screen esp (?s\<lparr>i2c_address := a\<rparr>)")
proof -
  have "io ?s = io u" "display_info ?s = u8x8_sh1106_128x64_noname_display_info" "x_offset ?s = 2"
    "tile_buf ?s = replicate 1024 0" "tile_buf_height ?s = 8" "tile_curr_row ?s = 0" "ll_hvline ?s = LL_Vertical_Top_Lsb"
    using setup_core [of U8G2_R0 u] by (simp_all add: core_def u8x8.truncate_def u8x8_SetupDefaults_def
      u8x8_d_helper_display_setup_memory_def u8x8_sh1106_128x64_noname_display_info_def)
  moreover have "canvas_ok (?s\<lparr>i2c_address := a\<rparr>)"
    using firmware_view(1) [of u] by (simp add: view_ok_def canvas_ok_def canvas_w_def canvas_h_def)
  ultimately show ?thesis
    using assms by (simp add: firmware_screen_def panel_ready_def hal_idle_def hal_wire_def)
qed

text \<open>The picture after the refresh; only the bus changes.\<close>

lemma refresh_lights:
  assumes "firmware_screen esp u"
  shows "\<exists>u' new. u8g2_UpdateDisplay (firmware_lcd esp) u = Some u' \<and>
    firmware_screen esp u' \<and> bus_only u u' \<and> panel_shown u' = panel_shown u @ new \<and>
    (\<forall>d. \<forall>x < 128. \<forall>y < 64. sh1106_lit (foldl sh1106_step d new) (x, y) = pixel u (x, y))"
proof -
  let ?new = "concat (map (\<lambda>k. tile_stream (i2c_address u) 2 0 (of_nat k) (buf_row u k)) [0..<8])"
  have "length (buf_row u k) = 128" if "k < 8" for k
    using assms that by (simp add: firmware_screen_def buf_row_def firmware_sizes)
  then have ram: "ram (foldl sh1106_step d ?new) k (c + 2) = buf_row u k ! c" if "k < 8" "c < 128" for d k c
    using sh1106_rows [of 8 "buf_row u" d "i2c_address u"] that by blast
  have "sh1106_lit (foldl sh1106_step d ?new) (x, y) = pixel u (x, y)" if "x < 128" "y < 64" for d x y
    unfolding sh1106_lit_def firmware_pixel [OF assms that] using ram [of "y div 8" x d] that by simp
  with refresh_stream [OF assms] show ?thesis unfolding firmware_lcd_def u8x8_d_sh1106_128x64_winstar_def by blast
qed

section \<open>Properties\<close>

text \<open>C9: refreshing the firmware's display shows the picture. Whatever the display's memory held and
  wherever its pointers stood, after the bytes that \<open>u8g2_UpdateDisplay\<close> puts on the bus every pixel
  of the panel is lit exactly if the pixel of the buffer is set, and the state is ready for the
  next refresh. (The drawing commands are specified on the same picture.)\<close>

theorem refresh_shows_picture:
  assumes "firmware_screen esp u"
  shows "\<exists>u' new. u8g2_UpdateDisplay (firmware_lcd esp) u = Some u' \<and>
    firmware_screen esp u' \<and> panel_shown u' = panel_shown u @ new \<and>
    (\<forall>d. \<forall>x < 128. \<forall>y < 64. sh1106_lit (foldl sh1106_step d new) (x, y) = pixel u (x, y))"
  using refresh_lights [OF assms] by blast

theorem refresh_shows_picture_witness:
  "\<exists>u' new. u8g2_UpdateDisplay (firmware_lcd (\<lambda>_ _. 0))
       ((u8g2_Setup_sh1106_i2c_128x64_winstar_f U8G2_R0 u8g2_zero)\<lparr>i2c_address := 0x78\<rparr>) = Some u' \<and>
     panel_shown u' = new \<and> (\<forall>d. \<forall>x < 128. \<forall>y < 64. \<not> sh1106_lit (foldl sh1106_step d new) (x, y))"
proof -
  let ?u = "(u8g2_Setup_sh1106_i2c_128x64_winstar_f U8G2_R0 u8g2_zero)\<lparr>i2c_address := 0x78\<rparr>"
  have start: "hal_idle (\<lambda>_ _. 0) u8g2_zero" "received (hal_wire u8g2_zero) = (Rx_Idle, [])"
    by (simp_all add: hal_idle_def hal_wire_def esp_ok_def i2c_driver_def u8g2_zero_def received_def)
  then have f: "firmware_screen (\<lambda>_ _. 0) ?u" by (simp add: firmware_started)
  have none: "io ?u = []" "tile_buf ?u = replicate 1024 0"
    using setup_core [of U8G2_R0 u8g2_zero] by (simp_all add: core_def u8x8.truncate_def u8x8_SetupDefaults_def
      u8x8_d_helper_display_setup_memory_def u8g2_zero_def)
  have blank: "\<not> pixel ?u (x, y)" if "x < 128" "y < 64" for x y
  proof -
    have "y div 8 < 8" using that(2) by simp
    then have "x < min 128 (1024 - 128 * (y div 8))" using that(1) by linarith
    with firmware_pixel [OF f that] none(2) show ?thesis by (simp add: buf_row_def firmware_sizes f [unfolded firmware_screen_def])
  qed
  have "panel_shown ?u = []"
    using none(1) start(2) by (simp add: panel_shown_def hal_wire_def u8g2_zero_def)
  then show ?thesis using refresh_shows_picture [OF f] blank by auto
qed

text \<open>C30: \<open>u8g2_ClearDisplay\<close> ends, and clears everything: if pages have at least one row and the display's
  height and the page's do not add up past 256 rows, the page loop stops, each row of the display
  has been sent exactly once, in order and blank, and the state is back at the first page.\<close>

theorem clear_display_returns:
  assumes "panel_ready esp u" and "buffer_ok u" and "is_auto_page_clear u \<noteq> 0"
    and "tile_buf_height u > 0" and "tile_height (display_info u) > 0"
    and "unat (tile_height (display_info u)) + unat (tile_buf_height u) \<le> 256"
  shows "\<exists>u'. u8g2_ClearDisplay (firmware_lcd esp) u = Some u' \<and>
    tile_curr_row u' = 0 \<and> panel_shown u' = panel_shown u @
      concat (map (\<lambda>r. tile_stream (i2c_address u) (x_offset u) 0 (of_nat r) (blank_row u))
        [0..<unat (tile_height (display_info u))])"
  using ssd.ClearDisplay_shown [OF assms(1-4,6,5)]
  unfolding firmware_lcd_def u8x8_d_sh1106_128x64_winstar_def panel_row_def by blast

definition page_example :: u8g2 where
  "page_example = u8g2_zero\<lparr>display_info := u8x8_sh1106_128x64_noname_display_info, x_offset := 2,
     i2c_address := 0x78, tile_buf := replicate 128 0, tile_buf_height := 1, is_auto_page_clear := 1\<rparr>"

theorem clear_display_returns_witness:
  "\<exists>u'. u8g2_ClearDisplay (firmware_lcd (\<lambda>_ _. 0)) page_example = Some u' \<and>
    panel_shown u' = concat (map (\<lambda>r. tile_stream 0x78 2 0 (of_nat r) (replicate 128 0)) [0..<8])"
proof -
  have "panel_ready (\<lambda>_ _. 0) page_example" "panel_shown page_example = []"
    by (simp_all add: page_example_def panel_ready_def panel_shown_def hal_idle_def hal_wire_def esp_ok_def
        i2c_driver_def u8g2_zero_def received_def)
  moreover have "buffer_ok page_example" "is_auto_page_clear page_example \<noteq> 0" "tile_buf_height page_example = 1"
    "tile_height (display_info page_example) = 8" "tile_width (display_info page_example) = 16"
    "i2c_address page_example = 0x78" "x_offset page_example = 2"
    by (simp_all add: page_example_def buffer_ok_def firmware_sizes)
  ultimately show ?thesis
    using clear_display_returns [of "\<lambda>_ _. 0" page_example] by (auto simp: blank_row_def)
qed

end
