(* ===== verification/Gps_Display.thy ===== *)
theory Gps_Display
  imports U8g2_Glyph U8g2_Buffer Gps_Task
begin

text \<open>
  src/hw/hw_display.c: the task that shows the speed and the four acceleration times. Its fonts are
  arguments, the bytes of u8g2_font_fub35_tf and u8g2_font_helvB08_tf; the variables of the GPS task
  are read one by one, so a pass of the loop gets the value each read has at its moment. The last
  part puts both tasks together, with every interleaving of the passes of one with the reads of the
  other.
\<close>

section \<open>Operations\<close>

text \<open>\<open>sprintf\<close>'s decimal numbers, padded with zeros.\<close>

fun dec :: "nat \<Rightarrow> string" where
  "dec n = (if n < 10 then [char_of (48 + n)] else dec (n div 10) @ [char_of (48 + n mod 10)])"

declare dec.simps [simp del]

definition pad0 :: "nat \<Rightarrow> nat \<Rightarrow> string" where
  "pad0 w n = (let s = dec n in replicate (w - length s) (CHR ''0'') @ s)"

record speed_triggers_t =
  is_one_hundred :: bool
  st_ms :: u32

record lcd_task =
  lcd :: u8g2
  speed_triggers :: "speed_triggers_t list"

record lcd_reads =
  r_trigger_0 :: u32
  r_trigger_1 :: u32
  r_trigger_2 :: u32
  r_trigger_3 :: u32
  r_gps_valid :: bool
  r_ext_speed :: u32

definition speed_trigger_str :: "u32 \<Rightarrow> string" where
  "speed_trigger_str ms =
     (let out_ms = ms div 10 in
      if ms \<noteq> 0 then
        if out_ms > 9999 then ''99.99''
        else pad0 2 (unat (out_ms div 100 mod 100)) @ ''.'' @ pad0 2 (unat (out_ms mod 100))
      else ''__.__'')"

definition draw_speed_trigger :: "u8 list \<Rightarrow> u16 \<Rightarrow> u16 \<Rightarrow> u32 \<Rightarrow> u8g2 \<Rightarrow> u8g2 option" where
  "draw_speed_trigger helvB08 start_x start_y ms u = do {
     let speed_str = speed_trigger_str ms;
     u \<leftarrow> u8g2_SetFont u helvB08;
     (_, u) \<leftarrow> u8g2_DrawStr u (ucast start_x) (ucast start_y) speed_str;
     Some u }"

fun draw_speed_triggers_list :: "u8 list \<Rightarrow> u16 \<Rightarrow> u16 \<Rightarrow> speed_triggers_t list \<Rightarrow> u8g2 \<Rightarrow> u8g2 option" where
  "draw_speed_triggers_list helvB08 start_x start_y [] u = Some u"
| "draw_speed_triggers_list helvB08 start_x start_y (t # list) u = do {
     u \<leftarrow> draw_speed_trigger helvB08 start_x start_y (st_ms t) u;
     draw_speed_triggers_list helvB08 start_x (start_y + 10) list u }"

definition set_trigger :: "nat \<Rightarrow> u32 \<Rightarrow> speed_triggers_t list \<Rightarrow> speed_triggers_t list" where
  "set_trigger k ms list = list[k := (list ! k)\<lparr>st_ms := ms\<rparr>]"

definition refresh_trigger_list :: "lcd_reads \<Rightarrow> speed_triggers_t list \<Rightarrow> speed_triggers_t list" where
  "refresh_trigger_list r list =
     (let list = set_trigger 0 (r_trigger_0 r) list;
          list = set_trigger 1 (r_trigger_1 r) list;
          list = set_trigger 2 (r_trigger_2 r) list
      in set_trigger 3 (r_trigger_3 r) list)"

definition speed_str :: "lcd_reads \<Rightarrow> string" where
  "speed_str r =
     (if r_gps_valid r then pad0 3 (unat (r_ext_speed r div 1000 mod 1000)) else ''xxx'')"

definition lcd_task_init :: "u8g2 \<Rightarrow> lcd_task" where
  "lcd_task_init u = \<lparr>lcd = u, speed_triggers = replicate 4 \<lparr>is_one_hundred = False, st_ms = 0\<rparr>\<rparr>"

definition task_lcd_start :: "esp_results \<Rightarrow> u8 list \<Rightarrow> lcd_task \<Rightarrow> lcd_task option" where
  "task_lcd_start esp fub35 t = do {
     let u = u8g2_esp32_hal_init (U8G2_ESP32_HAL_DEFAULT\<lparr>hal_sda := 21, hal_scl := 22\<rparr>) (lcd t);
     let u = u8g2_Setup_sh1106_i2c_128x64_winstar_f U8G2_R0 u;
     let u = u\<lparr>i2c_address := 0x78\<rparr>;
     u \<leftarrow> u8x8_InitDisplay (firmware_lcd esp) u;
     u \<leftarrow> u8x8_SetPowerSave (firmware_lcd esp) 0 u;
     u \<leftarrow> u8g2_ClearBuffer u;
     u \<leftarrow> u8g2_SetFont u fub35;
     u \<leftarrow> u8g2_UpdateDisplay (firmware_lcd esp) u;
     Some (t\<lparr>lcd := u\<rparr>) }"

definition task_lcd_pass :: "esp_results \<Rightarrow> u8 list \<Rightarrow> u8 list \<Rightarrow> lcd_reads \<Rightarrow> lcd_task \<Rightarrow> lcd_task option" where
  "task_lcd_pass esp fub35 helvB08 r t = do {
     u \<leftarrow> u8g2_ClearBuffer (lcd t);
     let list = refresh_trigger_list r (speed_triggers t);
     u \<leftarrow> u8g2_SetFont u fub35;
     (_, u) \<leftarrow> u8g2_DrawStr u 2 40 (speed_str r);
     u \<leftarrow> draw_speed_triggers_list helvB08 90 10 list u;
     u \<leftarrow> u8g2_UpdateDisplay (firmware_lcd esp) u;
     let u = emit [VTaskDelay (50 div portTICK_PERIOD_MS)] u;
     Some (t\<lparr>lcd := u, speed_triggers := list\<rparr>) }"

section \<open>The texts\<close>

definition decimals :: string where
  "decimals = ''0123456789''"

definition speed_chars :: string where
  "speed_chars = ''0123456789x''"

definition trigger_chars :: string where
  "trigger_chars = ''0123456789._''"

lemma char_sets:
  "\<forall>k \<in> set [0..<10]. char_of (48 + k :: nat) \<in> set decimals"
  "set decimals \<subseteq> set speed_chars" "set decimals \<subseteq> set trigger_chars" "set ''xxx'' \<subseteq> set speed_chars"
  "set ''99.99'' \<subseteq> set trigger_chars" "set ''__.__'' \<subseteq> set trigger_chars" "set ''.'' \<subseteq> set trigger_chars"
  "CHR ''0'' \<in> set decimals"
  by code_simp+

lemma plain_chars: "set str \<subseteq> set speed_chars \<or> set str \<subseteq> set trigger_chars \<Longrightarrow> plain str"
proof -
  have "NUL \<notin> set speed_chars" "LF \<notin> set speed_chars" "NUL \<notin> set trigger_chars" "LF \<notin> set trigger_chars"
    by code_simp+
  moreover assume "set str \<subseteq> set speed_chars \<or> set str \<subseteq> set trigger_chars"
  ultimately show ?thesis unfolding plain_def by blast
qed

lemma dec_decimals: "set (dec n) \<subseteq> set decimals"
proof (induction n rule: dec.induct)
  case (1 n)
  have digit: "char_of (48 + k) \<in> set decimals" if "k < 10" for k :: nat
    using char_sets(1) that by simp
  show ?case
  proof (cases "n < 10")
    case True
    then show ?thesis using digit [OF True] by (subst dec.simps) simp
  next
    case False
    then show ?thesis using 1 digit [of "n mod 10"] by (subst dec.simps) simp
  qed
qed

lemma pad0_decimals: "set (pad0 w n) \<subseteq> set decimals"
  using dec_decimals [of n] char_sets(8) by (auto simp: pad0_def Let_def)

lemma dec_length: "n < 10 ^ Suc w \<Longrightarrow> length (dec n) \<le> Suc w"
proof (induction w arbitrary: n)
  case (Suc w)
  then have "n div 10 < 10 ^ Suc w" by (simp add: less_mult_imp_div_less mult.commute)
  from Suc.IH [OF this] show ?case by (subst dec.simps) simp
qed (simp add: dec.simps)

lemma pad0_length: "n < 10 ^ Suc w \<Longrightarrow> length (pad0 (Suc w) n) = Suc w"
  using dec_length [of n w] by (simp add: pad0_def Let_def)

lemma text_chars:
  "set (speed_str r) \<subseteq> set speed_chars" "set (speed_trigger_str ms) \<subseteq> set trigger_chars"
proof -
  show "set (speed_str r) \<subseteq> set speed_chars"
    unfolding speed_str_def
    by (cases "r_gps_valid r"; simp only: if_True if_False; rule subset_trans [OF pad0_decimals char_sets(2)] char_sets(4))
  have "set (pad0 2 m @ ''.'' @ pad0 2 n) \<subseteq> set trigger_chars" for m n
    unfolding set_append by (intro Un_least subset_trans [OF pad0_decimals char_sets(3)] char_sets(7))
  then show "set (speed_trigger_str ms) \<subseteq> set trigger_chars"
    unfolding speed_trigger_str_def Let_def using char_sets(5,6) by (simp only: split: if_split) blast
qed

lemma texts_plain: "plain (speed_str r)" "plain (speed_trigger_str ms)"
  using text_chars(1) [of r] text_chars(2) [of ms] by (auto intro: plain_chars)

section \<open>The state between two operations\<close>

definition lcd_ok :: "esp_results \<Rightarrow> u8g2 \<Rightarrow> bool" where
  "lcd_ok esp u \<longleftrightarrow> firmware_screen esp u \<and> view_ok u \<and> window u = {0..<128} \<times> {0..<64} \<and> cb u = U8G2_R0 \<and>
     fd_dir (font_decode u) = 0 \<and> is_transparent (font_decode u) = 0 \<and> draw_color u = 1 \<and> font_calc_vref u = Vref_Font \<and>
     (\<forall>bytes. font u = Some bytes \<longrightarrow> u8g2_read_font_info bytes = Some (font_info u))"

lemma lcd_okD:
  assumes "lcd_ok esp u"
  shows "firmware_screen esp u" "view_ok u" "window u = {0..<128} \<times> {0..<64}" "cb u = U8G2_R0"
    "fd_dir (font_decode u) = 0" "is_transparent (font_decode u) = 0" "draw_color u = 1" "font_calc_vref u = Vref_Font"
    "font u = Some bytes \<Longrightarrow> u8g2_read_font_info bytes = Some (font_info u)" "call_calc_vref u = 0"
  using assms by (simp_all add: lcd_ok_def call_calc_vref_def u8g2_font_calc_vref_font_def)

text \<open>Under it a pixel of the buffer is the pixel the display shows there.\<close>

lemma lcd_shown:
  assumes "lcd_ok esp u" and "x < 128" and "y < 64"
  shows "shown u (of_nat x, of_nat y) = pixel u (x, y)" and "visible u (of_nat x, of_nat y)"
proof -
  have xy: "uint (of_nat x :: u8) = int x" "uint (of_nat y :: u8) = int y"
    using assms(2,3) by (simp_all add: unsigned_of_nat take_bit_nat_eq_self)
  note ok = lcd_okD [OF assms(1)]
  have "uint (user_y0 u) = 0" using window_size(3) [OF ok(3)] by simp
  then have "uint (pixel_curr_row u) = 0"
    using ok(2,4) uint_u8(1) [of "pixel_curr_row u"] by (simp add: view_ok_def Let_def)
  then have "rot u (int x, int y) = (x, y)" by (simp add: rot_def Let_def ok(4))
  then show "shown u (of_nat x, of_nat y) = pixel u (x, y)" by (simp add: shown_def xy)
  show "visible u (of_nat x, of_nat y)" using assms(2,3) by (simp add: visible_def ok(3) xy)
qed

section \<open>Fonts\<close>

text \<open>A font that holds the glyphs of some characters, none of them wider than half of the numbers.\<close>

definition char_data :: "u8g2_font_info \<Rightarrow> u8 list \<Rightarrow> char \<Rightarrow> nat option option" where
  "char_data i bytes c =
     u8g2_font_get_glyph_data (u8g2_zero\<lparr>font := Some bytes, font_info := i\<rparr>) (ucast (byte_of c))"

definition font_holds :: "u8 list \<Rightarrow> (char \<Rightarrow> glyph option) \<Rightarrow> string \<Rightarrow> bool" where
  "font_holds bytes gl cs \<longleftrightarrow> (\<exists>i. u8g2_read_font_info bytes = Some i \<and>
     (\<forall>c \<in> set cs. case gl c of
        None \<Rightarrow> char_data i bytes c = Some None
      | Some g \<Rightarrow> g_width g \<le> 128 \<and> (\<exists>ptr. char_data i bytes c = Some (Some ptr) \<and> glyph_at i bytes ptr g)))"

lemma font_holds_glyph:
  assumes "font_holds bytes gl cs" and "c \<in> set cs" and "lcd_ok esp u" and "font u = Some bytes"
  shows "glyph_for u (ucast (byte_of c)) (gl c)"
proof -
  obtain i where i: "u8g2_read_font_info bytes = Some i"
    and c: "case gl c of None \<Rightarrow> char_data i bytes c = Some None
      | Some g \<Rightarrow> g_width g \<le> 128 \<and> (\<exists>ptr. char_data i bytes c = Some (Some ptr) \<and> glyph_at i bytes ptr g)"
    using assms(1,2) unfolding font_holds_def by blast
  have fi: "font_info u = i" using lcd_okD(9) [OF assms(3,4)] i by simp
  have "char_data i bytes c = u8g2_font_get_glyph_data u (ucast (byte_of c))"
    unfolding char_data_def using glyph_data_text [of "u8g2_zero\<lparr>font := Some bytes, font_info := i\<rparr>" u] assms(4) fi by simp
  moreover have "uint (user_x1 u) = 128" using window_size(2) [OF lcd_okD(3) [OF assms(3)]] by simp
  then have "has_room u (fd_dir (font_decode u)) n" if "n \<le> 128" for n
    using that unfolding has_room_def lcd_okD(5) [OF assms(3)] by (simp add: word_le_def)
  ultimately show ?thesis using c assms(4) fi unfolding glyph_for_def by (auto split: option.splits)
qed

lemma UpdateRefHeight_font:
  "\<exists>a d. u8g2_UpdateRefHeight u = u\<lparr>font_ref_ascent := a, font_ref_descent := d\<rparr>"
proof -
  define P where "P v \<longleftrightarrow> (\<exists>a d. v = u\<lparr>font_ref_ascent := a, font_ref_descent := d\<rparr>)" for v
  have "P u" unfolding P_def by (rule exI [of _ "font_ref_ascent u"], rule exI [of _ "font_ref_descent u"]) simp
  moreover have "P (v\<lparr>font_ref_ascent := x\<rparr>) \<and> P (v\<lparr>font_ref_descent := x\<rparr>)" if P: "P v" for v x
  proof -
    obtain a d where v: "v = u\<lparr>font_ref_ascent := a, font_ref_descent := d\<rparr>" using P unfolding P_def by blast
    have "v\<lparr>font_ref_ascent := x\<rparr> = u\<lparr>font_ref_ascent := x, font_ref_descent := d\<rparr>"
      "v\<lparr>font_ref_descent := x\<rparr> = u\<lparr>font_ref_ascent := a, font_ref_descent := x\<rparr>" unfolding v by simp_all
    then show ?thesis unfolding P_def by blast
  qed
  ultimately have "P (u8g2_UpdateRefHeight u)"
    unfolding u8g2_UpdateRefHeight_def Let_def by (simp split del: if_split cong: if_cong) (simp split: if_split)
  then show ?thesis unfolding P_def .
qed

text \<open>What an operation may change of the screen: the buffer, the bus, the font and what text drawing
  sets.\<close>

lemma lcd_ok_change:
  assumes ok: "lcd_ok esp u" and len: "length (tile_buf v) = length (tile_buf u)"
    and bus: "hal_wire v = hal_wire u" "hal_idle esp v = hal_idle esp u"
    and disp: "display_info v = display_info u" "x_offset v = x_offset u"
    and win: "user_x0 v = user_x0 u" "user_x1 v = user_x1 u" "user_y0 v = user_y0 u" "user_y1 v = user_y1 u"
    and page: "is_page_clip_window_intersection v = is_page_clip_window_intersection u"
      "pixel_buf_width v = pixel_buf_width u" "tile_buf_height v = tile_buf_height u" "tile_curr_row v = tile_curr_row u"
      "pixel_curr_row v = pixel_curr_row u" "width v = width u" "height v = height u" "cb v = cb u" "ll_hvline v = ll_hvline u"
    and vars: "fd_dir (font_decode v) = 0" "is_transparent (font_decode v) = 0" "draw_color v = 1" "font_calc_vref v = Vref_Font"
    and info: "\<And>bytes. font v = Some bytes \<Longrightarrow> u8g2_read_font_info bytes = Some (font_info v)"
  shows "lcd_ok esp v"
proof -
  note o = ok [unfolded lcd_ok_def]
  have c: "canvas_w v = canvas_w u" "canvas_h v = canvas_h u" using disp page by (simp_all add: canvas_w_def canvas_h_def)
  have co: "canvas_ok v = canvas_ok u" using len page c by (simp add: canvas_ok_def)
  have "view_ok v = view_ok u" unfolding view_ok_def co page win c ..
  moreover have "window v = window u" unfolding window_def win ..
  moreover have "firmware_screen esp v = firmware_screen esp u"
    unfolding firmware_screen_def panel_ready_def co page disp len bus ..
  ultimately show ?thesis using o vars info page(8) by (simp add: lcd_ok_def)
qed

lemma ClearBuffer_lcd:
  assumes "lcd_ok esp u"
  shows "\<exists>v. u8g2_ClearBuffer u = Some v \<and> lcd_ok esp v \<and> panel_shown v = panel_shown u \<and>
    (\<forall>x < 128. \<forall>y < 64. \<not> pixel v (x, y))"
proof -
  let ?v = "u\<lparr>tile_buf := replicate 1024 0\<rparr>"
  have f: "length (tile_buf u) = 1024" "buffer_ok u"
    using lcd_okD(1) [OF assms] by (simp_all add: firmware_screen_def buffer_ok_def firmware_sizes)
  have ok: "lcd_ok esp ?v"
    using lcd_okD [OF assms] f(1) by (intro lcd_ok_change [OF assms]) (simp_all add: hal_wire_def hal_idle_def)
  have "\<not> pixel ?v (x, y)" if "x < 128" "y < 64" for x y
    using blank_shown [OF lcd_okD(2) [OF ok], of 1024] lcd_shown [OF ok that] by simp
  moreover have "u8g2_ClearBuffer u = Some ?v" using ClearBuffer_ok [OF f(2)] f(1) by simp
  ultimately show ?thesis using ok by (simp add: panel_shown_def hal_wire_def)
qed

lemma SetFont_lcd:
  assumes "lcd_ok esp u" and "u8g2_read_font_info bytes \<noteq> None"
  shows "\<exists>v. u8g2_SetFont u bytes = Some v \<and> lcd_ok esp v \<and> font v = Some bytes \<and> panel_shown v = panel_shown u \<and>
    pixel v = pixel u"
proof (cases "font u = Some bytes")
  case True
  then show ?thesis using assms(1) by (simp add: u8g2_SetFont_def)
next
  case False
  obtain i where i: "u8g2_read_font_info bytes = Some i" using assms(2) by blast
  obtain a d where r: "u8g2_UpdateRefHeight (u\<lparr>font := Some bytes, font_info := i\<rparr>) =
      u\<lparr>font := Some bytes, font_info := i, font_ref_ascent := a, font_ref_descent := d\<rparr>" (is "_ = ?v")
    using UpdateRefHeight_font [of "u\<lparr>font := Some bytes, font_info := i\<rparr>"] by auto
  have "u8g2_SetFont u bytes = Some ?v" using False i r by (simp add: u8g2_SetFont_def)
  moreover have "lcd_ok esp ?v"
    using lcd_okD [OF assms(1)] i by (intro lcd_ok_change [OF assms(1)]) (simp_all add: hal_wire_def hal_idle_def)
  moreover have "pixel ?v = pixel u"
    by (simp add: fun_eq_iff pixel_def cell_of_def canvas_w_def cong: ll_hvline_fn.case_cong)
  ultimately show ?thesis by (simp add: panel_shown_def hal_wire_def)
qed

lemma DrawStr_lcd:
  assumes ok: "lcd_ok esp u" and f: "font u = Some bytes" "font_holds bytes gl cs" and str: "set str \<subseteq> set cs" "plain str"
  shows "\<exists>n v. u8g2_DrawStr u x0 y0 str = Some (n, v) \<and> lcd_ok esp v \<and> font v = font u \<and> panel_shown v = panel_shown u \<and>
    (\<forall>x < 128. \<forall>y < 64. pixel v (x, y) = str_paint 0 1 0 0 gl x0 y0 str (of_nat x, of_nat y) (pixel u (x, y)))"
proof -
  have "glyph_for u (ucast (byte_of c)) (gl c)" if "c \<in> set str" for c
    using font_holds_glyph [OF f(2) _ ok f(1)] that str(1) by blast
  moreover have "fd_dir (font_decode u) < 4" unfolding lcd_okD(5) [OF ok] by simp
  ultimately obtain v where v: "u8g2_DrawStr u x0 y0 str = Some (str_advance gl str, v)"
    "renders (u\<lparr>next_cb := Some Ascii_Next, utf8_state := 0\<rparr>) (str_paint 0 1 0 0 gl x0 y0 str) v"
    "draw_color v = 1" "fd_dir (font_decode v) = 0" "is_transparent (font_decode v) = 0"
    using DrawStr_renders [OF lcd_okD(2) [OF ok] _ str(2), of gl x0 y0] lcd_okD [OF ok] by (auto simp only:)
  obtain buf fd c where buf: "length buf = length (tile_buf u)"
    "v = u\<lparr>next_cb := Some Ascii_Next, utf8_state := 0, tile_buf := buf, font_decode := fd, draw_color := c\<rparr>"
    using v(2) unfolding renders_def text_only_def by auto
  have okv: "lcd_ok esp v"
    using lcd_okD [OF ok] buf v(3-5) by (intro lcd_ok_change [OF ok]) (simp_all add: hal_wire_def hal_idle_def)
  have "pixel v (x, y) = str_paint 0 1 0 0 gl x0 y0 str (of_nat x, of_nat y) (pixel u (x, y))" if "x < 128" "y < 64" for x y
    using v(2) lcd_shown [OF ok that] lcd_shown [OF okv that] unfolding renders_def shown_decoder by auto
  moreover have "font v = font u" "panel_shown v = panel_shown u" by (simp_all add: buf(2) panel_shown_def hal_wire_def)
  ultimately show ?thesis using v(1) okv by blast
qed

lemma bus_only_lcd:
  assumes "lcd_ok esp u" and "bus_only u v" and "panel_ready esp v"
  shows "lcd_ok esp v"
proof -
  obtain es st where e: "v = u\<lparr>io := es, i2c_started := st\<rparr>" using assms(2) unfolding bus_only_def by blast
  have c: "canvas_ok v = canvas_ok u" by (simp add: e canvas_ok_def canvas_w_def canvas_h_def)
  have "view_ok v = view_ok u" unfolding view_ok_def c by (simp add: e canvas_w_def canvas_h_def Let_def cong: u8g2_cb.case_cong)
  moreover have "window v = window u" by (simp add: e window_def)
  moreover have "firmware_screen esp v"
    using lcd_okD(1) [OF assms(1)] assms(3) unfolding firmware_screen_def c by (simp add: e)
  ultimately show ?thesis using assms(1) by (simp add: lcd_ok_def e)
qed

lemma UpdateDisplay_lcd:
  assumes ok: "lcd_ok esp u"
  shows "\<exists>v new. u8g2_UpdateDisplay (firmware_lcd esp) u = Some v \<and> lcd_ok esp v \<and> panel_shown v = panel_shown u @ new \<and>
    (\<forall>d. \<forall>x < 128. \<forall>y < 64. sh1106_lit (foldl sh1106_step d new) (x, y) = pixel u (x, y))"
proof -
  from refresh_lights [OF lcd_okD(1) [OF ok]] obtain v new where
    v: "u8g2_UpdateDisplay (firmware_lcd esp) u = Some v" "firmware_screen esp v" "bus_only u v"
      "panel_shown v = panel_shown u @ new"
      "\<forall>d. \<forall>x < 128. \<forall>y < 64. sh1106_lit (foldl sh1106_step d new) (x, y) = pixel u (x, y)" by blast
  have "panel_ready esp v" using v(2) by (simp add: firmware_screen_def)
  from bus_only_lcd [OF ok v(3) this] have "lcd_ok esp v" .
  with v show ?thesis by blast
qed

section \<open>A pass of the loop\<close>

definition fonts_hold :: "u8 list \<Rightarrow> u8 list \<Rightarrow> (char \<Rightarrow> glyph option) \<Rightarrow> (char \<Rightarrow> glyph option) \<Rightarrow> bool" where
  "fonts_hold fub35 helvB08 gb gs \<longleftrightarrow> font_holds fub35 gb speed_chars \<and> font_holds helvB08 gs trigger_chars"

lemma font_holds_read: "font_holds bytes gl cs \<Longrightarrow> u8g2_read_font_info bytes \<noteq> None"
  by (auto simp: font_holds_def)

text \<open>The paint of the four times, under each other.\<close>

definition time_paint :: "(char \<Rightarrow> glyph option) \<Rightarrow> u8 \<Rightarrow> u32 \<Rightarrow> u8 \<times> u8 \<Rightarrow> bool \<Rightarrow> bool" where
  "time_paint gs y ms = str_paint 0 1 0 0 gs 90 y (speed_trigger_str ms)"

fun times_paint :: "(char \<Rightarrow> glyph option) \<Rightarrow> u16 \<Rightarrow> speed_triggers_t list \<Rightarrow> u8 \<times> u8 \<Rightarrow> bool \<Rightarrow> bool" where
  "times_paint gs y [] p b = b"
| "times_paint gs y (t # list) p b = times_paint gs (y + 10) list p (time_paint gs (ucast y) (st_ms t) p b)"

lemma draw_list_lcd:
  assumes "lcd_ok esp u" and "font_holds helvB08 gs trigger_chars"
  shows "\<exists>v. draw_speed_triggers_list helvB08 90 y list u = Some v \<and> lcd_ok esp v \<and> panel_shown v = panel_shown u \<and>
    (\<forall>i < 128. \<forall>j < 64. pixel v (i, j) = times_paint gs y list (of_nat i, of_nat j) (pixel u (i, j)))"
  using assms(1)
proof (induction list arbitrary: y u)
  case (Cons t list)
  obtain u1 where u1: "u8g2_SetFont u helvB08 = Some u1" "lcd_ok esp u1" "font u1 = Some helvB08"
      "panel_shown u1 = panel_shown u" "pixel u1 = pixel u"
    using SetFont_lcd [OF Cons.prems font_holds_read [OF assms(2)]] by blast
  obtain n u2 where u2: "u8g2_DrawStr u1 90 (ucast y) (speed_trigger_str (st_ms t)) = Some (n, u2)" "lcd_ok esp u2"
      "panel_shown u2 = panel_shown u1"
      "\<forall>i < 128. \<forall>j < 64. pixel u2 (i, j) =
        str_paint 0 1 0 0 gs 90 (ucast y) (speed_trigger_str (st_ms t)) (of_nat i, of_nat j) (pixel u1 (i, j))"
    using DrawStr_lcd [OF u1(2,3) assms(2) text_chars(2) texts_plain(2), of 90 "ucast y" "st_ms t"] by blast
  obtain v where v: "draw_speed_triggers_list helvB08 90 (y + 10) list u2 = Some v" "lcd_ok esp v" "panel_shown v = panel_shown u2"
      "\<forall>i < 128. \<forall>j < 64. pixel v (i, j) = times_paint gs (y + 10) list (of_nat i, of_nat j) (pixel u2 (i, j))"
    using Cons.IH [OF u2(2), of "y + 10"] by blast
  have "draw_speed_triggers_list helvB08 90 y (t # list) u = Some v"
    using u1(1) u2(1) v(1) by (simp add: draw_speed_trigger_def)
  with u1(4,5) u2(3,4) v(2-4) show ?case by (simp add: time_paint_def)
qed simp

text \<open>The picture of the values that a pass has read.\<close>

definition lcd_picture :: "(char \<Rightarrow> glyph option) \<Rightarrow> (char \<Rightarrow> glyph option) \<Rightarrow> lcd_reads \<Rightarrow> u8 \<times> u8 \<Rightarrow> bool" where
  "lcd_picture gb gs r p =
     time_paint gs 40 (r_trigger_3 r) p (time_paint gs 30 (r_trigger_2 r) p (time_paint gs 20 (r_trigger_1 r) p
       (time_paint gs 10 (r_trigger_0 r) p (str_paint 0 1 0 0 gb 2 40 (speed_str r) p False))))"

lemma refresh_list:
  assumes "length list = 4"
  shows "map st_ms (refresh_trigger_list r list) = [r_trigger_0 r, r_trigger_1 r, r_trigger_2 r, r_trigger_3 r]"
    "length (refresh_trigger_list r list) = 4"
proof -
  obtain a b c d where "list = [a, b, c, d]" using assms by (auto simp: numeral_eq_Suc length_Suc_conv)
  then show "map st_ms (refresh_trigger_list r list) = [r_trigger_0 r, r_trigger_1 r, r_trigger_2 r, r_trigger_3 r]"
    "length (refresh_trigger_list r list) = 4"
    by (simp_all add: refresh_trigger_list_def set_trigger_def numeral_2_eq_2 numeral_3_eq_3)
qed

lemma times_paint_four:
  assumes "map st_ms list = [t0, t1, t2, t3]"
  shows "times_paint gs 10 list p b = time_paint gs 40 t3 p (time_paint gs 30 t2 p (time_paint gs 20 t1 p (time_paint gs 10 t0 p b)))"
proof -
  obtain a0 a1 a2 a3 where "list = [a0, a1, a2, a3]" "st_ms a0 = t0" "st_ms a1 = t1" "st_ms a2 = t2" "st_ms a3 = t3"
    using assms by auto
  then show ?thesis by simp
qed

definition lcd_task_ok :: "esp_results \<Rightarrow> lcd_task \<Rightarrow> bool" where
  "lcd_task_ok esp t \<longleftrightarrow> lcd_ok esp (lcd t) \<and> length (speed_triggers t) = 4"

lemma emit_lcd:
  assumes "lcd_ok esp u"
  shows "lcd_ok esp (emit [VTaskDelay n] u)" "panel_shown (emit [VTaskDelay n] u) = panel_shown u"
proof -
  have w: "hal_wire (emit [VTaskDelay n] u) = hal_wire u" "hal_idle esp (emit [VTaskDelay n] u) = hal_idle esp u"
    by (simp_all add: hal_wire_def hal_idle_def i2c_driver_append)
  show "lcd_ok esp (emit [VTaskDelay n] u)"
    using lcd_okD [OF assms] w by (intro lcd_ok_change [OF assms]) (simp_all add: emit_def)
  show "panel_shown (emit [VTaskDelay n] u) = panel_shown u" by (simp add: panel_shown_def w)
qed

lemma pass_lcd:
  assumes t: "lcd_task_ok esp t" and fonts: "fonts_hold fub35 helvB08 gb gs"
  shows "\<exists>t' new. task_lcd_pass esp fub35 helvB08 r t = Some t' \<and> lcd_task_ok esp t' \<and>
    panel_shown (lcd t') = panel_shown (lcd t) @ new \<and>
    (\<forall>d. \<forall>i < 128. \<forall>j < 64. sh1106_lit (foldl sh1106_step d new) (i, j) = lcd_picture gb gs r (of_nat i, of_nat j))"
proof -
  note f = fonts [unfolded fonts_hold_def]
  let ?list = "refresh_trigger_list r (speed_triggers t)"
  have l: "map st_ms ?list = [r_trigger_0 r, r_trigger_1 r, r_trigger_2 r, r_trigger_3 r]" "length ?list = 4"
    using refresh_list t by (simp_all add: lcd_task_ok_def)
  have ok: "lcd_ok esp (lcd t)" using t by (simp add: lcd_task_ok_def)
  obtain u1 where u1: "u8g2_ClearBuffer (lcd t) = Some u1" "lcd_ok esp u1" "panel_shown u1 = panel_shown (lcd t)"
      "\<forall>i < 128. \<forall>j < 64. \<not> pixel u1 (i, j)" using ClearBuffer_lcd [OF ok] by blast
  obtain u2 where u2: "u8g2_SetFont u1 fub35 = Some u2" "lcd_ok esp u2" "font u2 = Some fub35"
      "panel_shown u2 = panel_shown u1" "pixel u2 = pixel u1"
    using SetFont_lcd [OF u1(2) font_holds_read] f by blast
  obtain n u3 where u3: "u8g2_DrawStr u2 2 40 (speed_str r) = Some (n, u3)" "lcd_ok esp u3" "panel_shown u3 = panel_shown u2"
      "\<forall>i < 128. \<forall>j < 64. pixel u3 (i, j) = str_paint 0 1 0 0 gb 2 40 (speed_str r) (of_nat i, of_nat j) (pixel u2 (i, j))"
    using DrawStr_lcd [OF u2(2,3) _ text_chars(1) texts_plain(1)] f by blast
  obtain u4 where u4: "draw_speed_triggers_list helvB08 90 10 ?list u3 = Some u4" "lcd_ok esp u4" "panel_shown u4 = panel_shown u3"
      "\<forall>i < 128. \<forall>j < 64. pixel u4 (i, j) = times_paint gs 10 ?list (of_nat i, of_nat j) (pixel u3 (i, j))"
    using draw_list_lcd [OF u3(2)] f by blast
  obtain u5 new where u5: "u8g2_UpdateDisplay (firmware_lcd esp) u4 = Some u5" "lcd_ok esp u5"
      "panel_shown u5 = panel_shown u4 @ new"
      "\<forall>d. \<forall>i < 128. \<forall>j < 64. sh1106_lit (foldl sh1106_step d new) (i, j) = pixel u4 (i, j)"
    using UpdateDisplay_lcd [OF u4(2)] by blast
  have "task_lcd_pass esp fub35 helvB08 r t =
      Some (t\<lparr>lcd := emit [VTaskDelay (50 div portTICK_PERIOD_MS)] u5, speed_triggers := ?list\<rparr>)" (is "_ = Some ?t'")
    using u1(1) u2(1) u3(1) u4(1) u5(1) by (simp add: task_lcd_pass_def Let_def)
  moreover have "pixel u4 (i, j) = lcd_picture gb gs r (of_nat i, of_nat j)" if "i < 128" "j < 64" for i j
    using that u1(4) u2(5) u3(4) u4(4) by (simp add: lcd_picture_def times_paint_four [OF l(1)])
  moreover have "lcd_task_ok esp ?t'" using emit_lcd(1) [OF u5(2)] l(2) by (simp add: lcd_task_ok_def)
  ultimately show ?thesis using u1(3) u2(4) u3(3) u4(3) u5(3,4) emit_lcd(2) [OF u5(2)] by auto
qed

section \<open>The start of the task\<close>

lemma setup_lcd:
  assumes "hal_idle esp u" and "fst (received (hal_wire u)) = Rx_Idle"
  shows "lcd_ok esp ((u8g2_Setup_sh1106_i2c_128x64_winstar_f U8G2_R0 u)\<lparr>i2c_address := a\<rparr>)" (is "lcd_ok esp (?s\<lparr>i2c_address := a\<rparr>)")
proof -
  have "view_ok (?s\<lparr>i2c_address := a\<rparr>)" using firmware_view(1) [of u]
    by (simp add: view_ok_def canvas_ok_def canvas_w_def canvas_h_def Let_def cong: u8g2_cb.case_cong)
  moreover have "window (?s\<lparr>i2c_address := a\<rparr>) = {0..<128} \<times> {0..<64}"
    using firmware_view(2) [of u] by (simp add: window_def)
  ultimately show ?thesis
    using firmware_started [OF assms, of a] firmware_text [of U8G2_R0 u] by (simp add: lcd_ok_def text_vars_def)
qed

lemma start_lcd:
  assumes "hal_idle esp (lcd t)" and "fst (received (hal_wire (lcd t))) = Rx_Idle" and "length (speed_triggers t) = 4"
    and "u8g2_read_font_info fub35 \<noteq> None"
  shows "\<exists>t'. task_lcd_start esp fub35 t = Some t' \<and> lcd_task_ok esp t'"
proof -
  let ?pins = "U8G2_ESP32_HAL_DEFAULT\<lparr>hal_sda := 21, hal_scl := 22\<rparr>"
  let ?u = "u8g2_esp32_hal_init ?pins (lcd t)"
  let ?s = "(u8g2_Setup_sh1106_i2c_128x64_winstar_f U8G2_R0 ?u)\<lparr>i2c_address := 0x78\<rparr>"
  have idle: "hal_idle esp ?u" "fst (received (hal_wire ?u)) = Rx_Idle"
    using assms(1,2) by (simp_all add: u8g2_esp32_hal_init_def hal_idle_def hal_wire_def)
  have ok: "lcd_ok esp ?s" by (rule setup_lcd [OF idle])
  have "u8g2_esp32_hal ?s = ?pins"
    using setup_core [of U8G2_R0 ?u] by (simp add: core_def u8x8.truncate_def u8x8_SetupDefaults_def
      u8x8_d_helper_display_setup_memory_def u8g2_esp32_hal_init_def)
  then have pins: "firmware_pins (u8g2_esp32_hal ?s)" by (simp add: firmware_pins_def U8G2_ESP32_HAL_DEFAULT_def)
  have "panel_ready esp ?s" using lcd_okD(1) [OF ok] by (simp add: firmware_screen_def)
  then have rx: "hal_idle esp ?s" "received (hal_wire ?s) = (Rx_Idle, panel_shown ?s)"
    by (simp_all add: panel_ready_def panel_shown_def prod_eq_iff)
  have "i2c_address ?s \<noteq> 255" by simp
  from display_on [OF rx pins this] obtain w x where x: "u8x8_InitDisplay (firmware_lcd esp) ?s = Some w"
    "u8x8_SetPowerSave (firmware_lcd esp) 0 w = Some x" "hal_idle esp x" "bus_only ?s x"
    "fst (received (hal_wire x)) = Rx_Idle" by auto
  have okx: "lcd_ok esp x" by (rule bus_only_lcd [OF ok x(4)]) (simp add: panel_ready_def x(3,5))
  obtain y where y: "u8g2_ClearBuffer x = Some y" "lcd_ok esp y" using ClearBuffer_lcd [OF okx] by blast
  obtain z where z: "u8g2_SetFont y fub35 = Some z" "lcd_ok esp z" using SetFont_lcd [OF y(2) assms(4)] by blast
  obtain v where v: "u8g2_UpdateDisplay (firmware_lcd esp) z = Some v" "lcd_ok esp v" using UpdateDisplay_lcd [OF z(2)] by blast
  have "task_lcd_start esp fub35 t = Some (t\<lparr>lcd := v\<rparr>)"
    unfolding task_lcd_start_def Let_def x(1,2) bind.bind_lunit y(1) z(1) v(1) ..
  with v(2) assms(3) show ?thesis by (simp add: lcd_task_ok_def)
qed

section \<open>Both tasks\<close>

text \<open>The GPS task works between any two reads of the display task. \<open>sy_pc\<close> counts the reads of the pass:
  four times, whether the position is valid, and if so the speed; after the last one the pass draws.\<close>

record system =
  sy_gps :: gps_task
  sy_lcd :: lcd_task
  sy_pc :: nat
  sy_reads :: lcd_reads

definition read_var :: "nat \<Rightarrow> gps_task \<Rightarrow> lcd_reads \<Rightarrow> lcd_reads" where
  "read_var k g r =
     (if k = 0 then r\<lparr>r_trigger_0 := trigger_0_ms (gps_trig g)\<rparr>
      else if k = 1 then r\<lparr>r_trigger_1 := trigger_1_ms (gps_trig g)\<rparr>
      else if k = 2 then r\<lparr>r_trigger_2 := trigger_2_ms (gps_trig g)\<rparr>
      else if k = 3 then r\<lparr>r_trigger_3 := trigger_3_ms (gps_trig g)\<rparr>
      else if k = 4 then r\<lparr>r_gps_valid := gps_valid g\<rparr>
      else r\<lparr>r_ext_speed := ext_speed g\<rparr>)"

definition lcd_move :: "esp_results \<Rightarrow> u8 list \<Rightarrow> u8 list \<Rightarrow> system \<Rightarrow> system option" where
  "lcd_move esp fub35 helvB08 s =
     (if sy_pc s < 6 then
        Some (s\<lparr>sy_pc := (if sy_pc s = 4 \<and> \<not> gps_valid (sy_gps s) then 6 else sy_pc s + 1),
                sy_reads := read_var (sy_pc s) (sy_gps s) (sy_reads s)\<rparr>)
      else do {
        t \<leftarrow> task_lcd_pass esp fub35 helvB08 (sy_reads s) (sy_lcd s);
        Some (s\<lparr>sy_lcd := t, sy_pc := 0\<rparr>) })"

inductive system_step :: "esp_results \<Rightarrow> u8 list \<Rightarrow> u8 list \<Rightarrow> system \<Rightarrow> system \<Rightarrow> bool"
  for esp fub35 helvB08 where
  gps: "gps_step (sy_gps s) g \<Longrightarrow> system_step esp fub35 helvB08 s (s\<lparr>sy_gps := g\<rparr>)"
| display: "lcd_move esp fub35 helvB08 s = Some s' \<Longrightarrow> system_step esp fub35 helvB08 s s'"

inductive system_reach :: "esp_results \<Rightarrow> u8 list \<Rightarrow> u8 list \<Rightarrow> system \<Rightarrow> bool"
  for esp fub35 helvB08 where
  start: "hal_idle esp u \<Longrightarrow> fst (received (hal_wire u)) = Rx_Idle \<Longrightarrow>
    task_lcd_start esp fub35 (lcd_task_init u) = Some t \<Longrightarrow>
    system_reach esp fub35 helvB08 \<lparr>sy_gps = gps_task_init, sy_lcd = t, sy_pc = 0, sy_reads = r\<rparr>"
| step: "system_reach esp fub35 helvB08 s \<Longrightarrow> system_step esp fub35 helvB08 s s' \<Longrightarrow> system_reach esp fub35 helvB08 s'"

inductive_cases system_stepE: "system_step esp fub35 helvB08 s s'"

text \<open>A value that has been read is one the GPS task has published.\<close>

definition published :: "(gps_task \<Rightarrow> 'a) \<Rightarrow> 'a \<Rightarrow> bool" where
  "published f v \<longleftrightarrow> (\<exists>g. gps_reach g \<and> f g = v)"

definition reads_ok :: "nat \<Rightarrow> lcd_reads \<Rightarrow> bool" where
  "reads_ok k r \<longleftrightarrow>
     (0 < k \<longrightarrow> published (\<lambda>g. trigger_0_ms (gps_trig g)) (r_trigger_0 r)) \<and>
     (1 < k \<longrightarrow> published (\<lambda>g. trigger_1_ms (gps_trig g)) (r_trigger_1 r)) \<and>
     (2 < k \<longrightarrow> published (\<lambda>g. trigger_2_ms (gps_trig g)) (r_trigger_2 r)) \<and>
     (3 < k \<longrightarrow> published (\<lambda>g. trigger_3_ms (gps_trig g)) (r_trigger_3 r)) \<and>
     (4 < k \<longrightarrow> published gps_valid (r_gps_valid r)) \<and>
     (5 < k \<longrightarrow> r_gps_valid r \<longrightarrow> published ext_speed (r_ext_speed r))"

definition system_ok :: "esp_results \<Rightarrow> system \<Rightarrow> bool" where
  "system_ok esp s \<longleftrightarrow> gps_reach (sy_gps s) \<and> lcd_task_ok esp (sy_lcd s) \<and> sy_pc s \<le> 6 \<and>
     reads_ok (sy_pc s) (sy_reads s) \<and> (sy_pc s = 5 \<longrightarrow> r_gps_valid (sy_reads s))"

lemma read_count: "k < 6 \<Longrightarrow> k = 0 \<or> k = 1 \<or> k = 2 \<or> k = 3 \<or> k = 4 \<or> k = (5 :: nat)"
  by arith

lemma reads_ok_step:
  assumes "reads_ok k r" and "k < 6" and "gps_reach g"
  shows "reads_ok (if k = 4 \<and> \<not> gps_valid g then 6 else k + 1) (read_var k g r)"
    and "(if k = 4 \<and> \<not> gps_valid g then 6 else k + 1) = 5 \<Longrightarrow> r_gps_valid (read_var k g r)"
proof -
  have p: "published f (f g)" for f :: "gps_task \<Rightarrow> 'b" using assms(3) by (auto simp: published_def)
  show "reads_ok (if k = 4 \<and> \<not> gps_valid g then 6 else k + 1) (read_var k g r)"
    using read_count [OF assms(2)] assms(1) p [of "\<lambda>g. trigger_0_ms (gps_trig g)"] p [of "\<lambda>g. trigger_1_ms (gps_trig g)"]
      p [of "\<lambda>g. trigger_2_ms (gps_trig g)"] p [of "\<lambda>g. trigger_3_ms (gps_trig g)"] p [of gps_valid] p [of ext_speed]
    by (elim disjE) (simp_all add: reads_ok_def read_var_def)
  show "(if k = 4 \<and> \<not> gps_valid g then 6 else k + 1) = 5 \<Longrightarrow> r_gps_valid (read_var k g r)"
    using read_count [OF assms(2)] by (auto simp: read_var_def split: if_splits)
qed

lemma system_move:
  assumes "system_ok esp s" and "fonts_hold fub35 helvB08 gb gs"
  shows "\<exists>s'. lcd_move esp fub35 helvB08 s = Some s' \<and> system_ok esp s'"
proof (cases "sy_pc s < 6")
  case True
  then show ?thesis using assms(1) reads_ok_step [of "sy_pc s" "sy_reads s" "sy_gps s"]
    by (auto simp: lcd_move_def system_ok_def)
next
  case False
  obtain t where "task_lcd_pass esp fub35 helvB08 (sy_reads s) (sy_lcd s) = Some t" "lcd_task_ok esp t"
    using pass_lcd [OF _ assms(2)] assms(1) unfolding system_ok_def by blast
  then show ?thesis using False assms(1) by (simp add: lcd_move_def system_ok_def reads_ok_def)
qed

lemma system_reach_ok:
  assumes "system_reach esp fub35 helvB08 s" and fonts: "fonts_hold fub35 helvB08 gb gs"
  shows "system_ok esp s"
  using assms(1)
proof induction
  case (start u t r)
  have "u8g2_read_font_info fub35 \<noteq> None" using fonts font_holds_read by (auto simp: fonts_hold_def)
  then have "lcd_task_ok esp t"
    using start_lcd [of esp "lcd_task_init u" fub35] start by (simp add: lcd_task_init_def)
  then show ?case by (simp add: system_ok_def reads_ok_def gps_reach.init)
next
  case (step s s')
  from step.hyps(2) show ?case
  proof (rule system_stepE)
    fix g assume "s' = s\<lparr>sy_gps := g\<rparr>" "gps_step (sy_gps s) g"
    then show ?thesis using step.IH gps_reach.step by (auto simp: system_ok_def)
  next
    assume "lcd_move esp fub35 helvB08 s = Some s'"
    then show ?thesis using system_move [OF step.IH fonts] by simp
  qed
qed

section \<open>Properties\<close>

text \<open>C1: the display shows what the GPS task has published. A pass of the loop of task_lcd ends, and after
  it every pixel of the panel is lit exactly if the picture of the values it has read has it: the
  speed in whole km/h with three digits, or xxx without a valid position, in the large font, and the
  four times in seconds and hundredths, 99.99 for longer ones and __.__ for none, under each other in
  the small one. Nothing is left of the pass before, whatever it has shown, and the task is ready
  for the next one.\<close>

theorem pass_shows_reads:
  assumes "lcd_task_ok esp t" and "fonts_hold fub35 helvB08 gb gs"
  shows "\<exists>t' new. task_lcd_pass esp fub35 helvB08 r t = Some t' \<and> lcd_task_ok esp t' \<and>
    panel_shown (lcd t') = panel_shown (lcd t) @ new \<and>
    (\<forall>d. \<forall>i < 128. \<forall>j < 64. sh1106_lit (foldl sh1106_step d new) (i, j) = lcd_picture gb gs r (of_nat i, of_nat j))"
  by (rule pass_lcd [OF assms])

text \<open>The excerpt of u8g2_font_helvB08_tf again, and one of u8g2_font_fub35_tf with the character x.\<close>

definition fub35_excerpt :: "u8 list" where
  "fub35_excerpt =
     [189, 0, 5, 5, 6, 6, 5, 6, 7, 51, 65, 254, 243, 35, 247, 36, 250, 0, 0, 0, 2, 0, 61, 0,
      0, 120, 57, 25, 22, 193, 109, 56, 210, 33, 144, 115, 16, 196, 28, 5, 33, 199, 57, 198, 129, 16, 113, 164,
      103, 53, 172, 105, 203, 75, 96, 242, 22, 183, 180, 102, 61, 202, 16, 71, 58, 4, 114, 14, 130, 152, 163, 156,
      12, 50, 14, 132, 4, 4, 33, 225, 80, 8, 0, 0, 0, 0, 0, 0]"

definition fub35_x :: glyph where
  "fub35_x = \<lparr>g_width = 25, g_height = 24, g_x = 1, g_y = 0, g_delta = 27, g_groups =
     [(1, 7, 0), (9, 7, 0), (2, 8, 0), (7, 7, 0), (4, 8, 0), (6, 7, 0), (5, 8, 0), (4, 7, 0), (7, 7, 0),
      (3, 7, 0), (8, 8, 0), (2, 7, 0), (9, 15, 0), (11, 13, 0), (12, 13, 0), (13, 11, 0), (15, 9, 0), (16, 9, 0),
      (15, 11, 0), (14, 11, 0), (13, 13, 0), (11, 15, 0), (10, 6, 0), (2, 7, 0), (9, 7, 0), (2, 8, 0), (7, 7, 0),
      (4, 8, 0), (6, 7, 0), (5, 7, 1), (6, 8, 0), (3, 7, 0), (8, 8, 0), (1, 8, 0), (8, 8, 0), (1, 7, 0),
      (10, 8, 0)]\<rparr>"

definition fub35_glyph :: "char \<Rightarrow> glyph option" where
  "fub35_glyph c = (if c = CHR ''x'' then Some fub35_x else None)"

definition holds_check :: "u8 list \<Rightarrow> (char \<Rightarrow> glyph option) \<Rightarrow> string \<Rightarrow> bool" where
  "holds_check bytes gl cs \<longleftrightarrow>
     (case u8g2_read_font_info bytes of
        None \<Rightarrow> False
      | Some i \<Rightarrow> list_all (\<lambda>c.
          case gl c of
            None \<Rightarrow> char_data i bytes c = Some None
          | Some g \<Rightarrow> g_width g \<le> 128 \<and>
              (case char_data i bytes c of Some (Some ptr) \<Rightarrow> code_at i bytes ptr g | _ \<Rightarrow> False)) cs)"

lemma holds_check: "holds_check bytes gl cs \<Longrightarrow> font_holds bytes gl cs"
  using code_at unfolding holds_check_def font_holds_def
  by (fastforce simp: list_all_iff split: option.splits)

lemma excerpts_hold: "fonts_hold fub35_excerpt helvB08_excerpt fub35_glyph helvB08_glyph"
  unfolding fonts_hold_def by (intro conjI holds_check; code_simp)

definition reads_example :: lcd_reads where
  "reads_example = \<lparr>r_trigger_0 = 1110, r_trigger_1 = 0, r_trigger_2 = 0, r_trigger_3 = 0,
     r_gps_valid = False, r_ext_speed = 0\<rparr>"

lemma start_example:
  "\<exists>t. task_lcd_start (\<lambda>_ _. 0) fub35_excerpt (lcd_task_init u8g2_zero) = Some t \<and> lcd_task_ok (\<lambda>_ _. 0) t"
proof (rule start_lcd)
  show "hal_idle (\<lambda>_ _. 0) (lcd (lcd_task_init u8g2_zero))"
    "fst (received (hal_wire (lcd (lcd_task_init u8g2_zero)))) = Rx_Idle"
    "length (speed_triggers (lcd_task_init u8g2_zero)) = 4"
    by (simp_all add: lcd_task_init_def hal_idle_def hal_wire_def esp_ok_def i2c_driver_def u8g2_zero_def received_def)
  show "u8g2_read_font_info fub35_excerpt \<noteq> None" by code_simp
qed

theorem pass_shows_reads_witness:
  "\<exists>t t' new. task_lcd_start (\<lambda>_ _. 0) fub35_excerpt (lcd_task_init u8g2_zero) = Some t \<and>
     task_lcd_pass (\<lambda>_ _. 0) fub35_excerpt helvB08_excerpt reads_example t = Some t' \<and>
     panel_shown (lcd t') = panel_shown (lcd t) @ new \<and>
     (\<forall>d. map (\<lambda>i. sh1106_lit (foldl sh1106_step d new) (i, 16)) [2, 3, 4, 5, 10, 11, 19, 20, 26, 27] =
            [False, False, True, True, True, False, False, True, True, False] \<and>
          map (\<lambda>i. sh1106_lit (foldl sh1106_step d new) (i, 2)) [89, 90, 91, 92, 93, 94, 95] =
            [False, False, True, True, True, False, False])"
proof -
  let ?lit = "lcd_picture fub35_glyph helvB08_glyph reads_example"
  from start_example obtain t where t: "task_lcd_start (\<lambda>_ _. 0) fub35_excerpt (lcd_task_init u8g2_zero) = Some t"
    "lcd_task_ok (\<lambda>_ _. 0) t" by blast
  obtain t' new where p: "task_lcd_pass (\<lambda>_ _. 0) fub35_excerpt helvB08_excerpt reads_example t = Some t'"
    "panel_shown (lcd t') = panel_shown (lcd t) @ new"
    "\<forall>d. \<forall>i < 128. \<forall>j < 64. sh1106_lit (foldl sh1106_step d new) (i, j) = ?lit (of_nat i, of_nat j)"
    using pass_shows_reads [OF t(2) excerpts_hold, of reads_example] by blast
  have str: "speed_trigger_str 1110 = ''01.11''" "speed_trigger_str 0 = ''__.__''" "speed_str reads_example = ''xxx''"
    by code_simp+
  have px: "\<not> ?lit (2, 16)" "\<not> ?lit (3, 16)" "?lit (4, 16)" "?lit (5, 16)" "?lit (10, 16)"
    "\<not> ?lit (11, 16)" "\<not> ?lit (19, 16)" "?lit (20, 16)" "?lit (26, 16)"
    "\<not> ?lit (27, 16)" "\<not> ?lit (89, 2)" "\<not> ?lit (90, 2)" "?lit (91, 2)" "?lit (92, 2)"
    "?lit (93, 2)" "\<not> ?lit (94, 2)" "\<not> ?lit (95, 2)"
    unfolding lcd_picture_def time_paint_def reads_example_def lcd_reads.simps str [unfolded reads_example_def] by code_simp+
  have "map (\<lambda>i. ?lit (i, 16)) [2, 3, 4, 5, 10, 11, 19, 20, 26, 27] =
      [False, False, True, True, True, False, False, True, True, False]"
    "map (\<lambda>i. ?lit (i, 2)) [89, 90, 91, 92, 93, 94, 95] = [False, False, True, True, True, False, False]"
    by (simp_all only: list.map px simp_thms)
  with t p show ?thesis by simp
qed

text \<open>C2: the two tasks together keep their types, and the display never gets stuck. From the start of
  task_lcd on an idle bus, in every state the system reaches, whatever the GPS task does between any
  two steps of the display, the drawing state is well-formed and ready (its window is the whole panel,
  its buffer has the size of it, the bus is idle, its font is the one it describes), every value read so
  far is one the GPS task had published, and the display task has a next step.\<close>

theorem system_typed:
  assumes "system_reach esp fub35 helvB08 s" and "fonts_hold fub35 helvB08 gb gs"
  shows "lcd_ok esp (lcd (sy_lcd s)) \<and> length (speed_triggers (sy_lcd s)) = 4 \<and> sy_pc s \<le> 6 \<and>
    reads_ok (sy_pc s) (sy_reads s) \<and> (\<exists>s'. lcd_move esp fub35 helvB08 s = Some s')"
  using system_reach_ok [OF assms] system_move [OF _ assms(2)] unfolding system_ok_def lcd_task_ok_def by blast

theorem system_typed_witness:
  "\<exists>t s s'. system_reach (\<lambda>_ _. 0) fub35_excerpt helvB08_excerpt s \<and> sy_pc s = 6 \<and>
     s = \<lparr>sy_gps = gps_task_init, sy_lcd = t, sy_pc = 6, sy_reads = reads_example\<lparr>r_trigger_0 := 0\<rparr>\<rparr> \<and>
     lcd_move (\<lambda>_ _. 0) fub35_excerpt helvB08_excerpt s = Some s'"
proof -
  let ?reach = "system_reach (\<lambda>_ _. 0) fub35_excerpt helvB08_excerpt"
  let ?move = "lcd_move (\<lambda>_ _. 0) fub35_excerpt helvB08_excerpt"
  from start_example obtain t where t: "task_lcd_start (\<lambda>_ _. 0) fub35_excerpt (lcd_task_init u8g2_zero) = Some t" by blast
  let ?s = "\<lambda>k r. \<lparr>sy_gps = gps_task_init, sy_lcd = t, sy_pc = k, sy_reads = r\<rparr>"
  let ?r = "reads_example\<lparr>r_trigger_0 := 0\<rparr>"
  have z: "trigger_0_ms (gps_trig gps_task_init) = 0" "trigger_1_ms (gps_trig gps_task_init) = 0"
    "trigger_2_ms (gps_trig gps_task_init) = 0" "trigger_3_ms (gps_trig gps_task_init) = 0" "\<not> gps_valid gps_task_init"
    by (simp_all add: gps_task_init_def triggers_init_def)
  have r0: "?reach (?s 0 reads_example)"
    by (rule system_reach.start [OF _ _ t]) (simp_all add: hal_idle_def hal_wire_def esp_ok_def i2c_driver_def u8g2_zero_def received_def)
  have m: "?move (?s 0 reads_example) = Some (?s 1 ?r)" "?move (?s 1 ?r) = Some (?s 2 ?r)" "?move (?s 2 ?r) = Some (?s 3 ?r)"
    "?move (?s 3 ?r) = Some (?s 4 ?r)" "?move (?s 4 ?r) = Some (?s 6 ?r)"
    by (simp_all add: lcd_move_def read_var_def z reads_example_def)
  have "?reach (?s 6 ?r)"
    using m r0 by (meson system_reach.step system_step.display)
  with system_typed [OF this excerpts_hold] show ?thesis by (intro exI [of _ t]) auto
qed

end
