(* ===== verification/U8g2_Pixels.thy ===== *)
theory U8g2_Pixels
  imports U8g2_Lines
begin

text \<open>
  libs/u8g2/csrc/u8g2_ll_hvline.c as built without \<open>U8G2_WITH_HVLINE_SPEED_OPTIMIZATION\<close>: lines drawn
  pixel by pixel. The firmware is built with the other branch; the plain one is its reference, and the
  theorem shows that the optimised procedures compute the same buffer. The procedures of this branch
  have the names of the optimised ones, so they carry the suffix \<open>plain\<close>.
\<close>

section \<open>Drawing pixel by pixel\<close>

definition u8g2_draw_pixel_vertical_top_lsb :: "u8g2 \<Rightarrow> u8 \<Rightarrow> u8 \<Rightarrow> u8g2 option" where
  "u8g2_draw_pixel_vertical_top_lsb u x y =
     (let bit_pos = y AND 7;
          pmask = push_bit (unat bit_pos) 1;
          offset = (ucast y AND NOT 7) * ucast (tile_width (display_info u)) :: u16;
          ptr = unat offset + unat x
      in map_option (\<lambda>buf. u\<lparr>tile_buf := buf\<rparr>) (upd_byte ptr (color_byte (draw_color u) pmask) (tile_buf u)))"

definition u8g2_draw_pixel_horizontal_right_lsb :: "u8g2 \<Rightarrow> u8 \<Rightarrow> u8 \<Rightarrow> u8g2 option" where
  "u8g2_draw_pixel_horizontal_right_lsb u x y =
     (let bit_pos = x AND 7;
          pmask = drop_bit (unat bit_pos) 128;
          x = drop_bit 3 x;
          offset = ucast y * ucast (tile_width (display_info u)) + ucast x :: u16;
          ptr = unat offset
      in map_option (\<lambda>buf. u\<lparr>tile_buf := buf\<rparr>) (upd_byte ptr (color_byte (draw_color u) pmask) (tile_buf u)))"

text \<open>The two loops differ only in the coordinate they count up.\<close>

function pixel_loop :: "(u8g2 \<Rightarrow> u8 \<Rightarrow> u8 \<Rightarrow> u8g2 option) \<Rightarrow> u8 \<Rightarrow> u8g2 \<Rightarrow> u8 \<Rightarrow> u8 \<Rightarrow> u8 \<Rightarrow> u8g2 option" where
  "pixel_loop draw dir u x y len =
     (case draw u x y of
        None \<Rightarrow> None
      | Some u \<Rightarrow>
          (let (x, y) = (if dir = 0 then (x + 1, y) else (x, y + 1))
           in if len - 1 \<noteq> 0 then pixel_loop draw dir u x y (len - 1) else Some u))"
  by auto
termination
  by (relation "measure (\<lambda>(draw, dir, u, x, y, len). unat (len - 1))") (auto simp: len_decreases')

declare pixel_loop.simps [simp del]

definition u8g2_ll_hvline_vertical_top_lsb_plain :: "u8g2 \<Rightarrow> u8 \<Rightarrow> u8 \<Rightarrow> u8 \<Rightarrow> u8 \<Rightarrow> u8g2 option" where
  "u8g2_ll_hvline_vertical_top_lsb_plain u x y len dir = pixel_loop u8g2_draw_pixel_vertical_top_lsb dir u x y len"

definition u8g2_ll_hvline_horizontal_right_lsb_plain :: "u8g2 \<Rightarrow> u8 \<Rightarrow> u8 \<Rightarrow> u8 \<Rightarrow> u8 \<Rightarrow> u8g2 option" where
  "u8g2_ll_hvline_horizontal_right_lsb_plain u x y len dir = pixel_loop u8g2_draw_pixel_horizontal_right_lsb dir u x y len"

lemma unat_next_pixel: "unat x < 255 \<Longrightarrow> unat (x + 1) = unat x + 1" for x :: u8
  by (simp add: unat_word_ariths)

section \<open>What a pixel procedure promises\<close>

locale pixel_draw =
  fixes draw :: "u8g2 \<Rightarrow> u8 \<Rightarrow> u8 \<Rightarrow> u8g2 option"
    and ll :: ll_hvline_fn
  assumes draw_pixel: "canvas_ok u \<Longrightarrow> ll_hvline u = ll \<Longrightarrow> (unat x, unat y) \<in> canvas_area u \<Longrightarrow>
    \<exists>buf. draw u x y = Some (u\<lparr>tile_buf := buf\<rparr>) \<and>
      painted (draw_color u) {cell_of u (unat x, unat y)} (tile_buf u) buf"
begin

lemma loop_paints:
  assumes "canvas_ok u" and "ll_hvline u = ll" and "len \<noteq> 0"
    and "segment dir (unat x) (unat y) (unat len) \<subseteq> canvas_area u" and "unat y + unat len \<le> 256"
  shows "\<exists>buf. pixel_loop draw dir u x y len = Some (u\<lparr>tile_buf := buf\<rparr>) \<and>
    painted (draw_color u) (cell_of u ` segment dir (unat x) (unat y) (unat len)) (tile_buf u) buf"
  using assms
proof (induction len arbitrary: u x y rule: u8_induct_down)
  case (step len)
  have pl: "unat len = Suc (unat (len - 1))"
    using step.prems(3) unat_minus_one [of len] unat_gt_0 [of len] by simp
  have p: "(unat x, unat y) \<in> segment dir (unat x) (unat y) (unat len)"
    using pl by (auto simp: segment_def)
  with step.prems(4) have area: "(unat x, unat y) \<in> canvas_area u" by blast
  from draw_pixel [OF step.prems(1,2) this] obtain buf1 where
    d: "draw u x y = Some (u\<lparr>tile_buf := buf1\<rparr>)"
    "painted (draw_color u) {cell_of u (unat x, unat y)} (tile_buf u) buf1" by blast
  show ?case
  proof (cases "len - 1 = 0")
    case True
    then have "unat len = 1" using pl by simp
    then have "segment dir (unat x) (unat y) (unat len) = {(unat x, unat y)}" by (auto simp: segment_def)
    with d True show ?thesis by (subst pixel_loop.simps) (auto split: if_splits)
  next
    case False
    define x' y' where "x' = (if dir = 0 then x + 1 else x)" and "y' = (if dir = 0 then y else y + 1)"
    let ?u = "u\<lparr>tile_buf := buf1\<rparr>"
    have lt: "unat (len - 1) \<noteq> 0" using False by (simp add: unat_eq_0)
    have last: "(unat x + (if dir = 0 then unat (len - 1) else 0), unat y + (if dir = 0 then 0 else unat (len - 1))) \<in> canvas_area u"
      using step.prems(4) pl by (auto simp: segment_def)
    have w: "canvas_w u < 256" using step.prems(1) by (simp add: canvas_ok_def)
    have x': "unat x' = (if dir = 0 then unat x + 1 else unat x)"
      using last lt w unat_next_pixel [of x] by (auto simp: x'_def canvas_area_def)
    have y': "unat y' = (if dir = 0 then unat y else unat y + 1)"
      using step.prems(5) pl lt unat_next_pixel [of y] by (auto simp: y'_def)
    have seg: "segment dir (unat x) (unat y) (unat len) =
        insert (unat x, unat y) (segment dir (unat x') (unat y') (unat (len - 1)))"
      unfolding pl x' y' by (auto simp: segment_def)
    have c: "cell_of ?u = cell_of u" "canvas_area ?u = canvas_area u"
      unfolding cell_of_def canvas_area_def by (simp_all cong: ll_hvline_fn.case_cong)
    have "canvas_ok ?u" using step.prems(1) d(2) by (simp add: canvas_ok_def painted_def)
    moreover have "segment dir (unat x') (unat y') (unat (len - 1)) \<subseteq> canvas_area ?u"
      using step.prems(4) unfolding seg c by simp
    moreover have "unat y' + unat (len - 1) \<le> 256" using step.prems(5) pl y' by (auto split: if_splits)
    ultimately obtain buf where b: "pixel_loop draw dir ?u x' y' (len - 1) = Some (?u\<lparr>tile_buf := buf\<rparr>)"
      "painted (draw_color u) (cell_of u ` segment dir (unat x') (unat y') (unat (len - 1))) buf1 buf"
      using step.IH [OF False, of ?u x' y'] step.prems(2) False c(1) by auto
    have "cell_of u (unat x, unat y) \<notin> cell_of u ` segment dir (unat x') (unat y') (unat (len - 1))"
    proof
      assume "cell_of u (unat x, unat y) \<in> cell_of u ` segment dir (unat x') (unat y') (unat (len - 1))"
      then obtain q where q: "q \<in> segment dir (unat x') (unat y') (unat (len - 1))"
        "cell_of u (unat x, unat y) = cell_of u q" by blast
      have "q \<in> canvas_area u" using q(1) step.prems(4) unfolding seg by blast
      with area q(2) have "(unat x, unat y) = q"
        using cell_of_inj [of u] unfolding inj_on_def canvas_area_def by blast
      with q(1) show False by (auto simp: segment_def x' y' split: if_splits)
    qed
    then have "painted (draw_color u) (cell_of u ` segment dir (unat x) (unat y) (unat len)) (tile_buf u) buf"
      using painted_trans [OF d(2) b(2)] unfolding seg by simp
    moreover have "pixel_loop draw dir u x y len = Some (u\<lparr>tile_buf := buf\<rparr>)"
      using b(1) False by (subst pixel_loop.simps) (auto simp: d(1) x'_def y'_def)
    ultimately show ?thesis by blast
  qed
qed

end

lemma push_bit_pbit: "push_bit (unat ((y :: u8) AND 7)) 1 = pbit (unat y mod 8)"
  by (simp add: pbit_def unat_and_7)

lemma paint_pixel:
  assumes "i < length buf"
  shows "\<exists>buf'. upd_byte i (color_byte color (pbit k)) buf = Some buf' \<and> painted color {(i, k)} buf buf'"
  using painted_one [OF assms, where f = "color_byte color (pbit k)" and k = k and color = color] assms
  by (auto simp: upd_byte_def color_byte_eq bit_or_xor)

interpretation vertical: pixel_draw u8g2_draw_pixel_vertical_top_lsb LL_Vertical_Top_Lsb
proof
  fix u :: u8g2 and x y :: u8
  assume ok: "canvas_ok u" and ll: "ll_hvline u = LL_Vertical_Top_Lsb" and p: "(unat x, unat y) \<in> canvas_area u"
  have c: "cell_of u (unat x, unat y) = (unat y div 8 * canvas_w u + unat x, unat y mod 8)"
    using ll by (simp add: cell_of_def)
  from paint_pixel [OF cell_of_bound(1) [OF ok p], unfolded c, simplified fst_conv]
  show "\<exists>buf. u8g2_draw_pixel_vertical_top_lsb u x y = Some (u\<lparr>tile_buf := buf\<rparr>) \<and>
      painted (draw_color u) {cell_of u (unat x, unat y)} (tile_buf u) buf"
    unfolding c u8g2_draw_pixel_vertical_top_lsb_def Let_def push_bit_pbit unat_tile_offset_canvas [OF ok] by force
qed

interpretation horizontal: pixel_draw u8g2_draw_pixel_horizontal_right_lsb LL_Horizontal_Right_Lsb
proof
  fix u :: u8g2 and x y :: u8
  assume ok: "canvas_ok u" and ll: "ll_hvline u = LL_Horizontal_Right_Lsb" and p: "(unat x, unat y) \<in> canvas_area u"
  have c: "cell_of u (unat x, unat y) = (unat y * (canvas_w u div 8) + unat x div 8, 7 - unat x mod 8)"
    using ll by (simp add: cell_of_def)
  have m: "drop_bit (unat (x AND 7)) 128 = pbit (7 - unat x mod 8)" by (simp add: unat_and_7 drop_bit_128)
  from paint_pixel [OF cell_of_bound(1) [OF ok p], unfolded c, simplified fst_conv]
  show "\<exists>buf. u8g2_draw_pixel_horizontal_right_lsb u x y = Some (u\<lparr>tile_buf := buf\<rparr>) \<and>
      painted (draw_color u) {cell_of u (unat x, unat y)} (tile_buf u) buf"
    unfolding c u8g2_draw_pixel_horizontal_right_lsb_def Let_def m unat_pixel_offset_canvas [OF ok] by force
qed

section \<open>Both builds draw the same\<close>

lemma painted_unique:
  assumes "painted color S buf b1" and "painted color S buf b2"
  shows "b1 = b2"
proof (rule nth_equalityI)
  show "length b1 = length b2" using assms by (simp add: painted_def)
  show "b1 ! i = b2 ! i" for i
    using assms by (intro bit_word_eqI) (simp add: painted_def)
qed

text \<open>C12: the optimised line procedures of both byte layouts compute the same buffer as the plain ones
  that draw pixel by pixel, for every line inside the buffer whose rows stay in the 8-bit coordinates.\<close>

theorem hvline_optimisation_exact:
  assumes "canvas_ok u" and "len \<noteq> 0" and "segment dir (unat x) (unat y) (unat len) \<subseteq> canvas_area u"
    and "unat y + unat len \<le> 256"
  shows "u8g2_ll_hvline u x y len dir =
      (case ll_hvline u of
         LL_Vertical_Top_Lsb \<Rightarrow> u8g2_ll_hvline_vertical_top_lsb_plain u x y len dir
       | LL_Horizontal_Right_Lsb \<Rightarrow> u8g2_ll_hvline_horizontal_right_lsb_plain u x y len dir) \<and>
    u8g2_ll_hvline u x y len dir \<noteq> None"
proof (cases "ll_hvline u")
  case LL_Vertical_Top_Lsb
  from ll_vertical_paints [OF assms(1) this assms(2,3)] vertical.loop_paints [OF assms(1) this assms(2-4)]
  show ?thesis unfolding u8g2_ll_hvline_def u8g2_ll_hvline_vertical_top_lsb_plain_def
    by (auto simp: LL_Vertical_Top_Lsb dest: painted_unique)
next
  case LL_Horizontal_Right_Lsb
  from ll_horizontal_paints [OF assms(1) this assms(2,3)] horizontal.loop_paints [OF assms(1) this assms(2-4)]
  show ?thesis unfolding u8g2_ll_hvline_def u8g2_ll_hvline_horizontal_right_lsb_plain_def
    by (auto simp: LL_Horizontal_Right_Lsb dest: painted_unique)
qed

theorem hvline_optimisation_exact_witness:
  "\<exists>v. u8g2_ll_hvline_vertical_top_lsb_plain
      (u8g2_zero\<lparr>tile_buf := replicate 16 0, tile_buf_height := 2, pixel_buf_width := 8,
         display_info := u8x8_display_info_zero\<lparr>tile_width := 1\<rparr>\<rparr>) 3 5 7 1 = Some v"
proof -
  let ?u = "u8g2_zero\<lparr>tile_buf := replicate 16 0, tile_buf_height := 2, pixel_buf_width := 8,
         display_info := u8x8_display_info_zero\<lparr>tile_width := 1\<rparr>\<rparr>"
  have u: "ll_hvline ?u = LL_Vertical_Top_Lsb" by (simp add: u8g2_zero_def)
  have ok: "canvas_ok ?u" by (simp add: canvas_ok_def canvas_w_def canvas_h_def)
  have seg: "segment 1 (unat (3 :: u8)) (unat (5 :: u8)) (unat (7 :: u8)) \<subseteq> canvas_area ?u"
    by (auto simp: segment_def canvas_area_def canvas_w_def canvas_h_def)
  have "(7 :: u8) \<noteq> 0" "unat (5 :: u8) + unat (7 :: u8) \<le> 256" by simp_all
  from hvline_optimisation_exact [OF ok this(1) seg this(2)] show ?thesis
    unfolding u ll_hvline_fn.case by (metis not_None_eq)
qed

end
