(* ===== verification/U8x8_Tiles.thy ===== *)
theory U8x8_Tiles
  imports U8x8_Text
begin

text \<open>
  libs/u8g2/csrc: the tile fonts. From u8x8_8x8.c the glyphs of one or more tiles, plain, doubled in
  height or in both directions, and the strings drawn with them; from u8x8_string.c the centred lines.
  The loops over the tiles of a glyph count in bytes and by one or two, so they are partial functions.
\<close>

section \<open>Glyphs\<close>

definition u8x8_SetFont :: "u8 list \<Rightarrow> 'a u8x8_scheme \<Rightarrow> 'a u8x8_scheme" where
  "u8x8_SetFont font_8x8 u = u\<lparr>x8_font := Some font_8x8\<rparr>"

definition u8x8_SetInverseFont :: "u8 \<Rightarrow> 'a u8x8_scheme \<Rightarrow> 'a u8x8_scheme" where
  "u8x8_SetInverseFont b u = u\<lparr>is_font_inverse_mode := b\<rparr>"

definition font_byte :: "'a u8x8_scheme \<Rightarrow> nat \<Rightarrow> u8 option" where
  "font_byte u i = (case x8_font u of None \<Rightarrow> None | Some bytes \<Rightarrow> u8x8_pgm_read bytes i)"

fun font_bytes :: "'a u8x8_scheme \<Rightarrow> u16 \<Rightarrow> nat \<Rightarrow> u8 list option" where
  "font_bytes u offset 0 = Some []"
| "font_bytes u offset (Suc n) = do {
     b \<leftarrow> font_byte u (unat offset);
     bs \<leftarrow> font_bytes u (offset + 1) n;
     Some (b # bs) }"

definition u8x8_get_glyph_data :: "'a u8x8_scheme \<Rightarrow> u8 \<Rightarrow> u8 \<Rightarrow> u8 list option" where
  "u8x8_get_glyph_data u enc tile_offset = do {
     first \<leftarrow> font_byte u 0;
     last \<leftarrow> font_byte u 1;
     tiles \<leftarrow> font_byte u 2;
     th \<leftarrow> font_byte u 3;
     let tiles = tiles * th;
     buf \<leftarrow>
       (if first \<le> enc \<and> enc \<le> last then
          (let offset = (ucast enc :: u16);
               offset = offset - ucast first;
               offset = offset * ucast tiles;
               offset = offset + ucast tile_offset;
               offset = offset * 8;
               offset = offset + 4
           in font_bytes u offset 8)
        else Some (replicate 8 0));
     Some (if is_font_inverse_mode u \<noteq> 0 then map (\<lambda>b. b XOR 255) buf else buf) }"

text \<open>The loops over the columns and the rows of a glyph's tiles: \<open>do ... while\<close>, with a counter for the
  tiles.\<close>

partial_function (option) tile_row :: "u8 \<Rightarrow> (u8 \<Rightarrow> u8 \<Rightarrow> 's \<Rightarrow> 's option) \<Rightarrow> u8 \<Rightarrow> u8 \<Rightarrow> u8 \<Rightarrow> 's \<Rightarrow> (u8 \<times> 's) option" where
  "tile_row dx draw th xx tile s =
     Option.bind (draw xx tile s) (\<lambda>s.
       let tile = tile + 1; xx = xx + dx
       in if xx < th then tile_row dx draw th xx tile s else Some (tile, s))"

partial_function (option) tile_grid ::
    "u8 \<Rightarrow> u8 \<Rightarrow> (u8 \<Rightarrow> u8 \<Rightarrow> u8 \<Rightarrow> 's \<Rightarrow> 's option) \<Rightarrow> u8 \<Rightarrow> u8 \<Rightarrow> u8 \<Rightarrow> u8 \<Rightarrow> u8 \<Rightarrow> 's \<Rightarrow> 's option" where
  "tile_grid dx dy draw th tv x y tile s =
     Option.bind (tile_row dx (\<lambda>xx. draw xx y) th x tile s) (\<lambda>(tile, s).
       let y = y + dy
       in if y < tv then tile_grid dx dy draw th tv x y tile s else Some s)"

definition u8x8_DrawGlyph ::
    "'a u8x8_scheme display_cb \<Rightarrow> u8 \<Rightarrow> u8 \<Rightarrow> u8 \<Rightarrow> 'a u8x8_scheme \<Rightarrow> 'a u8x8_scheme option" where
  "u8x8_DrawGlyph display x y enc u = do {
     th \<leftarrow> font_byte u 2;
     tv \<leftarrow> font_byte u 3;
     let th = th + x;
     let tv = tv + y;
     tile_grid 1 1 (\<lambda>xx y tile u. do {
       buf \<leftarrow> u8x8_get_glyph_data u enc tile;
       void (u8x8_DrawTile display xx y 1 buf u) }) th tv x y 0 u }"

definition u8x8_upscale_byte :: "u8 \<Rightarrow> u16" where
  "u8x8_upscale_byte x =
     (let y = (ucast x :: u16);
          y = y OR push_bit 4 y;
          y = y AND 0x0f0f;
          y = y OR push_bit 2 y;
          y = y AND 0x3333;
          y = y OR push_bit 1 y;
          y = y AND 0x5555
      in y OR push_bit 1 y)"

definition u8x8_upscale_buf :: "u8 list \<Rightarrow> u8 list" where
  "u8x8_upscale_buf src = [src ! 0, src ! 0, src ! 1, src ! 1, src ! 2, src ! 2, src ! 3, src ! 3]"

definition u8x8_draw_2x2_subglyph ::
    "'a u8x8_scheme display_cb \<Rightarrow> u8 \<Rightarrow> u8 \<Rightarrow> u8 \<Rightarrow> u8 \<Rightarrow> 'a u8x8_scheme \<Rightarrow> 'a u8x8_scheme option" where
  "u8x8_draw_2x2_subglyph display x y enc tile u = do {
     buf \<leftarrow> u8x8_get_glyph_data u enc tile;
     let buf1 = map (\<lambda>b. ucast (drop_bit 8 (u8x8_upscale_byte b)) :: u8) buf;
     let buf2 = map (\<lambda>b. ucast (u8x8_upscale_byte b AND 255) :: u8) buf;
     u \<leftarrow> void (u8x8_DrawTile display x y 1 (u8x8_upscale_buf buf2) u);
     u \<leftarrow> void (u8x8_DrawTile display (x + 1) y 1 (u8x8_upscale_buf (drop 4 buf2)) u);
     u \<leftarrow> void (u8x8_DrawTile display x (y + 1) 1 (u8x8_upscale_buf buf1) u);
     void (u8x8_DrawTile display (x + 1) (y + 1) 1 (u8x8_upscale_buf (drop 4 buf1)) u) }"

definition u8x8_Draw2x2Glyph ::
    "'a u8x8_scheme display_cb \<Rightarrow> u8 \<Rightarrow> u8 \<Rightarrow> u8 \<Rightarrow> 'a u8x8_scheme \<Rightarrow> 'a u8x8_scheme option" where
  "u8x8_Draw2x2Glyph display x y enc u = do {
     th \<leftarrow> font_byte u 2;
     tv \<leftarrow> font_byte u 3;
     let th = th * 2;
     let th = th + x;
     let tv = tv * 2;
     let tv = tv + y;
     tile_grid 2 2 (\<lambda>xx y. u8x8_draw_2x2_subglyph display xx y enc) th tv x y 0 u }"

definition u8x8_draw_1x2_subglyph ::
    "'a u8x8_scheme display_cb \<Rightarrow> u8 \<Rightarrow> u8 \<Rightarrow> u8 \<Rightarrow> u8 \<Rightarrow> 'a u8x8_scheme \<Rightarrow> 'a u8x8_scheme option" where
  "u8x8_draw_1x2_subglyph display x y enc tile u = do {
     buf \<leftarrow> u8x8_get_glyph_data u enc tile;
     let buf1 = map (\<lambda>b. ucast (drop_bit 8 (u8x8_upscale_byte b)) :: u8) buf;
     let buf2 = map (\<lambda>b. ucast (u8x8_upscale_byte b AND 255) :: u8) buf;
     u \<leftarrow> void (u8x8_DrawTile display x y 1 buf2 u);
     void (u8x8_DrawTile display x (y + 1) 1 buf1 u) }"

definition u8x8_Draw1x2Glyph ::
    "'a u8x8_scheme display_cb \<Rightarrow> u8 \<Rightarrow> u8 \<Rightarrow> u8 \<Rightarrow> 'a u8x8_scheme \<Rightarrow> 'a u8x8_scheme option" where
  "u8x8_Draw1x2Glyph display x y enc u = do {
     th \<leftarrow> font_byte u 2;
     tv \<leftarrow> font_byte u 3;
     let th = th + x;
     let tv = tv * 2;
     let tv = tv + y;
     tile_grid 1 2 (\<lambda>xx y. u8x8_draw_1x2_subglyph display xx y enc) th tv x y 0 u }"

section \<open>Strings\<close>

text \<open>The state of the loop is the column and the number of characters.\<close>

definition tile_char ::
    "(u8 \<Rightarrow> u8 \<Rightarrow> 'a u8x8_scheme \<Rightarrow> 'a u8x8_scheme option) \<Rightarrow> u8 \<Rightarrow> u16 \<Rightarrow> (u8 \<times> u8) \<times> 'a u8x8_scheme \<Rightarrow>
       ((u8 \<times> u8) \<times> 'a u8x8_scheme) option" where
  "tile_char draw w e = (\<lambda>((x, cnt), u). do {
     u \<leftarrow> draw x (ucast e) u;
     Some ((x + w, cnt + 1), u) })"

definition u8x8_draw_string ::
    "'a u8x8_scheme display_cb \<Rightarrow> u8 \<Rightarrow> u8 \<Rightarrow> string \<Rightarrow> 'a u8x8_scheme \<Rightarrow> (u8 \<times> 'a u8x8_scheme) option" where
  "u8x8_draw_string display x y s u = do {
     th \<leftarrow> font_byte u 2;
     ((x, cnt), u) \<leftarrow> each_char call_next_cb (tile_char (\<lambda>x. u8x8_DrawGlyph display x y) th) s ((x, 0), u8x8_utf8_init u);
     Some (cnt, u) }"

definition u8x8_DrawString ::
    "'a u8x8_scheme display_cb \<Rightarrow> u8 \<Rightarrow> u8 \<Rightarrow> string \<Rightarrow> 'a u8x8_scheme \<Rightarrow> (u8 \<times> 'a u8x8_scheme) option" where
  "u8x8_DrawString display x y s u = u8x8_draw_string display x y s (u\<lparr>next_cb := Some Ascii_Next\<rparr>)"

definition u8x8_DrawUTF8 ::
    "'a u8x8_scheme display_cb \<Rightarrow> u8 \<Rightarrow> u8 \<Rightarrow> string \<Rightarrow> 'a u8x8_scheme \<Rightarrow> (u8 \<times> 'a u8x8_scheme) option" where
  "u8x8_DrawUTF8 display x y s u = u8x8_draw_string display x y s (u\<lparr>next_cb := Some Utf8_Next\<rparr>)"

definition u8x8_draw_2x2_string ::
    "'a u8x8_scheme display_cb \<Rightarrow> u8 \<Rightarrow> u8 \<Rightarrow> string \<Rightarrow> 'a u8x8_scheme \<Rightarrow> (u8 \<times> 'a u8x8_scheme) option" where
  "u8x8_draw_2x2_string display x y s u = do {
     ((x, cnt), u) \<leftarrow> each_char call_next_cb (tile_char (\<lambda>x. u8x8_Draw2x2Glyph display x y) 2) s ((x, 0), u8x8_utf8_init u);
     Some (cnt, u) }"

definition u8x8_Draw2x2String ::
    "'a u8x8_scheme display_cb \<Rightarrow> u8 \<Rightarrow> u8 \<Rightarrow> string \<Rightarrow> 'a u8x8_scheme \<Rightarrow> (u8 \<times> 'a u8x8_scheme) option" where
  "u8x8_Draw2x2String display x y s u = u8x8_draw_2x2_string display x y s (u\<lparr>next_cb := Some Ascii_Next\<rparr>)"

definition u8x8_Draw2x2UTF8 ::
    "'a u8x8_scheme display_cb \<Rightarrow> u8 \<Rightarrow> u8 \<Rightarrow> string \<Rightarrow> 'a u8x8_scheme \<Rightarrow> (u8 \<times> 'a u8x8_scheme) option" where
  "u8x8_Draw2x2UTF8 display x y s u = u8x8_draw_2x2_string display x y s (u\<lparr>next_cb := Some Utf8_Next\<rparr>)"

definition u8x8_draw_1x2_string ::
    "'a u8x8_scheme display_cb \<Rightarrow> u8 \<Rightarrow> u8 \<Rightarrow> string \<Rightarrow> 'a u8x8_scheme \<Rightarrow> (u8 \<times> 'a u8x8_scheme) option" where
  "u8x8_draw_1x2_string display x y s u = do {
     ((x, cnt), u) \<leftarrow> each_char call_next_cb (tile_char (\<lambda>x. u8x8_Draw1x2Glyph display x y) 1) s ((x, 0), u8x8_utf8_init u);
     Some (cnt, u) }"

definition u8x8_Draw1x2String ::
    "'a u8x8_scheme display_cb \<Rightarrow> u8 \<Rightarrow> u8 \<Rightarrow> string \<Rightarrow> 'a u8x8_scheme \<Rightarrow> (u8 \<times> 'a u8x8_scheme) option" where
  "u8x8_Draw1x2String display x y s u = u8x8_draw_1x2_string display x y s (u\<lparr>next_cb := Some Ascii_Next\<rparr>)"

definition u8x8_Draw1x2UTF8 ::
    "'a u8x8_scheme display_cb \<Rightarrow> u8 \<Rightarrow> u8 \<Rightarrow> string \<Rightarrow> 'a u8x8_scheme \<Rightarrow> (u8 \<times> 'a u8x8_scheme) option" where
  "u8x8_Draw1x2UTF8 display x y s u = u8x8_draw_1x2_string display x y s (u\<lparr>next_cb := Some Utf8_Next\<rparr>)"

section \<open>Lines\<close>

text \<open>Blanks up to a column.\<close>

function blanks_to :: "'a u8x8_scheme display_cb \<Rightarrow> u8 \<Rightarrow> u8 \<Rightarrow> u8 \<Rightarrow> 'a u8x8_scheme \<Rightarrow> (u8 \<times> 'a u8x8_scheme) option" where
  "blanks_to display y dx cx u =
     (if cx < dx then
        (case u8x8_DrawUTF8 display cx y '' '' u of
           None \<Rightarrow> None
         | Some (_, u) \<Rightarrow> blanks_to display y dx (cx + 1) u)
      else Some (cx, u))"
  by pat_completeness auto
termination
  by (relation "measure (\<lambda>(display, y, dx, cx, u). unat dx - unat cx)") (use count_up(1) in auto)

declare blanks_to.simps [simp del]

definition u8x8_DrawUTF8Line ::
    "'a u8x8_scheme display_cb \<Rightarrow> u8 \<Rightarrow> u8 \<Rightarrow> u8 \<Rightarrow> string \<Rightarrow> 'a u8x8_scheme \<Rightarrow> (u8 \<times> 'a u8x8_scheme) option" where
  "u8x8_DrawUTF8Line display x y w s u = do {
     (lw, u) \<leftarrow> u8x8_GetUTF8Len s u;
     let d = (if lw < w then (w - lw) div 2 else 0);
     (cx, u) \<leftarrow> blanks_to display y (x + d) x u;
     (n, u) \<leftarrow> u8x8_DrawUTF8 display cx y s u;
     (cx, u) \<leftarrow> blanks_to display y (x + w) (cx + n) u;
     Some (cx - x, u) }"

text \<open>Several lines; the pointer to a line is null if there is none.\<close>

function utf8_lines ::
    "'a u8x8_scheme display_cb \<Rightarrow> u8 \<Rightarrow> u8 \<Rightarrow> string \<Rightarrow> u8 \<Rightarrow> u8 \<Rightarrow> u8 \<Rightarrow> 'a u8x8_scheme \<Rightarrow> 'a u8x8_scheme option" where
  "utf8_lines display x w s cnt i y u =
     (if i < cnt then
        (case u8x8_GetStringLineStart i s of
           None \<Rightarrow> None
         | Some line \<Rightarrow>
             (case u8x8_DrawUTF8Line display x y w line u of
                None \<Rightarrow> None
              | Some (_, u) \<Rightarrow> utf8_lines display x w s cnt (i + 1) (y + 1) u))
      else Some u)"
  by pat_completeness auto
termination
  by (relation "measure (\<lambda>(display, x, w, s, cnt, i, y, u). unat cnt - unat i)") (use count_up(1) in auto)

declare utf8_lines.simps [simp del]

definition u8x8_DrawUTF8Lines ::
    "'a u8x8_scheme display_cb \<Rightarrow> u8 \<Rightarrow> u8 \<Rightarrow> u8 \<Rightarrow> string option \<Rightarrow> 'a u8x8_scheme \<Rightarrow> (u8 \<times> 'a u8x8_scheme) option" where
  "u8x8_DrawUTF8Lines display x y w s u =
     (let cnt = u8x8_GetStringLineCnt s
      in case s of
           None \<Rightarrow> Some (cnt, u)
         | Some s \<Rightarrow> map_option (Pair cnt) (utf8_lines display x w s cnt 0 y u))"

end
