(* ===== verification/U8x8_Strings.thy ===== *)
theory U8x8_Strings
  imports U8x8_Tiles
begin

text \<open>
  What the text procedures of u8x8 promise: the decoder of u8x8_8x8.c reads what UTF-8 encodes, and
  u8x8_string.c finds the lines a text is made of.
\<close>

section \<open>UTF-8\<close>

lemma byte_of_char [simp]: "byte_of (char_of (unat (b :: u8))) = b"
proof -
  have "byte_of (char_of (unat b)) = of_nat (of_char (char_of (unat b) :: char))"
    unfolding byte_of_def by (rule of_nat_of_char [symmetric])
  also have "\<dots> = b" using unsigned_less [of b] by simp
  finally show ?thesis .
qed

definition utf8_bytes :: "nat \<Rightarrow> u8 list" where
  "utf8_bytes n =
     (if n < 0x80 then [of_nat n]
      else if n < 0x800 then [of_nat (0xc0 + n div 64), of_nat (0x80 + n mod 64)]
      else [of_nat (0xe0 + n div 4096), of_nat (0x80 + n div 64 mod 64), of_nat (0x80 + n mod 64)])"

definition utf8_text :: "u16 list \<Rightarrow> string" where
  "utf8_text es = map (\<lambda>b. char_of (unat b)) (concat (map (\<lambda>e. utf8_bytes (unat e)) es))"

text \<open>The characters a text can have: neither an end nor one of the decoder's special results.\<close>

definition plain_code :: "u16 \<Rightarrow> bool" where
  "plain_code e \<longleftrightarrow> e \<noteq> 0 \<and> e \<noteq> ucast (byte_of LF) \<and> e < 0xfffe"

lemma shift_in:
  assumes "n < 64"
  shows "push_bit 6 (of_nat m :: u16) OR of_nat n = of_nat (64 * m + n)"
proof -
  have t: "take_bit 6 (of_nat n :: u16) = of_nat n" using assms by (simp add: take_bit_of_nat take_bit_nat_eq_self)
  have "push_bit 6 (of_nat m :: u16) AND take_bit 6 (of_nat n) = 0" by (rule bit_eqI) (auto simp: bit_simps)
  then have "push_bit 6 (of_nat m :: u16) OR of_nat n = push_bit 6 (of_nat m) + of_nat n"
    unfolding t using word_plus_and_or [of "push_bit 6 (of_nat m :: u16)" "of_nat n"] by simp
  then show ?thesis by (simp add: push_bit_eq_mult)
qed

lemma lead_bytes:
  "\<forall>k \<in> set [2..<32]. let b = of_nat (0xc0 + k) :: u8 in 0xc0 \<le> b \<and> b < 0xe0 \<and> b AND 0x1f = of_nat k"
  "\<forall>k \<in> set [0..<16]. let b = of_nat (0xe0 + k) :: u8 in 0xe0 \<le> b \<and> b < 0xf0 \<and> b AND 0x0f = of_nat k"
  "\<forall>k \<in> set [0..<64]. let b = of_nat (0x80 + k) :: u8 in 0x80 \<le> b \<and> b AND 0x3f = of_nat k"
  by code_simp+

lemma utf8_plain:
  assumes "b \<noteq> 0" and "b \<noteq> byte_of LF"
  shows "b < 0xc0 \<Longrightarrow> utf8_state u = 0 \<Longrightarrow> u8x8_utf8_next b u = (ucast b, u)"
    "0xc0 \<le> b \<Longrightarrow> b < 0xe0 \<Longrightarrow> utf8_state u = 0 \<Longrightarrow>
       u8x8_utf8_next b u = (0xfffe, u\<lparr>encoding := ucast (b AND 0x1f), utf8_state := 1\<rparr>)"
    "0xe0 \<le> b \<Longrightarrow> b < 0xf0 \<Longrightarrow> utf8_state u = 0 \<Longrightarrow>
       u8x8_utf8_next b u = (0xfffe, u\<lparr>encoding := ucast (b AND 0x0f), utf8_state := 2\<rparr>)"
  using assms by (auto simp: u8x8_utf8_next_def word_le_nat_alt word_less_nat_alt)

lemma utf8_more:
  assumes "b \<noteq> 0" and "b \<noteq> byte_of LF" and "utf8_state u \<noteq> 0"
  shows "u8x8_utf8_next b u =
    (let v = u\<lparr>encoding := push_bit 6 (encoding u) OR ucast (b AND 0x3f), utf8_state := utf8_state u - 1\<rparr>
     in if utf8_state v \<noteq> 0 then (0xfffe, v) else (encoding v, v))"
  using assms by (simp add: u8x8_utf8_next_def Let_def)

lemma each_utf8:
  assumes "u8x8_utf8_next b u = (e, v)" and "e \<noteq> 0xffff"
  shows "each_char (\<lambda>b u. Some (u8x8_utf8_next b u)) body (char_of (unat b) # str) (acc, u) =
    Option.bind (if e \<noteq> 0xfffe then body e (acc, v) else Some (acc, v))
      (each_char (\<lambda>b u. Some (u8x8_utf8_next b u)) body str)"
  using assms by (subst each_char.simps) (simp split: option.split bind_split)

lemma high_byte:
  fixes b :: u8
  assumes "0x80 \<le> b"
  shows "b \<noteq> 0" "b \<noteq> byte_of LF"
proof -
  have "byte_of LF = 10" by code_simp
  then show "b \<noteq> 0" "b \<noteq> byte_of LF" using assms by (auto simp: word_le_nat_alt)
qed

lemma decode_one:
  assumes e: "plain_code e" and u: "utf8_state u = 0"
  shows "\<exists>v. utf8_state v = 0 \<and>
    each_char (\<lambda>b u. Some (u8x8_utf8_next b u)) body (map (\<lambda>b. char_of (unat b)) (utf8_bytes (unat e)) @ str) (acc, u) =
      Option.bind (body e (acc, v)) (each_char (\<lambda>b u. Some (u8x8_utf8_next b u)) body str)"
proof -
  let ?n = "unat e"
  have special: "e \<noteq> 0xffff" "e \<noteq> 0xfffe" "unat e < 65536"
    using e unsigned_less [of e] by (auto simp: plain_code_def)
  have tail: "0x80 \<le> (of_nat (0x80 + k) :: u8)" "(of_nat (0x80 + k) :: u8) AND 0x3f = of_nat k" if "k < 64" for k
    using lead_bytes(3) that by (simp_all add: Let_def)
  have u16: "ucast (of_nat k :: u8) = (of_nat k :: u16)" if "k < 256" for k
    using that by (simp add: word_unat_eq_iff unsigned_ucast_eq take_bit_nat_eq_self unsigned_of_nat)
  consider "?n < 0x80" | "0x80 \<le> ?n" "?n < 0x800" | "0x800 \<le> ?n" by linarith
  then show ?thesis
  proof cases
    case 1
    have lf: "byte_of LF = 10" by code_simp
    have "e \<noteq> 0" "e \<noteq> 10" using e by (simp_all add: plain_code_def lf)
    then have "?n \<noteq> 0" "?n \<noteq> unat (10 :: u16)" by (simp_all only: unat_eq_0 word_unat_eq_iff [symmetric] not_False_eq_True)
    moreover have "unat (of_nat ?n :: u8) = ?n" using 1 by (simp add: unsigned_ucast_eq take_bit_nat_eq_self)
    ultimately have "of_nat ?n \<noteq> (0 :: u8)" "of_nat ?n \<noteq> byte_of LF" "of_nat ?n < (0xc0 :: u8)"
      unfolding lf using 1 by (auto simp: word_less_nat_alt)
    then have "u8x8_utf8_next (of_nat ?n) u = (e, u)"
      using utf8_plain(1) [of "of_nat ?n" u] u u16 [of ?n] 1 by simp
    from each_utf8 [OF this special(1)] special(2) u 1 show ?thesis
      by (intro exI [of _ u]) (simp add: utf8_bytes_def)
  next
    case 2
    define k m where "k = ?n div 64" and "m = ?n mod 64"
    define b c where "b = (of_nat (0xc0 + k) :: u8)" and "c = (of_nat (0x80 + m) :: u8)"
    have "2 \<le> k" "k < 32" "m < 64" using 2 unfolding k_def m_def by linarith+
    then have km: "2 \<le> k" "k < 32" "m < 64" "64 * k + m = ?n" by (simp_all add: k_def m_def)
    then have "k \<in> set [2..<32]" unfolding set_upt by simp
    then have b: "0xc0 \<le> b" "b < 0xe0" "b AND 0x1f = of_nat k" using lead_bytes(1) unfolding Let_def b_def by blast+
    then have b': "b \<noteq> 0" "b \<noteq> byte_of LF" using high_byte [of b] by (auto simp: word_le_nat_alt)
    have c: "c \<noteq> 0" "c \<noteq> byte_of LF" "c AND 0x3f = of_nat m" using tail [OF km(3)] high_byte [of c] by (auto simp: c_def)
    let ?u = "u\<lparr>encoding := of_nat k, utf8_state := 1\<rparr>" and ?v = "u\<lparr>encoding := e, utf8_state := 0\<rparr>"
    have n1: "u8x8_utf8_next b u = (0xfffe, ?u)"
      using utf8_plain(2) [OF b' b(1,2) u] u16 [of k] km(2) by (simp add: b(3))
    have n2: "u8x8_utf8_next c ?u = (e, ?v)"
      using shift_in [OF km(3), of k] utf8_more [OF c(1,2), of ?u] u16 [of m] km(3,4) by (simp add: c(3) Let_def)
    have bytes: "utf8_bytes ?n = [b, c]" using 2 by (simp add: utf8_bytes_def b_def c_def k_def m_def)
    show ?thesis
      by (intro exI [of _ ?v]) (simp add: bytes each_utf8 [OF n1] each_utf8 [OF n2 special(1)] special)
  next
    case 3
    define k l m where "k = ?n div 4096" and "l = ?n div 64 mod 64" and "m = ?n mod 64"
    define a b c where "a = (of_nat (0xe0 + k) :: u8)" and "b = (of_nat (0x80 + l) :: u8)" and "c = (of_nat (0x80 + m) :: u8)"
    have klm: "k < 16" "l < 64" "m < 64" using special(3) unfolding k_def l_def m_def by linarith+
    have sum: "64 * k + l = ?n div 64" "64 * (?n div 64) + m = ?n" 
      using div_mult2_eq [of ?n 64 64] by (simp_all add: k_def l_def m_def)
    have "k \<in> set [0..<16]" using klm unfolding set_upt by simp
    then have a: "0xe0 \<le> a" "a < 0xf0" "a AND 0x0f = of_nat k" using lead_bytes(2) unfolding Let_def a_def by blast+
    then have a': "a \<noteq> 0" "a \<noteq> byte_of LF" using high_byte [of a] by (auto simp: word_le_nat_alt)
    have b: "b \<noteq> 0" "b \<noteq> byte_of LF" "b AND 0x3f = of_nat l" using tail [OF klm(2)] high_byte [of b] by (auto simp: b_def)
    have c: "c \<noteq> 0" "c \<noteq> byte_of LF" "c AND 0x3f = of_nat m" using tail [OF klm(3)] high_byte [of c] by (auto simp: c_def)
    let ?u = "u\<lparr>encoding := of_nat k, utf8_state := 2\<rparr>" and ?v = "u\<lparr>encoding := of_nat (?n div 64), utf8_state := 1\<rparr>"
      and ?w = "u\<lparr>encoding := e, utf8_state := 0\<rparr>"
    have n1: "u8x8_utf8_next a u = (0xfffe, ?u)"
      using utf8_plain(3) [OF a' a(1,2) u] u16 [of k] klm(1) by (simp add: a(3))
    have n2: "u8x8_utf8_next b ?u = (0xfffe, ?v)"
      using shift_in [OF klm(2), of k] utf8_more [OF b(1,2), of ?u] u16 [of l] klm(2) by (simp add: b(3) sum(1) Let_def)
    have n3: "u8x8_utf8_next c ?v = (e, ?w)"
      using shift_in [OF klm(3), of "?n div 64"] utf8_more [OF c(1,2), of ?v] u16 [of m] klm(3) by (simp add: c(3) sum(2) Let_def)
    have bytes: "utf8_bytes ?n = [a, b, c]" using 3 by (simp add: utf8_bytes_def a_def b_def c_def k_def l_def m_def)
    show ?thesis
      by (intro exI [of _ ?w]) (simp add: bytes each_utf8 [OF n1] each_utf8 [OF n2] each_utf8 [OF n3 special(1)] special)
  qed
qed

lemma decode_text:
  assumes "list_all plain_code es" and "utf8_state u = 0"
  shows "\<exists>v. each_char (\<lambda>b u. Some (u8x8_utf8_next b u)) (\<lambda>e (acc, u). Some (g e acc, u)) (utf8_text es) (acc, u) =
    Some (fold g es acc, v)"
  using assms
proof (induction es arbitrary: acc u)
  case Nil
  then show ?case
    by (subst each_char.simps) (simp add: utf8_text_def u8x8_utf8_next_def byte_of_def)
next
  case (Cons e es)
  from decode_one [of e u "\<lambda>e (acc, u). Some (g e acc, u)" "utf8_text es" acc] Cons.prems
  obtain v where "utf8_state v = 0"
    "each_char (\<lambda>b u. Some (u8x8_utf8_next b u)) (\<lambda>e (acc, u). Some (g e acc, u)) (utf8_text (e # es)) (acc, u) =
      each_char (\<lambda>b u. Some (u8x8_utf8_next b u)) (\<lambda>e (acc, u). Some (g e acc, u)) (utf8_text es) (g e acc, v)"
    by (auto simp: utf8_text_def)
  with Cons show ?case by simp
qed

text \<open>C32: the decoder reads the UTF-8 encoding of any characters of the basic plane back, and a
  string is as long as the number of its characters.\<close>

theorem utf8_roundtrip:
  assumes "list_all plain_code es"
  shows "(\<exists>v. each_char (\<lambda>b u. Some (u8x8_utf8_next b u)) (\<lambda>e (cs, u). Some (cs @ [e], u)) (utf8_text es)
       ([], u8x8_utf8_init u) = Some (es, v)) \<and>
    (\<exists>v. u8x8_GetUTF8Len (utf8_text es) u = Some (of_nat (length es), v))"
proof -
  have init: "utf8_state (u8x8_utf8_init u) = 0" by (simp add: u8x8_utf8_init_def)
  have append: "fold (\<lambda>e cs. cs @ [e]) es cs = cs @ es" for cs by (induction es arbitrary: cs) simp_all
  have count: "fold (\<lambda>_ cnt. cnt + 1) es n = n + of_nat (length es)" for n :: u8
    by (induction es arbitrary: n) simp_all
  show ?thesis
    using decode_text [OF assms init, of "\<lambda>e cs. cs @ [e]" "[]"] decode_text [OF assms init, of "\<lambda>_ cnt. cnt + 1" "0 :: u8"]
    by (simp add: append count u8x8_GetUTF8Len_def)
qed

lemma utf8_roundtrip_witness:
  "\<exists>v. u8x8_GetUTF8Len (utf8_text [0x6b, 0x6d, 0xb0, 0x20ac]) u8g2_zero = Some (4, v)"
proof -
  have lf: "byte_of LF = 10" by code_simp
  have "list_all plain_code [0x6b, 0x6d, 0xb0, 0x20ac]" by (simp add: plain_code_def lf)
  from utf8_roundtrip [OF this, of u8g2_zero] show ?thesis by simp
qed

section \<open>Lines\<close>

fun join_lines :: "string list \<Rightarrow> string" where
  "join_lines [] = []"
| "join_lines [l] = l"
| "join_lines (l # ls) = l @ LF # join_lines ls"

definition line_text :: "string \<Rightarrow> bool" where
  "line_text l \<longleftrightarrow> LF \<notin> set l \<and> NUL \<notin> set l"

lemma line_text_simps [simp]:
  "line_text []" "line_text (c # l) \<longleftrightarrow> c \<noteq> LF \<and> c \<noteq> NUL \<and> line_text l"
  by (auto simp: line_text_def)

lemma join_Cons: "ls \<noteq> [] \<Longrightarrow> join_lines (l # ls) = l @ LF # join_lines ls"
  by (cases ls) simp_all

lemma line_cnt_line:
  "line_text l \<Longrightarrow> line_cnt_loop c l = c"
  "line_text l \<Longrightarrow> line_cnt_loop c (l @ LF # r) = line_cnt_loop (c + 1) r"
  by (induction l arbitrary: c) auto

lemma line_cnt_join:
  "list_all line_text ls \<Longrightarrow> ls \<noteq> [] \<Longrightarrow> line_cnt_loop c (join_lines ls) + 1 = c + of_nat (length ls)"
proof (induction ls arbitrary: c)
  case (Cons l ls)
  then show ?case by (cases "ls = []") (simp_all add: line_cnt_line join_Cons)
qed simp

lemma line_start_line:
  "line_text l \<Longrightarrow> line_start_loop i c l = None"
  "line_text l \<Longrightarrow> line_start_loop i c (l @ LF # r) = (if c = i then Some r else line_start_loop i (c + 1) r)"
  by (induction l) auto

lemma line_start_join:
  assumes "list_all line_text ls" and "ls \<noteq> []" and "c \<le> i" and "i < 256"
  shows "line_start_loop (of_nat i) (of_nat c) (join_lines ls) =
    (if Suc (i - c) < length ls then Some (join_lines (drop (Suc (i - c)) ls)) else None)"
  using assms
proof (induction ls arbitrary: c)
  case (Cons l ls)
  show ?case
  proof (cases "ls = []")
    case False
    have eq: "(of_nat c :: u8) = of_nat i \<longleftrightarrow> c = i"
      using Cons.prems(3,4) by (auto simp: word_unat_eq_iff unsigned_of_nat take_bit_nat_eq_self)
    have "line_start_loop (of_nat i) (of_nat (Suc c)) (join_lines ls) =
        (if Suc (i - Suc c) < length ls then Some (join_lines (drop (Suc (i - Suc c)) ls)) else None)" if "c < i"
      using Cons.IH [of "Suc c"] Cons.prems that False by simp
    moreover have "Suc (i - Suc c) = i - c" if "c < i" using that by simp
    ultimately show ?thesis
      using Cons.prems False eq by (cases "c = i") (auto simp: join_Cons line_start_line add.commute)
  qed (use Cons.prems in \<open>simp add: line_start_line\<close>)
qed simp

lemma copy_line:
  assumes "line_text l" and "r = [] \<or> (\<exists>r'. r = LF # r')" and "k + length l \<le> length dest"
  shows "copy_line_loop (l @ r) k dest = Some (k + length l, take k dest @ l @ drop (k + length l) dest)"
  using assms
proof (induction l arbitrary: k dest)
  case (Cons x l)
  have put: "put_char k x dest = Some (dest[k := x])" using Cons.prems(3) by (simp add: put_char_def)
  have "take (Suc k) (dest[k := x]) @ l @ drop (Suc k + length l) (dest[k := x]) =
      take k dest @ (x # l) @ drop (k + length (x # l)) dest"
    using Cons.prems(3) by (simp add: take_Suc_conv_app_nth)
  then show ?case using Cons.IH [of "Suc k" "dest[k := x]"] Cons.prems put by simp
qed auto

text \<open>C33: of a text of fewer than 256 lines the number is counted, and each line is copied; the line
  behind the last one is empty.\<close>

theorem line_roundtrip:
  assumes "list_all line_text ls" and "ls \<noteq> []" and "length ls < 256" and "i < 256"
    and "dest \<noteq> []" and "i < length ls \<longrightarrow> length (ls ! i) < length dest"
  shows "u8x8_GetStringLineCnt (Some (join_lines ls)) = of_nat (length ls) \<and>
    map_option c_str (u8x8_CopyStringLine dest (of_nat i) (join_lines ls)) = Some (if i < length ls then ls ! i else [])"
proof
  show "u8x8_GetStringLineCnt (Some (join_lines ls)) = of_nat (length ls)"
    using line_cnt_join [OF assms(1,2), of 1] by (simp add: u8x8_GetStringLineCnt_def)
  have zero: "(of_nat i :: u8) = 0 \<longleftrightarrow> i = 0"
    using assms(4) by (auto simp: word_unat_eq_iff unsigned_of_nat take_bit_nat_eq_self)
  have start: "u8x8_GetStringLineStart (of_nat i) (join_lines ls) =
      (if i < length ls then Some (join_lines (drop i ls)) else None)"
  proof (cases "i = 0")
    case False
    then show ?thesis using line_start_join [OF assms(1,2), of 1 i] assms(4) zero
      by (simp add: u8x8_GetStringLineStart_def Suc_diff_Suc)
  qed (use assms(2) in \<open>simp add: u8x8_GetStringLineStart_def\<close>)
  show "map_option c_str (u8x8_CopyStringLine dest (of_nat i) (join_lines ls)) = Some (if i < length ls then ls ! i else [])"
  proof (cases "i < length ls")
    case True
    then have "drop i ls = ls ! i # drop (Suc i) ls" by (simp add: Cons_nth_drop_Suc)
    then obtain r where r: "join_lines (drop i ls) = ls ! i @ r" "r = [] \<or> (\<exists>r'. r = LF # r')"
      by (cases "drop (Suc i) ls") auto
    have l: "line_text (ls ! i)" using assms(1) True by (simp add: list_all_length)
    then have str: "c_str (ls ! i @ NUL # d) = ls ! i" for d
      unfolding line_text_def c_str_def by (simp add: takeWhile_append)
    have "u8x8_CopyStringLine dest (of_nat i) (join_lines ls) =
        Some ((ls ! i @ drop (length (ls ! i)) dest)[length (ls ! i) := NUL])"
      using copy_line [OF l r(2), of 0 dest] assms(6) True start r(1)
      by (simp add: u8x8_CopyStringLine_def put_char_def)
    also have "\<dots> = Some (ls ! i @ NUL # drop (Suc (length (ls ! i))) dest)"
      using assms(6) True by (simp add: list_update_append upd_conv_take_nth_drop Cons_nth_drop_Suc [symmetric])
    finally show ?thesis using True str by simp
  next
    case False
    then show ?thesis using start assms(5)
      by (cases dest) (simp_all add: u8x8_CopyStringLine_def put_char_def)
  qed
qed

lemma line_roundtrip_witness:
  "u8x8_GetStringLineCnt (Some ''km/h'' ) = 1 \<and>
   map_option c_str (u8x8_CopyStringLine (replicate 8 NUL) 1 (join_lines [''speed'', ''km/h''])) = Some ''km/h''"
proof
  show "u8x8_GetStringLineCnt (Some ''km/h'') = 1"
    using line_roundtrip [of "[''km/h'']" 0 "replicate 8 NUL"] by (simp add: line_text_def)
  show "map_option c_str (u8x8_CopyStringLine (replicate 8 NUL) 1 (join_lines [''speed'', ''km/h''])) = Some ''km/h''"
    using line_roundtrip [of "[''speed'', ''km/h'']" 1 "replicate 8 NUL"] by (simp add: line_text_def)
qed

end
