(* ===== verification/U8g2_Bitmap.thy ===== *)
theory U8g2_Bitmap
  imports U8g2_Glyph
begin

text \<open>
  libs/u8g2/csrc/u8g2_bitmap.c: bitmaps with the most significant bit on the left (u8glib) and with
  the least significant one (XBM). The bits of a row are drawn one by one; a bitmap is the list of its
  bytes, and reading behind it is undefined.
\<close>

section \<open>Drawing\<close>

definition u8g2_SetBitmapMode :: "u8 \<Rightarrow> u8g2 \<Rightarrow> u8g2" where
  "u8g2_SetBitmapMode t u = u\<lparr>bitmap_transparency := t\<rparr>"

text \<open>The loop over the bits of a row, which only differs in the first mask and how it moves.\<close>

function bitmap_loop ::
    "(u8 \<Rightarrow> u8) \<Rightarrow> u8 \<Rightarrow> u8 \<Rightarrow> u8 \<Rightarrow> u8g2 \<Rightarrow> u8 \<Rightarrow> u8 \<Rightarrow> u8 \<Rightarrow> u8 \<Rightarrow> u8 list \<Rightarrow> u8g2 option" where
  "bitmap_loop shift start color ncolor u x y len m b =
     (if len > 0 then
        (case b of
           [] \<Rightarrow> None
         | byte # bytes \<Rightarrow>
             (case (if byte AND m \<noteq> 0 then u8g2_DrawHVLine (u\<lparr>draw_color := color\<rparr>) x y 1 0
                    else if bitmap_transparency u = 0 then u8g2_DrawHVLine (u\<lparr>draw_color := ncolor\<rparr>) x y 1 0
                    else Some u) of
                None \<Rightarrow> None
              | Some u \<Rightarrow>
                  let x = x + 1; m = shift m; (m, b) = (if m = 0 then (start, bytes) else (m, byte # bytes))
                  in bitmap_loop shift start color ncolor u x y (len - 1) m b))
      else Some u)"
  by pat_completeness auto
termination
  by (relation "measure (\<lambda>(shift, start, color, ncolor, u, x, y, len, m, b). unat len)")
    (auto simp: unat_minus_one unat_gt_0 word_gt_0)

declare bitmap_loop.simps [simp del]

definition bitmap_line :: "(u8 \<Rightarrow> u8) \<Rightarrow> u8 \<Rightarrow> u8g2 \<Rightarrow> u8 \<Rightarrow> u8 \<Rightarrow> u8 \<Rightarrow> u8 list \<Rightarrow> u8g2 option" where
  "bitmap_line shift start u x y len b =
     (let color = draw_color u;
          ncolor = (if color = 0 then 1 else 0)
      in if u8g2_IsIntersection u x y (x + len) (y + 1) = 0 then Some u
         else do {
           u \<leftarrow> bitmap_loop shift start color ncolor u x y len start b;
           Some (u\<lparr>draw_color := color\<rparr>) })"

definition u8g2_DrawHorizontalBitmap :: "u8g2 \<Rightarrow> u8 \<Rightarrow> u8 \<Rightarrow> u8 \<Rightarrow> u8 list \<Rightarrow> u8g2 option" where
  "u8g2_DrawHorizontalBitmap = bitmap_line (drop_bit 1) 128"

definition u8g2_DrawHXBM :: "u8g2 \<Rightarrow> u8 \<Rightarrow> u8 \<Rightarrow> u8 \<Rightarrow> u8 list \<Rightarrow> u8g2 option" where
  "u8g2_DrawHXBM = bitmap_line (push_bit 1) 1"

text \<open>The variant for program memory reads with \<open>u8x8_pgm_read\<close>.\<close>

definition u8g2_DrawHXBMP :: "u8g2 \<Rightarrow> u8 \<Rightarrow> u8 \<Rightarrow> u8 \<Rightarrow> u8 list \<Rightarrow> u8g2 option" where
  "u8g2_DrawHXBMP = bitmap_line (push_bit 1) 1"

text \<open>The loop over the rows.\<close>

function bitmap_rows ::
    "(u8g2 \<Rightarrow> u8 \<Rightarrow> u8 \<Rightarrow> u8 \<Rightarrow> u8 list \<Rightarrow> u8g2 option) \<Rightarrow> u8 \<Rightarrow> u8g2 \<Rightarrow> u8 \<Rightarrow> u8 \<Rightarrow> u8 \<Rightarrow> u8 \<Rightarrow> u8 list \<Rightarrow> u8g2 option" where
  "bitmap_rows line cnt u x y w h bitmap =
     (if h > 0 then
        (case line u x y w bitmap of
           None \<Rightarrow> None
         | Some u \<Rightarrow> bitmap_rows line cnt u x (y + 1) w (h - 1) (drop (unat cnt) bitmap))
      else Some u)"
  by pat_completeness auto
termination
  by (relation "measure (\<lambda>(line, cnt, u, x, y, w, h, bitmap). unat h)")
    (auto simp: unat_minus_one unat_gt_0 word_gt_0)

declare bitmap_rows.simps [simp del]

definition u8g2_DrawBitmap :: "u8g2 \<Rightarrow> u8 \<Rightarrow> u8 \<Rightarrow> u8 \<Rightarrow> u8 \<Rightarrow> u8 list \<Rightarrow> u8g2 option" where
  "u8g2_DrawBitmap u x y cnt h bitmap =
     (let w = cnt * 8
      in if u8g2_IsIntersection u x y (x + w) (y + h) = 0 then Some u
         else bitmap_rows u8g2_DrawHorizontalBitmap cnt u x y w h bitmap)"

definition u8g2_DrawXBM :: "u8g2 \<Rightarrow> u8 \<Rightarrow> u8 \<Rightarrow> u8 \<Rightarrow> u8 \<Rightarrow> u8 list \<Rightarrow> u8g2 option" where
  "u8g2_DrawXBM u x y w h bitmap =
     (let blen = w;
          blen = blen + 7;
          blen = drop_bit 3 blen
      in if u8g2_IsIntersection u x y (x + w) (y + h) = 0 then Some u
         else bitmap_rows u8g2_DrawHXBM blen u x y w h bitmap)"

definition u8g2_DrawXBMP :: "u8g2 \<Rightarrow> u8 \<Rightarrow> u8 \<Rightarrow> u8 \<Rightarrow> u8 \<Rightarrow> u8 list \<Rightarrow> u8g2 option" where
  "u8g2_DrawXBMP u x y w h bitmap =
     (let blen = w;
          blen = blen + 7;
          blen = drop_bit 3 blen
      in if u8g2_IsIntersection u x y (x + w) (y + h) = 0 then Some u
         else bitmap_rows u8g2_DrawHXBMP blen u x y w h bitmap)"

section \<open>What a bitmap paints\<close>

text \<open>The bits of a row, from the left, and what one does to its pixel.\<close>

definition bit_mask :: "bool \<Rightarrow> nat \<Rightarrow> u8" where
  "bit_mask lsb k = push_bit (if lsb then k else 7 - k) 1"

definition row_bit :: "bool \<Rightarrow> u8 list \<Rightarrow> nat \<Rightarrow> bool" where
  "row_bit lsb b k = bit (b ! (k div 8)) (if lsb then k mod 8 else 7 - k mod 8)"

definition dot :: "u8g2 \<Rightarrow> bool \<Rightarrow> bool \<Rightarrow> bool" where
  "dot u on b = (if on then paint (draw_color u) b
     else if bitmap_transparency u = 0 then paint (if draw_color u = 0 then 1 else 0) b else b)"

lemma text_only_dot: "text_only u v \<Longrightarrow> bitmap_transparency v = bitmap_transparency u"
  unfolding text_only_def by auto

lemma mask_steps:
  assumes "k < 8"
  shows "push_bit 1 (bit_mask True k) = (if k = 7 then 0 else bit_mask True (Suc k))"
    "drop_bit 1 (bit_mask False k) = (if k = 7 then 0 else bit_mask False (Suc k))"
    "bit_mask lsb k \<noteq> 0"
proof -
  have "\<forall>k \<in> set [0..<8]. push_bit 1 (bit_mask True k) = (if k = 7 then 0 else bit_mask True (Suc k))"
    "\<forall>k \<in> set [0..<8]. drop_bit 1 (bit_mask False k) = (if k = 7 then 0 else bit_mask False (Suc k))"
    "\<forall>k \<in> set [0..<8]. bit_mask True k \<noteq> 0" "\<forall>k \<in> set [0..<8]. bit_mask False k \<noteq> 0" by code_simp+
  moreover have "k \<in> set [0..<8]" using assms unfolding set_upt by simp
  ultimately show "push_bit 1 (bit_mask True k) = (if k = 7 then 0 else bit_mask True (Suc k))"
    "drop_bit 1 (bit_mask False k) = (if k = 7 then 0 else bit_mask False (Suc k))"
    "bit_mask lsb k \<noteq> 0"
    by (blast, blast, cases lsb, simp_all only:, blast+)
qed

lemma mask_bit: "k < 8 \<Longrightarrow> byte AND bit_mask lsb k \<noteq> 0 \<longleftrightarrow> bit byte (if lsb then k else 7 - k)"
  by (auto simp: bit_mask_def and_exp_eq_0_iff_not_bit push_bit_of_1)

lemma dot_renders:
  assumes "view_ok u"
  shows "\<exists>v. (if on then u8g2_DrawHVLine (u\<lparr>draw_color := color\<rparr>) x y 1 0
        else if bitmap_transparency u = 0 then u8g2_DrawHVLine (u\<lparr>draw_color := ncolor\<rparr>) x y 1 0 else Some u) = Some v \<and>
    renders u (\<lambda>p b. if p = (x, y) then (if on then paint color b
        else if bitmap_transparency u = 0 then paint ncolor b else b) else b) v"
proof -
  have one: "on_run 0 x y 1 p \<longleftrightarrow> p = (x, y)" for p
    by (cases p) (auto simp: on_run_def glyph_x_def glyph_y_def)
  have colour: "\<exists>v. u8g2_DrawHVLine (u\<lparr>draw_color := c\<rparr>) x y 1 0 = Some v \<and>
      renders u (\<lambda>p b. if p = (x, y) then paint c b else b) v" for c
  proof -
    let ?v = "u\<lparr>draw_color := c\<rparr>"
    have t: "text_only u ?v" using text_only_upd [of "tile_buf u" u c "font_decode u"] by simp
    have "view_ok ?v" "has_room ?v 0 1" using assms text_onlyD(1) [OF t] uint_u8(2) [of "user_x1 ?v"]
      by (simp_all add: has_room_def)
    from DrawHVLine_renders [OF this(1) _ this(2), of c x y] obtain v where
      "u8g2_DrawHVLine ?v x y 1 0 = Some v" "renders ?v (\<lambda>p b. if p = (x, y) then paint c b else b) v"
      by (auto simp: one)
    then show ?thesis using renders_trans [OF renders_text [OF t]] by fastforce
  qed
  have same: "renders u (\<lambda>p b. if p = (x, y) then b else b) u"
    using text_only_upd [of "tile_buf u" u "draw_color u" "font_decode u"] by (simp add: renders_text)
  show ?thesis
  proof (cases on)
    case True
    show ?thesis using colour [of color] unfolding if_P [OF True] .
  next
    case False
    show ?thesis
    proof (cases "bitmap_transparency u = 0")
      case True
      show ?thesis using colour [of ncolor] unfolding if_not_P [OF False] if_P [OF True] .
    next
      case transparent: False
      show ?thesis using same unfolding if_not_P [OF False] if_not_P [OF transparent] by simp
    qed
  qed
qed

lemma column_step:
  fixes i x len :: u8
  assumes "len \<noteq> 0"
  shows "i - x < len \<longleftrightarrow> i = x \<or> i - (x + 1) < len - 1"
    "i - (x + 1) < len - 1 \<Longrightarrow> i \<noteq> x \<and> unat (i - x) = Suc (unat (i - (x + 1)))"
proof -
  have n: "unat (len - 1) = unat len - 1" "0 < unat len" using assms by (simp_all add: unat_minus_one unat_gt_0)
  have m: "i - (x + 1) = (i - x) - 1" by simp
  have pred: "unat (i - x - 1) = unat (i - x) - 1" "0 < unat (i - x)" if "i \<noteq> x"
    using that by (simp_all add: unat_minus_one unat_gt_0)
  have "unat (- 1 :: u8) = 255" by code_simp
  moreover have wrap: "x - (x + 1) = - 1" by simp
  ultimately have max: "\<not> unat (x - (x + 1)) < unat (len - 1)"
    unfolding wrap using unat_u8_less [of "len - 1"] by linarith
  show "i - x < len \<longleftrightarrow> i = x \<or> i - (x + 1) < len - 1"
    using n pred unfolding m word_less_nat_alt by (cases "i = x") auto
  show "i \<noteq> x \<and> unat (i - x) = Suc (unat (i - (x + 1)))" if "i - (x + 1) < len - 1"
    using that max pred unfolding m word_less_nat_alt by (cases "i = x") auto
qed

lemma row_bit_drop: "n \<le> length b \<Longrightarrow> row_bit lsb (drop n b) k = row_bit lsb b (8 * n + k)"
  by (simp add: row_bit_def)

definition line_effect :: "bool \<Rightarrow> u8 list \<Rightarrow> nat \<Rightarrow> u8 \<Rightarrow> u8 \<Rightarrow> u8 \<Rightarrow> (bool \<Rightarrow> bool \<Rightarrow> bool) \<Rightarrow> u8 \<times> u8 \<Rightarrow> bool \<Rightarrow> bool" where
  "line_effect lsb b k x y len act = (\<lambda>(i, j) old.
     if j = y \<and> i - x < len then act (row_bit lsb b (k + unat (i - x))) old else old)"

definition shift_of :: "bool \<Rightarrow> u8 \<Rightarrow> u8" where
  "shift_of lsb = (if lsb then push_bit 1 else drop_bit 1)"

lemma shift_steps: "k < 8 \<Longrightarrow> shift_of lsb (bit_mask lsb k) = (if k = 7 then 0 else bit_mask lsb (Suc k))"
  by (cases lsb) (simp_all only: shift_of_def mask_steps(1,2) if_True if_False)

lemma bitmap_loop_renders:
  assumes "view_ok u" and "k < 8" and "k + unat len \<le> 8 * length b" and "tr = bitmap_transparency u"
  shows "\<exists>v. bitmap_loop (shift_of lsb) (bit_mask lsb 0) color ncolor u x y len (bit_mask lsb k) b = Some v \<and>
    renders u (line_effect lsb b k x y len (\<lambda>on b. if on then paint color b else if tr = 0 then paint ncolor b else b)) v"
  using assms
proof (induction "unat len" arbitrary: u k len b x)
  case 0
  then have len: "len = 0" by (simp add: unat_eq_0)
  have "renders u (\<lambda>p b. b) u"
    using text_only_upd [of "tile_buf u" u "draw_color u" "font_decode u"] by (simp add: renders_text)
  then have "renders u (line_effect lsb b k x y 0 (\<lambda>on b. if on then paint color b else if tr = 0 then paint ncolor b else b)) u"
    by (rule iffD1 [OF renders_cong, rotated]) (simp add: line_effect_def split: prod.split)
  then show ?case unfolding len by (subst bitmap_loop.simps) simp
next
  case (Suc n)
  let ?ink = "\<lambda>on b. if on then paint color b else if tr = 0 then paint ncolor b else b"
  have "len \<noteq> 0" using Suc.hyps(2) by (auto simp: unat_eq_0)
  then have len: "len \<noteq> 0" "n = unat (len - 1)" using Suc.hyps(2) by (simp_all add: unat_minus_one)
  obtain byte bytes where b: "b = byte # bytes" using Suc.prems(3) Suc.hyps(2) by (cases b) auto
  let ?on = "byte AND bit_mask lsb k \<noteq> 0"
  have on: "?on = row_bit lsb b k" using Suc.prems(2) mask_bit [of k byte lsb] by (simp add: row_bit_def b)
  from dot_renders [OF Suc.prems(1), of ?on color x y ncolor] obtain v where v:
    "(if ?on then u8g2_DrawHVLine (u\<lparr>draw_color := color\<rparr>) x y 1 0
      else if bitmap_transparency u = 0 then u8g2_DrawHVLine (u\<lparr>draw_color := ncolor\<rparr>) x y 1 0 else Some u) = Some v"
    "renders u (\<lambda>p b. if p = (x, y) then ?ink ?on b else b) v"
    unfolding Suc.prems(4) by blast
  then have t: "text_only u v" by (simp add: renders_def)
  define k' b' where "k' = (if k = 7 then 0 else Suc k)" and "b' = (if k = 7 then bytes else b)"
  have step: "bitmap_loop (shift_of lsb) (bit_mask lsb 0) color ncolor u x y len (bit_mask lsb k) b =
      bitmap_loop (shift_of lsb) (bit_mask lsb 0) color ncolor v (x + 1) y (len - 1) (bit_mask lsb k') b'"
    using v(1) len(1) shift_steps [OF Suc.prems(2), of lsb] mask_steps(3) [of "Suc k" lsb] Suc.prems(2)
    by (subst bitmap_loop.simps) (simp add: b k'_def b'_def word_gt_0)
  have k': "k' < 8" "k' + unat (len - 1) \<le> 8 * length b'"
    using Suc.prems(2,3) Suc.hyps(2) len(2) by (auto simp: k'_def b'_def b)
  have "view_ok v" "tr = bitmap_transparency v"
    using Suc.prems(1,4) text_onlyD(1) [OF t] text_only_dot [OF t] by simp_all
  from Suc.hyps(1) [OF len(2) this(1) k' this(2)] obtain w where w:
    "bitmap_loop (shift_of lsb) (bit_mask lsb 0) color ncolor v (x + 1) y (len - 1) (bit_mask lsb k') b' = Some w"
    "renders v (line_effect lsb b' k' (x + 1) y (len - 1) ?ink) w" by blast
  have bits: "row_bit lsb b' (k' + m) = row_bit lsb b (k + Suc m)" for m
    using row_bit_drop [of 1 b lsb m] by (simp add: k'_def b'_def b)
  have "renders u (line_effect lsb b k x y len ?ink) w"
  proof (rule iffD1 [OF renders_cong renders_trans [OF v(2) w(2)]])
    fix p old assume "visible u p"
    obtain i j where p: "p = (i, j)" by (cases p)
    show "line_effect lsb b' k' (x + 1) y (len - 1) ?ink p (if p = (x, y) then ?ink ?on old else old) =
        line_effect lsb b k x y len ?ink p old"
    proof (cases "j = y")
      case True
      note c = column_step [OF len(1), of i x]
      show ?thesis
      proof (cases "i = x")
        case i: True
        then have "\<not> i - (x + 1) < len - 1" "i - x < len" using c by auto
        then show ?thesis using True i on by (simp add: p line_effect_def)
      next
        case i: False
        show ?thesis
        proof (cases "i - (x + 1) < len - 1")
          case run: True
          then have "i - x < len" "unat (i - x) = Suc (unat (i - (x + 1)))" using c by blast+
          then show ?thesis using True i run bits [of "unat (i - (x + 1))"] by (simp only: p line_effect_def prod.case) simp
        next
          case run: False
          then have "\<not> i - x < len" using c(1) i by simp
          then show ?thesis using i run by (simp add: p line_effect_def)
        qed
      qed
    qed (simp add: p line_effect_def)
  qed
  with w(1) step show ?case by simp
qed

section \<open>Lines and whole bitmaps\<close>

lemma in_wrap_range:
  fixes i x w :: u8
  assumes "i - x < w"
  shows "uint i \<in> wrap_range x (x + w)"
  using assms uint_u8 [of x] uint_u8 [of w]
  by (auto simp: wrap_range_def u8_int split: if_splits) (use uint_u8 [of i] in linarith)+

lemma no_intersection:
  assumes "view_ok u" and "w \<noteq> 0" and "h \<noteq> 0" and "u8g2_IsIntersection u x y (x + w) (y + h) = 0" and "visible u (i, j)"
  shows "\<not> (i - x < w \<and> j - y < h)"
proof
  assume "i - x < w \<and> j - y < h"
  then have "(uint i, uint j) \<in> wrap_range x (x + w) \<times> wrap_range y (y + h)" using in_wrap_range by blast
  moreover have "window u \<inter> (wrap_range x (x + w) \<times> wrap_range y (y + h)) = {}"
    using IsIntersection_window [of u x "x + w" y "y + h"] assms(2-4) view_okD(3,4) [OF assms(1)] by simp
  ultimately show False using assms(5) by (auto simp: visible_def)
qed

lemma renders_unchanged:
  assumes "\<And>p b. visible u p \<Longrightarrow> f p b = b"
  shows "renders u f u"
proof -
  have "renders u (\<lambda>p b. b) u"
    using text_only_upd [of "tile_buf u" u "draw_color u" "font_decode u"] by (simp add: renders_text)
  then show ?thesis by (rule iffD1 [OF renders_cong, rotated]) (simp add: assms)
qed

lemma bitmap_line_renders:
  assumes ok: "view_ok u" and len: "len \<noteq> 0" "unat len \<le> 8 * length b"
  shows "\<exists>v. bitmap_line (shift_of lsb) (bit_mask lsb 0) u x y len b = Some v \<and>
    renders u (line_effect lsb b 0 x y len (dot u)) v \<and> draw_color v = draw_color u"
proof (cases "u8g2_IsIntersection u x y (x + len) (y + 1) = 0")
  case True
  have "renders u (line_effect lsb b 0 x y len (dot u)) u"
  proof (rule renders_unchanged)
    fix p old assume vis: "visible u p"
    show "line_effect lsb b 0 x y len (dot u) p old = old"
      using no_intersection [OF ok len(1) _ True] vis by (cases p) (auto simp: line_effect_def)
  qed
  with True show ?thesis by (simp add: bitmap_line_def Let_def)
next
  case False
  let ?c = "draw_color u" and ?n = "if draw_color u = 0 then 1 else 0"
  obtain v where v: "bitmap_loop (shift_of lsb) (bit_mask lsb 0) ?c ?n u x y len (bit_mask lsb 0) b = Some v"
    "renders u (line_effect lsb b 0 x y len (dot u)) v"
    using bitmap_loop_renders [OF ok, of 0 len b "bitmap_transparency u" lsb ?c ?n x y] len(2)
    unfolding dot_def by auto
  have t: "text_only v (v\<lparr>draw_color := ?c\<rparr>)"
    using text_only_upd [of "tile_buf v" v ?c "font_decode v"] by simp
  have "renders u (line_effect lsb b 0 x y len (dot u)) (v\<lparr>draw_color := ?c\<rparr>)"
    using renders_trans [OF v(2) renders_text [OF t]] by simp
  with v(1) False show ?thesis by (simp add: bitmap_line_def Let_def)
qed

definition bitmap_effect :: "bool \<Rightarrow> nat \<Rightarrow> u8 list \<Rightarrow> u8 \<Rightarrow> u8 \<Rightarrow> u8 \<Rightarrow> u8 \<Rightarrow> (bool \<Rightarrow> bool \<Rightarrow> bool) \<Rightarrow> u8 \<times> u8 \<Rightarrow> bool \<Rightarrow> bool" where
  "bitmap_effect lsb n bitmap x y w h act = (\<lambda>(i, j) old.
     if i - x < w \<and> j - y < h then act (row_bit lsb bitmap (8 * n * unat (j - y) + unat (i - x))) old else old)"

lemma bitmap_rows_renders:
  assumes "view_ok u" and "w \<noteq> 0" and "unat w \<le> 8 * unat n" and "unat h * unat n \<le> length bitmap" and "act = dot u"
  shows "\<exists>v. bitmap_rows (bitmap_line (shift_of lsb) (bit_mask lsb 0)) n u x y w h bitmap = Some v \<and>
    renders u (bitmap_effect lsb (unat n) bitmap x y w h act) v \<and> draw_color v = draw_color u"
  using assms
proof (induction "unat h" arbitrary: u y h bitmap)
  case 0
  then have h: "h = 0" by (simp add: unat_eq_0)
  have "renders u (bitmap_effect lsb (unat n) bitmap x y w 0 act) u"
    by (rule renders_unchanged) (simp add: bitmap_effect_def split: prod.split)
  then show ?case unfolding h by (subst bitmap_rows.simps) simp
next
  case (Suc k)
  have "h \<noteq> 0" using Suc.hyps(2) by (auto simp: unat_eq_0)
  then have h: "h \<noteq> 0" "k = unat (h - 1)" using Suc.hyps(2) by (simp_all add: unat_minus_one)
  have first: "unat n \<le> length bitmap" using Suc.prems(4) Suc.hyps(2) [symmetric] by simp
  then have "unat w \<le> 8 * length bitmap" using Suc.prems(3) by linarith
  from bitmap_line_renders [OF Suc.prems(1,2) this] obtain v where v:
    "bitmap_line (shift_of lsb) (bit_mask lsb 0) u x y w bitmap = Some v"
    "renders u (line_effect lsb bitmap 0 x y w act) v" "draw_color v = draw_color u"
    unfolding Suc.prems(5) by blast
  have t: "text_only u v" using v(2) by (simp add: renders_def)
  have dot: "act = dot v" using Suc.prems(5) v(3) text_only_dot [OF t] by (simp add: dot_def fun_eq_iff)
  have room: "unat (h - 1) * unat n \<le> length (drop (unat n) bitmap)"
    using Suc.prems(4) unfolding Suc.hyps(2) [symmetric] h(2) [symmetric] by simp
  have "view_ok v" using Suc.prems(1) text_onlyD(1) [OF t] by simp
  from Suc.hyps(1) [OF h(2) this Suc.prems(2,3) room dot, of "y + 1"] obtain z where z:
    "bitmap_rows (bitmap_line (shift_of lsb) (bit_mask lsb 0)) n v x (y + 1) w (h - 1) (drop (unat n) bitmap) = Some z"
    "renders v (bitmap_effect lsb (unat n) (drop (unat n) bitmap) x (y + 1) w (h - 1) act) z" "draw_color z = draw_color v"
    by blast
  have "renders u (bitmap_effect lsb (unat n) bitmap x y w h act) z"
  proof (rule iffD1 [OF renders_cong renders_trans [OF v(2) z(2)]])
    fix p old assume "visible u p"
    obtain i j where p: "p = (i, j)" by (cases p)
    note c = column_step [OF h(1), of j y]
    show "bitmap_effect lsb (unat n) (drop (unat n) bitmap) x (y + 1) w (h - 1) act p
        (line_effect lsb bitmap 0 x y w act p old) = bitmap_effect lsb (unat n) bitmap x y w h act p old"
    proof (cases "j = y")
      case True
      then have "\<not> j - (y + 1) < h - 1" "j - y < h" using c by auto
      then show ?thesis using True by (simp add: p line_effect_def bitmap_effect_def)
    next
      case j: False
      show ?thesis
      proof (cases "j - (y + 1) < h - 1")
        case run: True
        then have "j - y < h" "unat (j - y) = Suc (unat (j - (y + 1)))" using c by blast+
        then show ?thesis using j run row_bit_drop [OF first]
          by (simp only: p line_effect_def bitmap_effect_def prod.case) (simp add: algebra_simps)
      next
        case run: False
        then have "\<not> j - y < h" using c(1) j by simp
        then show ?thesis using j run by (simp add: p line_effect_def bitmap_effect_def)
      qed
    qed
  qed
  moreover have "bitmap_rows (bitmap_line (shift_of lsb) (bit_mask lsb 0)) n u x y w h bitmap = Some z"
    using v(1) z(1) h(1) by (subst bitmap_rows.simps) (simp add: word_gt_0)
  ultimately show ?case using v(3) z(3) by simp
qed

lemma bitmap_renders:
  assumes ok: "view_ok u" and wh: "w \<noteq> 0" "h \<noteq> 0" and n: "unat w \<le> 8 * unat n" "unat h * unat n \<le> length bitmap"
  shows "\<exists>v. (if u8g2_IsIntersection u x y (x + w) (y + h) = 0 then Some u
      else bitmap_rows (bitmap_line (shift_of lsb) (bit_mask lsb 0)) n u x y w h bitmap) = Some v \<and>
    renders u (bitmap_effect lsb (unat n) bitmap x y w h (dot u)) v \<and> draw_color v = draw_color u"
proof (cases "u8g2_IsIntersection u x y (x + w) (y + h) = 0")
  case True
  have "renders u (bitmap_effect lsb (unat n) bitmap x y w h (dot u)) u"
  proof (rule renders_unchanged)
    fix p old assume vis: "visible u p"
    show "bitmap_effect lsb (unat n) bitmap x y w h (dot u) p old = old"
      using no_intersection [OF ok wh True] vis by (cases p) (auto simp: bitmap_effect_def)
  qed
  with True show ?thesis by simp
next
  case False
  with bitmap_rows_renders [OF ok wh(1) n, of "dot u" lsb x y] show ?thesis by simp
qed

lemma bitmap_lines:
  "u8g2_DrawHorizontalBitmap = bitmap_line (shift_of False) (bit_mask False 0)"
  "u8g2_DrawHXBM = bitmap_line (shift_of True) (bit_mask True 0)"
  "u8g2_DrawHXBMP = bitmap_line (shift_of True) (bit_mask True 0)"
  by (simp_all add: u8g2_DrawHorizontalBitmap_def u8g2_DrawHXBM_def u8g2_DrawHXBMP_def shift_of_def bit_mask_def)

text \<open>The number of bytes in a row of an XBM bitmap.\<close>

lemma row_bytes:
  fixes w :: u8
  assumes "w \<le> 248"
  shows "unat (drop_bit 3 (w + 7)) = (unat w + 7) div 8"
proof -
  have "unat w \<le> 248" using assms by (simp add: word_le_nat_alt)
  then have "unat (w + 7) = unat w + 7" by (simp add: unat_word_ariths)
  moreover have "unat (drop_bit 3 (w + 7)) = drop_bit 3 (unat (w + 7))" by (rule unat_drop_bit_eq)
  ultimately show ?thesis by (simp add: drop_bit_eq_div)
qed

lemma DrawBitmap_renders:
  assumes "view_ok u" and "cnt \<noteq> 0" and "cnt < 32" and "h \<noteq> 0" and "unat h * unat cnt \<le> length bitmap"
  shows "\<exists>v. u8g2_DrawBitmap u x y cnt h bitmap = Some v \<and>
    renders u (bitmap_effect False (unat cnt) bitmap x y (cnt * 8) h (dot u)) v \<and> draw_color v = draw_color u"
proof -
  have "unat cnt < 32" "0 < unat cnt" using assms(2,3) by (simp_all add: word_less_nat_alt unat_gt_0)
  then have w: "unat (cnt * 8) = 8 * unat cnt" by (simp add: unat_word_ariths)
  then have "cnt * 8 \<noteq> 0" using \<open>0 < unat cnt\<close> by (auto simp: unat_eq_0)
  from bitmap_renders [OF assms(1) this assms(4) _ assms(5)] w show ?thesis
    by (simp only: u8g2_DrawBitmap_def Let_def bitmap_lines)
qed

text \<open>C25: an XBM bitmap is drawn exactly: each visible pixel of its rectangle (which may wrap around)
  takes the draw colour if its bit is set and, unless the mode is transparent, the other colour if it
  is not; no other pixel changes, and the draw colour is kept.\<close>

theorem bitmap_exact:
  assumes "view_ok u" and "w \<noteq> 0" and "w \<le> 248" and "h \<noteq> 0" and "unat h * ((unat w + 7) div 8) \<le> length bitmap"
    and "draw \<in> {u8g2_DrawXBM, u8g2_DrawXBMP}"
  shows "\<exists>v. draw u x y w h bitmap = Some v \<and>
    renders u (bitmap_effect True ((unat w + 7) div 8) bitmap x y w h (dot u)) v \<and> draw_color v = draw_color u"
proof -
  let ?n = "drop_bit 3 (w + 7)"
  note n = row_bytes [OF assms(3)]
  have "unat w \<le> 8 * unat ?n" "unat h * unat ?n \<le> length bitmap" using assms(5) unfolding n by simp_all
  from bitmap_renders [OF assms(1,2,4) this, of x y True] assms(6) show ?thesis
    unfolding n by (auto simp: u8g2_DrawXBM_def u8g2_DrawXBMP_def Let_def bitmap_lines)
qed

lemma bitmap_exact_witness:
  "\<exists>v. u8g2_DrawXBM (u8g2_Setup_sh1106_i2c_128x64_winstar_f U8G2_R0 u8g2_zero) 10 20 12 2 [0x81, 0x0f, 0xff, 0x01] = Some v \<and>
     renders (u8g2_Setup_sh1106_i2c_128x64_winstar_f U8G2_R0 u8g2_zero)
       (bitmap_effect True 2 [0x81, 0x0f, 0xff, 0x01] 10 20 12 2 (dot (u8g2_Setup_sh1106_i2c_128x64_winstar_f U8G2_R0 u8g2_zero))) v"
  using bitmap_exact [OF firmware_view(1), of 12 2 "[0x81, 0x0f, 0xff, 0x01]" u8g2_DrawXBM] by fastforce

end
