(* ===== verification/U8g2_Polygon.thy ===== *)
theory U8g2_Polygon
  imports U8g2_Shapes
begin

text \<open>
  libs/u8g2/csrc/u8g2_polygon.c: convex polygons of up to six points, filled line by line between a
  left and a right edge. A \<open>pg_word_t\<close> is an \<open>int16_t\<close>, kept as its 16-bit pattern and read with
  \<^const>\<open>sint\<close>. A division by the height of a flat edge is undefined; the loops that look for the next
  edge or point are partial functions.
\<close>

section \<open>Points and edges\<close>

abbreviation (input) "PG_MAX_POINTS \<equiv> 6"

record pg_point_struct =
  pt_x :: u16
  pt_y :: u16

datatype pg_next_fn = Pg_Inc | Pg_Dec

record pg_edge_struct =
  x_direction :: u16
  edge_height :: u16
  current_x_offset :: u16
  error_offset :: u16
  current_y :: u16
  max_y :: u16
  current_x :: u16
  edge_error :: u16
  next_idx_fn :: pg_next_fn
  curr_idx :: u8

text \<open>The array \<open>pge\<close> of the two edges is a pair of fields.\<close>

datatype pg_side = PG_LEFT | PG_RIGHT

record pg_struct =
  pg_list :: "pg_point_struct list"
  pg_cnt :: u8
  is_min_y_not_flat :: u8
  total_scan_line_cnt :: u16
  pge_left :: pg_edge_struct
  pge_right :: pg_edge_struct

definition pge :: "pg_side \<Rightarrow> pg_struct \<Rightarrow> pg_edge_struct" where
  "pge side pg = (case side of PG_LEFT \<Rightarrow> pge_left pg | PG_RIGHT \<Rightarrow> pge_right pg)"

definition set_pge :: "pg_side \<Rightarrow> pg_edge_struct \<Rightarrow> pg_struct \<Rightarrow> pg_struct" where
  "set_pge side e pg = (case side of PG_LEFT \<Rightarrow> pg\<lparr>pge_left := e\<rparr> | PG_RIGHT \<Rightarrow> pg\<lparr>pge_right := e\<rparr>)"

definition pg_point :: "pg_struct \<Rightarrow> u8 \<Rightarrow> pg_point_struct option" where
  "pg_point pg i = (if unat i < length (pg_list pg) then Some (pg_list pg ! unat i) else None)"

definition pge_Next :: "pg_edge_struct \<Rightarrow> u8 \<times> pg_edge_struct" where
  "pge_Next e =
     (if sint (current_y e) \<ge> sint (max_y e) then (0, e)
      else
        let e = e\<lparr>current_x := current_x e + current_x_offset e\<rparr>;
            e = e\<lparr>edge_error := edge_error e + error_offset e\<rparr>;
            e = (if sint (edge_error e) > 0
                 then e\<lparr>current_x := current_x e + x_direction e, edge_error := edge_error e - edge_height e\<rparr>
                 else e)
        in (1, e\<lparr>current_y := current_y e + 1\<rparr>))"

definition pge_Init :: "u16 \<Rightarrow> u16 \<Rightarrow> u16 \<Rightarrow> u16 \<Rightarrow> pg_edge_struct \<Rightarrow> pg_edge_struct option" where
  "pge_Init x1 y1 x2 y2 e =
     (let dx = x2 - x1;
          e = e\<lparr>edge_height := y2 - y1, current_y := y1, max_y := y2, current_x := x1\<rparr>;
          (e, w) = (if sint dx \<ge> 0 then (e\<lparr>x_direction := 1, edge_error := 0\<rparr>, dx)
                    else (e\<lparr>x_direction := - 1, edge_error := 1 - edge_height e\<rparr>, - dx))
      in if edge_height e = 0 then None
         else Some (e\<lparr>current_x_offset := word_of_int (c_div (sint dx) (sint (edge_height e))),
                error_offset := word_of_int (c_mod (sint w) (sint (edge_height e)))\<rparr>))"

section \<open>Convex polygons\<close>

definition pg_inc :: "pg_struct \<Rightarrow> u8 \<Rightarrow> u8" where
  "pg_inc pg i = (let i = i + 1 in if i \<ge> pg_cnt pg then 0 else i)"

definition pg_dec :: "pg_struct \<Rightarrow> u8 \<Rightarrow> u8" where
  "pg_dec pg i = (let i = i - 1 in if i \<ge> pg_cnt pg then pg_cnt pg - 1 else i)"

definition next_idx :: "pg_edge_struct \<Rightarrow> pg_struct \<Rightarrow> u8 \<Rightarrow> u8" where
  "next_idx e pg i = (case next_idx_fn e of Pg_Inc \<Rightarrow> pg_inc pg i | Pg_Dec \<Rightarrow> pg_dec pg i)"

partial_function (option) expand_loop :: "u16 \<Rightarrow> pg_side \<Rightarrow> u8 \<Rightarrow> pg_struct \<Rightarrow> pg_struct option" where
  "expand_loop min_y side i pg =
     (let i = next_idx (pge side pg) pg i
      in Option.bind (pg_point pg i) (\<lambda>p.
           if pt_y p \<noteq> min_y then Some pg
           else expand_loop min_y side i (set_pge side ((pge side pg)\<lparr>curr_idx := i\<rparr>) pg)))"

definition pg_expand_min_y :: "u16 \<Rightarrow> pg_side \<Rightarrow> pg_struct \<Rightarrow> pg_struct option" where
  "pg_expand_min_y min_y side pg = expand_loop min_y side (curr_idx (pge side pg)) pg"

text \<open>The loop that looks for the highest and the lowest \<open>y\<close>, and the index of a point with the lowest one.\<close>

function search_y :: "pg_struct \<Rightarrow> u8 \<Rightarrow> u16 \<Rightarrow> u16 \<Rightarrow> u8 \<Rightarrow> (u16 \<times> u16 \<times> u8) option" where
  "search_y pg i maxy miny idx =
     (if i < pg_cnt pg then
        (case pg_point pg i of
           None \<Rightarrow> None
         | Some p \<Rightarrow>
             search_y pg (i + 1) (if sint maxy < sint (pt_y p) then pt_y p else maxy)
               (if sint miny > sint (pt_y p) then pt_y p else miny) (if sint miny > sint (pt_y p) then i else idx))
      else Some (maxy, miny, idx))"
  by pat_completeness auto
termination
  by (relation "measure (\<lambda>(pg, i, maxy, miny, idx). unat (pg_cnt pg) - unat i)")
    (auto simp: unat_inc dest: unat_less_u8 intro!: diff_less_mono2)

declare search_y.simps [simp del]

definition pg_prepare :: "pg_struct \<Rightarrow> (u8 \<times> pg_struct) option" where
  "pg_prepare pg = do {
     let pg = pg\<lparr>pge_right := (pge_right pg)\<lparr>next_idx_fn := Pg_Inc\<rparr>\<rparr>;
     let pg = pg\<lparr>pge_left := (pge_left pg)\<lparr>next_idx_fn := Pg_Dec\<rparr>\<rparr>;
     p \<leftarrow> pg_point pg 0;
     (maxy, miny, idx) \<leftarrow> search_y pg 1 (pt_y p) (pt_y p) 0;
     let pg = pg\<lparr>pge_left := (pge_left pg)\<lparr>curr_idx := idx\<rparr>\<rparr>;
     let pg = pg\<lparr>total_scan_line_cnt := maxy - miny\<rparr>;
     if total_scan_line_cnt pg = 0 then Some (0, pg)
     else do {
       let pg = pg\<lparr>pge_right := (pge_right pg)\<lparr>curr_idx := curr_idx (pge_left pg)\<rparr>\<rparr>;
       pg \<leftarrow> pg_expand_min_y miny PG_RIGHT pg;
       pg \<leftarrow> pg_expand_min_y miny PG_LEFT pg;
       let pg = pg\<lparr>is_min_y_not_flat := 1\<rparr>;
       l \<leftarrow> pg_point pg (curr_idx (pge_left pg));
       r \<leftarrow> pg_point pg (curr_idx (pge_right pg));
       if pt_x l \<noteq> pt_x r then Some (1, pg\<lparr>is_min_y_not_flat := 0\<rparr>)
       else
         let pg = pg\<lparr>total_scan_line_cnt := total_scan_line_cnt pg - 1\<rparr>
         in if total_scan_line_cnt pg = 0 then Some (0, pg) else Some (1, pg) } }"

definition pg_hline :: "pg_struct \<Rightarrow> u8g2 \<Rightarrow> u8g2 option" where
  "pg_hline pg u =
     (let x1 = current_x (pge_left pg);
          x2 = current_x (pge_right pg);
          y = current_y (pge_right pg)
      in if sint y < 0 then Some u
         else if sint y \<ge> uint (height u) then Some u
         else if sint x1 < sint x2 then
           (if sint x2 < 0 then Some u
            else if sint x1 \<ge> uint (width u) then Some u
            else
              let x1 = (if sint x1 < 0 then 0 else x1);
                  x2 = (if sint x2 \<ge> uint (width u) then ucast (width u) else x2)
              in u8g2_DrawHLine u (ucast x1) (ucast y) (ucast (x2 - x1)))
         else
           (if sint x1 < 0 then Some u
            else if sint x2 \<ge> uint (width u) then Some u
            else
              let x1 = (if sint x2 < 0 then 0 else x1);
                  x1 = (if sint x1 \<ge> uint (width u) then ucast (width u) else x1)
              in u8g2_DrawHLine u (ucast x2) (ucast y) (ucast (x1 - x2))))"

definition pg_line_init :: "pg_side \<Rightarrow> pg_struct \<Rightarrow> pg_struct option" where
  "pg_line_init side pg = do {
     let idx = curr_idx (pge side pg);
     p \<leftarrow> pg_point pg idx;
     let idx = next_idx (pge side pg) pg idx;
     q \<leftarrow> pg_point pg idx;
     e \<leftarrow> pge_Init (pt_x p) (pt_y p) (pt_x q) (pt_y q) ((pge side pg)\<lparr>curr_idx := idx\<rparr>);
     Some (set_pge side e pg) }"

text \<open>Going to the next line, with as many new edges as it takes.\<close>

partial_function (option) next_edge :: "pg_side \<Rightarrow> pg_struct \<Rightarrow> pg_struct option" where
  "next_edge side pg =
     (let (r, e) = pge_Next (pge side pg)
      in if r = 0 then Option.bind (pg_line_init side (set_pge side e pg)) (\<lambda>pg. next_edge side pg)
         else Some (set_pge side e pg))"

partial_function (option) scan_lines :: "u16 \<Rightarrow> pg_struct \<times> u8g2 \<Rightarrow> (pg_struct \<times> u8g2) option" where
  "scan_lines i st =
     (case st of (pg, u) \<Rightarrow>
        Option.bind (pg_hline pg u) (\<lambda>u.
        Option.bind (next_edge PG_LEFT pg) (\<lambda>pg.
        Option.bind (next_edge PG_RIGHT pg) (\<lambda>pg.
          let i = i - 1 in if sint i > 0 then scan_lines i (pg, u) else Some (pg, u)))))"

definition skip_line :: "pg_side \<Rightarrow> pg_struct \<Rightarrow> pg_struct" where
  "skip_line side pg = set_pge side (snd (pge_Next (pge side pg))) pg"

definition pg_exec :: "pg_struct \<times> u8g2 \<Rightarrow> (pg_struct \<times> u8g2) option" where
  "pg_exec = (\<lambda>(pg, u). do {
     let i = total_scan_line_cnt pg;
     pg \<leftarrow> pg_line_init PG_LEFT pg;
     pg \<leftarrow> pg_line_init PG_RIGHT pg;
     let pg = (if is_min_y_not_flat pg \<noteq> 0 then skip_line PG_RIGHT (skip_line PG_LEFT pg) else pg);
     scan_lines i (pg, u) })"

section \<open>The commands\<close>

text \<open>The polygon is the library's global variable \<open>u8g2_pg\<close>, which starts with all bytes zero (the
  pointers \<open>next_idx_fn\<close> are set before their first use).\<close>

definition pg_edge_zero :: pg_edge_struct where
  "pg_edge_zero = \<lparr>x_direction = 0, edge_height = 0, current_x_offset = 0, error_offset = 0, current_y = 0,
     max_y = 0, current_x = 0, edge_error = 0, next_idx_fn = Pg_Inc, curr_idx = 0\<rparr>"

definition u8g2_pg :: pg_struct where
  "u8g2_pg = \<lparr>pg_list = replicate PG_MAX_POINTS \<lparr>pt_x = 0, pt_y = 0\<rparr>, pg_cnt = 0, is_min_y_not_flat = 0,
     total_scan_line_cnt = 0, pge_left = pg_edge_zero, pge_right = pg_edge_zero\<rparr>"

definition u8g2_ClearPolygonXY :: "pg_struct \<Rightarrow> pg_struct" where
  "u8g2_ClearPolygonXY pg = pg\<lparr>pg_cnt := 0\<rparr>"

definition u8g2_AddPolygonXY :: "u16 \<Rightarrow> u16 \<Rightarrow> pg_struct \<Rightarrow> pg_struct" where
  "u8g2_AddPolygonXY x y pg =
     (if pg_cnt pg < PG_MAX_POINTS
      then pg\<lparr>pg_list := (pg_list pg)[unat (pg_cnt pg) := \<lparr>pt_x = x, pt_y = y\<rparr>], pg_cnt := pg_cnt pg + 1\<rparr>
      else pg)"

definition u8g2_DrawPolygon :: "pg_struct \<times> u8g2 \<Rightarrow> (pg_struct \<times> u8g2) option" where
  "u8g2_DrawPolygon = (\<lambda>(pg, u). do {
     (r, pg) \<leftarrow> pg_prepare pg;
     if r = 0 then Some (pg, u) else pg_exec (pg, u) })"

definition u8g2_DrawTriangle ::
    "u16 \<Rightarrow> u16 \<Rightarrow> u16 \<Rightarrow> u16 \<Rightarrow> u16 \<Rightarrow> u16 \<Rightarrow> pg_struct \<times> u8g2 \<Rightarrow> (pg_struct \<times> u8g2) option" where
  "u8g2_DrawTriangle x0 y0 x1 y1 x2 y2 = (\<lambda>(pg, u).
     (let pg = u8g2_ClearPolygonXY pg;
          pg = u8g2_AddPolygonXY x0 y0 pg;
          pg = u8g2_AddPolygonXY x1 y1 pg;
          pg = u8g2_AddPolygonXY x2 y2 pg
      in u8g2_DrawPolygon (pg, u)))"

section \<open>The points of an edge\<close>

text \<open>An edge of width \<open>dx\<close> and height \<open>h\<close> after \<open>k\<close> steps: the error is the distance, in units of one
  pixel divided by \<open>h\<close>, between the column and the ideal line.\<close>

definition edge_inv :: "int \<Rightarrow> int \<Rightarrow> int \<Rightarrow> int \<Rightarrow> int \<Rightarrow> pg_edge_struct \<Rightarrow> bool" where
  "edge_inv x1 y1 dx h k e \<longleftrightarrow> edge_height e = word_of_int h \<and> sint (max_y e) = y1 + h \<and> sint (current_y e) = y1 + k \<and>
     x_direction e = (if 0 \<le> dx then 1 else - 1) \<and> current_x_offset e = word_of_int (c_div dx h) \<and>
     error_offset e = word_of_int (\<bar>dx\<bar> mod h) \<and>
     (\<exists>i. current_x e = word_of_int (x1 + i) \<and> 0 \<le> i * h - k * dx \<and> i * h - k * dx < h \<and>
        edge_error e = word_of_int (if 0 \<le> dx then k * dx - i * h else i * h - k * dx + 1 - h))"

lemma sint_of_int_16: "- 32768 \<le> i \<Longrightarrow> i < 32768 \<Longrightarrow> sint (word_of_int i :: u16) = i"
  by (simp add: sint_sbintrunc' signed_take_bit_int_eq_self)

lemma sint_sub_u16: "\<bar>sint x - sint y\<bar> < 32768 \<Longrightarrow> sint (x - y) = sint x - sint y" for x y :: u16
  using sint_of_int_16 [of "sint x - sint y"] by (simp add: abs_less_iff)

lemma sint_eq_iff: "x = y \<longleftrightarrow> sint x = sint y" for x y :: u16
  by (rule word_eq_iff_signed)

lemma edge_step:
  assumes inv: "edge_inv x1 y1 dx h k e" and k: "0 \<le> k" "k < h" and h: "h < 32768" and y: "- 32768 \<le> y1" "y1 + h < 32768"
  shows "\<exists>e'. pge_Next e = (1, e') \<and> edge_inv x1 y1 dx h (k + 1) e'"
proof -
  obtain i where e: "edge_height e = word_of_int h" "sint (max_y e) = y1 + h" "sint (current_y e) = y1 + k"
    "x_direction e = (if 0 \<le> dx then 1 else - 1)" "current_x_offset e = word_of_int (c_div dx h)"
    "error_offset e = word_of_int (\<bar>dx\<bar> mod h)" "current_x e = word_of_int (x1 + i)"
    and i: "0 \<le> i * h - k * dx" "i * h - k * dx < h"
    and err: "edge_error e = word_of_int (if 0 \<le> dx then k * dx - i * h else i * h - k * dx + 1 - h)"
    using inv unfolding edge_inv_def by blast
  define q r where "q = \<bar>dx\<bar> div h" and "r = \<bar>dx\<bar> mod h"
  have r: "0 \<le> r" "r < h" "q * h + r = \<bar>dx\<bar>" using k by (simp_all add: q_def r_def)
  define p where "p = (if 0 \<le> dx then k * dx - i * h else i * h - k * dx + 1 - h)"
  define s where "s = p + r"
  have p: "1 - h \<le> p" "p \<le> 0" using i by (auto simp: p_def)
  have es: "edge_error e + error_offset e = word_of_int s" by (simp add: err e(6) s_def flip: r_def p_def)
  have s: "sint (word_of_int s :: u16) = s" using p r h by (intro sint_of_int_16) (auto simp: s_def)
  have y': "sint (current_y e + 1) = y1 + (k + 1)"
  proof -
    have "current_y e = word_of_int (y1 + k)"
      unfolding sint_eq_iff e(3) using k y by (intro sint_of_int_16 [symmetric]) simp_all
    then have "current_y e + 1 = word_of_int (y1 + (k + 1))" by simp
    then show ?thesis using k y by (simp only: sint_of_int_16)
  qed
  define j where "j = i + (if 0 \<le> dx then q + (if 0 < s then 1 else 0) else - q - (if 0 < s then 1 else 0))"
  have c: "c_div dx h = (if 0 \<le> dx then q else - q)" using k by (simp add: c_div_pos c_div_neg q_def)
  have jh: "j * h = i * h + (if 0 \<le> dx then \<bar>dx\<bar> - r + (if 0 < s then h else 0) else r - \<bar>dx\<bar> - (if 0 < s then h else 0))"
    using r(3) by (simp add: j_def algebra_simps)
  have j: "0 \<le> j * h - (k + 1) * dx" "j * h - (k + 1) * dx < h"
    unfolding jh using i r by (auto simp: s_def p_def algebra_simps)
  have p': "(if 0 \<le> dx then (k + 1) * dx - j * h else j * h - (k + 1) * dx + 1 - h) = s - (if 0 < s then h else 0)"
    unfolding jh using r by (auto simp: s_def p_def algebra_simps)
  let ?e = "snd (pge_Next e)"
  have n: "\<not> sint (max_y e) \<le> sint (current_y e)" using e k by simp
  have f: "edge_height ?e = word_of_int h" "sint (max_y ?e) = y1 + h" "sint (current_y ?e) = y1 + (k + 1)"
    "x_direction ?e = (if 0 \<le> dx then 1 else - 1)" "current_x_offset ?e = word_of_int (c_div dx h)"
    "error_offset ?e = word_of_int (\<bar>dx\<bar> mod h)"
    using e(1-6) y' n by (simp_all add: pge_Next_def Let_def)
  have g: "edge_error ?e = word_of_int (s - (if 0 < s then h else 0))"
    using n e(1) s by (simp add: pge_Next_def Let_def es)
  have x: "current_x ?e = word_of_int (x1 + j)"
    using n e(4,5,7) s by (simp add: pge_Next_def Let_def es c j_def)
  have "edge_inv x1 y1 dx h (k + 1) ?e"
    unfolding edge_inv_def using f by (intro conjI exI [of _ j] x j g [folded p'])
  moreover have "fst (pge_Next e) = 1" using n by (simp add: pge_Next_def Let_def)
  ultimately show ?thesis by (metis prod.collapse)
qed

lemma edge_init:
  assumes h: "sint y1 < sint y2" "sint y2 - sint y1 < 32768" and d: "\<bar>sint x2 - sint x1\<bar> < 32768"
  shows "\<exists>e. pge_Init x1 y1 x2 y2 e0 = Some e \<and>
    edge_inv (sint x1) (sint y1) (sint x2 - sint x1) (sint y2 - sint y1) 0 e"
proof -
  let ?dx = "sint x2 - sint x1" and ?h = "sint y2 - sint y1"
  have d': "sint (x2 - x1) = ?dx" "sint (y2 - y1) = ?h" using h d by (simp_all add: sint_sub_u16)
  have w: "x2 - x1 = word_of_int ?dx" "y2 - y1 = word_of_int ?h" by simp_all
  have h0: "y2 - y1 \<noteq> 0" using d'(2) h(1) by auto
  have "sint (if 0 \<le> ?dx then x2 - x1 else - (x2 - x1)) = \<bar>?dx\<bar>"
    using d d'(1) sint_of_int_16 [of "- ?dx"] by (auto simp: abs_less_iff)
  then have "c_mod (sint (if 0 \<le> ?dx then x2 - x1 else - (x2 - x1))) ?h = \<bar>?dx\<bar> mod ?h"
    using h by (simp add: c_mod_def c_div_pos minus_mult_div_eq_mod)
  then show ?thesis
    using h h0 d' by (auto simp: pge_Init_def Let_def edge_inv_def intro!: exI [of _ 0])
qed

lemma edge_steps:
  assumes "edge_inv x1 y1 dx h 0 e" and "h < 32768" and "- 32768 \<le> y1" and "y1 + h < 32768" and "int k \<le> h"
  shows "edge_inv x1 y1 dx h (int k) (((\<lambda>e. snd (pge_Next e)) ^^ k) e)"
  using assms(5)
proof (induction k)
  case 0
  then show ?case using assms(1) by simp
next
  case (Suc k)
  then have "edge_inv x1 y1 dx h (int k) (((\<lambda>e. snd (pge_Next e)) ^^ k) e)" "0 \<le> int k" "int k < h" by simp_all
  from edge_step [OF this assms(2-4)] show ?case by (auto simp: algebra_simps)
qed

lemma edge_column:
  assumes i: "0 \<le> i * h - k * dx" "i * h - k * dx < h" and k: "0 \<le> k" "k \<le> h" and h: "(0 :: int) < h"
  shows "min 0 dx \<le> i" and "i \<le> max 0 dx" and "k = h \<Longrightarrow> i = dx"
proof -
  have lt: "i < c + 1" if "i * h < h + c * h" for c
  proof -
    have "i * h < (c + 1) * h" using that by (simp only: distrib_right mult_1 add.commute)
    then show ?thesis using h by (simp only: mult_less_cancel_right_pos)
  qed
  have ge: "c \<le> i" if "c * h \<le> i * h" for c using that h by simp
  have kd: "k * dx \<le> max 0 dx * h" "min 0 dx * h \<le> k * dx"
    using mult_left_mono [OF max.cobounded2 [of dx 0] k(1)] mult_right_mono [OF k(2) max.cobounded1 [of 0 dx]]
      mult_left_mono [OF min.cobounded2 [of 0 dx] k(1)] mult_right_mono_neg [OF k(2) min.cobounded1 [of 0 dx]]
    by (simp_all only: mult.commute)
  show "min 0 dx \<le> i" using kd(2) i(1) by (intro ge) linarith
  show "i \<le> max 0 dx" using kd(1) i(2) lt [of "max 0 dx"] by linarith
  show "i = dx" if "k = h" using i that lt [of dx] ge [of dx] by (simp add: algebra_simps)
qed

text \<open>C26: an edge follows its ideal line: the \<open>k\<close>-th step of the edge of a polygon from \<open>(x1, y1)\<close> to \<open>(x2, y2)\<close>
  is in row \<open>y1 + k\<close> and in the first column that is not left of the line, whether the edge leans to the left
  or to the right; the last step is the point \<open>(x2, y2)\<close> itself, and only there the edge reports its end.\<close>

theorem polygon_edge_exact:
  assumes "sint y1 < sint y2" and "sint y2 - sint y1 < 32768" and "\<bar>sint x2 - sint x1\<bar> < 32768"
  shows "\<exists>e. pge_Init x1 y1 x2 y2 e0 = Some e \<and>
    (\<forall>k. int k \<le> sint y2 - sint y1 \<longrightarrow>
       (let e' = ((\<lambda>e. snd (pge_Next e)) ^^ k) e
        in sint (current_y e') = sint y1 + int k \<and>
           (let d = (sint (current_x e') - sint x1) * (sint y2 - sint y1) - int k * (sint x2 - sint x1)
            in 0 \<le> d \<and> d < sint y2 - sint y1) \<and>
           (fst (pge_Next e') = 0 \<longleftrightarrow> current_y e' = y2 \<and> current_x e' = x2)))"
proof -
  let ?dx = "sint x2 - sint x1" and ?h = "sint y2 - sint y1"
  have b: "- 32768 \<le> sint y1" "sint y1 + ?h < 32768" using sint_u16 [of y1] sint_u16 [of y2] by simp_all
  obtain e where e: "pge_Init x1 y1 x2 y2 e0 = Some e" "edge_inv (sint x1) (sint y1) ?dx ?h 0 e"
    using edge_init [OF assms] by blast
  have "let e' = ((\<lambda>e. snd (pge_Next e)) ^^ k) e
        in sint (current_y e') = sint y1 + int k \<and>
           (let d = (sint (current_x e') - sint x1) * ?h - int k * ?dx in 0 \<le> d \<and> d < ?h) \<and>
           (fst (pge_Next e') = 0 \<longleftrightarrow> current_y e' = y2 \<and> current_x e' = x2)" if k: "int k \<le> ?h" for k
  proof -
    let ?e = "((\<lambda>e. snd (pge_Next e)) ^^ k) e"
    from edge_steps [OF e(2) assms(2) b k] obtain i where
      i: "sint (max_y ?e) = sint y1 + ?h" "sint (current_y ?e) = sint y1 + int k" "current_x ?e = word_of_int (sint x1 + i)"
        "0 \<le> i * ?h - int k * ?dx" "i * ?h - int k * ?dx < ?h"
      unfolding edge_inv_def by blast
    note c = edge_column [OF i(4,5) _ k, simplified]
    have r: "- 32768 \<le> sint x1 + i" "sint x1 + i < 32768"
      using c(1,2) assms(1) sint_u16 [of x1] sint_u16 [of x2] by (auto simp: min_def max_def split: if_splits)
    have x: "sint (current_x ?e) = sint x1 + i" unfolding i(3) using r by (rule sint_of_int_16)
    have "fst (pge_Next ?e) = 0 \<longleftrightarrow> int k = ?h" using i(1,2) k by (auto simp: pge_Next_def Let_def)
    moreover have "current_y ?e = y2 \<longleftrightarrow> int k = ?h" using i(2) by (auto simp: sint_eq_iff)
    moreover have "current_x ?e = x2" if "int k = ?h" using x c(3) [OF _ that] assms(1) by (simp add: sint_eq_iff)
    ultimately show ?thesis using i(2,4,5) x by (auto simp: Let_def)
  qed
  with e(1) show ?thesis by blast
qed

theorem polygon_edge_exact_witness:
  "\<exists>e. pge_Init 10 2 4 12 pg_edge_zero = Some e \<and>
    sint (current_x (((\<lambda>e. snd (pge_Next e)) ^^ 7) e)) = 6"
proof -
  obtain e where e: "pge_Init 10 2 4 12 pg_edge_zero = Some e" and
    s: "0 \<le> (sint (current_x (((\<lambda>e. snd (pge_Next e)) ^^ 7) e)) - 10) * 10 + 42"
    "(sint (current_x (((\<lambda>e. snd (pge_Next e)) ^^ 7) e)) - 10) * 10 + 42 < 10"
    using polygon_edge_exact [of 2 12 4 10 pg_edge_zero] by (auto simp: Let_def dest!: spec [of _ "7 :: nat"])
  from s have "sint (current_x (((\<lambda>e. snd (pge_Next e)) ^^ 7) e)) = 6" by simp
  with e show ?thesis by blast
qed

section \<open>The left border\<close>

text \<open>The line between the edges, when the edge that the code calls the right one has left the display
  to the left: the code clips the wrong end.\<close>

lemma ucast_minus_8: "ucast (- x :: u16) = (- ucast x :: u8)"
proof -
  have "take_bit 8 (- take_bit 16 x) = take_bit 8 (- x)" for x :: int
  proof -
    have "take_bit 8 (- take_bit 16 x) = take_bit 8 (take_bit 16 (- take_bit 16 x))" by (simp del: take_bit_minus)
    also have "\<dots> = take_bit 8 (- x)" by (simp add: take_bit_minus)
    finally show ?thesis .
  qed
  then show ?thesis by transfer simp
qed

lemma uint_minus_u8: "x \<noteq> 0 \<Longrightarrow> uint x + uint (- x) = 256" for x :: u8
  using uint_u8 [of x] by (simp add: uint_word_ariths zmod_zminus1_eq_if word_uint_eq_iff)

lemma hline_left_border:
  assumes "0 \<le> sint (current_y (pge_right pg))" and "sint (current_y (pge_right pg)) < uint (height u)"
    and "sint (current_x (pge_right pg)) < 0" and "0 \<le> sint (current_x (pge_left pg))" and "width u \<noteq> 0"
  shows "pg_hline pg u = u8g2_DrawHLine u (ucast (current_x (pge_right pg))) (ucast (current_y (pge_right pg)))
    (- ucast (current_x (pge_right pg)))"
proof -
  have "0 < uint (width u)" using assms(5) by (simp add: word_neq_0_conv word_less_def)
  then show ?thesis using assms(1-4) by (simp add: pg_hline_def Let_def not_le ucast_minus_8)
qed

text \<open>If that edge has left the display just as far as the last column lies from the end of the byte
  range, a line of a polygon in the last row of tiles writes behind the buffer. The witness is a triangle
  that does it.\<close>

theorem polygon_line_overrun:
  assumes "view_ok u" and "cb u = U8G2_R0" and "ll_hvline u = LL_Vertical_Top_Lsb"
    and "sint (current_x (pge_right pg)) < 0" and "0 \<le> sint (current_x (pge_left pg))"
    and "ucast (current_x (pge_right pg)) = user_x1 u - 1" and "user_x0 u < user_x1 u - 1"
    and "0 \<le> sint (current_y (pge_right pg))" and "sint (current_y (pge_right pg)) < uint (height u)" and "width u \<noteq> 0"
    and "ucast (current_y (pge_right pg)) = y" and "user_y0 u \<le> y" and "y < user_y1 u"
    and "canvas_h u \<le> unat (y - pixel_curr_row u) div 8 * 8 + 8"
  shows "pg_hline pg u = None"
proof -
  let ?x = "user_x1 u - 1"
  have "?x \<noteq> 0" using assms(7) by auto
  then have "256 \<le> uint ?x + uint (- ?x)" by (simp only: uint_minus_u8 [OF \<open>?x \<noteq> 0\<close>])
  from DrawHLine_overrun_full [OF assms(1-3) refl assms(7) this assms(12-14)]
  show ?thesis unfolding hline_left_border [OF assms(8,9,4,5,10)] assms(6,11) .
qed

definition overrun_triangle :: pg_struct where
  "overrun_triangle = u8g2_AddPolygonXY 600 62 (u8g2_AddPolygonXY (- 129) 64
     (u8g2_AddPolygonXY (- 129) 59 (u8g2_ClearPolygonXY u8g2_pg)))"

declare expand_loop.simps [code]

lemma overrun_first_line:
  "case pg_prepare overrun_triangle of None \<Rightarrow> False | Some (r, pg) \<Rightarrow> r \<noteq> 0 \<and>
     (case pg_line_init PG_LEFT pg of None \<Rightarrow> False | Some pg \<Rightarrow>
       (case pg_line_init PG_RIGHT pg of None \<Rightarrow> False | Some pg \<Rightarrow> is_min_y_not_flat pg \<noteq> 0 \<and>
         (let pg = skip_line PG_RIGHT (skip_line PG_LEFT pg)
          in current_x (pge_right pg) = - 129 \<and> current_y (pge_right pg) = 60 \<and> current_x (pge_left pg) = 114)))"
  by code_simp

theorem polygon_line_overrun_witness:
  "u8g2_DrawTriangle (- 129) 59 (- 129) 64 600 62 (u8g2_pg, u8g2_Setup_sh1106_i2c_128x64_winstar_f U8G2_R0 u8g2_zero) = None"
proof -
  let ?u = "u8g2_Setup_sh1106_i2c_128x64_winstar_f U8G2_R0 u8g2_zero"
  obtain r pg l pg' where p: "pg_prepare overrun_triangle = Some (r, pg)" "r \<noteq> 0" "pg_line_init PG_LEFT pg = Some l"
    "pg_line_init PG_RIGHT l = Some pg'" "is_min_y_not_flat pg' \<noteq> 0"
    and e: "current_x (pge_right (skip_line PG_RIGHT (skip_line PG_LEFT pg'))) = - 129"
      "current_y (pge_right (skip_line PG_RIGHT (skip_line PG_LEFT pg'))) = 60"
      "current_x (pge_left (skip_line PG_RIGHT (skip_line PG_LEFT pg'))) = 114"
    using overrun_first_line by (auto simp: Let_def split: option.splits prod.splits)
  have "sint (- 129 :: u16) < 0" "0 \<le> sint (114 :: u16)" "ucast (- 129 :: u16) = user_x1 ?u - 1" "user_x0 ?u < user_x1 ?u - 1"
    "0 \<le> sint (60 :: u16)" "sint (60 :: u16) < uint (height ?u)" "width ?u \<noteq> 0" "user_y0 ?u \<le> 60" "60 < user_y1 ?u"
    "canvas_h ?u \<le> unat (60 - pixel_curr_row ?u) div 8 * 8 + 8" "cb ?u = U8G2_R0" "ll_hvline ?u = LL_Vertical_Top_Lsb"
    "ucast (60 :: u16) = (60 :: u8)"
    by code_simp+
  then have "pg_hline (skip_line PG_RIGHT (skip_line PG_LEFT pg')) ?u = None"
    by (intro polygon_line_overrun [OF firmware_view(1), where y = 60]) (simp_all only: e simp_thms)
  then have "scan_lines i (skip_line PG_RIGHT (skip_line PG_LEFT pg'), ?u) = None" for i
    by (subst scan_lines.simps) simp
  then have "u8g2_DrawPolygon (overrun_triangle, ?u) = None"
    using p by (simp add: u8g2_DrawPolygon_def pg_exec_def Let_def)
  then show ?thesis by (simp add: u8g2_DrawTriangle_def Let_def overrun_triangle_def)
qed

end
