(* ===== verification/U8g2_Triangle.thy ===== *)
theory U8g2_Triangle
  imports U8g2_Polygon
begin

text \<open>
  What \<open>u8g2_DrawTriangle\<close> (libs/u8g2/csrc/u8g2_polygon.c) draws: the integer points between the ideal
  edges, in every row from the highest corner to the one above the lowest. The two sides of the
  triangle are chains of edges that the scan follows row by row; the loops that look for the next edge
  end, and no row leaves the defined part of C.
\<close>

section \<open>Edges and the area between them\<close>

type_synonym pg_edge = "(int \<times> int) \<times> (int \<times> int)"

definition crosses :: "pg_edge \<Rightarrow> int \<Rightarrow> bool" where
  "crosses e y = (snd (fst e) \<le> y \<and> y < snd (snd e))"

text \<open>The point is on the edge or to the right of it.\<close>

definition right_of :: "pg_edge \<Rightarrow> int \<times> int \<Rightarrow> bool" where
  "right_of e p = ((snd p - snd (fst e)) * (fst (snd e) - fst (fst e)) \<le>
     (fst p - fst (fst e)) * (snd (snd e) - snd (fst e)))"

definition fill_area :: "pg_edge set \<Rightarrow> (int \<times> int) set" where
  "fill_area E = {p. \<exists>e \<in> E. \<exists>f \<in> E. crosses e (snd p) \<and> crosses f (snd p) \<and> right_of e p \<and> \<not> right_of f p}"

text \<open>The edges between some corners, from the higher to the lower one; level edges do not count.\<close>

definition slopes :: "(int \<times> int) set \<Rightarrow> pg_edge set" where
  "slopes V = {(a, b). a \<in> V \<and> b \<in> V \<and> snd a < snd b}"

section \<open>Chains\<close>

text \<open>A chain is a list of indices, followed by the index function, whose points go down.\<close>

fun chain :: "(u8 \<Rightarrow> int \<times> int) \<Rightarrow> (u8 \<Rightarrow> u8) \<Rightarrow> u8 list \<Rightarrow> bool" where
  "chain V nx (i # j # js) =
     (nx i = j \<and> snd (V i) < snd (V j) \<and> snd (V j) - snd (V i) < 32768 \<and> \<bar>fst (V j) - fst (V i)\<bar> < 32768 \<and>
      0 \<le> fst (V i) \<and> 0 \<le> fst (V j) \<and> chain V nx (j # js))"
| "chain V nx _ = True"

fun chain_edges :: "(u8 \<Rightarrow> int \<times> int) \<Rightarrow> u8 list \<Rightarrow> pg_edge set" where
  "chain_edges V (i # j # js) = insert (V i, V j) (chain_edges V (j # js))"
| "chain_edges V _ = {}"

lemma chain_edges_below:
  "chain V nx (i # js) \<Longrightarrow> e \<in> chain_edges V (i # js) \<Longrightarrow> snd (V i) \<le> snd (fst e) \<and> snd (snd e) \<le> snd (V (last (i # js)))"
proof (induction js arbitrary: i)
  case (Cons j js)
  have "snd (V j) \<le> snd (V (last (j # js)))"
    using Cons.prems(1)
  proof (induction js arbitrary: i j)
    case (Cons k js)
    from Cons.IH [of j k] Cons.prems show ?case by simp
  qed simp
  with Cons.prems Cons.IH [of j] show ?case by (auto split: if_splits)
qed simp

lemma chain_crossing_unique:
  "chain V nx js \<Longrightarrow> e \<in> chain_edges V js \<Longrightarrow> f \<in> chain_edges V js \<Longrightarrow> crosses e y \<Longrightarrow> crosses f y \<Longrightarrow> e = f"
proof (induction V js rule: chain_edges.induct)
  case (1 V i j js)
  have below: "snd (V j) \<le> snd (fst g)" if "g \<in> chain_edges V (j # js)" for g
    using chain_edges_below [of V nx j js g] 1 that by auto
  have apart: False if "g \<in> chain_edges V (j # js)" "crosses g y" "crosses (V i, V j) y" for g
    using below [OF that(1)] that(2,3) by (auto simp: crosses_def)
  have "e = (V i, V j) \<or> e \<in> chain_edges V (j # js)" "f = (V i, V j) \<or> f \<in> chain_edges V (j # js)"
    "chain V nx (j # js)" using 1 by auto
  then show ?case using apart 1 by blast
qed auto

text \<open>A side of the scan in row \<open>y\<close>: the edge is on its way from the first point of the chain to the
  second one, and knows where it goes.\<close>

definition on_chain :: "(u8 \<Rightarrow> int \<times> int) \<Rightarrow> u8 list \<Rightarrow> int \<Rightarrow> pg_edge_struct \<Rightarrow> bool" where
  "on_chain V js y e =
     (case js of
        i # j # _ \<Rightarrow> curr_idx e = j \<and> snd (V i) \<le> y \<and> y \<le> snd (V j) \<and>
          edge_inv (fst (V i)) (snd (V i)) (fst (V j) - fst (V i)) (snd (V j) - snd (V i)) (y - snd (V i)) e
      | _ \<Rightarrow> False)"

text \<open>The column of a side tells on which side of the crossing edge a point is.\<close>

lemma on_chain_column:
  assumes "chain V nx js" and "on_chain V js y e" and "y < snd (V (last js))" and "\<forall>i. fst (V i) < 32768"
  shows "\<exists>f \<in> chain_edges V js. crosses f y \<and> (\<forall>x. right_of f (x, y) \<longleftrightarrow> sint (current_x e) \<le> x)"
    and "0 \<le> sint (current_x e)"
proof -
  obtain i j rest where js: "js = i # j # rest" using assms(2) by (cases js rule: remdups_adj.cases) (auto simp: on_chain_def)
  let ?dx = "fst (V j) - fst (V i)" and ?h = "snd (V j) - snd (V i)" and ?k = "y - snd (V i)"
  have c: "snd (V i) < snd (V j)" "0 \<le> fst (V i)" "0 \<le> fst (V j)" using assms(1) by (simp_all add: js)
  have y: "snd (V i) \<le> y" "y \<le> snd (V j)" and inv: "edge_inv (fst (V i)) (snd (V i)) ?dx ?h ?k e"
    using assms(2) by (simp_all add: js on_chain_def)
  from inv obtain d where d: "current_x e = word_of_int (fst (V i) + d)" "0 \<le> d * ?h - ?k * ?dx" "d * ?h - ?k * ?dx < ?h"
    unfolding edge_inv_def by blast
  have k: "0 \<le> ?k" "?k \<le> ?h" "0 < ?h" using y c by simp_all
  note col = edge_column [OF d(2,3) k]
  have r: "0 \<le> fst (V i) + d" "fst (V i) + d < 32768"
    using col(1,2) c assms(4) [THEN spec, of i] assms(4) [THEN spec, of j] by (auto simp: min_def max_def split: if_splits)
  then have x: "sint (current_x e) = fst (V i) + d" unfolding d(1) by (intro sint_of_int_16) simp_all
  with r show "0 \<le> sint (current_x e)" by simp
  show "\<exists>f \<in> chain_edges V js. crosses f y \<and> (\<forall>x. right_of f (x, y) \<longleftrightarrow> sint (current_x e) \<le> x)"
  proof (cases "y < snd (V j)")
    case True
    have "right_of (V i, V j) (x, y) \<longleftrightarrow> fst (V i) + d \<le> x" for x
    proof -
      have "?k * ?dx \<le> z * ?h \<longleftrightarrow> d \<le> z" for z
      proof
        assume "?k * ?dx \<le> z * ?h"
        then have "d * ?h < (z + 1) * ?h" using d(3) by (simp add: distrib_right)
        then show "d \<le> z" using k(3) by (simp only: mult_less_cancel_right_pos)
      next
        assume "d \<le> z"
        then have "d * ?h \<le> z * ?h" using k(3) by (intro mult_right_mono) simp_all
        with d(2) show "?k * ?dx \<le> z * ?h" by linarith
      qed
      from this [of "x - fst (V i)"] show ?thesis by (auto simp: right_of_def)
    qed
    with True y x show ?thesis by (auto simp: js crosses_def)
  next
    case False
    then have e: "y = snd (V j)" using y by simp
    with assms(3) obtain l rest' where rest: "rest = l # rest'" by (cases rest) (auto simp: js)
    have l: "snd (V j) < snd (V l)" using assms(1) by (simp add: js rest)
    have "d = ?dx" using col(3) e by simp
    then have "right_of (V j, V l) (x, y) \<longleftrightarrow> fst (V i) + d \<le> x" for x
      using l by (auto simp: right_of_def e mult_le_0_iff zero_le_mult_iff)
    with e l x show ?thesis by (auto simp: js rest crosses_def)
  qed
qed

section \<open>Going down a chain\<close>

definition corner :: "pg_struct \<Rightarrow> u8 \<Rightarrow> int \<times> int" where
  "corner pg i = (sint (pt_x (pg_list pg ! unat i)), sint (pt_y (pg_list pg ! unat i)))"

abbreviation (input) "corners_in pg js \<equiv> \<forall>i \<in> set js. unat i < length (pg_list pg)"

lemma set_pge_simps [simp]:
  "pge t (set_pge s e pg) = (if t = s then e else pge t pg)" "pg_list (set_pge s e pg) = pg_list pg"
  "pg_cnt (set_pge s e pg) = pg_cnt pg" "corner (set_pge s e pg) = corner pg"
  "set_pge s (pge s pg) pg = pg" "set_pge s e (set_pge s f pg) = set_pge s e pg"
  by (cases s; cases t; simp add: set_pge_def pge_def corner_def fun_eq_iff)+

lemma next_idx_set_pge [simp]: "next_idx e (set_pge s f pg) = next_idx e pg"
  by (simp add: next_idx_def fun_eq_iff pg_inc_def pg_dec_def Let_def split: pg_next_fn.split)

lemma next_idx_fn_eq: "next_idx_fn e = next_idx_fn f \<Longrightarrow> next_idx e = next_idx f"
  by (simp add: next_idx_def fun_eq_iff)

lemma pge_Next_keeps: "curr_idx (snd (pge_Next e)) = curr_idx e" "next_idx_fn (snd (pge_Next e)) = next_idx_fn e"
  by (simp_all add: pge_Next_def Let_def)

lemma pge_Init_keeps: "pge_Init x1 y1 x2 y2 e = Some f \<Longrightarrow> curr_idx f = curr_idx e \<and> next_idx_fn f = next_idx_fn e"
  by (auto simp: pge_Init_def Let_def split: if_splits)

lemma line_init_on_chain:
  assumes "chain (corner pg) (next_idx (pge s pg) pg) (j # k # js)" and "corners_in pg [j, k]" and "curr_idx (pge s pg) = j"
  shows "\<exists>e. pg_line_init s pg = Some (set_pge s e pg) \<and> on_chain (corner pg) (j # k # js) (snd (corner pg j)) e \<and>
    next_idx_fn e = next_idx_fn (pge s pg)"
proof -
  let ?p = "pg_list pg ! unat j" and ?q = "pg_list pg ! unat k" and ?e = "(pge s pg)\<lparr>curr_idx := k\<rparr>"
  have c: "next_idx (pge s pg) pg j = k" "sint (pt_y ?p) < sint (pt_y ?q)" "sint (pt_y ?q) - sint (pt_y ?p) < 32768"
    "\<bar>sint (pt_x ?q) - sint (pt_x ?p)\<bar> < 32768" using assms(1) by (simp_all add: corner_def)
  from edge_init [OF c(2-4), of ?e] obtain e where e: "pge_Init (pt_x ?p) (pt_y ?p) (pt_x ?q) (pt_y ?q) ?e = Some e"
    "edge_inv (sint (pt_x ?p)) (sint (pt_y ?p)) (sint (pt_x ?q) - sint (pt_x ?p)) (sint (pt_y ?q) - sint (pt_y ?p)) 0 e"
    by blast
  have "pg_line_init s pg = Some (set_pge s e pg)"
    using assms(2,3) c(1) e(1) by (simp add: pg_line_init_def pg_point_def)
  moreover have "on_chain (corner pg) (j # k # js) (snd (corner pg j)) e"
    using pge_Init_keeps [OF e(1)] e(2) c(2) by (simp add: on_chain_def corner_def)
  ultimately show ?thesis using pge_Init_keeps [OF e(1)] by auto
qed

lemma next_edge_step:
  assumes "pge_Next (pge s pg) = (1, e)"
  shows "next_edge s pg = Some (set_pge s e pg)"
  using assms by (subst next_edge.simps) simp

lemma on_chain_step:
  assumes c: "chain V nx (i # j # js)" and e: "on_chain V (i # j # js) y e" and y: "y < snd (V j)"
    and b: "- 32768 \<le> snd (V i)" "snd (V j) < 32768"
  shows "\<exists>f. pge_Next e = (1, f) \<and> on_chain V (i # j # js) (y + 1) f \<and> next_idx_fn f = next_idx_fn e"
proof -
  have inv: "edge_inv (fst (V i)) (snd (V i)) (fst (V j) - fst (V i)) (snd (V j) - snd (V i)) (y - snd (V i)) e"
    and i: "curr_idx e = j" "snd (V i) \<le> y" using e by (simp_all add: on_chain_def)
  from edge_step [OF inv] obtain f where f: "pge_Next e = (1, f)"
    "edge_inv (fst (V i)) (snd (V i)) (fst (V j) - fst (V i)) (snd (V j) - snd (V i)) (y - snd (V i) + 1) f"
    using c b y i(2) by auto
  have "y - snd (V i) + 1 = y + 1 - snd (V i)" by simp
  with f y i pge_Next_keeps [of e] show ?thesis by (auto simp: on_chain_def)
qed

lemma corner_bounds: "- 32768 \<le> snd (corner pg i)" "snd (corner pg i) < 32768" "fst (corner pg i) < 32768"
  using sint_u16 by (simp_all add: corner_def)

text \<open>Going on to the next row, with the next edge of the chain where the current one ends.\<close>

lemma next_edge_on_chain:
  assumes c: "chain (corner pg) (next_idx (pge s pg) pg) js" and js: "corners_in pg js"
    and e: "on_chain (corner pg) js y (pge s pg)" and y: "y < snd (corner pg (last js))"
  shows "\<exists>js' e. next_edge s pg = Some (set_pge s e pg) \<and> on_chain (corner pg) js' (y + 1) e \<and>
    next_idx_fn e = next_idx_fn (pge s pg) \<and> chain (corner pg) (next_idx (pge s pg) pg) js' \<and>
    chain_edges (corner pg) js' \<subseteq> chain_edges (corner pg) js \<and> last js' = last js \<and> set js' \<subseteq> set js"
proof -
  obtain i j rest where ij: "js = i # j # rest" using e by (cases js rule: remdups_adj.cases) (auto simp: on_chain_def)
  show ?thesis
  proof (cases "y < snd (corner pg j)")
    case True
    from on_chain_step [OF c [unfolded ij] e [unfolded ij] True corner_bounds(1,2)] next_edge_step [of s pg]
    show ?thesis using c unfolding ij by (intro exI [of _ "i # j # rest"]) auto
  next
    case False
    then have yj: "y = snd (corner pg j)" using e by (simp add: ij on_chain_def)
    with y obtain k r where k: "rest = k # r" by (cases rest) (auto simp: ij)
    let ?e = "pge s pg"
    have cj: "chain (corner pg) (next_idx ?e pg) (j # k # r)" and jk: "corners_in pg [j, k]"
      using c js by (auto simp: ij k)
    have idx: "curr_idx ?e = j" using e by (simp add: ij on_chain_def)
    from line_init_on_chain [OF cj jk idx] obtain f where f: "pg_line_init s pg = Some (set_pge s f pg)"
      "on_chain (corner pg) (j # k # r) (snd (corner pg j)) f" "next_idx_fn f = next_idx_fn ?e" by blast
    have "snd (corner pg j) < snd (corner pg k)" using cj by simp
    from on_chain_step [OF cj f(2) this corner_bounds(1,2)] obtain g where
      g: "pge_Next f = (1, g)" "on_chain (corner pg) (j # k # r) (y + 1) g" "next_idx_fn g = next_idx_fn f"
      unfolding yj by blast
    have "sint (max_y ?e) = y" "sint (current_y ?e) = y"
      using e yj by (simp_all add: ij on_chain_def edge_inv_def)
    then have "pge_Next ?e = (0, ?e)" by (simp add: pge_Next_def)
    then have "next_edge s pg = next_edge s (set_pge s f pg)"
      by (subst next_edge.simps) (simp add: f(1))
    also have "\<dots> = Some (set_pge s g pg)" using next_edge_step [of s "set_pge s f pg" g] g(1) by simp
    finally show ?thesis using g(2,3) f(3) cj
      unfolding ij k by (intro exI [of _ "j # k # r"] exI [of _ g]) auto
  qed
qed

section \<open>Scanning\<close>

text \<open>The line in a row is the part of the row between the two columns that lies on the display.\<close>

definition row_between :: "u8g2 \<Rightarrow> int \<Rightarrow> int \<Rightarrow> int \<Rightarrow> (int \<times> int) set" where
  "row_between u y c d = {min c d..<max c d} \<times> {y} \<inter> {..<uint (width u)} \<times> {0..<uint (height u)}"

lemma uint_of_int_16: "0 \<le> i \<Longrightarrow> i < 32768 \<Longrightarrow> uint (word_of_int i :: u16) = i"
  by (simp add: unsigned_of_int take_bit_int_eq_self)

lemma uint_sint_16: "0 \<le> sint x \<Longrightarrow> uint x = sint x" for x :: u16
proof -
  assume x: "0 \<le> sint x"
  have "x = word_of_int (sint x)" unfolding sint_eq_iff using sint_u16 [of x] by (intro sint_of_int_16 [symmetric]) simp_all
  then show ?thesis using uint_of_int_16 [OF x] sint_u16(2) [of x] by metis
qed

lemma uint_ucast_8: "0 \<le> sint x \<Longrightarrow> sint x < 256 \<Longrightarrow> uint (ucast x :: u8) = sint x" for x :: u16
  by (simp add: unsigned_ucast_eq uint_sint_16 take_bit_int_eq_self)

lemma sint_ucast_16: "sint (ucast (x :: u8) :: u16) = uint x"
proof -
  have "(ucast x :: u16) = word_of_int (uint x)" by simp
  moreover have "- 32768 \<le> uint x" "uint x < 32768" using uint_u8 [of x] by linarith+
  ultimately show ?thesis using sint_of_int_16 [of "uint x"] by metis
qed

lemma DrawHLine_between:
  assumes "view_ok u" and "0 \<le> a" and "a \<le> b" and "b \<le> uint (width u)" and "0 \<le> y" and "y < uint (height u)"
    and "uint p = a" and "uint q = y" and "uint n = b - a"
  shows "\<exists>v. u8g2_DrawHLine u p q n = Some v \<and> draws u ({a..<b} \<times> {y}) v"
proof (cases "n = 0")
  case True
  then have "{a..<b} \<times> {y} = {}" using assms(9) by simp
  then show ?thesis using True draws_empty [OF assms(1)]
    by (simp add: u8g2_DrawHLine_def u8g2_DrawHVLine_def)
next
  case False
  have lt: "uint p + uint n < 256" using assms(4,7,9) uint_u8(2) [of "width u"] by linarith
  then have "hv_clear u p q n 0" by (simp add: hv_clear_def hv_x_def range_clear_def)
  from DrawHVLine_draws [OF assms(1) False this] obtain v where
    "u8g2_DrawHVLine u p q n 0 = Some v" "draws u (hv_line p q n 0) v" by blast
  moreover have "hv_line p q n 0 = {a..<b} \<times> {y}"
    using lt assms(7-9) by (auto simp: hv_line_def hv_x_def hv_y_def range_start_def iseg_mem)
  ultimately show ?thesis by (simp add: u8g2_DrawHLine_def)
qed

lemma hline_part:
  fixes a b y :: u16
  assumes "view_ok u" and "0 \<le> sint a" and "sint a < uint (width u)" and "sint a \<le> sint b"
    and "0 \<le> sint y" and "sint y < uint (height u)"
  shows "\<exists>v. u8g2_DrawHLine u (ucast a) (ucast y) (ucast ((if sint b \<ge> uint (width u) then ucast (width u) else b) - a)) = Some v \<and>
    draws u (row_between u (sint y) (sint a) (sint b)) v"
proof -
  define c where "c = (if sint b \<ge> uint (width u) then ucast (width u) else b)"
  have c: "sint c = min (sint b) (uint (width u))" by (simp add: c_def sint_ucast_16)
  have w: "uint (width u) < 256" "uint (height u) < 256" using uint_u8 by simp_all
  have "sint (c - a) = sint c - sint a" using assms(2-4) w(1) c by (intro sint_sub_u16) (auto simp: min_def)
  then have n: "uint (ucast (c - a) :: u8) = sint c - sint a"
    using assms(2-4) w(1) c by (subst uint_ucast_8) (auto simp: min_def)
  have "row_between u (sint y) (sint a) (sint b) = {sint a..<sint c} \<times> {sint y}"
    using assms(4-6) c by (auto simp: row_between_def)
  moreover have "sint a \<le> sint c" "sint c \<le> uint (width u)" using assms(3,4) c by auto
  ultimately show ?thesis
    using DrawHLine_between [OF assms(1,2) _ _ assms(5,6) uint_ucast_8 uint_ucast_8 n] assms w
    unfolding c_def [symmetric] by auto
qed

lemma row_between_commute: "row_between u y c d = row_between u y d c"
  by (simp add: row_between_def min.commute max.commute)

lemma hline_between:
  assumes "view_ok u" and "0 \<le> sint (current_x (pge PG_LEFT pg))" and "0 \<le> sint (current_x (pge PG_RIGHT pg))"
  shows "\<exists>v. pg_hline pg u = Some v \<and>
    draws u (row_between u (sint (current_y (pge PG_RIGHT pg))) (sint (current_x (pge PG_LEFT pg))) (sint (current_x (pge PG_RIGHT pg)))) v"
proof -
  define a b y where "a = current_x (pge PG_LEFT pg)" and "b = current_x (pge PG_RIGHT pg)" and "y = current_y (pge PG_RIGHT pg)"
  have p: "current_x (pge_left pg) = a" "current_x (pge_right pg) = b" "current_y (pge_right pg) = y"
    by (simp_all add: a_def b_def y_def pge_def)
  have ab: "0 \<le> sint a" "0 \<le> sint b" using assms(2,3) by (simp_all add: a_def b_def)
  have skip: "\<exists>v. pg_hline pg u = Some v \<and> draws u (row_between u (sint y) (sint a) (sint b)) v"
    if "pg_hline pg u = Some u" "row_between u (sint y) (sint a) (sint b) = {}"
    using that draws_empty [OF assms(1)] by auto
  have "\<exists>v. pg_hline pg u = Some v \<and> draws u (row_between u (sint y) (sint a) (sint b)) v"
  proof (cases "0 \<le> sint y \<and> sint y < uint (height u)")
    case False
    then show ?thesis by (intro skip) (auto simp: pg_hline_def p row_between_def)
  next
    case y: True
    show ?thesis
    proof (cases "sint a < sint b")
      case True
      show ?thesis
      proof (cases "sint a < uint (width u)")
        case True
        with \<open>sint a < sint b\<close> hline_part [OF assms(1) ab(1) True _ y [THEN conjunct1] y [THEN conjunct2], of b]
        show ?thesis using y ab by (simp add: pg_hline_def p Let_def not_le not_less)
      qed (intro skip, use y ab \<open>sint a < sint b\<close> in \<open>auto simp: pg_hline_def p row_between_def Let_def\<close>)
    next
      case False
      show ?thesis
      proof (cases "sint b < uint (width u)")
        case True
        with False hline_part [OF assms(1) ab(2) True _ y [THEN conjunct1] y [THEN conjunct2], of a]
        show ?thesis using y ab by (simp add: pg_hline_def p Let_def not_le not_less row_between_commute [of u "sint y" "sint a"])
      qed (intro skip, use y ab False in \<open>auto simp: pg_hline_def p row_between_def Let_def\<close>)
    qed
  qed
  then show ?thesis by (simp add: a_def b_def y_def)
qed

text \<open>A side follows a chain in row \<open>y\<close> when it is on some rest of it.\<close>

definition follows :: "pg_struct \<Rightarrow> pg_side \<Rightarrow> u8 list \<Rightarrow> int \<Rightarrow> bool" where
  "follows pg s J y =
     (\<exists>js. chain (corner pg) (next_idx (pge s pg) pg) js \<and> corners_in pg js \<and> on_chain (corner pg) js y (pge s pg) \<and>
        last js = last J \<and> chain_edges (corner pg) js \<subseteq> chain_edges (corner pg) J)"

lemma follows_next:
  assumes "follows pg s J y" and "y < snd (corner pg (last J))"
  shows "\<exists>e. next_edge s pg = Some (set_pge s e pg) \<and> follows (set_pge s e pg) s J (y + 1)"
proof -
  obtain js where js: "chain (corner pg) (next_idx (pge s pg) pg) js" "corners_in pg js" "on_chain (corner pg) js y (pge s pg)"
    "last js = last J" "chain_edges (corner pg) js \<subseteq> chain_edges (corner pg) J"
    using assms(1) by (auto simp: follows_def)
  from next_edge_on_chain [OF js(1-3)] assms(2) js(4) obtain js' e where
    e: "next_edge s pg = Some (set_pge s e pg)" "on_chain (corner pg) js' (y + 1) e" "next_idx_fn e = next_idx_fn (pge s pg)"
    "chain (corner pg) (next_idx (pge s pg) pg) js'" "chain_edges (corner pg) js' \<subseteq> chain_edges (corner pg) js"
    "last js' = last js" "set js' \<subseteq> set js" by auto
  have "follows (set_pge s e pg) s J (y + 1)"
    unfolding follows_def using e(2,4-7) js(2,4,5) next_idx_fn_eq [OF e(3)] by (intro exI [of _ js']) auto
  with e(1) show ?thesis by blast
qed

lemma follows_other: "t \<noteq> s \<Longrightarrow> follows (set_pge s e pg) t J y = follows pg t J y"
  by (simp add: follows_def)

lemma follows_column:
  assumes "follows pg s J y" and "y < snd (corner pg (last J))"
  shows "\<exists>f \<in> chain_edges (corner pg) J. crosses f y \<and> (\<forall>x. right_of f (x, y) \<longleftrightarrow> sint (current_x (pge s pg)) \<le> x)"
    and "0 \<le> sint (current_x (pge s pg))" and "sint (current_y (pge s pg)) = y"
proof -
  obtain js where js: "chain (corner pg) (next_idx (pge s pg) pg) js" "on_chain (corner pg) js y (pge s pg)"
    "last js = last J" "chain_edges (corner pg) js \<subseteq> chain_edges (corner pg) J"
    using assms(1) by (auto simp: follows_def)
  have y: "y < snd (corner pg (last js))" using assms(2) js(3) by simp
  have "\<forall>i. fst (corner pg i) < 32768" using corner_bounds by blast
  note col = on_chain_column [OF js(1,2) y this]
  show "\<exists>f \<in> chain_edges (corner pg) J. crosses f y \<and> (\<forall>x. right_of f (x, y) \<longleftrightarrow> sint (current_x (pge s pg)) \<le> x)"
    using col(1) js(4) by blast
  show "0 \<le> sint (current_x (pge s pg))" by (rule col(2))
  show "sint (current_y (pge s pg)) = y"
    using js(2) by (auto simp: on_chain_def edge_inv_def split: list.splits)
qed

definition shown_area :: "u8g2 \<Rightarrow> pg_edge set \<Rightarrow> (int \<times> int) set" where
  "shown_area u E = fill_area E \<inter> {..<uint (width u)} \<times> {0..<uint (height u)}"

lemma row_of_area:
  assumes "chain V nl L" and "chain V nr R"
    and l: "l \<in> chain_edges V L" "crosses l y" "\<forall>x. right_of l (x, y) \<longleftrightarrow> c \<le> x"
    and r: "r \<in> chain_edges V R" "crosses r y" "\<forall>x. right_of r (x, y) \<longleftrightarrow> d \<le> x"
  shows "row_between u y c d = shown_area u (chain_edges V L \<union> chain_edges V R) \<inter> UNIV \<times> {y}"
proof -
  have two: "e \<in> chain_edges V L \<union> chain_edges V R \<and> crosses e y \<longleftrightarrow> e = l \<or> e = r" for e
    using chain_crossing_unique [OF assms(1) _ l(1) _ l(2)] chain_crossing_unique [OF assms(2) _ r(1) _ r(2)] l(1,2) r(1,2)
    by blast
  have either: "(\<exists>e f. (e = l \<or> e = r) \<and> (f = l \<or> f = r) \<and> P e \<and> \<not> P f) \<longleftrightarrow> P l \<and> \<not> P r \<or> P r \<and> \<not> P l"
    for P :: "pg_edge \<Rightarrow> bool" by blast
  have "(x, y) \<in> fill_area (chain_edges V L \<union> chain_edges V R) \<longleftrightarrow> min c d \<le> x \<and> x < max c d" for x
  proof -
    have "(x, y) \<in> fill_area (chain_edges V L \<union> chain_edges V R) \<longleftrightarrow>
        (\<exists>e f. (e \<in> chain_edges V L \<union> chain_edges V R \<and> crosses e y) \<and> (f \<in> chain_edges V L \<union> chain_edges V R \<and> crosses f y) \<and>
           right_of e (x, y) \<and> \<not> right_of f (x, y))"
      unfolding fill_area_def mem_Collect_eq snd_conv by blast
    also have "\<dots> \<longleftrightarrow> min c d \<le> x \<and> x < max c d"
      unfolding two either using l(3) r(3) by (auto simp: min_def max_def)
    finally show ?thesis .
  qed
  moreover define A where "A = fill_area (chain_edges V L \<union> chain_edges V R)"
  moreover define m M where "m = min c d" and "M = max c d"
  ultimately have "(x, y) \<in> A \<longleftrightarrow> m \<le> x \<and> x < M" for x by simp
  then have "p \<in> {m..<M} \<times> {y} \<longleftrightarrow> p \<in> A \<inter> UNIV \<times> {y}" for p by (cases p) (simp, blast)
  then have "{m..<M} \<times> {y} = A \<inter> UNIV \<times> {y}" by blast
  then show ?thesis unfolding row_between_def shown_area_def A_def [symmetric] m_def [symmetric] M_def [symmetric]
    by (simp only: Int_assoc Int_commute Int_left_commute)
qed

lemma scan_rows:
  assumes "view_ok u" and "chain (corner pg) nl L" and "chain (corner pg) nr R"
    and "follows pg PG_LEFT L y" and "follows pg PG_RIGHT R y" and "0 < sint i"
    and "y + sint i \<le> snd (corner pg (last L))" and "y + sint i \<le> snd (corner pg (last R))"
  shows "\<exists>pg' v. scan_lines i (pg, u) = Some (pg', v) \<and>
    draws u (shown_area u (chain_edges (corner pg) L \<union> chain_edges (corner pg) R) \<inter> UNIV \<times> {y..<y + sint i}) v"
  using assms
proof (induction "nat (sint i)" arbitrary: pg u y i rule: less_induct)
  case less
  let ?E = "chain_edges (corner pg) L \<union> chain_edges (corner pg) R"
  have yl: "y < snd (corner pg (last L))" and yr: "y < snd (corner pg (last R))" using less.prems(6-8) by simp_all
  note cl = follows_column [OF less.prems(4) yl] and cr = follows_column [OF less.prems(5) yr]
  obtain l r where l: "l \<in> chain_edges (corner pg) L" "crosses l y" "\<forall>x. right_of l (x, y) \<longleftrightarrow> sint (current_x (pge PG_LEFT pg)) \<le> x"
    and r: "r \<in> chain_edges (corner pg) R" "crosses r y" "\<forall>x. right_of r (x, y) \<longleftrightarrow> sint (current_x (pge PG_RIGHT pg)) \<le> x"
    using cl(1) cr(1) by blast
  note row = row_of_area [OF less.prems(2,3) l r, of u]
  obtain v where v: "pg_hline pg u = Some v" "draws u (shown_area u ?E \<inter> UNIV \<times> {y}) v"
    using hline_between [OF less.prems(1) cl(2) cr(2)] unfolding cr(3) row by blast
  obtain e where e: "next_edge PG_LEFT pg = Some (set_pge PG_LEFT e pg)" "follows (set_pge PG_LEFT e pg) PG_LEFT L (y + 1)"
    using follows_next [OF less.prems(4) yl] by blast
  have "follows (set_pge PG_LEFT e pg) PG_RIGHT R y" using less.prems(5) by (simp add: follows_other)
  from follows_next [OF this] yr obtain f where
    f: "next_edge PG_RIGHT (set_pge PG_LEFT e pg) = Some (set_pge PG_RIGHT f (set_pge PG_LEFT e pg))"
      "follows (set_pge PG_RIGHT f (set_pge PG_LEFT e pg)) PG_RIGHT R (y + 1)" by auto
  define pg1 where "pg1 = set_pge PG_RIGHT f (set_pge PG_LEFT e pg)"
  have pg1: "corner pg1 = corner pg" "follows pg1 PG_LEFT L (y + 1)" "follows pg1 PG_RIGHT R (y + 1)"
    using e(2) f(2) by (simp_all add: pg1_def follows_other)
  have step: "scan_lines i (pg, u) = (if sint (i - 1) > 0 then scan_lines (i - 1) (pg1, v) else Some (pg1, v))"
    by (subst scan_lines.simps) (simp add: v(1) e(1) f(1) pg1_def)
  have i1: "sint (i - 1) = sint i - 1"
    using less.prems(6) sint_u16 [of i] sint_sub_u16 [of i 1] by (simp add: abs_less_iff)
  show ?case
  proof (cases "sint (i - 1) > 0")
    case False
    then have "{y..<y + sint i} = {y}" using less.prems(6) i1 by auto
    with v step False show ?thesis by simp
  next
    case True
    obtain buf where buf: "v = u\<lparr>tile_buf := buf\<rparr>" by (rule draws_keeps [OF v(2)])
    have w: "view_ok v" "width v = width u" "height v = height u"
      using draws_view(1) [OF v(2)] less.prems(1) by (simp_all add: buf)
    then have area: "shown_area v E = shown_area u E" for E by (simp add: shown_area_def)
    have "nat (sint (i - 1)) < nat (sint i)" using i1 less.prems(6) by simp
    then have "\<exists>pg' x. scan_lines (i - 1) (pg1, v) = Some (pg', x) \<and>
        draws v (shown_area v (chain_edges (corner pg1) L \<union> chain_edges (corner pg1) R) \<inter> UNIV \<times> {y + 1..<y + 1 + sint (i - 1)}) x"
      by (rule less.hyps [OF _ w(1) _ _ pg1(2,3) True]) (use less.prems(2,3,7,8) i1 pg1(1) in simp_all)
    then obtain pg' x where x: "scan_lines (i - 1) (pg1, v) = Some (pg', x)"
        "draws v (shown_area u ?E \<inter> UNIV \<times> {y + 1..<y + sint i}) x"
      unfolding area pg1(1) i1 by auto
    have "draws u (shown_area u ?E \<inter> UNIV \<times> {y} \<union> shown_area u ?E \<inter> UNIV \<times> {y + 1..<y + sint i}) x"
      by (rule draws_trans [OF less.prems(1) v(2) x(2)]) auto
    moreover have "shown_area u ?E \<inter> UNIV \<times> {y} \<union> shown_area u ?E \<inter> UNIV \<times> {y + 1..<y + sint i} =
        shown_area u ?E \<inter> UNIV \<times> {y..<y + sint i}" using less.prems(6) by auto
    ultimately show ?thesis using step True x(1) by auto
  qed
qed

lemma area_rows:
  assumes "chain V nl (l # L)" and "chain V nr (r # R)" and "snd (V l) = y0" and "snd (V r) = y0"
    and "snd (V (last (l # L))) = y1" and "snd (V (last (r # R))) = y1"
    and "p \<in> fill_area (chain_edges V (l # L) \<union> chain_edges V (r # R))"
  shows "y0 \<le> snd p \<and> snd p < y1"
proof -
  obtain e where e: "e \<in> chain_edges V (l # L) \<union> chain_edges V (r # R)" "crosses e (snd p)"
    using assms(7) unfolding fill_area_def by blast
  then have "y0 \<le> snd (fst e) \<and> snd (snd e) \<le> y1"
    using chain_edges_below [OF assms(1), of e] chain_edges_below [OF assms(2), of e] assms(3-6) by (auto simp del: last.simps)
  with e(2) show ?thesis by (auto simp: crosses_def)
qed

lemma top_row:
  assumes "chain V nx (i # j # js)" and "f \<in> chain_edges V (i # j # js)" and "crosses f (snd (V i))"
  shows "right_of f (x, snd (V i)) \<longleftrightarrow> fst (V i) \<le> x"
proof -
  have h: "snd (V i) < snd (V j)" using assms(1) by simp
  then have "crosses (V i, V j) (snd (V i))" by (simp add: crosses_def)
  with chain_crossing_unique [OF assms(1,2) _ assms(3)] have "f = (V i, V j)" by simp
  then show ?thesis using h by (simp add: right_of_def zero_le_mult_iff)
qed

lemma top_row_empty:
  assumes "chain V nl (l # l' # L)" and "chain V nr (r # r' # R)" and "V l = V r"
    and "p \<in> fill_area (chain_edges V (l # l' # L) \<union> chain_edges V (r # r' # R))"
  shows "snd p \<noteq> snd (V l)"
proof
  assume y: "snd p = snd (V l)"
  obtain e f where ef: "e \<in> chain_edges V (l # l' # L) \<union> chain_edges V (r # r' # R)"
    "f \<in> chain_edges V (l # l' # L) \<union> chain_edges V (r # r' # R)" "crosses e (snd (V l))" "crosses f (snd (V l))"
    "right_of e p" "\<not> right_of f p"
    using assms(4) unfolding fill_area_def mem_Collect_eq y by blast
  have p: "p = (fst p, snd (V l))" using y by (cases p) simp
  have "right_of g p \<longleftrightarrow> fst (V l) \<le> fst p"
    if "g \<in> chain_edges V (l # l' # L) \<union> chain_edges V (r # r' # R)" "crosses g (snd (V l))" for g
    using that top_row [OF assms(1), of g "fst p"] top_row [OF assms(2), of g "fst p"] assms(3) p by auto
  with ef show False by blast
qed

lemma follows_start:
  assumes "chain (corner pg) (next_idx (pge s pg) pg) (i # j # js)" and "corners_in pg (i # j # js)" and "curr_idx (pge s pg) = i"
  shows "\<exists>e. pg_line_init s pg = Some (set_pge s e pg) \<and> next_idx_fn e = next_idx_fn (pge s pg) \<and>
    follows (set_pge s e pg) s (i # j # js) (snd (corner pg i)) \<and>
    follows (skip_line s (set_pge s e pg)) s (i # j # js) (snd (corner pg i) + 1)"
proof -
  have ij: "corners_in pg [i, j]" using assms(2) by simp
  from line_init_on_chain [OF assms(1) ij assms(3)] obtain e where
    e: "pg_line_init s pg = Some (set_pge s e pg)" "on_chain (corner pg) (i # j # js) (snd (corner pg i)) e"
      "next_idx_fn e = next_idx_fn (pge s pg)" by blast
  have "snd (corner pg i) < snd (corner pg j)" using assms(1) by simp
  from on_chain_step [OF assms(1) e(2) this corner_bounds(1,2)] obtain f where
    f: "pge_Next e = (1, f)" "on_chain (corner pg) (i # j # js) (snd (corner pg i) + 1) f" "next_idx_fn f = next_idx_fn e"
    by blast
  have "follows (set_pge s e pg) s (i # j # js) (snd (corner pg i))"
    unfolding follows_def using assms(1,2) e(2) next_idx_fn_eq [OF e(3)] by (intro exI [of _ "i # j # js"]) simp
  moreover have "next_idx f = next_idx (pge s pg)" using f(3) e(3) by (intro next_idx_fn_eq) simp
  then have "follows (skip_line s (set_pge s e pg)) s (i # j # js) (snd (corner pg i) + 1)"
    unfolding follows_def skip_line_def using assms(1,2) f by (intro exI [of _ "i # j # js"]) simp
  ultimately show ?thesis using e by blast
qed

lemma set_pge_fields [simp]:
  "is_min_y_not_flat (set_pge s e pg) = is_min_y_not_flat pg"
  by (cases s) (simp_all add: set_pge_def)

lemma follows_skip: "t \<noteq> s \<Longrightarrow> follows (skip_line s pg) t J y = follows pg t J y"
  by (simp add: skip_line_def follows_other)

text \<open>The whole scan draws the area between two chains that start in one row and end in one row. Where the
  first row is skipped, it is empty.\<close>

lemma exec_area:
  assumes u: "view_ok u"
    and L: "chain (corner pg) (next_idx (pge PG_LEFT pg) pg) (l # l' # ls)" "corners_in pg (l # l' # ls)" "curr_idx (pge PG_LEFT pg) = l"
    and R: "chain (corner pg) (next_idx (pge PG_RIGHT pg) pg) (r # r' # rs)" "corners_in pg (r # r' # rs)" "curr_idx (pge PG_RIGHT pg) = r"
    and y: "snd (corner pg l) = y0" "snd (corner pg r) = y0" "snd (corner pg (last (l # l' # ls))) = y1" "snd (corner pg (last (r # r' # rs))) = y1"
    and i: "0 < sint (total_scan_line_cnt pg)"
      "if is_min_y_not_flat pg = 0 then sint (total_scan_line_cnt pg) = y1 - y0
       else sint (total_scan_line_cnt pg) = y1 - y0 - 1 \<and> fst (corner pg l) = fst (corner pg r)"
  shows "\<exists>pg' v. pg_exec (pg, u) = Some (pg', v) \<and>
    draws u (shown_area u (chain_edges (corner pg) (l # l' # ls) \<union> chain_edges (corner pg) (r # r' # rs))) v"
proof -
  let ?L = "l # l' # ls" and ?R = "r # r' # rs" and ?i = "total_scan_line_cnt pg"
  let ?E = "chain_edges (corner pg) ?L \<union> chain_edges (corner pg) ?R"
  from follows_start [OF L] obtain e where e: "pg_line_init PG_LEFT pg = Some (set_pge PG_LEFT e pg)"
    "next_idx_fn e = next_idx_fn (pge PG_LEFT pg)"
    "follows (set_pge PG_LEFT e pg) PG_LEFT ?L y0" "follows (skip_line PG_LEFT (set_pge PG_LEFT e pg)) PG_LEFT ?L (y0 + 1)"
    unfolding y(1) by blast
  let ?p = "set_pge PG_LEFT e pg"
  have "chain (corner ?p) (next_idx (pge PG_RIGHT ?p) ?p) ?R" "corners_in ?p ?R" "curr_idx (pge PG_RIGHT ?p) = r"
    using R by simp_all
  from follows_start [OF this] obtain f where f: "pg_line_init PG_RIGHT ?p = Some (set_pge PG_RIGHT f ?p)"
    "follows (set_pge PG_RIGHT f ?p) PG_RIGHT ?R y0" "follows (skip_line PG_RIGHT (set_pge PG_RIGHT f ?p)) PG_RIGHT ?R (y0 + 1)"
    using y(2) by auto
  let ?q = "set_pge PG_RIGHT f ?p"
  let ?q' = "skip_line PG_RIGHT (skip_line PG_LEFT ?q)"
  define qs where "qs = (if is_min_y_not_flat pg \<noteq> 0 then ?q' else ?q)"
  define ys where "ys = (if is_min_y_not_flat pg \<noteq> 0 then y0 + 1 else y0)"
  have run: "pg_exec (pg, u) = scan_lines ?i (qs, u)" by (simp add: pg_exec_def e(1) f(1) qs_def)
  have sw: "skip_line PG_LEFT ?q = set_pge PG_RIGHT f (skip_line PG_LEFT ?p)"
    by (simp add: skip_line_def set_pge_def pge_def)
  have c: "corner qs = corner pg" by (simp add: qs_def skip_line_def)
  have "follows ?q' PG_LEFT ?L (y0 + 1)" using e(4) by (simp add: follows_skip sw follows_other)
  moreover have "follows ?q' PG_RIGHT ?R (y0 + 1)"
  proof -
    have "?q' = set_pge PG_LEFT (snd (pge_Next e)) (skip_line PG_RIGHT ?q)"
      by (simp add: skip_line_def set_pge_def pge_def)
    then show ?thesis using f(3) by (simp add: follows_other)
  qed
  moreover have "follows ?q PG_LEFT ?L y0" using e(3) by (simp add: follows_other)
  ultimately have F: "follows qs PG_LEFT ?L ys" "follows qs PG_RIGHT ?R ys"
    using f(2) by (simp_all add: qs_def ys_def)
  have ye: "ys + sint ?i = y1" using i(2) by (auto simp: ys_def split: if_splits)
  have C: "chain (corner qs) (next_idx (pge PG_LEFT pg) pg) ?L" "chain (corner qs) (next_idx (pge PG_RIGHT pg) pg) ?R"
    "ys + sint ?i \<le> snd (corner qs (last ?L))" "ys + sint ?i \<le> snd (corner qs (last ?R))"
    using L(1) R(1) y(3,4) ye unfolding c by simp_all
  from scan_rows [OF u C(1,2) F i(1) C(3,4)] obtain pg' v where
    v: "scan_lines ?i (qs, u) = Some (pg', v)" "draws u (shown_area u ?E \<inter> UNIV \<times> {ys..<y1}) v"
    unfolding c ye by blast
  have "ys \<le> snd p \<and> snd p < y1" if p: "p \<in> fill_area ?E" for p
  proof -
    have rows: "y0 \<le> snd p" "snd p < y1" using area_rows [OF L(1) R(1) y p] by simp_all
    have "snd p \<noteq> y0" if "is_min_y_not_flat pg \<noteq> 0"
    proof -
      have "corner pg l = corner pg r" using i(2) y(1,2) that by (simp add: prod_eq_iff)
      from top_row_empty [OF L(1) R(1) this p] y(1) show ?thesis by simp
    qed
    with rows show ?thesis by (auto simp: ys_def)
  qed
  then have "shown_area u ?E \<inter> UNIV \<times> {ys..<y1} = shown_area u ?E" by (fastforce simp: shown_area_def)
  with v run show ?thesis by auto
qed

section \<open>Preparing a triangle\<close>

lemma point_y: "unat i < length (pg_list pg) \<Longrightarrow> pg_point pg i = Some (pg_list pg ! unat i)"
  by (simp add: pg_point_def)

abbreviation (input) "three \<equiv> {0, 1, 2 :: u8}"

lemma search_three:
  assumes "pg_cnt pg = 3" and "3 \<le> length (pg_list pg)"
  shows "\<exists>maxy m. search_y pg 1 (pt_y (pg_list pg ! 0)) (pt_y (pg_list pg ! 0)) 0 = Some (maxy, pt_y (pg_list pg ! unat m), m) \<and>
    m \<in> three \<and> (\<forall>j \<in> three. snd (corner pg m) \<le> snd (corner pg j) \<and> snd (corner pg j) \<le> sint maxy) \<and>
    (\<exists>j \<in> three. sint maxy = snd (corner pg j))"
proof -
  have n: "0 < length (pg_list pg)" "1 < length (pg_list pg)" "2 < length (pg_list pg)" using assms(2) by linarith+
  show ?thesis
    using n assms(1) by (simp add: search_y.simps [of pg 1] search_y.simps [of pg 2] search_y.simps [of pg 3] pg_point_def corner_def)
qed

lemma expand_loop_step:
  assumes "next_idx (pge s pg) pg i = j" and "unat j < length (pg_list pg)"
  shows "expand_loop miny s i pg = (if pt_y (pg_list pg ! unat j) \<noteq> miny then Some pg
     else expand_loop miny s j (set_pge s ((pge s pg)\<lparr>curr_idx := j\<rparr>) pg))"
  using assms by (subst expand_loop.simps) (simp add: point_y)

lemma expand_three:
  assumes "curr_idx (pge s pg) = m" and "next_idx (pge s pg) pg m = p" and "next_idx (pge s pg) pg p = q"
    and "unat p < length (pg_list pg)" and "unat q < length (pg_list pg)"
    and "snd (corner pg p) = sint miny \<longrightarrow> snd (corner pg q) \<noteq> sint miny"
  shows "pg_expand_min_y miny s pg = Some (set_pge s ((pge s pg)\<lparr>curr_idx := if snd (corner pg p) = sint miny then p else m\<rparr>) pg)"
proof -
  have keep: "next_idx ((pge s pg)\<lparr>curr_idx := k\<rparr>) = next_idx (pge s pg)" for k by (intro next_idx_fn_eq) simp
  have "(pge s pg)\<lparr>curr_idx := m\<rparr> = pge s pg" using assms(1) by (metis pg_edge_struct.surjective pg_edge_struct.update_convs(10))
  then have "set_pge s ((pge s pg)\<lparr>curr_idx := m\<rparr>) pg = pg" by simp
  then show ?thesis
    using assms(6) expand_loop_step [OF assms(2,4), of miny]
      expand_loop_step [of s "set_pge s ((pge s pg)\<lparr>curr_idx := p\<rparr>) pg" p q miny] assms(1,3,5)
    by (simp add: pg_expand_min_y_def keep corner_def sint_eq_iff)
qed

lemma three_cycle:
  assumes "pg_cnt pg = 3" and "m \<in> three"
  shows "pg_inc pg (pg_inc pg m) = pg_dec pg m" "pg_dec pg (pg_dec pg m) = pg_inc pg m" "{m, pg_inc pg m, pg_dec pg m} = three"
proof -
  have "\<not> (3 :: u8) \<le> 1" by (simp add: word_le_nat_alt)
  with assms show "pg_inc pg (pg_inc pg m) = pg_dec pg m" "pg_dec pg (pg_dec pg m) = pg_inc pg m"
    "{m, pg_inc pg m, pg_dec pg m} = three" by (auto simp: pg_inc_def pg_dec_def Let_def)
qed

lemma next_idx_simps [simp]:
  "next_idx_fn e = Pg_Inc \<Longrightarrow> next_idx e pg = pg_inc pg" "next_idx_fn e = Pg_Dec \<Longrightarrow> next_idx e pg = pg_dec pg"
  by (simp_all add: next_idx_def fun_eq_iff)

lemma inc_dec_set_pge [simp]: "pg_inc (set_pge s e pg) = pg_inc pg" "pg_dec (set_pge s e pg) = pg_dec pg"
  by (simp_all add: pg_inc_def pg_dec_def Let_def fun_eq_iff)

lemma total_set_pge [simp]: "total_scan_line_cnt (set_pge s e pg) = total_scan_line_cnt pg"
  by (cases s) (simp_all add: set_pge_def)

text \<open>The preparation finds a highest corner \<open>m\<close>, with \<open>p\<close> and \<open>q\<close> after and before it, and starts each side
  at the last highest corner in its direction.\<close>

definition prepared :: "pg_struct \<Rightarrow> u8 \<Rightarrow> u8 \<Rightarrow> u8 \<Rightarrow> int \<Rightarrow> pg_struct \<Rightarrow> bool" where
  "prepared pg m p q y1 pg' =
     (pg_list pg' = pg_list pg \<and> pg_cnt pg' = pg_cnt pg \<and> next_idx_fn (pge PG_RIGHT pg') = Pg_Inc \<and>
      next_idx_fn (pge PG_LEFT pg') = Pg_Dec \<and>
      curr_idx (pge PG_RIGHT pg') = (if snd (corner pg p) = snd (corner pg m) then p else m) \<and>
      curr_idx (pge PG_LEFT pg') = (if snd (corner pg q) = snd (corner pg m) then q else m) \<and>
      (if fst (corner pg (curr_idx (pge PG_LEFT pg'))) \<noteq> fst (corner pg (curr_idx (pge PG_RIGHT pg')))
       then is_min_y_not_flat pg' = 0 \<and> sint (total_scan_line_cnt pg') = y1 - snd (corner pg m) \<and> pg_prepare pg = Some (1, pg')
       else is_min_y_not_flat pg' \<noteq> 0 \<and> sint (total_scan_line_cnt pg') = y1 - snd (corner pg m) - 1 \<and>
         pg_prepare pg = Some (if y1 = snd (corner pg m) + 1 then 0 else 1, pg')))"

text \<open>The part of the preparation behind the search for the highest and the lowest corner.\<close>

definition prepare_rest :: "u16 \<Rightarrow> pg_struct \<Rightarrow> (u8 \<times> pg_struct) option" where
  "prepare_rest miny pg = do {
     pg \<leftarrow> pg_expand_min_y miny PG_RIGHT pg;
     pg \<leftarrow> pg_expand_min_y miny PG_LEFT pg;
     let pg = pg\<lparr>is_min_y_not_flat := 1\<rparr>;
     l \<leftarrow> pg_point pg (curr_idx (pge_left pg));
     r \<leftarrow> pg_point pg (curr_idx (pge_right pg));
     if pt_x l \<noteq> pt_x r then Some (1, pg\<lparr>is_min_y_not_flat := 0\<rparr>)
     else
       let pg = pg\<lparr>total_scan_line_cnt := total_scan_line_cnt pg - 1\<rparr>
       in if total_scan_line_cnt pg = 0 then Some (0, pg) else Some (1, pg) }"

lemma prepare_start:
  assumes cnt: "pg_cnt pg = 3" and len: "3 \<le> length (pg_list pg)"
  shows "\<exists>maxy m pd. m \<in> three \<and> (\<forall>j \<in> three. snd (corner pg m) \<le> snd (corner pg j) \<and> snd (corner pg j) \<le> sint maxy) \<and>
    (\<exists>j \<in> three. sint maxy = snd (corner pg j)) \<and> pg_list pd = pg_list pg \<and> pg_cnt pd = pg_cnt pg \<and>
    curr_idx (pge PG_RIGHT pd) = m \<and> curr_idx (pge PG_LEFT pd) = m \<and> next_idx_fn (pge PG_RIGHT pd) = Pg_Inc \<and>
    next_idx_fn (pge PG_LEFT pd) = Pg_Dec \<and> total_scan_line_cnt pd = maxy - pt_y (pg_list pg ! unat m) \<and>
    (if total_scan_line_cnt pd = 0 then \<exists>pg'. pg_prepare pg = Some (0, pg')
     else pg_prepare pg = prepare_rest (pt_y (pg_list pg ! unat m)) pd)"
proof -
  define pa where "pa = pg\<lparr>pge_right := (pge_right pg)\<lparr>next_idx_fn := Pg_Inc\<rparr>, pge_left := (pge_left pg)\<lparr>next_idx_fn := Pg_Dec\<rparr>\<rparr>"
  have pa: "pg_list pa = pg_list pg" "pg_cnt pa = pg_cnt pg" "corner pa = corner pg"
    by (simp_all add: pa_def corner_def fun_eq_iff)
  from search_three [of pa] cnt len pa obtain maxy m where
    s: "search_y pa 1 (pt_y (pg_list pg ! 0)) (pt_y (pg_list pg ! 0)) 0 = Some (maxy, pt_y (pg_list pg ! unat m), m)"
    and m: "m \<in> three" "\<forall>j \<in> three. snd (corner pg m) \<le> snd (corner pg j) \<and> snd (corner pg j) \<le> sint maxy"
      "\<exists>j \<in> three. sint maxy = snd (corner pg j)" by auto
  define miny where "miny = pt_y (pg_list pg ! unat m)"
  define pd where "pd = pa\<lparr>pge_left := (pge_left pa)\<lparr>curr_idx := m\<rparr>, total_scan_line_cnt := maxy - miny,
    pge_right := (pge_right pa)\<lparr>curr_idx := m\<rparr>\<rparr>"
  have z: "0 < length (pg_list pg)" using len by linarith
  have "pg_prepare pg = (if maxy - miny = 0
      then Some (0, pa\<lparr>pge_left := (pge_left pa)\<lparr>curr_idx := m\<rparr>, total_scan_line_cnt := maxy - miny\<rparr>)
      else prepare_rest miny pd)"
    using s z unfolding pg_prepare_def prepare_rest_def Let_def
    by (simp add: pg_point_def pa_def pd_def miny_def)
  then show ?thesis using m
    by (intro exI [of _ maxy] exI [of _ m] exI [of _ pd]) (simp add: pd_def pa_def pge_def miny_def)
qed

lemma expand_sides:
  assumes "curr_idx (pge PG_RIGHT pd) = m" and "curr_idx (pge PG_LEFT pd) = m"
    and "next_idx_fn (pge PG_RIGHT pd) = Pg_Inc" and "next_idx_fn (pge PG_LEFT pd) = Pg_Dec"
    and "pg_inc pd m = p" and "pg_inc pd p = q" and "pg_dec pd m = q" and "pg_dec pd q = p"
    and "unat p < length (pg_list pd)" and "unat q < length (pg_list pd)"
    and miny: "sint miny = snd (corner pd m)" and notall: "snd (corner pd p) = sint miny \<longrightarrow> snd (corner pd q) \<noteq> sint miny"
  shows "\<exists>p1 p2. pg_expand_min_y miny PG_RIGHT pd = Some p1 \<and> pg_expand_min_y miny PG_LEFT p1 = Some p2 \<and>
    pg_list p2 = pg_list pd \<and> pg_cnt p2 = pg_cnt pd \<and> next_idx_fn (pge PG_RIGHT p2) = Pg_Inc \<and>
    next_idx_fn (pge PG_LEFT p2) = Pg_Dec \<and> total_scan_line_cnt p2 = total_scan_line_cnt pd \<and>
    curr_idx (pge PG_RIGHT p2) = (if snd (corner pd p) = snd (corner pd m) then p else m) \<and>
    curr_idx (pge PG_LEFT p2) = (if snd (corner pd q) = snd (corner pd m) then q else m)"
proof -
  define p1 where "p1 = set_pge PG_RIGHT ((pge PG_RIGHT pd)\<lparr>curr_idx := if snd (corner pd p) = sint miny then p else m\<rparr>) pd"
  define p2 where "p2 = set_pge PG_LEFT ((pge PG_LEFT p1)\<lparr>curr_idx := if snd (corner pd q) = sint miny then q else m\<rparr>) p1"
  have "pg_expand_min_y miny PG_RIGHT pd = Some p1"
    unfolding p1_def using assms by (intro expand_three) simp_all
  moreover have "pg_expand_min_y miny PG_LEFT p1 = Some p2"
  proof -
    have e: "curr_idx (pge PG_LEFT p1) = m" "next_idx (pge PG_LEFT p1) p1 = pg_dec pd" "corner p1 = corner pd"
      "unat q < length (pg_list p1)" "unat p < length (pg_list p1)"
      using assms by (simp_all add: p1_def)
    have "snd (corner p1 q) = sint miny \<longrightarrow> snd (corner p1 p) \<noteq> sint miny" using notall unfolding e(3) by blast
    from expand_three [OF e(1) _ _ e(4,5) this] show ?thesis
      unfolding e(2,3) p2_def using assms(7,8) by blast
  qed
  ultimately show ?thesis using assms(3,4) miny by (intro exI [of _ p1] exI [of _ p2]) (simp add: p1_def p2_def)
qed

lemma prepared_rest:
  assumes rest: "prepare_rest miny pd = pg_prepare pg"
    and x: "pg_expand_min_y miny PG_RIGHT pd = Some p1" "pg_expand_min_y miny PG_LEFT p1 = Some p2"
    and p2: "pg_list p2 = pg_list pg" "pg_cnt p2 = pg_cnt pg" "next_idx_fn (pge PG_RIGHT p2) = Pg_Inc"
      "next_idx_fn (pge PG_LEFT p2) = Pg_Dec" "total_scan_line_cnt p2 = maxy - miny"
      "curr_idx (pge PG_RIGHT p2) = (if snd (corner pg p) = snd (corner pg m) then p else m)"
      "curr_idx (pge PG_LEFT p2) = (if snd (corner pg q) = snd (corner pg m) then q else m)"
    and range: "unat (curr_idx (pge PG_RIGHT p2)) < length (pg_list pg)" "unat (curr_idx (pge PG_LEFT p2)) < length (pg_list pg)"
    and T: "sint (maxy - miny) = sint maxy - snd (corner pg m)" "0 < sint maxy - snd (corner pg m)"
  shows "\<exists>pg'. prepared pg m p q (sint maxy) pg'"
proof -
  define l r where "l = curr_idx (pge PG_LEFT p2)" and "r = curr_idx (pge PG_RIGHT p2)"
  have side: "pge_left p2 = pge PG_LEFT p2" "pge_right p2 = pge PG_RIGHT p2" by (simp_all add: pge_def)
  define p3 where "p3 = p2\<lparr>is_min_y_not_flat := 1\<rparr>"
  have prep: "pg_prepare pg = (if fst (corner pg l) \<noteq> fst (corner pg r) then Some (1, p3\<lparr>is_min_y_not_flat := 0\<rparr>)
      else if maxy - miny - 1 = 0 then Some (0, p3\<lparr>total_scan_line_cnt := maxy - miny - 1\<rparr>)
      else Some (1, p3\<lparr>total_scan_line_cnt := maxy - miny - 1\<rparr>))"
    unfolding rest [symmetric] prepare_rest_def using x p2(1,5) range side
    by (simp add: Let_def point_y p3_def corner_def l_def r_def flip: sint_eq_iff)
  have T1: "sint (maxy - miny - 1) = sint maxy - snd (corner pg m) - 1"
    using T sint_u16 [of "maxy - miny"] sint_sub_u16 [of "maxy - miny" 1] by (simp add: abs_less_iff)
  then have T0: "maxy - miny - 1 = 0 \<longleftrightarrow> sint maxy = snd (corner pg m) + 1" by (auto simp: sint_eq_iff)
  have keep: "pge s (p2\<lparr>is_min_y_not_flat := a\<rparr>) = pge s p2" "pge s (p2\<lparr>is_min_y_not_flat := a, total_scan_line_cnt := b\<rparr>) = pge s p2" for s a b
    by (cases s; simp add: pge_def)+
  show ?thesis
  proof (cases "fst (corner pg l) = fst (corner pg r)")
    case True
    then have "prepared pg m p q (sint maxy) (p3\<lparr>total_scan_line_cnt := maxy - miny - 1\<rparr>)"
      unfolding prepared_def prep using p2 keep T1 T0 by (simp add: p3_def r_def l_def)
    then show ?thesis ..
  next
    case False
    then have "prepared pg m p q (sint maxy) (p3\<lparr>is_min_y_not_flat := 0\<rparr>)"
      unfolding prepared_def prep using p2 keep T by (simp add: p3_def r_def l_def)
    then show ?thesis ..
  qed
qed

lemma prepare_three:
  assumes cnt: "pg_cnt pg = 3" and len: "3 \<le> length (pg_list pg)"
    and b: "\<forall>i \<in> three. \<forall>j \<in> three. \<bar>snd (corner pg i) - snd (corner pg j)\<bar> < 32768"
  shows "\<exists>m y1. m \<in> three \<and> (\<forall>j \<in> three. snd (corner pg m) \<le> snd (corner pg j) \<and> snd (corner pg j) \<le> y1) \<and>
    (\<exists>j \<in> three. y1 = snd (corner pg j)) \<and>
    (if y1 = snd (corner pg m) then \<exists>pg'. pg_prepare pg = Some (0, pg')
     else \<exists>pg'. prepared pg m (pg_inc pg m) (pg_dec pg m) y1 pg')"
proof -
  from prepare_start [OF cnt len] obtain maxy m pd where
    m: "m \<in> three" "\<forall>j \<in> three. snd (corner pg m) \<le> snd (corner pg j) \<and> snd (corner pg j) \<le> sint maxy"
      "\<exists>j \<in> three. sint maxy = snd (corner pg j)"
    and pd: "pg_list pd = pg_list pg" "pg_cnt pd = pg_cnt pg" "curr_idx (pge PG_RIGHT pd) = m" "curr_idx (pge PG_LEFT pd) = m"
      "next_idx_fn (pge PG_RIGHT pd) = Pg_Inc" "next_idx_fn (pge PG_LEFT pd) = Pg_Dec"
      "total_scan_line_cnt pd = maxy - pt_y (pg_list pg ! unat m)"
    and start: "if total_scan_line_cnt pd = 0 then \<exists>pg'. pg_prepare pg = Some (0, pg')
      else pg_prepare pg = prepare_rest (pt_y (pg_list pg ! unat m)) pd" by blast
  define miny where "miny = pt_y (pg_list pg ! unat m)"
  have my: "sint miny = snd (corner pg m)" by (simp add: miny_def corner_def)
  have T: "sint (maxy - miny) = sint maxy - snd (corner pg m)"
    using m b unfolding my [symmetric] by (intro sint_sub_u16) (auto simp: my)
  have c: "corner pd = corner pg" "pg_inc pd = pg_inc pg" "pg_dec pd = pg_dec pg"
    using pd(1,2) by (simp_all add: corner_def pg_inc_def pg_dec_def Let_def fun_eq_iff)
  show ?thesis
  proof (cases "sint maxy = snd (corner pg m)")
    case True
    then have "total_scan_line_cnt pd = 0" using T unfolding pd(7) miny_def [symmetric] by (simp add: sint_eq_iff)
    then show ?thesis using m True start by (intro exI [of _ m] exI [of _ "sint maxy"]) auto
  next
    case False
    then have t0: "maxy - miny \<noteq> 0" "0 < sint maxy - snd (corner pg m)" using T m(1,2) by (auto simp: sint_eq_iff)
    define p q where "p = pg_inc pg m" and "q = pg_dec pg m"
    have cyc: "pg_inc pg p = q" "pg_dec pg q = p" "{m, p, q} = three" using three_cycle [OF cnt m(1)] by (simp_all add: p_def q_def)
    have range: "unat j < length (pg_list pg)" if "j \<in> three" for j using that len by auto
    have in3: "p \<in> three" "q \<in> three" unfolding cyc(3) [symmetric] by simp_all
    have "snd (corner pg p) = sint miny \<longrightarrow> snd (corner pg q) \<noteq> sint miny"
      using m(3) False unfolding my cyc(3) [symmetric] by auto
    with expand_sides [OF pd(3-6), of p q miny] obtain p1 p2 where
      x: "pg_expand_min_y miny PG_RIGHT pd = Some p1" "pg_expand_min_y miny PG_LEFT p1 = Some p2"
      and p2: "pg_list p2 = pg_list pg" "pg_cnt p2 = pg_cnt pg" "next_idx_fn (pge PG_RIGHT p2) = Pg_Inc"
      "next_idx_fn (pge PG_LEFT p2) = Pg_Dec" "total_scan_line_cnt p2 = maxy - miny"
      "curr_idx (pge PG_RIGHT p2) = (if snd (corner pg p) = snd (corner pg m) then p else m)"
      "curr_idx (pge PG_LEFT p2) = (if snd (corner pg q) = snd (corner pg m) then q else m)"
      using c pd cyc range in3 my by (auto simp: p_def [symmetric] q_def [symmetric] miny_def [symmetric])
    have "prepare_rest miny pd = pg_prepare pg" using start t0(1) pd(7) by (simp add: miny_def)
    note in_list = range [OF m(1)] range [OF in3(1)] range [OF in3(2)]
    have "unat (curr_idx (pge PG_RIGHT p2)) < length (pg_list pg)" "unat (curr_idx (pge PG_LEFT p2)) < length (pg_list pg)"
      unfolding p2(6,7) using in_list by (simp_all split: if_split)
    from prepared_rest [OF \<open>prepare_rest miny pd = pg_prepare pg\<close> x p2 this T t0(2)]
    have "\<exists>pg'. prepared pg m p q (sint maxy) pg'" .
    with m False show ?thesis unfolding p_def q_def by (intro exI [of _ m] exI [of _ "sint maxy"]) simp
  qed
qed

section \<open>Triangles\<close>

lemma polygon_of_chains:
  assumes u: "view_ok u" and P: "prepared pg m p q y1 pg'"
    and L: "chain (corner pg) (pg_dec pg) (l # l' # ls)" "corners_in pg (l # l' # ls)" "curr_idx (pge PG_LEFT pg') = l"
    and R: "chain (corner pg) (pg_inc pg) (r # r' # rs)" "corners_in pg (r # r' # rs)" "curr_idx (pge PG_RIGHT pg') = r"
    and y: "snd (corner pg l) = snd (corner pg m)" "snd (corner pg r) = snd (corner pg m)"
      "snd (corner pg (last (l # l' # ls))) = y1" "snd (corner pg (last (r # r' # rs))) = y1" "snd (corner pg m) < y1"
  shows "\<exists>pg'' v. u8g2_DrawPolygon (pg, u) = Some (pg'', v) \<and>
    draws u (shown_area u (chain_edges (corner pg) (l # l' # ls) \<union> chain_edges (corner pg) (r # r' # rs))) v"
proof -
  let ?E = "chain_edges (corner pg) (l # l' # ls) \<union> chain_edges (corner pg) (r # r' # rs)"
  have s: "pg_list pg' = pg_list pg" "pg_cnt pg' = pg_cnt pg" "next_idx_fn (pge PG_RIGHT pg') = Pg_Inc"
    "next_idx_fn (pge PG_LEFT pg') = Pg_Dec" using P by (simp_all add: prepared_def)
  have c: "corner pg' = corner pg" "pg_inc pg' = pg_inc pg" "pg_dec pg' = pg_dec pg"
    using s by (simp_all add: corner_def pg_inc_def pg_dec_def Let_def fun_eq_iff)
  have go: ?thesis if "0 < sint (total_scan_line_cnt pg')" "pg_prepare pg = Some (1, pg')"
    "if is_min_y_not_flat pg' = 0 then sint (total_scan_line_cnt pg') = y1 - snd (corner pg m)
     else sint (total_scan_line_cnt pg') = y1 - snd (corner pg m) - 1 \<and> fst (corner pg l) = fst (corner pg r)"
  proof -
    from exec_area [of u pg' l l' ls r r' rs "snd (corner pg m)" y1] u L R y that(1,3) s c
    have "\<exists>pg'' v. pg_exec (pg', u) = Some (pg'', v) \<and> draws u (shown_area u ?E) v" by simp
    then show ?thesis using that(2) by (simp add: u8g2_DrawPolygon_def)
  qed
  show ?thesis
  proof (cases "fst (corner pg l) = fst (corner pg r)")
    case False
    then show ?thesis using P L(3) R(3) y(5) by (intro go) (simp_all add: prepared_def)
  next
    case flat: True
    then have i: "is_min_y_not_flat pg' \<noteq> 0" "sint (total_scan_line_cnt pg') = y1 - snd (corner pg m) - 1"
      "pg_prepare pg = Some (if y1 = snd (corner pg m) + 1 then 0 else 1, pg')"
      using P L(3) R(3) by (simp_all add: prepared_def)
    show ?thesis
    proof (cases "y1 = snd (corner pg m) + 1")
      case False
      then show ?thesis using i flat y(5) by (intro go) simp_all
    next
      case True
      have lr: "corner pg l = corner pg r" using flat y(1,2) by (simp add: prod_eq_iff)
      have False if "p \<in> fill_area ?E" for p
        using area_rows [OF L(1) R(1) y(1-4) that] top_row_empty [OF L(1) R(1) lr that] y(1) True by simp
      then have "shown_area u ?E = {}" by (auto simp: shown_area_def)
      with i True draws_empty [OF u] show ?thesis by (simp add: u8g2_DrawPolygon_def)
    qed
  qed
qed

lemma slopes_flat: "\<forall>a \<in> V. snd a = y \<Longrightarrow> slopes V = {}"
  by (auto simp: slopes_def)

lemma slopes_three:
  "slopes {a, b, c} = (if snd a < snd b then {(a, b)} else {}) \<union> (if snd a < snd c then {(a, c)} else {}) \<union>
     (if snd b < snd a then {(b, a)} else {}) \<union> (if snd b < snd c then {(b, c)} else {}) \<union>
     (if snd c < snd a then {(c, a)} else {}) \<union> (if snd c < snd b then {(c, b)} else {})"
  unfolding slopes_def by (rule set_eqI) (auto split: prod.splits)

lemma polygon_three:
  assumes u: "view_ok u" and cnt: "pg_cnt pg = 3" and len: "3 \<le> length (pg_list pg)"
    and b: "\<forall>i \<in> three. \<forall>j \<in> three. \<bar>snd (corner pg i) - snd (corner pg j)\<bar> < 32768"
    and x: "\<forall>i \<in> three. 0 \<le> fst (corner pg i)"
  shows "\<exists>pg' v. u8g2_DrawPolygon (pg, u) = Some (pg', v) \<and> draws u (shown_area u (slopes (corner pg ` three))) v"
proof -
  let ?V = "corner pg"
  from prepare_three [OF cnt len b] obtain m y1 where
    m: "m \<in> three" "\<forall>j \<in> three. snd (?V m) \<le> snd (?V j) \<and> snd (?V j) \<le> y1" "\<exists>j \<in> three. y1 = snd (?V j)"
    and prep: "if y1 = snd (?V m) then \<exists>pg'. pg_prepare pg = Some (0, pg')
      else \<exists>pg'. prepared pg m (pg_inc pg m) (pg_dec pg m) y1 pg'" by blast
  define p q where "p = pg_inc pg m" and "q = pg_dec pg m"
  have cyc: "pg_inc pg m = p" "pg_inc pg p = q" "pg_dec pg m = q" "pg_dec pg q = p" and set3: "three = {m, p, q}"
    using three_cycle [OF cnt m(1)] by (simp_all add: p_def q_def)
  have "\<forall>i \<in> three. unat i < length (pg_list pg)" using len by auto
  then have inside: "corners_in pg [m, p, q]" unfolding set3 by simp
  have dx: "\<bar>fst (?V i) - fst (?V j)\<bar> < 32768" if "i \<in> three" "j \<in> three" for i j
    using x that corner_bounds(3) [of pg i] corner_bounds(3) [of pg j] by (auto simp: abs_less_iff)
  show ?thesis
  proof (cases "y1 = snd (?V m)")
    case True
    then have "slopes (?V ` three) = {}" using m(2) by (intro slopes_flat [of _ y1]) auto
    then have "shown_area u (slopes (?V ` three)) = {}" by (simp add: shown_area_def fill_area_def)
    with prep True draws_empty [OF u] show ?thesis by (auto simp: u8g2_DrawPolygon_def)
  next
    case False
    then obtain pg' where P: "prepared pg m p q y1 pg'" using prep unfolding p_def q_def by auto
    have cl: "curr_idx (pge PG_RIGHT pg') = (if snd (?V p) = snd (?V m) then p else m)"
      "curr_idx (pge PG_LEFT pg') = (if snd (?V q) = snd (?V m) then q else m)"
      using P by (simp_all add: prepared_def)
    have low: "snd (?V m) \<le> snd (?V p)" "snd (?V m) \<le> snd (?V q)" "snd (?V p) \<le> y1" "snd (?V q) \<le> y1"
      "y1 = snd (?V p) \<or> y1 = snd (?V q)" "snd (?V m) < y1"
      using m(2,3) False unfolding set3 by auto
    have edge: "snd (?V j) - snd (?V i) < 32768 \<and> \<bar>fst (?V j) - fst (?V i)\<bar> < 32768 \<and> 0 \<le> fst (?V i) \<and> 0 \<le> fst (?V j)"
      if "i \<in> {m, p, q}" "j \<in> {m, p, q}" for i j
      using b x dx that unfolding set3 by (auto simp: abs_less_iff)
    have pos: "0 \<le> fst (?V m)" "0 \<le> fst (?V p)" "0 \<le> fst (?V q)" using x unfolding set3 by simp_all
    note ends = polygon_of_chains [OF u P _ _ cl(2) _ _ cl(1)]
    have area: "?V ` three = {?V m, ?V p, ?V q}" unfolding set3 by simp
    consider "snd (?V p) = snd (?V m)" | "snd (?V q) = snd (?V m)" | "snd (?V p) = snd (?V q)" "snd (?V m) < snd (?V p)"
      | "snd (?V m) < snd (?V p)" "snd (?V p) < snd (?V q)" | "snd (?V m) < snd (?V q)" "snd (?V q) < snd (?V p)"
      using low by linarith
    then show ?thesis
    proof cases
      case 1
      then have "snd (?V m) < snd (?V q)" using low by auto
      with 1 show ?thesis using ends [of q "[]" q "[]"] edge pos cyc inside low unfolding area slopes_three
        by (simp add: insert_commute)
    next
      case 2
      then have "snd (?V m) < snd (?V p)" using low by auto
      with 2 show ?thesis using ends [of p "[]" p "[]"] edge pos cyc inside low unfolding area slopes_three
        by (simp add: insert_commute)
    next
      case 3
      then show ?thesis using ends [of q "[]" p "[]"] edge pos cyc inside low unfolding area slopes_three
        by (simp add: insert_commute)
    next
      case 4
      then show ?thesis using ends [of q "[]" p "[q]"] edge pos cyc inside low unfolding area slopes_three
        by (simp add: insert_commute)
    next
      case 5
      then show ?thesis using ends [of q "[p]" p "[]"] edge pos cyc inside low unfolding area slopes_three
        by (simp add: insert_commute)
    qed
  qed
qed

text \<open>A triangle is drawn exactly: whatever its corners are, as long as none lies left of the display and
  their rows are less than 32768 apart, the command returns, and it paints those points of the display that
  lie on an edge or right of it and left of another one, in the rows from the highest corner to the one above
  the lowest: no point is left out, painted twice or painted outside, and no access leaves the buffer.\<close>

theorem triangle_exact:
  assumes "view_ok u" and "length (pg_list pg) = PG_MAX_POINTS"
    and "0 \<le> sint x0" and "0 \<le> sint x1" and "0 \<le> sint x2"
    and "\<bar>sint y0 - sint y1\<bar> < 32768" and "\<bar>sint y1 - sint y2\<bar> < 32768" and "\<bar>sint y2 - sint y0\<bar> < 32768"
  shows "\<exists>pg' v. u8g2_DrawTriangle x0 y0 x1 y1 x2 y2 (pg, u) = Some (pg', v) \<and>
    draws u (fill_area (slopes {(sint x0, sint y0), (sint x1, sint y1), (sint x2, sint y2)}) \<inter>
      {..<uint (width u)} \<times> {0..<uint (height u)}) v"
proof -
  define pg3 where "pg3 = u8g2_AddPolygonXY x2 y2 (u8g2_AddPolygonXY x1 y1 (u8g2_AddPolygonXY x0 y0 (u8g2_ClearPolygonXY pg)))"
  have list: "pg_list pg3 = (pg_list pg)[0 := \<lparr>pt_x = x0, pt_y = y0\<rparr>, 1 := \<lparr>pt_x = x1, pt_y = y1\<rparr>, 2 := \<lparr>pt_x = x2, pt_y = y2\<rparr>]"
    and cnt: "pg_cnt pg3 = 3"
    by (simp_all add: pg3_def u8g2_AddPolygonXY_def u8g2_ClearPolygonXY_def)
  have c: "corner pg3 0 = (sint x0, sint y0)" "corner pg3 1 = (sint x1, sint y1)" "corner pg3 2 = (sint x2, sint y2)"
    using assms(2) by (simp_all add: corner_def list)
  have "3 \<le> length (pg_list pg3)" using assms(2) by (simp add: list)
  moreover have "\<forall>i \<in> three. \<forall>j \<in> three. \<bar>snd (corner pg3 i) - snd (corner pg3 j)\<bar> < 32768"
    using assms(6-8) by (simp add: c abs_minus_commute)
  moreover have "\<forall>i \<in> three. 0 \<le> fst (corner pg3 i)" using assms(3-5) by (simp add: c)
  ultimately have "\<exists>pg' v. u8g2_DrawPolygon (pg3, u) = Some (pg', v) \<and> draws u (shown_area u (slopes (corner pg3 ` three))) v"
    by (intro polygon_three [OF assms(1) cnt])
  then show ?thesis by (simp add: u8g2_DrawTriangle_def Let_def shown_area_def c flip: pg3_def)
qed

theorem triangle_exact_witness:
  "\<exists>pg' v. u8g2_DrawTriangle 10 5 40 20 20 60 (u8g2_pg, u8g2_Setup_sh1106_i2c_128x64_winstar_f U8G2_R0 u8g2_zero) = Some (pg', v) \<and>
     draws (u8g2_Setup_sh1106_i2c_128x64_winstar_f U8G2_R0 u8g2_zero) (fill_area (slopes {(10, 5), (40, 20), (20, 60)}) \<inter>
       {..<128} \<times> {0..<64}) v"
proof -
  let ?u = "u8g2_Setup_sh1106_i2c_128x64_winstar_f U8G2_R0 u8g2_zero"
  have "uint (width ?u) = 128" "uint (height ?u) = 64" by code_simp+
  moreover have "length (pg_list u8g2_pg) = PG_MAX_POINTS" by (simp add: u8g2_pg_def)
  ultimately show ?thesis using triangle_exact [OF firmware_view(1) [of u8g2_zero], of u8g2_pg 10 40 20 5 20 60] by simp
qed

end
