(* ===== verification/U8x8_Menu.thy ===== *)
theory U8x8_Menu
  imports U8x8_Tiles
begin

text \<open>
  libs/u8g2/csrc: input by keys. u8x8_debounce.c (the keys as a state machine over the pin states),
  u8x8_selection_list.c (cursor and window of a list), u8x8_message.c and u8x8_input_value.c. The loops
  that wait for a key are partial functions: \<^term>\<open>None\<close> also stands for waiting without end. The pin
  procedure is an argument, as everywhere.
\<close>

section \<open>Keys\<close>

abbreviation (input) "U8X8_PIN_OUTPUT_CNT \<equiv> (16 :: u8)"
abbreviation (input) "U8X8_PIN_INPUT_CNT \<equiv> 6"
abbreviation (input) "U8X8_MSG_GPIO (pin :: u8) \<equiv> 64 + pin"
abbreviation (input) "U8X8_MSG_GPIO_MENU_SELECT \<equiv> (80 :: u8)"
abbreviation (input) "U8X8_MSG_GPIO_MENU_NEXT \<equiv> (81 :: u8)"
abbreviation (input) "U8X8_MSG_GPIO_MENU_PREV \<equiv> (82 :: u8)"
abbreviation (input) "U8X8_MSG_GPIO_MENU_HOME \<equiv> (83 :: u8)"
abbreviation (input) "U8X8_MSG_GPIO_MENU_UP \<equiv> (84 :: u8)"
abbreviation (input) "U8X8_MSG_GPIO_MENU_DOWN \<equiv> (85 :: u8)"
abbreviation (input) "U8X8_DEBOUNCE_WAIT \<equiv> (2 :: u8)"

text \<open>The loop over the input pins, with the number of pins left.\<close>

fun read_pins :: "'a u8x8_scheme msg_cb \<Rightarrow> u8 \<Rightarrow> nat \<Rightarrow> u8 \<Rightarrow> 'a u8x8_scheme \<Rightarrow> (u8 \<times> 'a u8x8_scheme) option" where
  "read_pins gpio i 0 pin_state u = Some (pin_state, u)"
| "read_pins gpio i (Suc n) pin_state u = do {
     let pin_state = push_bit 1 pin_state;
     let u = u\<lparr>gpio_result := 1\<rparr>;
     u \<leftarrow> u8x8_gpio_call gpio (U8X8_MSG_GPIO (i + U8X8_PIN_OUTPUT_CNT)) 0 u;
     read_pins gpio (i + 1) n (pin_state OR (gpio_result u AND 1)) u }"

definition u8x8_read_pin_state :: "'a u8x8_scheme msg_cb \<Rightarrow> 'a u8x8_scheme \<Rightarrow> (u8 \<times> 'a u8x8_scheme) option" where
  "u8x8_read_pin_state gpio u = read_pins gpio 0 U8X8_PIN_INPUT_CNT 255 u"

fun first_diff :: "u8 \<Rightarrow> u8 \<Rightarrow> u8 \<Rightarrow> nat \<Rightarrow> u8" where
  "first_diff a b m 0 = U8X8_PIN_INPUT_CNT"
| "first_diff a b m (Suc i) =
     (if a AND m \<noteq> b AND m then of_nat i else first_diff a b (push_bit 1 m) i)"

definition u8x8_find_first_diff :: "u8 \<Rightarrow> u8 \<Rightarrow> u8" where
  "u8x8_find_first_diff a b = first_diff a b 1 U8X8_PIN_INPUT_CNT"

text \<open>The state machine, given the pin state.\<close>

definition menu_event :: "u8 \<Rightarrow> 'a u8x8_scheme \<Rightarrow> u8 \<times> 'a u8x8_scheme" where
  "menu_event pin_state u =
     (if debounce_state u = 0x00 then
        (if debounce_default_pin_state u \<noteq> pin_state
         then (0, u\<lparr>debounce_state := 0x10 + U8X8_DEBOUNCE_WAIT\<rparr>) else (0, u))
      else if debounce_state u = 0x10 then
        (if debounce_default_pin_state u = pin_state then (0, u\<lparr>debounce_state := 0x00\<rparr>)
         else (0, u\<lparr>debounce_last_pin_state := pin_state, debounce_state := 0x20 + U8X8_DEBOUNCE_WAIT\<rparr>))
      else if debounce_state u = 0x20 then
        (if debounce_last_pin_state u \<noteq> pin_state then (0, u\<lparr>debounce_state := 0x00\<rparr>)
         else (0, u\<lparr>debounce_state := 0x30\<rparr>))
      else if debounce_state u = 0x30 then
        (if debounce_default_pin_state u = pin_state
         then (U8X8_MSG_GPIO (u8x8_find_first_diff (debounce_default_pin_state u) (debounce_last_pin_state u) +
                 U8X8_PIN_OUTPUT_CNT), u\<lparr>debounce_state := 0x00\<rparr>)
         else (0, u))
      else (0, u\<lparr>debounce_state := debounce_state u - 1\<rparr>))"

definition u8x8_GetMenuEvent :: "'a u8x8_scheme msg_cb \<Rightarrow> 'a u8x8_scheme \<Rightarrow> (u8 \<times> 'a u8x8_scheme) option" where
  "u8x8_GetMenuEvent gpio u = do {
     (pin_state, u) \<leftarrow> u8x8_read_pin_state gpio u;
     Some (menu_event pin_state u) }"

section \<open>Selection lists\<close>

record u8sl_t =
  sl_visible :: u8
  sl_total :: u8
  first_pos :: u8
  current_pos :: u8
  sl_x :: u8
  sl_y :: u8

text \<open>The sums of positions are computed as \<open>int\<close>.\<close>

definition u8sl_Next :: "u8sl_t \<Rightarrow> u8sl_t" where
  "u8sl_Next u8sl =
     (let u8sl = u8sl\<lparr>current_pos := current_pos u8sl + 1\<rparr>
      in if current_pos u8sl \<ge> sl_total u8sl then u8sl\<lparr>first_pos := 0, current_pos := 0\<rparr>
         else if uint (first_pos u8sl) + uint (sl_visible u8sl) \<le> uint (current_pos u8sl) + 1
         then u8sl\<lparr>first_pos := current_pos u8sl - sl_visible u8sl + 1\<rparr>
         else u8sl)"

definition u8sl_Prev :: "u8sl_t \<Rightarrow> u8sl_t" where
  "u8sl_Prev u8sl =
     (if current_pos u8sl = 0 then
        (let u8sl = u8sl\<lparr>first_pos := 0, current_pos := sl_total u8sl - 1\<rparr>
         in if sl_total u8sl > sl_visible u8sl then u8sl\<lparr>first_pos := sl_total u8sl - sl_visible u8sl\<rparr> else u8sl)
      else
        (let u8sl = u8sl\<lparr>current_pos := current_pos u8sl - 1\<rparr>
         in if first_pos u8sl > current_pos u8sl then u8sl\<lparr>first_pos := current_pos u8sl\<rparr> else u8sl))"

text \<open>Drawing calls a procedure for each visible line; it is given the list by reference.\<close>

type_synonym 's u8x8_sl_cb = "u8 \<Rightarrow> u8sl_t \<times> 's \<Rightarrow> (u8sl_t \<times> 's) option"

partial_function (option) sl_lines :: "'s u8x8_sl_cb \<Rightarrow> u8 \<Rightarrow> u8sl_t \<times> 's \<Rightarrow> (u8sl_t \<times> 's) option" where
  "sl_lines sl_cb i st =
     (if i < sl_visible (fst st)
      then Option.bind (sl_cb (i + first_pos (fst st)) st) (\<lambda>st. sl_lines sl_cb (i + 1) st)
      else Some st)"

definition u8x8_DrawSelectionList :: "'s u8x8_sl_cb \<Rightarrow> u8sl_t \<Rightarrow> 's \<Rightarrow> (u8sl_t \<times> 's) option" where
  "u8x8_DrawSelectionList sl_cb u8sl u = sl_lines sl_cb 0 (u8sl, u)"

definition u8x8_sl_string_line_cb ::
    "'a u8x8_scheme display_cb \<Rightarrow> string \<Rightarrow> 'a u8x8_scheme u8x8_sl_cb" where
  "u8x8_sl_string_line_cb display aux idx = (\<lambda>(u8sl, u). do {
     let row = sl_y u8sl;
     let row = row + idx;
     let row = row - first_pos u8sl;
     let u = (if idx = current_pos u8sl then u8x8_SetInverseFont 1 u else u8x8_SetInverseFont 0 u);
     let s = (case u8x8_GetStringLineStart idx aux of None \<Rightarrow> '''' | Some s \<Rightarrow> s);
     (_, u) \<leftarrow> u8x8_DrawUTF8Line display (sl_x u8sl) row (tile_width (display_info u)) s u;
     Some (u8sl, u8x8_SetInverseFont 0 u) })"

text \<open>The loop that waits for a key, moves the cursor and draws the list again.\<close>

partial_function (option) sl_events ::
    "'a u8x8_scheme display_cb \<Rightarrow> 'a u8x8_scheme msg_cb \<Rightarrow> string \<Rightarrow> u8sl_t \<Rightarrow> 'a u8x8_scheme \<Rightarrow>
       (u8 \<times> 'a u8x8_scheme) option" where
  "sl_events display gpio sl u8sl u =
     Option.bind (u8x8_GetMenuEvent gpio u) (\<lambda>(event, u).
       if event = U8X8_MSG_GPIO_MENU_SELECT then Some (current_pos u8sl + 1, u)
       else if event = U8X8_MSG_GPIO_MENU_HOME then Some (0, u)
       else if event = U8X8_MSG_GPIO_MENU_NEXT \<or> event = U8X8_MSG_GPIO_MENU_DOWN then
         Option.bind (u8x8_DrawSelectionList (u8x8_sl_string_line_cb display sl) (u8sl_Next u8sl) u)
           (\<lambda>(u8sl, u). sl_events display gpio sl u8sl u)
       else if event = U8X8_MSG_GPIO_MENU_PREV \<or> event = U8X8_MSG_GPIO_MENU_UP then
         Option.bind (u8x8_DrawSelectionList (u8x8_sl_string_line_cb display sl) (u8sl_Prev u8sl) u)
           (\<lambda>(u8sl, u). sl_events display gpio sl u8sl u)
       else sl_events display gpio sl u8sl u)"

text \<open>The list is not a null pointer; the title may be one.\<close>

definition u8x8_UserInterfaceSelectionList ::
    "'a u8x8_scheme display_cb \<Rightarrow> 'a u8x8_scheme msg_cb \<Rightarrow> string option \<Rightarrow> u8 \<Rightarrow> string \<Rightarrow>
       'a u8x8_scheme \<Rightarrow> (u8 \<times> 'a u8x8_scheme) option" where
  "u8x8_UserInterfaceSelectionList display gpio title start_pos sl u = do {
     let start_pos = (if start_pos > 0 then start_pos - 1 else start_pos);
     let u8sl = \<lparr>sl_visible = tile_height (display_info u), sl_total = u8x8_GetStringLineCnt (Some sl),
       first_pos = 0, current_pos = start_pos, sl_x = 0, sl_y = 0\<rparr>;
     let u = u8x8_SetInverseFont 0 u;
     (u8sl, u) \<leftarrow>
       (if title \<noteq> None then do {
          (title_lines, u) \<leftarrow>
            u8x8_DrawUTF8Lines display (sl_x u8sl) (sl_y u8sl) (tile_width (display_info u)) title u;
          let u8sl = u8sl\<lparr>sl_y := sl_y u8sl + title_lines\<rparr>;
          Some (u8sl\<lparr>sl_visible := sl_visible u8sl - title_lines\<rparr>, u) }
        else Some (u8sl, u));
     let u8sl = (if current_pos u8sl \<ge> sl_total u8sl then u8sl\<lparr>current_pos := sl_total u8sl - 1\<rparr> else u8sl);
     (u8sl, u) \<leftarrow> u8x8_DrawSelectionList (u8x8_sl_string_line_cb display sl) u8sl u;
     sl_events display gpio sl u8sl u }"

section \<open>Messages\<close>

function button_total :: "string \<Rightarrow> u8 \<Rightarrow> u8 \<Rightarrow> u8 \<times> 'a u8x8_scheme \<Rightarrow> (u8 \<times> 'a u8x8_scheme) option" where
  "button_total s cnt i (total_w, u) =
     (if i < cnt then
        (case u8x8_GetStringLineStart i s of
           None \<Rightarrow> None
         | Some line \<Rightarrow>
             (case u8x8_GetUTF8Len line u of
                None \<Rightarrow> None
              | Some (n, u) \<Rightarrow> button_total s cnt (i + 1) (total_w + n, u)))
      else Some (total_w, u))"
  by pat_completeness auto
termination
  by (relation "measure (\<lambda>(s, cnt, i, st). unat cnt - unat i)") (use count_up(1) in auto)

function draw_buttons ::
    "'a u8x8_scheme display_cb \<Rightarrow> u8 \<Rightarrow> u8 \<Rightarrow> string \<Rightarrow> u8 \<Rightarrow> u8 \<Rightarrow> u8 \<Rightarrow> 'a u8x8_scheme \<Rightarrow> 'a u8x8_scheme option" where
  "draw_buttons display y cursor s cnt i x u =
     (if i < cnt then
        let u = (if i = cursor then u8x8_SetInverseFont 1 u else u) in
        case u8x8_GetStringLineStart i s of
          None \<Rightarrow> None
        | Some line \<Rightarrow>
            (case u8x8_DrawUTF8 display x y line u of
               None \<Rightarrow> None
             | Some (n, u) \<Rightarrow>
                 (case u8x8_DrawUTF8 display (x + n) y '' '' (u8x8_SetInverseFont 0 u) of
                    None \<Rightarrow> None
                  | Some (m, u) \<Rightarrow> draw_buttons display y cursor s cnt (i + 1) (x + n + m) u))
      else Some u)"
  by pat_completeness auto
termination
  by (relation "measure (\<lambda>(display, y, cursor, s, cnt, i, x, u). unat cnt - unat i)") (use count_up(1) in auto)

declare button_total.simps [simp del] draw_buttons.simps [simp del]

text \<open>Without a string there are no buttons.\<close>

definition u8x8_draw_button_line ::
    "'a u8x8_scheme display_cb \<Rightarrow> u8 \<Rightarrow> u8 \<Rightarrow> u8 \<Rightarrow> string option \<Rightarrow> 'a u8x8_scheme \<Rightarrow> (u8 \<times> 'a u8x8_scheme) option" where
  "u8x8_draw_button_line display y w cursor s u = do {
     let cnt = u8x8_GetStringLineCnt s;
     let line = (case s of None \<Rightarrow> '''' | Some line \<Rightarrow> line);
     (total_w, u) \<leftarrow> button_total line cnt 0 (0, u);
     let total_w = total_w + (cnt - 1);
     let d = (if total_w < w then (w - total_w) div 2 else 0);
     let u = u8x8_SetInverseFont 0 u;
     u \<leftarrow> draw_buttons display y cursor line cnt 0 d u;
     Some (cnt, u) }"

partial_function (option) message_events ::
    "'a u8x8_scheme display_cb \<Rightarrow> 'a u8x8_scheme msg_cb \<Rightarrow> string option \<Rightarrow> u8 \<Rightarrow> u8 \<Rightarrow> u8 \<Rightarrow> 'a u8x8_scheme \<Rightarrow>
       (u8 \<times> 'a u8x8_scheme) option" where
  "message_events display gpio buttons y button_cnt cursor u =
     Option.bind (u8x8_GetMenuEvent gpio u) (\<lambda>(event, u).
       if event = U8X8_MSG_GPIO_MENU_SELECT then Some (cursor + 1, u)
       else if event = U8X8_MSG_GPIO_MENU_HOME then Some (0, u)
       else if event = U8X8_MSG_GPIO_MENU_NEXT \<or> event = U8X8_MSG_GPIO_MENU_UP then
         let cursor = cursor + 1;
             cursor = (if cursor \<ge> button_cnt then 0 else cursor)
         in Option.bind (u8x8_draw_button_line display y (tile_width (display_info u)) cursor buttons u)
              (\<lambda>(_, u). message_events display gpio buttons y button_cnt cursor u)
       else if event = U8X8_MSG_GPIO_MENU_PREV \<or> event = U8X8_MSG_GPIO_MENU_DOWN then
         let cursor = (if cursor = 0 then button_cnt else cursor);
             cursor = cursor - 1
         in Option.bind (u8x8_draw_button_line display y (tile_width (display_info u)) cursor buttons u)
              (\<lambda>(_, u). message_events display gpio buttons y button_cnt cursor u)
       else message_events display gpio buttons y button_cnt cursor u)"

definition u8x8_UserInterfaceMessage ::
    "'a u8x8_scheme display_cb \<Rightarrow> 'a u8x8_scheme msg_cb \<Rightarrow> string option \<Rightarrow> string option \<Rightarrow> string option \<Rightarrow>
       string option \<Rightarrow> 'a u8x8_scheme \<Rightarrow> (u8 \<times> 'a u8x8_scheme) option" where
  "u8x8_UserInterfaceMessage display gpio title1 title2 title3 buttons u = do {
     let u = u8x8_SetInverseFont 0 u;
     let h = 1 + u8x8_GetStringLineCnt title1;
     let h = (if title2 \<noteq> None then h + 1 else h);
     let h = h + u8x8_GetStringLineCnt title3;
     let rows = tile_height (display_info u);
     let y = (if h < rows then (rows - h) div 2 else 0);
     u \<leftarrow> u8x8_ClearDisplay display u;
     (n, u) \<leftarrow> u8x8_DrawUTF8Lines display 0 y (tile_width (display_info u)) title1 u;
     let y = y + n;
     (y, u) \<leftarrow>
       (case title2 of
          None \<Rightarrow> Some (y, u)
        | Some line \<Rightarrow> do {
            (_, u) \<leftarrow> u8x8_DrawUTF8Line display 0 y (tile_width (display_info u)) line u;
            Some (y + 1, u) });
     (n, u) \<leftarrow> u8x8_DrawUTF8Lines display 0 y (tile_width (display_info u)) title3 u;
     let y = y + n;
     (button_cnt, u) \<leftarrow> u8x8_draw_button_line display y (tile_width (display_info u)) 0 buttons u;
     message_events display gpio buttons y button_cnt 0 u }"

section \<open>Values\<close>

text \<open>The steps of the value between its limits.\<close>

definition value_up :: "u8 \<Rightarrow> u8 \<Rightarrow> u8 \<Rightarrow> u8" where
  "value_up lo hi v = (if v \<ge> hi then lo else v + 1)"

definition value_down :: "u8 \<Rightarrow> u8 \<Rightarrow> u8 \<Rightarrow> u8" where
  "value_down lo hi v = (if v \<le> lo then hi else v - 1)"

definition draw_value ::
    "'a u8x8_scheme display_cb \<Rightarrow> u8 \<Rightarrow> u8 \<Rightarrow> u8 \<Rightarrow> u8 \<Rightarrow> 'a u8x8_scheme \<Rightarrow> 'a u8x8_scheme option" where
  "draw_value display x y digits v u = do {
     bs \<leftarrow> u8x8_u8toa v digits;
     void (u8x8_DrawUTF8 display x y (digits_text bs) u) }"

text \<open>The result of the loop and the variable the value is stored to.\<close>

partial_function (option) value_events ::
    "(u8 \<Rightarrow> 'a u8x8_scheme \<Rightarrow> 'a u8x8_scheme option) \<Rightarrow> 'a u8x8_scheme msg_cb \<Rightarrow> u8 \<Rightarrow> u8 \<Rightarrow> u8 \<Rightarrow> u8 \<Rightarrow>
       'a u8x8_scheme \<Rightarrow> ((u8 \<times> u8) \<times> 'a u8x8_scheme) option" where
  "value_events draw gpio lo hi v local_value u =
     Option.bind (u8x8_GetMenuEvent gpio u) (\<lambda>(event, u).
       if event = U8X8_MSG_GPIO_MENU_SELECT then Some ((1, local_value), u)
       else if event = U8X8_MSG_GPIO_MENU_HOME then Some ((0, v), u)
       else if event = U8X8_MSG_GPIO_MENU_NEXT \<or> event = U8X8_MSG_GPIO_MENU_UP then
         Option.bind (draw (value_up lo hi local_value) u)
           (\<lambda>u. value_events draw gpio lo hi v (value_up lo hi local_value) u)
       else if event = U8X8_MSG_GPIO_MENU_PREV \<or> event = U8X8_MSG_GPIO_MENU_DOWN then
         Option.bind (draw (value_down lo hi local_value) u)
           (\<lambda>u. value_events draw gpio lo hi v (value_down lo hi local_value) u)
       else value_events draw gpio lo hi v local_value u)"

definition u8x8_UserInterfaceInputValue ::
    "'a u8x8_scheme display_cb \<Rightarrow> 'a u8x8_scheme msg_cb \<Rightarrow> string option \<Rightarrow> string \<Rightarrow> u8 \<Rightarrow> u8 \<Rightarrow> u8 \<Rightarrow> u8 \<Rightarrow> string \<Rightarrow>
       'a u8x8_scheme \<Rightarrow> ((u8 \<times> u8) \<times> 'a u8x8_scheme) option" where
  "u8x8_UserInterfaceInputValue display gpio title pre v lo hi digits post u = do {
     let h = 1 + u8x8_GetStringLineCnt title;
     let rows = tile_height (display_info u);
     let y = (if h < rows then (rows - h) div 2 else 0);
     (w, u) \<leftarrow> u8x8_GetUTF8Len pre u;
     let w = w + digits;
     (n, u) \<leftarrow> u8x8_GetUTF8Len post u;
     let w = w + n;
     let cols = tile_width (display_info u);
     let x = (if w < cols then (cols - w) div 2 else 0);
     u \<leftarrow> u8x8_ClearDisplay display u;
     let u = u8x8_SetInverseFont 0 u;
     (n, u) \<leftarrow> u8x8_DrawUTF8Lines display 0 y (tile_width (display_info u)) title u;
     let y = y + n;
     (n, u) \<leftarrow> u8x8_DrawUTF8 display x y pre u;
     let x = x + n;
     (_, u) \<leftarrow> u8x8_DrawUTF8 display (x + digits) y post u;
     let u = u8x8_SetInverseFont 1 u;
     u \<leftarrow> draw_value display x y digits v u;
     (r, u) \<leftarrow> value_events (draw_value display x y digits) gpio lo hi v v u;
     Some (r, u8x8_SetInverseFont 0 u) }"

section \<open>What the keys report\<close>

text \<open>The machine after a sequence of pin states; \<open>idle\<close> is its state A.\<close>

definition menu_after :: "u8 list \<Rightarrow> 'a u8x8_scheme \<Rightarrow> 'a u8x8_scheme" where
  "menu_after ps u = fold (\<lambda>p u. snd (menu_event p u)) ps u"

abbreviation (input) "idle u \<equiv> debounce_state u = 0"

lemma menu_after_simps [simp]:
  "menu_after [] u = u" "menu_after (p # ps) u = menu_after ps (snd (menu_event p u))"
  "menu_after (ps @ qs) u = menu_after qs (menu_after ps u)"
  by (simp_all add: menu_after_def)

lemma menu_event_default [simp]:
  "debounce_default_pin_state (snd (menu_event p u)) = debounce_default_pin_state u"
  by (simp add: menu_event_def)

lemma menu_after_default [simp]:
  "debounce_default_pin_state (menu_after ps u) = debounce_default_pin_state u"
  by (induction ps arbitrary: u) simp_all

text \<open>The pin states read since the machine left state A, in each of its states: a first deviation, two
  reads that do not count, the key, two that do not count, the key again, and any number of reads with
  some key down.\<close>

definition stage :: "u8 \<Rightarrow> u8 \<Rightarrow> u8 \<Rightarrow> u8 list \<Rightarrow> bool" where
  "stage d s k r \<longleftrightarrow>
     s = 0x12 \<and> (\<exists>a. r = [a] \<and> a \<noteq> d) \<or>
     s = 0x11 \<and> (\<exists>a x. r = [a, x] \<and> a \<noteq> d) \<or>
     s = 0x10 \<and> (\<exists>a x y. r = [a, x, y] \<and> a \<noteq> d) \<or>
     s = 0x22 \<and> (\<exists>a x y. r = [a, x, y, k] \<and> a \<noteq> d \<and> k \<noteq> d) \<or>
     s = 0x21 \<and> (\<exists>a x y z. r = [a, x, y, k, z] \<and> a \<noteq> d \<and> k \<noteq> d) \<or>
     s = 0x20 \<and> (\<exists>a x y z w. r = [a, x, y, k, z, w] \<and> a \<noteq> d \<and> k \<noteq> d) \<or>
     s = 0x30 \<and> (\<exists>a x y z w held. r = [a, x, y, k, z, w, k] @ held \<and> a \<noteq> d \<and> k \<noteq> d \<and> d \<notin> set held)"

lemma stage_step:
  assumes "stage (debounce_default_pin_state v) (debounce_state v) (debounce_last_pin_state v) r"
  shows "idle (snd (menu_event p v)) \<or> stage (debounce_default_pin_state v)
    (debounce_state (snd (menu_event p v))) (debounce_last_pin_state (snd (menu_event p v))) (r @ [p])"
  using assms unfolding stage_def by (elim disjE conjE exE) (auto simp: menu_event_def)

lemma stages:
  assumes "idle u"
  shows "idle (menu_after h u) \<or> (\<exists>pre r. h = pre @ r \<and> idle (menu_after pre u) \<and>
    stage (debounce_default_pin_state u) (debounce_state (menu_after h u)) (debounce_last_pin_state (menu_after h u)) r)"
proof (induction h rule: rev_induct)
  case Nil
  then show ?case using assms by simp
next
  case (snoc p h)
  let ?v = "menu_after h u"
  from snoc.IH show ?case
  proof (elim disjE exE conjE)
    assume idle: "idle ?v"
    then have "idle (snd (menu_event p ?v)) \<or> stage (debounce_default_pin_state u)
        (debounce_state (snd (menu_event p ?v))) (debounce_last_pin_state (snd (menu_event p ?v))) [p]"
      by (auto simp: menu_event_def stage_def)
    with idle show ?thesis by auto
  next
    fix pre r assume h: "h = pre @ r" "idle (menu_after pre u)"
      "stage (debounce_default_pin_state u) (debounce_state ?v) (debounce_last_pin_state ?v) r"
    from h(3) stage_step [of ?v r p] h(1,2) show ?thesis by auto
  qed
qed

lemma held_keys:
  assumes "debounce_state v = 0x30" and "debounce_default_pin_state v \<notin> set held"
  shows "menu_after held v = v"
  using assms by (induction held arbitrary: v) (auto simp: menu_event_def)

lemma press_stage:
  assumes "idle v" and "a \<noteq> debounce_default_pin_state v" and "k \<noteq> debounce_default_pin_state v"
    and "debounce_default_pin_state v \<notin> set held"
  shows "debounce_state (menu_after ([a, x, y, k, z, w, k] @ held) v) = 0x30"
    "debounce_last_pin_state (menu_after ([a, x, y, k, z, w, k] @ held) v) = k"
proof -
  let ?v = "menu_after [a, x, y, k, z, w, k] v"
  have v: "debounce_state ?v = 0x30" "debounce_last_pin_state ?v = k"
    "debounce_default_pin_state ?v = debounce_default_pin_state v"
    using assms(1-3) by (simp_all add: menu_event_def)
  then have "menu_after held ?v = ?v" using assms(4) by (intro held_keys) simp_all
  with v show "debounce_state (menu_after ([a, x, y, k, z, w, k] @ held) v) = 0x30"
    "debounce_last_pin_state (menu_after ([a, x, y, k, z, w, k] @ held) v) = k"
    by (simp_all only: menu_after_simps(3))
qed

lemma event_iff:
  "fst (menu_event p v) \<noteq> 0 \<longleftrightarrow> debounce_state v = 0x30 \<and> p = debounce_default_pin_state v"
proof -
  have "\<forall>i \<in> set [0..<7]. (64 :: u8) + (of_nat i + 16) \<noteq> 0" by code_simp
  moreover have "\<exists>i \<in> set [0..<7]. u8x8_find_first_diff a b = of_nat i" for a b
    unfolding u8x8_find_first_diff_def by (simp add: numeral_eq_Suc)
  ultimately have "64 + (u8x8_find_first_diff a b + 16) \<noteq> (0 :: u8)" for a b by metis
  then show ?thesis by (auto simp: menu_event_def)
qed

lemma single_key:
  "i < 6 \<Longrightarrow> u8x8_find_first_diff 255 (NOT (push_bit (5 - i) 1)) = of_nat i"
proof -
  have "\<forall>i \<in> set [0..<6]. u8x8_find_first_diff 255 (NOT (push_bit (5 - i) 1)) = of_nat i" by code_simp
  then show "i < 6 \<Longrightarrow> ?thesis" by simp
qed

lemma key_reported:
  assumes "idle u" and "d = debounce_default_pin_state u" and "m \<noteq> 0"
  shows "fst (menu_event p (menu_after h u)) = m \<longleftrightarrow>
    (\<exists>pre a x y k z w held. h = pre @ [a, x, y, k, z, w, k] @ held \<and> idle (menu_after pre u) \<and>
       a \<noteq> d \<and> k \<noteq> d \<and> d \<notin> set held \<and> p = d \<and> m = U8X8_MSG_GPIO (u8x8_find_first_diff d k + U8X8_PIN_OUTPUT_CNT))"
    (is "?event \<longleftrightarrow> ?press")
proof
  assume event: ?event
  let ?v = "menu_after h u"
  have s: "debounce_state ?v = 0x30" "p = d" using event event_iff [of p ?v] assms(2,3) by auto
  then have m: "m = U8X8_MSG_GPIO (u8x8_find_first_diff d (debounce_last_pin_state ?v) + U8X8_PIN_OUTPUT_CNT)"
    using event assms(2) by (simp add: menu_event_def)
  from stages [OF assms(1), of h] s(1) obtain pre r where h: "h = pre @ r" "idle (menu_after pre u)"
    "stage d 0x30 (debounce_last_pin_state ?v) r" using assms(2) by auto
  from h(3) obtain a x y z w held where "r = [a, x, y, debounce_last_pin_state ?v, z, w, debounce_last_pin_state ?v] @ held"
      "a \<noteq> d" "debounce_last_pin_state ?v \<noteq> d" "d \<notin> set held"
    by (auto simp: stage_def)
  with h(1,2) s(2) m show ?press by blast
next
  assume ?press
  then obtain pre a x y k z w held where h: "h = pre @ [a, x, y, k, z, w, k] @ held" "idle (menu_after pre u)"
    "a \<noteq> d" "k \<noteq> d" "d \<notin> set held" "p = d" "m = U8X8_MSG_GPIO (u8x8_find_first_diff d k + U8X8_PIN_OUTPUT_CNT)"
    by blast
  let ?v = "menu_after h u"
  have "debounce_state ?v = 0x30" "debounce_last_pin_state ?v = k"
    unfolding h(1) menu_after_simps(3) [of pre] using press_stage [OF h(2)] h(3-5) assms(2) by simp_all
  then show ?event using h(6,7) assms(2) by (simp add: menu_event_def)
qed

text \<open>The pin procedure of a board with a level for each pin, and what the keys read then.\<close>

definition pin_levels :: "(u8 \<Rightarrow> u8) \<Rightarrow> 'a u8x8_scheme msg_cb" where
  "pin_levels level msg arg p u = Some (1, u\<lparr>gpio_result := level msg\<rparr>)"

definition keys_read :: "(u8 \<Rightarrow> u8) \<Rightarrow> u8" where
  "keys_read level = fold (\<lambda>i s. push_bit 1 s OR (level (80 + of_nat i) AND 1)) [0..<6] 255"

lemma call_levels [simp]:
  "u8x8_gpio_call (pin_levels level) msg arg u = Some (u\<lparr>gpio_result := level msg\<rparr>)"
  by (simp add: u8x8_gpio_call_def call_def pin_levels_def)

lemma read_levels:
  "read_pins (pin_levels level) (of_nat i) n s (u\<lparr>gpio_result := g\<rparr>) = Some (p, v) \<Longrightarrow>
     \<exists>g. v = u\<lparr>gpio_result := g\<rparr> \<and> p = fold (\<lambda>i s. push_bit 1 s OR (level (80 + of_nat i) AND 1)) [i..<i + n] s"
proof (induction n arbitrary: i s g)
  case (Suc n)
  have "read_pins (pin_levels level) (of_nat (Suc i)) n (push_bit 1 s OR (level (80 + of_nat i) AND 1))
      (u\<lparr>gpio_result := level (80 + of_nat i)\<rparr>) = Some (p, v)"
    using Suc.prems by (simp add: ac_simps)
  from Suc.IH [OF this] show ?case by (simp add: upt_rec [of i] del: upt_Suc)
qed auto

lemma read_levels_Some: "\<exists>r. read_pins (pin_levels level) i n s u = Some r"
  by (induction n arbitrary: i s u) simp_all

lemma menu_event_gpio [simp]:
  "menu_event p (u\<lparr>gpio_result := g\<rparr>) = (fst (menu_event p u), (snd (menu_event p u))\<lparr>gpio_result := g\<rparr>)"
  by (simp add: menu_event_def)

lemma GetMenuEvent_levels:
  "\<exists>g. u8x8_GetMenuEvent (pin_levels level) (u\<lparr>gpio_result := g'\<rparr>) =
     Some (fst (menu_event (keys_read level) u), (snd (menu_event (keys_read level) u))\<lparr>gpio_result := g\<rparr>)"
proof -
  obtain p v where r: "u8x8_read_pin_state (pin_levels level) (u\<lparr>gpio_result := g'\<rparr>) = Some (p, v)"
    using read_levels_Some unfolding u8x8_read_pin_state_def by (metis surj_pair)
  then have "read_pins (pin_levels level) (of_nat 0) 6 255 (u\<lparr>gpio_result := g'\<rparr>) = Some (p, v)"
    by (simp add: u8x8_read_pin_state_def)
  from read_levels [OF this] obtain g where "v = u\<lparr>gpio_result := g\<rparr>" "p = keys_read level"
    by (auto simp: keys_read_def)
  with r show ?thesis by (auto simp: u8x8_GetMenuEvent_def)
qed

definition menu_calls :: "(u8 \<Rightarrow> u8) list \<Rightarrow> 'a u8x8_scheme \<Rightarrow> 'a u8x8_scheme option" where
  "menu_calls = foldo (\<lambda>u level. void (u8x8_GetMenuEvent (pin_levels level) u))"

lemma menu_calls_after:
  "\<exists>g. menu_calls ls (u\<lparr>gpio_result := g'\<rparr>) = Some ((menu_after (map keys_read ls) u)\<lparr>gpio_result := g\<rparr>)"
proof (induction ls arbitrary: u g')
  case (Cons level ls)
  obtain g where "u8x8_GetMenuEvent (pin_levels level) (u\<lparr>gpio_result := g'\<rparr>) =
     Some (fst (menu_event (keys_read level) u), (snd (menu_event (keys_read level) u))\<lparr>gpio_result := g\<rparr>)"
    using GetMenuEvent_levels by blast
  with Cons.IH [where u = "snd (menu_event (keys_read level) u)" and g' = g] show ?case
    by (simp add: menu_calls_def void_def)
qed (auto simp: menu_calls_def)

text \<open>C23: from the idle state, a call of the key procedure reports a message exactly if the last pin
  states were a press: a deviation from the released state, two reads, a key, two reads, the same
  key, any number of reads that are not released, and then the release; the message is the one of the
  first key that differs. Nothing else is ever reported.\<close>

theorem key_event_iff_press:
  assumes "idle u" and "d = debounce_default_pin_state u" and "m \<noteq> 0"
  shows "\<exists>v. menu_calls ls u = Some v \<and>
    ((\<exists>w. u8x8_GetMenuEvent (pin_levels level) v = Some (m, w)) \<longleftrightarrow>
     (\<exists>pre a x y k z w held. map keys_read ls = pre @ [a, x, y, k, z, w, k] @ held \<and> idle (menu_after pre u) \<and>
        a \<noteq> d \<and> k \<noteq> d \<and> d \<notin> set held \<and> keys_read level = d \<and>
        m = U8X8_MSG_GPIO (u8x8_find_first_diff d k + U8X8_PIN_OUTPUT_CNT)))"
proof -
  obtain g where v: "menu_calls ls u = Some ((menu_after (map keys_read ls) u)\<lparr>gpio_result := g\<rparr>)"
    using menu_calls_after [where u = u and g' = "gpio_result u"] by auto
  moreover have "(\<exists>w. u8x8_GetMenuEvent (pin_levels level) ((menu_after (map keys_read ls) u)\<lparr>gpio_result := g\<rparr>) = Some (m, w)) \<longleftrightarrow>
      fst (menu_event (keys_read level) (menu_after (map keys_read ls) u)) = m"
    using GetMenuEvent_levels [where level = level and u = "menu_after (map keys_read ls) u" and g' = g] by auto
  ultimately show ?thesis using key_reported [OF assms, of "keys_read level" "map keys_read ls"] by auto
qed

lemma key_event_iff_press_witness:
  "\<exists>v w. menu_calls (replicate 9 (\<lambda>msg. if msg = U8X8_MSG_GPIO_MENU_NEXT then 0 else 1))
      (u8x8_SetupDefaults u8g2_zero) = Some v \<and>
    u8x8_GetMenuEvent (pin_levels (\<lambda>msg. 1)) v = Some (U8X8_MSG_GPIO_MENU_NEXT, w)"
proof -
  let ?u = "u8x8_SetupDefaults u8g2_zero" and ?down = "\<lambda>msg :: u8. if msg = 81 then 0 else (1 :: u8)"
  have "idle ?u" "255 = debounce_default_pin_state ?u" "(81 :: u8) \<noteq> 0"
    by (simp_all add: u8x8_SetupDefaults_def u8g2_zero_def)
  from key_event_iff_press [OF this, of "replicate 9 ?down" "\<lambda>_. 1"]
  obtain v where v: "menu_calls (replicate 9 ?down) ?u = Some v"
    "(\<exists>w. u8x8_GetMenuEvent (pin_levels (\<lambda>_. 1)) v = Some (81, w)) \<longleftrightarrow>
     (\<exists>pre a x y k z w held. map keys_read (replicate 9 ?down) = pre @ [a, x, y, k, z, w, k] @ held \<and>
        idle (menu_after pre ?u) \<and> a \<noteq> 255 \<and> k \<noteq> 255 \<and> 255 \<notin> set held \<and> keys_read (\<lambda>_. 1) = 255 \<and>
        81 = U8X8_MSG_GPIO (u8x8_find_first_diff 255 k + U8X8_PIN_OUTPUT_CNT))" by blast
  have "keys_read ?down = 239" "keys_read (\<lambda>_. 1) = 255" by code_simp+
  moreover have "81 = 64 + (u8x8_find_first_diff 255 239 + 16)" by code_simp
  ultimately have "map keys_read (replicate 9 ?down) = [] @ [239, 239, 239, 239, 239, 239, 239] @ [239, 239]"
    "idle (menu_after [] ?u)" "keys_read (\<lambda>_. 1) = 255" "81 = 64 + (u8x8_find_first_diff 255 239 + 16)"
    by (simp_all add: numeral_eq_Suc u8x8_SetupDefaults_def u8g2_zero_def)
  moreover have "(239 :: u8) \<noteq> 255" "(255 :: u8) \<notin> set [239, 239]" by simp_all
  ultimately have "\<exists>w. u8x8_GetMenuEvent (pin_levels (\<lambda>_. 1)) v = Some (81, w)"
    using v(2) by blast
  with v(1) show ?thesis by blast
qed

section \<open>Where the cursor of a list is\<close>

text \<open>The cursor is in the list and visible, and the window ends with the list unless it starts it.\<close>

definition list_ok :: "u8sl_t \<Rightarrow> bool" where
  "list_ok sl \<longleftrightarrow> current_pos sl < sl_total sl \<and> first_pos sl \<le> current_pos sl \<and>
     uint (current_pos sl) < uint (first_pos sl) + uint (sl_visible sl) \<and>
     (first_pos sl = 0 \<or> uint (first_pos sl) + uint (sl_visible sl) \<le> uint (sl_total sl))"

lemma Next_ok:
  assumes "list_ok sl"
  shows "list_ok (u8sl_Next sl)" "uint (current_pos (u8sl_Next sl)) = (uint (current_pos sl) + 1) mod uint (sl_total sl)"
proof -
  note ok = assms [unfolded list_ok_def]
  have "list_ok (u8sl_Next sl) \<and> uint (current_pos (u8sl_Next sl)) = (uint (current_pos sl) + 1) mod uint (sl_total sl)"
  proof (cases "uint (current_pos sl) + 1 = uint (sl_total sl)")
    case True
    moreover from this have "0 < uint (sl_total sl)" using uint_u8(1) [of "current_pos sl"] by linarith
    ultimately show ?thesis using ok uint_u8 [of "sl_total sl"] uint_u8 [of "first_pos sl"]
      by (auto simp: u8sl_Next_def list_ok_def Let_def u8_int)
  next
    case False
    then have lt: "uint (current_pos sl) + 1 < uint (sl_total sl)" using ok by (simp add: u8_int)
    then have m: "(uint (current_pos sl) + 1) mod uint (sl_total sl) = uint (current_pos sl) + 1"
      using uint_u8 [of "current_pos sl"] by simp
    show ?thesis
      unfolding m using ok lt uint_u8(2) [of "sl_total sl"] uint_u8(2) [of "sl_visible sl"]
      by (auto simp: u8sl_Next_def list_ok_def Let_def u8_int) (use uint_u8(1) [of "first_pos sl"] in linarith)+
  qed
  then show "list_ok (u8sl_Next sl)"
    "uint (current_pos (u8sl_Next sl)) = (uint (current_pos sl) + 1) mod uint (sl_total sl)" by simp_all
qed

lemma Prev_ok:
  assumes "list_ok sl"
  shows "list_ok (u8sl_Prev sl)" "uint (current_pos (u8sl_Prev sl)) = (uint (current_pos sl) - 1) mod uint (sl_total sl)"
proof -
  note ok = assms [unfolded list_ok_def]
  have "list_ok (u8sl_Prev sl) \<and> uint (current_pos (u8sl_Prev sl)) = (uint (current_pos sl) - 1) mod uint (sl_total sl)"
  proof (cases "current_pos sl = 0")
    case True
    have "(- 1) mod uint (sl_total sl) = uint (sl_total sl) - 1"
      using ok True by (simp add: u8_int zmod_minus1)
    then show ?thesis using ok True uint_u8 [of "sl_total sl"] uint_u8 [of "first_pos sl"] uint_u8 [of "sl_visible sl"]
      by (auto simp: u8sl_Prev_def list_ok_def Let_def u8_int)
  next
    case False
    then have pos: "0 < uint (current_pos sl)" by (simp add: word_uint_eq_iff order_less_le)
    then have m: "(uint (current_pos sl) - 1) mod uint (sl_total sl) = uint (current_pos sl) - 1"
      using ok pos by (intro mod_pos_pos_trivial) (auto simp: u8_int)
    show ?thesis
      unfolding m using ok False uint_u8(2) [of "sl_total sl"] uint_u8(2) [of "sl_visible sl"]
      by (auto simp: u8sl_Prev_def list_ok_def Let_def u8_int) (use pos in linarith)+
  qed
  then show "list_ok (u8sl_Prev sl)"
    "uint (current_pos (u8sl_Prev sl)) = (uint (current_pos sl) - 1) mod uint (sl_total sl)" by simp_all
qed

lemma moves_keep [simp]:
  "sl_total (u8sl_Next sl) = sl_total sl" "sl_total (u8sl_Prev sl) = sl_total sl"
  "sl_visible (u8sl_Next sl) = sl_visible sl" "sl_visible (u8sl_Prev sl) = sl_visible sl"
  by (simp_all add: u8sl_Next_def u8sl_Prev_def Let_def)

text \<open>The keys pressed in a list: \<^term>\<open>True\<close> for the next line, \<^term>\<open>False\<close> for the one before.\<close>

definition sl_keys :: "bool list \<Rightarrow> u8sl_t \<Rightarrow> u8sl_t" where
  "sl_keys = fold (\<lambda>forward sl. if forward then u8sl_Next sl else u8sl_Prev sl)"

lemma mod_shift: "(x mod t + a - b) mod t = (x + a - b) mod (t :: int)"
  using mod_add_left_eq [of x t "a - b"] by (simp add: algebra_simps)

lemma sl_keys_ok:
  "list_ok sl \<Longrightarrow> list_ok (sl_keys ks sl) \<and> sl_total (sl_keys ks sl) = sl_total sl \<and> sl_visible (sl_keys ks sl) = sl_visible sl \<and>
     uint (current_pos (sl_keys ks sl)) =
       (uint (current_pos sl) + int (count_list ks True) - int (count_list ks False)) mod uint (sl_total sl)"
proof (induction ks arbitrary: sl)
  case Nil
  then show ?case by (simp add: sl_keys_def list_ok_def u8_int)
next
  case (Cons k ks)
  have shift: "((uint (current_pos sl) + (if k then 1 else - 1)) mod uint (sl_total sl) +
      int (count_list ks True) - int (count_list ks False)) mod uint (sl_total sl)
    = (uint (current_pos sl) + int (count_list (k # ks) True) - int (count_list (k # ks) False)) mod uint (sl_total sl)"
    unfolding mod_shift by (simp add: algebra_simps)
  show ?case
    using Cons.IH [of "if k then u8sl_Next sl else u8sl_Prev sl"] Next_ok [OF Cons.prems] Prev_ok [OF Cons.prems] shift
    by (cases k) (simp_all add: sl_keys_def)
qed

end
