(* ===== verification/U8x8_Log.thy ===== *)
theory U8x8_Log
  imports U8x8_Tiles
begin

text \<open>
  libs/u8g2/csrc: u8log.c, a terminal in a buffer of characters, and u8log_u8x8.c, which draws it with
  tile fonts. The buffer of the caller is the list of its bytes; an access outside it is undefined.
  \<open>aux_data\<close> and the procedure in \<open>cb\<close> are the argument \<open>redraw\<close> of the writing procedures, which is
  called for the procedure the field names.
\<close>

section \<open>The terminal\<close>

datatype u8log_cb = U8log_U8x8_Cb | U8log_U8g2_Cb

record u8log_t =
  log_width :: u8
  log_height :: u8
  log_cb :: "u8log_cb option"
  screen_buffer :: "u8 list"
  is_redraw_line_for_each_char :: u8
  line_height_offset :: u8
  cursor_x :: u8
  cursor_y :: u8
  redraw_line :: u8
  is_redraw_line :: u8
  is_redraw_all :: u8
  is_redraw_all_required_for_next_nl :: u8

definition put_byte :: "nat \<Rightarrow> u8 \<Rightarrow> u8 list \<Rightarrow> u8 list option" where
  "put_byte i b buf = (if i < length buf then Some (buf[i := b]) else None)"

text \<open>The loops write before they test the counter.\<close>

function fill_loop :: "nat \<Rightarrow> u16 \<Rightarrow> u8 list \<Rightarrow> u8 list option" where
  "fill_loop dest cnt buf =
     (case put_byte dest 32 buf of
        None \<Rightarrow> None
      | Some buf' \<Rightarrow> let cnt = cnt - 1 in if cnt > 0 then fill_loop (dest + 1) cnt buf' else Some buf')"
  by pat_completeness auto
termination
  by (relation "measure (\<lambda>(dest, cnt, buf). length buf - dest)") (auto simp: put_byte_def split: if_splits)

function copy_loop :: "nat \<Rightarrow> nat \<Rightarrow> u16 \<Rightarrow> u8 list \<Rightarrow> (nat \<times> u8 list) option" where
  "copy_loop dest src cnt buf =
     (if src < length buf then
        (case put_byte dest (buf ! src) buf of
           None \<Rightarrow> None
         | Some buf' \<Rightarrow>
             let cnt = cnt - 1 in if cnt > 0 then copy_loop (dest + 1) (src + 1) cnt buf' else Some (dest + 1, buf'))
      else None)"
  by pat_completeness auto
termination
  by (relation "measure (\<lambda>(dest, src, cnt, buf). length buf - src)") (auto simp: put_byte_def split: if_splits)

declare fill_loop.simps [simp del] copy_loop.simps [simp del]

definition u8log_clear_screen :: "u8log_t \<Rightarrow> u8log_t option" where
  "u8log_clear_screen l = do {
     let cnt = (ucast (log_height l) :: u16);
     let cnt = cnt * ucast (log_width l);
     buf \<leftarrow> fill_loop 0 cnt (screen_buffer l);
     Some (l\<lparr>screen_buffer := buf\<rparr>) }"

definition u8log_scroll_up :: "u8log_t \<Rightarrow> u8log_t option" where
  "u8log_scroll_up l = do {
     let cnt = (ucast (log_height l) :: u16);
     let cnt = cnt - 1;
     let cnt = cnt * ucast (log_width l);
     (dest, buf) \<leftarrow> copy_loop 0 (unat (log_width l)) cnt (screen_buffer l);
     buf \<leftarrow> fill_loop dest (ucast (log_width l)) buf;
     let l = l\<lparr>screen_buffer := buf\<rparr>;
     Some (if is_redraw_line_for_each_char l \<noteq> 0 then l\<lparr>is_redraw_all := 1\<rparr>
           else l\<lparr>is_redraw_all_required_for_next_nl := 1\<rparr>) }"

partial_function (option) scroll_loop :: "u8log_t \<Rightarrow> u8log_t option" where
  "scroll_loop l =
     (if cursor_y l \<ge> log_height l
      then Option.bind (u8log_scroll_up l) (\<lambda>l. scroll_loop (l\<lparr>cursor_y := cursor_y l - 1\<rparr>))
      else Some l)"

definition u8log_cursor_on_screen :: "u8log_t \<Rightarrow> u8log_t option" where
  "u8log_cursor_on_screen l =
     (let l = (if cursor_x l \<ge> log_width l then l\<lparr>cursor_x := 0, cursor_y := cursor_y l + 1\<rparr> else l)
      in scroll_loop l)"

definition u8log_write_to_screen :: "u8 \<Rightarrow> u8log_t \<Rightarrow> u8log_t option" where
  "u8log_write_to_screen c l = do {
     l \<leftarrow> u8log_cursor_on_screen l;
     buf \<leftarrow> put_byte (unat (cursor_y l) * unat (log_width l) + unat (cursor_x l)) c (screen_buffer l);
     let l = l\<lparr>screen_buffer := buf\<rparr>;
     let l = l\<lparr>cursor_x := cursor_x l + 1\<rparr>;
     Some (if is_redraw_line_for_each_char l \<noteq> 0 then l\<lparr>redraw_line := cursor_y l, is_redraw_line := 1\<rparr> else l) }"

definition u8log_write_char :: "u8 \<Rightarrow> u8log_t \<Rightarrow> u8log_t option" where
  "u8log_write_char c l =
     (if c = 10 then
        (let l = l\<lparr>redraw_line := cursor_y l, is_redraw_line := 1\<rparr>;
             l = (if is_redraw_all_required_for_next_nl l \<noteq> 0 then l\<lparr>is_redraw_all := 1\<rparr> else l);
             l = l\<lparr>is_redraw_all_required_for_next_nl := 0\<rparr>;
             l = l\<lparr>cursor_y := cursor_y l + 1\<rparr>
         in Some (l\<lparr>cursor_x := 0\<rparr>))
      else if c = 13 then
        (let l = l\<lparr>redraw_line := cursor_y l, is_redraw_line := 1\<rparr>
         in Some (l\<lparr>cursor_x := 0\<rparr>))
      else if c = 9 then Some (l\<lparr>cursor_x := (cursor_x l + 8) AND 0xf8\<rparr>)
      else if c = 12 then
        map_option (\<lambda>l. l\<lparr>cursor_x := 0, cursor_y := 0, is_redraw_all := 1\<rparr>) (u8log_clear_screen l)
      else u8log_write_to_screen c l)"

text \<open>\<open>memset\<close> has set all bytes to zero.\<close>

definition u8log_Init :: "u8 \<Rightarrow> u8 \<Rightarrow> u8 list \<Rightarrow> u8log_t option" where
  "u8log_Init w h buf =
     (let l = \<lparr>log_width = 0, log_height = 0, log_cb = None, screen_buffer = [], is_redraw_line_for_each_char = 0,
        line_height_offset = 0, cursor_x = 0, cursor_y = 0, redraw_line = 0, is_redraw_line = 0, is_redraw_all = 0,
        is_redraw_all_required_for_next_nl = 0\<rparr>
      in u8log_clear_screen (l\<lparr>log_width := w, log_height := h, screen_buffer := buf\<rparr>))"

definition u8log_SetCallback :: "u8log_cb option \<Rightarrow> u8log_t \<Rightarrow> u8log_t" where
  "u8log_SetCallback f l = l\<lparr>log_cb := f\<rparr>"

definition u8log_SetRedrawMode :: "u8 \<Rightarrow> u8log_t \<Rightarrow> u8log_t" where
  "u8log_SetRedrawMode b l = l\<lparr>is_redraw_line_for_each_char := b\<rparr>"

definition u8log_SetLineHeightOffset :: "u8 \<Rightarrow> u8log_t \<Rightarrow> u8log_t" where
  "u8log_SetLineHeightOffset off l = l\<lparr>line_height_offset := off\<rparr>"

type_synonym 's log_redraw = "u8log_cb \<Rightarrow> u8log_t \<Rightarrow> 's \<Rightarrow> 's option"

definition u8log_WriteChar :: "'s log_redraw \<Rightarrow> u8 \<Rightarrow> u8log_t \<times> 's \<Rightarrow> (u8log_t \<times> 's) option" where
  "u8log_WriteChar redraw c = (\<lambda>(l, s). do {
     l \<leftarrow> u8log_write_char c l;
     if is_redraw_line l \<noteq> 0 \<or> is_redraw_all l \<noteq> 0 then do {
       s \<leftarrow> (case log_cb l of None \<Rightarrow> Some s | Some f \<Rightarrow> redraw f l s);
       Some (l\<lparr>is_redraw_line := 0, is_redraw_all := 0\<rparr>, s) }
     else Some (l, s) })"

text \<open>A string ends at its NUL.\<close>

definition u8log_WriteString :: "'s log_redraw \<Rightarrow> string \<Rightarrow> u8log_t \<times> 's \<Rightarrow> (u8log_t \<times> 's) option" where
  "u8log_WriteString redraw str = foldo (\<lambda>st c. u8log_WriteChar redraw (byte_of c) st) (c_str str)"

definition u8log_WriteHexHalfByte :: "'s log_redraw \<Rightarrow> u8 \<Rightarrow> u8log_t \<times> 's \<Rightarrow> (u8log_t \<times> 's) option" where
  "u8log_WriteHexHalfByte redraw b st =
     (let b = b AND 0x0f
      in if b < 10 then u8log_WriteChar redraw (b + 48) st else u8log_WriteChar redraw (b + 97 - 10) st)"

definition u8log_WriteHex8 :: "'s log_redraw \<Rightarrow> u8 \<Rightarrow> u8log_t \<times> 's \<Rightarrow> (u8log_t \<times> 's) option" where
  "u8log_WriteHex8 redraw b st = do {
     st \<leftarrow> u8log_WriteHexHalfByte redraw (drop_bit 4 b) st;
     u8log_WriteHexHalfByte redraw b st }"

definition u8log_WriteHex16 :: "'s log_redraw \<Rightarrow> u16 \<Rightarrow> u8log_t \<times> 's \<Rightarrow> (u8log_t \<times> 's) option" where
  "u8log_WriteHex16 redraw v st = do {
     st \<leftarrow> u8log_WriteHex8 redraw (ucast (drop_bit 8 v)) st;
     u8log_WriteHex8 redraw (ucast v) st }"

definition u8log_WriteHex32 :: "'s log_redraw \<Rightarrow> u32 \<Rightarrow> u8log_t \<times> 's \<Rightarrow> (u8log_t \<times> 's) option" where
  "u8log_WriteHex32 redraw v st = do {
     st \<leftarrow> u8log_WriteHex16 redraw (ucast (drop_bit 16 v)) st;
     u8log_WriteHex16 redraw (ucast v) st }"

definition u8log_WriteDec8 :: "'s log_redraw \<Rightarrow> u8 \<Rightarrow> u8 \<Rightarrow> u8log_t \<times> 's \<Rightarrow> (u8log_t \<times> 's) option" where
  "u8log_WriteDec8 redraw v d st =
     Option.bind (u8x8_u8toa v d) (\<lambda>bs. u8log_WriteString redraw (digits_text bs) st)"

definition u8log_WriteDec16 :: "'s log_redraw \<Rightarrow> u16 \<Rightarrow> u8 \<Rightarrow> u8log_t \<times> 's \<Rightarrow> (u8log_t \<times> 's) option" where
  "u8log_WriteDec16 redraw v d st =
     Option.bind (u8x8_u16toa v d) (\<lambda>bs. u8log_WriteString redraw (digits_text bs) st)"

section \<open>Drawing it with tile fonts\<close>

definition log_char :: "u8log_t \<Rightarrow> u8 \<Rightarrow> u8 \<Rightarrow> u8 option" where
  "log_char l buf_x buf_y =
     (let i = unat buf_y * unat (log_width l) + unat buf_x
      in if i < length (screen_buffer l) then Some (screen_buffer l ! i) else None)"

function log_line ::
    "'a u8x8_scheme display_cb \<Rightarrow> u8 \<Rightarrow> u8 \<Rightarrow> u8 \<Rightarrow> u8 \<Rightarrow> u8log_t \<Rightarrow> 'a u8x8_scheme \<Rightarrow> 'a u8x8_scheme option" where
  "log_line display disp_x disp_y buf_x buf_y l u =
     (if buf_x < log_width l then
        (case log_char l buf_x buf_y of
           None \<Rightarrow> None
         | Some c \<Rightarrow>
             (case u8x8_DrawGlyph display disp_x disp_y c u of
                None \<Rightarrow> None
              | Some u \<Rightarrow> log_line display (disp_x + 1) disp_y (buf_x + 1) buf_y l u))
      else Some u)"
  by pat_completeness auto
termination
  by (relation "measure (\<lambda>(display, disp_x, disp_y, buf_x, buf_y, l, u). unat (log_width l) - unat buf_x)")
    (use count_up(1) in auto)

declare log_line.simps [simp del]

definition u8x8_DrawLogLine ::
    "'a u8x8_scheme display_cb \<Rightarrow> u8 \<Rightarrow> u8 \<Rightarrow> u8 \<Rightarrow> u8log_t \<Rightarrow> 'a u8x8_scheme \<Rightarrow> 'a u8x8_scheme option" where
  "u8x8_DrawLogLine display disp_x disp_y buf_y l u = log_line display disp_x disp_y 0 buf_y l u"

function log_rows ::
    "'a u8x8_scheme display_cb \<Rightarrow> u8 \<Rightarrow> u8 \<Rightarrow> u8 \<Rightarrow> u8log_t \<Rightarrow> 'a u8x8_scheme \<Rightarrow> 'a u8x8_scheme option" where
  "log_rows display x y buf_y l u =
     (if buf_y < log_height l then
        (case u8x8_DrawLogLine display x y buf_y l u of
           None \<Rightarrow> None
         | Some u \<Rightarrow> log_rows display x (y + 1) (buf_y + 1) l u)
      else Some u)"
  by pat_completeness auto
termination
  by (relation "measure (\<lambda>(display, x, y, buf_y, l, u). unat (log_height l) - unat buf_y)") (use count_up(1) in auto)

declare log_rows.simps [simp del]

definition u8x8_DrawLog :: "'a u8x8_scheme display_cb \<Rightarrow> u8 \<Rightarrow> u8 \<Rightarrow> u8log_t \<Rightarrow> 'a u8x8_scheme \<Rightarrow> 'a u8x8_scheme option" where
  "u8x8_DrawLog display x y l u = log_rows display x y 0 l u"

definition u8log_u8x8_cb :: "'a u8x8_scheme display_cb \<Rightarrow> u8log_t \<Rightarrow> 'a u8x8_scheme \<Rightarrow> 'a u8x8_scheme option" where
  "u8log_u8x8_cb display l u =
     (if is_redraw_all l \<noteq> 0 then u8x8_DrawLog display 0 0 l u
      else if is_redraw_line l \<noteq> 0 then u8x8_DrawLogLine display 0 (redraw_line l) (redraw_line l) l u
      else Some u)"

section \<open>What the log shows\<close>

lemma fill_loop_fills:
  assumes "unat (cnt :: u16) = n" and "0 < n" and "dest + n \<le> length buf"
  shows "fill_loop dest cnt buf = Some (take dest buf @ replicate n 32 @ drop (dest + n) buf)"
  using assms
proof (induction n arbitrary: dest cnt buf)
  case (Suc n)
  have put: "put_byte dest 32 buf = Some (buf[dest := 32])" using Suc.prems(3) by (simp add: put_byte_def)
  have cnt: "cnt \<noteq> 0" using Suc.prems(1) by (auto simp: unat_eq_0)
  then have n: "unat (cnt - 1) = n" using Suc.prems(1) by (simp add: unat_minus_one)
  show ?case
  proof (cases "n = 0")
    case True
    then have "cnt - 1 = 0" using n by (simp add: unat_eq_0)
    then show ?thesis using put Suc.prems(3) True
      by (subst fill_loop.simps) (simp add: upd_conv_take_nth_drop)
  next
    case False
    then have "cnt - 1 > 0" using n by (metis unat_0 word_gt_0)
    moreover have "take (Suc dest) (buf[dest := 32]) @ replicate n 32 @ drop (Suc dest + n) (buf[dest := 32]) =
        take dest buf @ replicate (Suc n) 32 @ drop (dest + Suc n) buf"
      using Suc.prems(3) by (simp add: take_Suc_conv_app_nth replicate_append_same [symmetric])
    ultimately show ?thesis using Suc.IH [OF n, of "dest + 1" "buf[dest := 32]"] Suc.prems(3) False put
      by (subst fill_loop.simps) simp
  qed
qed simp

lemma copy_loop_copies:
  assumes "unat (cnt :: u16) = n" and "0 < n" and "src + n \<le> length buf" and "dest < src"
  shows "copy_loop dest src cnt buf = Some (dest + n, take dest buf @ take n (drop src buf) @ drop (dest + n) buf)"
  using assms
proof (induction n arbitrary: dest src cnt buf)
  case (Suc n)
  let ?buf = "buf[dest := buf ! src]"
  have put: "put_byte dest (buf ! src) buf = Some ?buf" using Suc.prems(3,4) by (simp add: put_byte_def)
  have cnt: "cnt \<noteq> 0" using Suc.prems(1) by (auto simp: unat_eq_0)
  then have n: "unat (cnt - 1) = n" using Suc.prems(1) by (simp add: unat_minus_one)
  have hd: "take (Suc m) (drop src buf) = buf ! src # take m (drop (Suc src) buf)" for m
    using Suc.prems(3) by (simp add: Cons_nth_drop_Suc [symmetric])
  have taken: "take (Suc dest) ?buf = take dest buf @ [buf ! src]"
    using Suc.prems(3,4) by (simp add: take_Suc_conv_app_nth)
  show ?case
  proof (cases "n = 0")
    case True
    then have "cnt - 1 = 0" using n by (simp add: unat_eq_0)
    then show ?thesis using put Suc.prems(3,4) True hd [of 0] taken
      by (subst copy_loop.simps) (simp add: upd_conv_take_nth_drop)
  next
    case False
    then have "cnt - 1 > 0" using n by (metis unat_0 word_gt_0)
    moreover have "drop (Suc src) ?buf = drop (Suc src) buf" using Suc.prems(4) by simp
    ultimately show ?thesis using Suc.IH [OF n, of "src + 1" "?buf" "dest + 1"] Suc.prems(3,4) False put hd [of n] taken
      by (subst copy_loop.simps) simp
  qed
qed simp

text \<open>A terminal without an end: the characters of all rows, the cursor, and the first row that is
  still shown. A log shows the rows from there.\<close>

record terminal =
  t_cell :: "nat \<Rightarrow> nat \<Rightarrow> u8"
  t_row :: nat
  t_col :: nat
  t_top :: nat

definition log_ok :: "u8log_t \<Rightarrow> bool" where
  "log_ok l \<longleftrightarrow> 0 < unat (log_width l) \<and> 2 \<le> unat (log_height l) \<and>
     length (screen_buffer l) = unat (log_height l) * unat (log_width l)"

definition shows_terminal :: "u8log_t \<Rightarrow> terminal \<Rightarrow> bool" where
  "shows_terminal l t \<longleftrightarrow> log_ok l \<and>
     (\<forall>r < unat (log_height l). \<forall>c < unat (log_width l).
        screen_buffer l ! (r * unat (log_width l) + c) = t_cell t (t_top t + r) c) \<and>
     (\<forall>r \<ge> t_top t + unat (log_height l). \<forall>c. t_cell t r c = 32) \<and>
     t_row t = t_top t + unat (cursor_y l) \<and> t_col t = unat (cursor_x l)"

definition t_put :: "nat \<Rightarrow> nat \<Rightarrow> u8 \<Rightarrow> terminal \<Rightarrow> terminal" where
  "t_put w h c t =
     (let t = (if t_col t \<ge> w then t\<lparr>t_row := t_row t + 1, t_col := 0\<rparr> else t);
          t = t\<lparr>t_top := max (t_top t) (t_row t + 1 - h)\<rparr>
      in t\<lparr>t_cell := (t_cell t)(t_row t := (t_cell t (t_row t))(t_col t := c)), t_col := t_col t + 1\<rparr>)"

definition t_char :: "nat \<Rightarrow> nat \<Rightarrow> u8 \<Rightarrow> terminal \<Rightarrow> terminal" where
  "t_char w h c t =
     (if c = 10 then t\<lparr>t_row := t_row t + 1, t_col := 0\<rparr>
      else if c = 13 then t\<lparr>t_col := 0\<rparr>
      else if c = 9 then t\<lparr>t_col := (t_col t + 8) div 8 * 8 mod 256\<rparr>
      else if c = 12 then \<lparr>t_cell = (\<lambda>_ _. 32), t_row = 0, t_col = 0, t_top = 0\<rparr>
      else t_put w h c t)"

lemma scroll_up_shifts:
  assumes ok: "log_ok l"
  shows "\<exists>l'. u8log_scroll_up l = Some l' \<and>
    screen_buffer l' = drop (unat (log_width l)) (screen_buffer l) @ replicate (unat (log_width l)) 32 \<and>
    log_width l' = log_width l \<and> log_height l' = log_height l \<and> cursor_x l' = cursor_x l \<and> cursor_y l' = cursor_y l"
proof -
  let ?w = "unat (log_width l)" and ?h = "unat (log_height l)" and ?buf = "screen_buffer l"
  note o = ok [unfolded log_ok_def]
  have "?h - 1 \<le> 254" "?w \<le> 255" using unat_u8_less [of "log_height l"] unat_u8_less [of "log_width l"] by linarith+
  then have "(?h - 1) * ?w \<le> 254 * 255" by (rule mult_le_mono)
  moreover have "unat ((ucast (log_height l) :: u16) - 1) = ?h - 1"
    using o unat_minus_one [of "ucast (log_height l) :: u16"]
    by (auto simp: unat_ucast_16 word_unat_eq_iff)
  ultimately have cnt: "unat (((ucast (log_height l) :: u16) - 1) * ucast (log_width l)) = (?h - 1) * ?w"
    by (simp add: unat_word_ariths unat_ucast_16)
  have pos: "0 < (?h - 1) * ?w" using o by simp
  have len: "?w + (?h - 1) * ?w = length ?buf" using o by (cases ?h) auto
  have w: "unat (ucast (log_width l) :: u16) = ?w" by (simp add: unat_ucast_16)
  have copied: "copy_loop 0 ?w (((ucast (log_height l) :: u16) - 1) * ucast (log_width l)) ?buf =
      Some ((?h - 1) * ?w, drop ?w ?buf @ drop ((?h - 1) * ?w) ?buf)"
    using copy_loop_copies [OF cnt pos, of ?w ?buf 0] o len by simp
  have "length (drop ?w ?buf) = (?h - 1) * ?w" using len by simp
  then have "fill_loop ((?h - 1) * ?w) (ucast (log_width l)) (drop ?w ?buf @ drop ((?h - 1) * ?w) ?buf) =
      Some (drop ?w ?buf @ replicate ?w 32)"
    using fill_loop_fills [OF w, of "(?h - 1) * ?w" "drop ?w ?buf @ drop ((?h - 1) * ?w) ?buf"] o len by simp
  then show ?thesis using copied by (simp add: u8log_scroll_up_def Let_def)
qed

lemma scroll_terminal:
  assumes "shows_terminal l t" and "u8log_scroll_up l = Some l'" and "cursor_y l > 0"
  shows "shows_terminal (l'\<lparr>cursor_y := cursor_y l' - 1\<rparr>) (t\<lparr>t_top := t_top t + 1\<rparr>)"
proof -
  let ?w = "unat (log_width l)" and ?h = "unat (log_height l)" and ?buf = "screen_buffer l"
  note s = assms(1) [unfolded shows_terminal_def]
  have ok: "log_ok l" using s by simp
  note o = ok [unfolded log_ok_def]
  from scroll_up_shifts [OF ok] assms(2) have l': "screen_buffer l' = drop ?w ?buf @ replicate ?w 32"
    "log_width l' = log_width l" "log_height l' = log_height l" "cursor_x l' = cursor_x l" "cursor_y l' = cursor_y l"
    by auto
  have len: "length ?buf = ?h * ?w" using o by simp
  have "1 * ?w \<le> ?h * ?w" using o by (intro mult_le_mono1) simp
  then have fits: "?w \<le> length ?buf" by (simp add: len)
  have rows: "screen_buffer l' ! (r * ?w + c) = t_cell t (t_top t + 1 + r) c" if r: "r < ?h" and c: "c < ?w" for r c
  proof (cases "r + 1 < ?h")
    case True
    have "(r + 1) * ?w + c < ?h * ?w" 
    proof -
      have "(r + 1 + 1) * ?w \<le> ?h * ?w" using True by (intro mult_le_mono1) simp
      then show ?thesis using c by simp
    qed
    then have i: "r * ?w + c < ?h * ?w - ?w" by simp
    have "screen_buffer l' ! (r * ?w + c) = ?buf ! ((r + 1) * ?w + c)"
      using i len nth_drop [OF fits, of "r * ?w + c"] by (simp add: l'(1) nth_append algebra_simps)
    also have "\<dots> = t_cell t (t_top t + (r + 1)) c" using s True c by blast
    finally show ?thesis by (simp add: algebra_simps)
  next
    case False
    then have h: "?h = r + 1" using r by simp
    have "screen_buffer l' ! (r * ?w + c) = 32"
      using c len by (simp add: l'(1) nth_append h)
    moreover have "t_cell t (t_top t + 1 + r) c = 32" using s h by (metis add.assoc add.commute order_refl)
    ultimately show ?thesis by simp
  qed
  have "unat (cursor_y l - 1) = unat (cursor_y l) - 1" "0 < unat (cursor_y l)"
    using assms(3) unat_minus_one [of "cursor_y l"] by (auto simp: unat_gt_0)
  then show ?thesis using s o rows len unfolding shows_terminal_def log_ok_def by (auto simp: l')
qed

lemma scroll_loop_shows:
  assumes "shows_terminal l t"
  shows "\<exists>l'. scroll_loop l = Some l' \<and> log_width l' = log_width l \<and> log_height l' = log_height l \<and>
    cursor_x l' = cursor_x l \<and> cursor_y l' < log_height l' \<and>
    shows_terminal l' (t\<lparr>t_top := max (t_top t) (t_row t + 1 - unat (log_height l))\<rparr>)"
  using assms
proof (induction "unat (cursor_y l)" arbitrary: l t rule: less_induct)
  case less
  note s = less.prems [unfolded shows_terminal_def]
  show ?case
  proof (cases "cursor_y l \<ge> log_height l")
    case True
    then have y: "unat (log_height l) \<le> unat (cursor_y l)" by (simp add: word_le_nat_alt)
    then have pos: "cursor_y l > 0" using s by (simp add: log_ok_def word_less_nat_alt)
    obtain l1 where l1: "u8log_scroll_up l = Some l1" "log_width l1 = log_width l" "log_height l1 = log_height l"
      "cursor_x l1 = cursor_x l" "cursor_y l1 = cursor_y l"
      using scroll_up_shifts [of l] s by blast
    let ?l = "l1\<lparr>cursor_y := cursor_y l1 - 1\<rparr>" and ?t = "t\<lparr>t_top := t_top t + 1\<rparr>"
    have sh: "shows_terminal ?l ?t" by (rule scroll_terminal [OF less.prems l1(1) pos])
    have "unat (cursor_y ?l) < unat (cursor_y l)"
      using pos l1(5) unat_minus_one [of "cursor_y l"] by (auto simp: unat_gt_0)
    from less.hyps [OF this sh] obtain l2 where l2: "scroll_loop ?l = Some l2" "log_width l2 = log_width l"
      "log_height l2 = log_height l" "cursor_x l2 = cursor_x l" "cursor_y l2 < log_height l2"
      "shows_terminal l2 (?t\<lparr>t_top := max (t_top ?t) (t_row ?t + 1 - unat (log_height l))\<rparr>)"
      using l1 by auto
    have "max (t_top t + 1) (t_row t + 1 - unat (log_height l)) = max (t_top t) (t_row t + 1 - unat (log_height l))"
      using s y by simp
    then show ?thesis using l2 True l1(1) by (subst scroll_loop.simps) simp
  next
    case False
    then have y: "unat (cursor_y l) < unat (log_height l)" by (simp add: word_less_nat_alt not_le)
    have "max (t_top t) (t_row t + 1 - unat (log_height l)) = t_top t" using s y by simp
    moreover have "scroll_loop l = Some l" by (subst scroll_loop.simps) (rule if_not_P [OF False])
    ultimately show ?thesis using less.prems y by (simp add: word_less_nat_alt)
  qed
qed

lemma index_eq:
  fixes r c r' c' w :: nat
  assumes "c < w" and "c' < w"
  shows "r * w + c = r' * w + c' \<longleftrightarrow> r = r' \<and> c = c'"
proof
  assume e: "r * w + c = r' * w + c'"
  have "r = (r * w + c) div w" "r' = (r' * w + c') div w" using assms by simp_all
  moreover have "c = (r * w + c) mod w" "c' = (r' * w + c') mod w" using assms by simp_all
  ultimately show "r = r' \<and> c = c'" unfolding e by metis
qed simp

lemma write_terminal:
  assumes sh: "shows_terminal l t" and room: "cursor_y l < 255"
  shows "\<exists>l'. u8log_write_to_screen c l = Some l' \<and> log_width l' = log_width l \<and> log_height l' = log_height l \<and>
    cursor_y l' < log_height l' \<and> shows_terminal l' (t_put (unat (log_width l)) (unat (log_height l)) c t)"
proof -
  let ?w = "unat (log_width l)" and ?h = "unat (log_height l)"
  note s = sh [unfolded shows_terminal_def]
  let ?l = "if cursor_x l \<ge> log_width l then l\<lparr>cursor_x := 0, cursor_y := cursor_y l + 1\<rparr> else l"
  let ?t = "if t_col t \<ge> ?w then t\<lparr>t_row := t_row t + 1, t_col := 0\<rparr> else t"
  have y1: "unat (cursor_y l + 1) = unat (cursor_y l) + 1" using count_up(2) [OF room] .
  have wrap: "shows_terminal ?l ?t" "log_width ?l = log_width l" "log_height ?l = log_height l"
    "cursor_x ?l < log_width l"
    using s y1 by (cases "cursor_x l \<ge> log_width l"; simp add: shows_terminal_def log_ok_def word_le_nat_alt word_less_nat_alt)+
  from scroll_loop_shows [OF wrap(1)] obtain m where m: "scroll_loop ?l = Some m" "log_width m = log_width l"
    "log_height m = log_height l" "cursor_x m = cursor_x ?l" "cursor_y m < log_height m"
    "shows_terminal m (?t\<lparr>t_top := max (t_top ?t) (t_row ?t + 1 - ?h)\<rparr>)"
    using wrap(2,3) by auto
  let ?u = "?t\<lparr>t_top := max (t_top ?t) (t_row ?t + 1 - ?h)\<rparr>"
  note ms = m(6) [unfolded shows_terminal_def]
  have xy: "unat (cursor_x m) < ?w" "unat (cursor_y m) < ?h"
    using m(2-5) wrap(4) by (simp_all add: word_less_nat_alt)
  let ?i = "unat (cursor_y m) * ?w + unat (cursor_x m)"
  have "(unat (cursor_y m) + 1) * ?w \<le> ?h * ?w" using xy(2) by (intro mult_le_mono1) simp
  then have i: "?i < length (screen_buffer m)" using ms m(2,3) xy(1) by (simp add: log_ok_def)
  have x1: "unat (cursor_x m + 1) = unat (cursor_x m) + 1"
    using m(4) wrap(4) count_up(2) [of "cursor_x m" "log_width l"] by simp
  let ?m = "m\<lparr>screen_buffer := (screen_buffer m)[?i := c], cursor_x := cursor_x m + 1\<rparr>"
  have cells: "(screen_buffer m)[?i := c] ! (r * ?w + k) =
      (if r = unat (cursor_y m) \<and> k = unat (cursor_x m) then c else t_cell ?u (t_top ?u + r) k)"
    if "r < ?h" "k < ?w" for r k
    using that ms m(2,3) i index_eq [OF xy(1) that(2), of "unat (cursor_y m)" r] by (auto simp: nth_list_update)
  have pos: "t_row ?u = t_top ?u + unat (cursor_y m)" "t_col ?u = unat (cursor_x m)" using ms by simp_all
  have put: "t_put ?w ?h c t = ?u\<lparr>t_cell := (t_cell ?u)(t_row ?u := (t_cell ?u (t_row ?u))(t_col ?u := c)), t_col := t_col ?u + 1\<rparr>"
    by (simp add: t_put_def Let_def)
  define v where "v = t_put ?w ?h c t"
  have v: "t_cell v = (t_cell ?u)(t_row ?u := (t_cell ?u (t_row ?u))(t_col ?u := c))" "t_row v = t_row ?u"
    "t_col v = t_col ?u + 1" "t_top v = t_top ?u"
    unfolding v_def put by simp_all
  have size: "log_ok ?m" using ms m(2,3) by (simp add: log_ok_def)
  have below: "t_cell v r k = 32" if "t_top ?u + ?h \<le> r" for r k
  proof -
    have "r \<noteq> t_row ?u" using that pos(1) xy(2) by linarith
    then show ?thesis using that ms m(3) unfolding v(1) by auto
  qed
  have shown: "(screen_buffer m)[?i := c] ! (r * ?w + k) = t_cell v (t_top v + r) k" if "r < ?h" "k < ?w" for r k
    using cells [OF that] pos unfolding v by simp
  have final: "shows_terminal ?m v"
    unfolding shows_terminal_def using size below shown v(2-4) pos x1 by (simp add: m(2,3))
  have flags: "shows_terminal (x\<lparr>redraw_line := a, is_redraw_line := b\<rparr>) y \<longleftrightarrow> shows_terminal x y" for x y a b
    by (simp add: shows_terminal_def log_ok_def)
  show ?thesis using m i final [unfolded v_def] flags
    by (simp add: u8log_write_to_screen_def u8log_cursor_on_screen_def put_byte_def Let_def)
qed

lemma tab_stop: "unat ((x + 8) AND 0xf8 :: u8) = (unat x + 8) div 8 * 8 mod 256"
proof -
  have "\<forall>k \<in> set [0..<256]. unat ((of_nat k + 8) AND 0xf8 :: u8) = (k + 8) div 8 * 8 mod 256" by code_simp
  moreover have "unat x \<in> set [0..<256]" unfolding set_upt by simp
  ultimately have "unat ((of_nat (unat x) + 8) AND 0xf8 :: u8) = (unat x + 8) div 8 * 8 mod 256" by blast
  then show ?thesis by simp
qed

lemma flags_show [simp]:
  "shows_terminal (l\<lparr>redraw_line := a\<rparr>) t = shows_terminal l t"
  "shows_terminal (l\<lparr>is_redraw_line := a\<rparr>) t = shows_terminal l t"
  "shows_terminal (l\<lparr>is_redraw_all := a\<rparr>) t = shows_terminal l t"
  "shows_terminal (l\<lparr>is_redraw_all_required_for_next_nl := a\<rparr>) t = shows_terminal l t"
  by (simp_all add: shows_terminal_def log_ok_def)

lemma clear_terminal:
  assumes "log_ok l"
  shows "\<exists>l'. u8log_clear_screen l = Some l' \<and> log_width l' = log_width l \<and> log_height l' = log_height l \<and>
    shows_terminal (l'\<lparr>cursor_x := 0, cursor_y := 0\<rparr>) \<lparr>t_cell = (\<lambda>_ _. 32), t_row = 0, t_col = 0, t_top = 0\<rparr>"
proof -
  let ?w = "unat (log_width l)" and ?h = "unat (log_height l)"
  note o = assms [unfolded log_ok_def]
  have "?h \<le> 255" "?w \<le> 255" using unat_u8_less [of "log_height l"] unat_u8_less [of "log_width l"] by linarith+
  then have "?h * ?w \<le> 255 * 255" by (rule mult_le_mono)
  then have cnt: "unat ((ucast (log_height l) :: u16) * ucast (log_width l)) = ?h * ?w"
    by (simp add: unat_word_ariths)
  have "0 < ?h * ?w" using o by simp
  then have f: "fill_loop 0 (ucast (log_height l) * ucast (log_width l)) (screen_buffer l) = Some (replicate (?h * ?w) 32)"
    using fill_loop_fills [OF cnt, of 0 "screen_buffer l"] o by simp
  have "r * ?w + c < ?h * ?w" if "r < ?h" "c < ?w" for r c
  proof -
    have "(r + 1) * ?w \<le> ?h * ?w" using that(1) by (intro mult_le_mono1) simp
    then show ?thesis using that(2) by simp
  qed
  with f o show ?thesis by (auto simp: u8log_clear_screen_def shows_terminal_def log_ok_def)
qed

text \<open>A character is handled as on the terminal without an end; the row of the cursor is a byte.\<close>

lemma write_char_terminal:
  assumes sh: "shows_terminal l t" and room: "cursor_y l < 255"
  shows "\<exists>l'. u8log_write_char c l = Some l' \<and> log_width l' = log_width l \<and> log_height l' = log_height l \<and>
    shows_terminal l' (t_char (unat (log_width l)) (unat (log_height l)) c t) \<and>
    unat (cursor_y l') \<le> (if c = 10 then unat (cursor_y l) + 1 else max (unat (cursor_y l)) (unat (log_height l)))"
proof -
  have ok: "log_ok l" using sh by (simp add: shows_terminal_def)
  have y1: "unat (cursor_y l + 1) = unat (cursor_y l) + 1" using count_up(2) [OF room] .
  consider "c = 10" | "c = 13" | "c = 9" | "c = 12" | "c \<noteq> 10" "c \<noteq> 13" "c \<noteq> 9" "c \<noteq> 12" by blast
  then show ?thesis
  proof cases
    case 1
    then show ?thesis using sh y1
      by (simp add: u8log_write_char_def Let_def t_char_def) (simp add: shows_terminal_def log_ok_def)
  next
    case 2
    then show ?thesis using sh
      by (simp add: u8log_write_char_def Let_def t_char_def) (simp add: shows_terminal_def log_ok_def)
  next
    case 3
    then show ?thesis using sh tab_stop [of "cursor_x l"]
      by (simp add: u8log_write_char_def Let_def t_char_def) (simp add: shows_terminal_def log_ok_def)
  next
    case 4
    from clear_terminal [OF ok] obtain l' where "u8log_clear_screen l = Some l'" "log_width l' = log_width l"
      "log_height l' = log_height l"
      "shows_terminal (l'\<lparr>cursor_x := 0, cursor_y := 0\<rparr>) \<lparr>t_cell = (\<lambda>_ _. 32), t_row = 0, t_col = 0, t_top = 0\<rparr>" by blast
    with 4 show ?thesis by (simp add: u8log_write_char_def t_char_def)
  next
    case 5
    from write_terminal [OF sh room, of c] obtain l' where "u8log_write_to_screen c l = Some l'"
      "log_width l' = log_width l" "log_height l' = log_height l" "cursor_y l' < log_height l'"
      "shows_terminal l' (t_put (unat (log_width l)) (unat (log_height l)) c t)" by blast
    with 5 show ?thesis by (auto simp: u8log_write_char_def t_char_def word_less_nat_alt)
  qed
qed

text \<open>Strings in which the row never reaches 255: \<open>n\<close> bounds the cursor's row.\<close>

fun rows_fit :: "nat \<Rightarrow> nat \<Rightarrow> string \<Rightarrow> bool" where
  "rows_fit h n [] = True"
| "rows_fit h n (c # str) = (n < 255 \<and> rows_fit h (if byte_of c = 10 then n + 1 else max n h) str)"

lemma rows_fit_mono: "rows_fit h n str \<Longrightarrow> m \<le> n \<Longrightarrow> rows_fit h m str"
proof (induction str arbitrary: m n)
  case (Cons c str)
  have "(if byte_of c = 10 then m + 1 else max m h) \<le> (if byte_of c = 10 then n + 1 else max n h)"
    using Cons.prems(2) max.mono [OF Cons.prems(2) order_refl] by simp
  moreover have "rows_fit h (if byte_of c = 10 then n + 1 else max n h) str" using Cons.prems(1) by simp
  ultimately have "rows_fit h (if byte_of c = 10 then m + 1 else max m h) str" by (rule Cons.IH [rotated])
  then show ?case using Cons.prems by simp
qed simp

lemma write_string_terminal:
  assumes "shows_terminal l t" and "rows_fit (unat (log_height l)) (unat (cursor_y l)) str"
    and total: "\<forall>f l s. redraw f l s \<noteq> None"
  shows "\<exists>l' s'. foldo (\<lambda>st c. u8log_WriteChar redraw (byte_of c) st) str (l, s) = Some (l', s') \<and>
    shows_terminal l' (fold (\<lambda>c. t_char (unat (log_width l)) (unat (log_height l)) (byte_of c)) str t)"
  using assms(1,2)
proof (induction str arbitrary: l s t)
  case (Cons c str)
  let ?w = "unat (log_width l)" and ?h = "unat (log_height l)"
  have room: "cursor_y l < 255" using Cons.prems(2) by (simp add: word_less_nat_alt)
  from write_char_terminal [OF Cons.prems(1) room, of "byte_of c"] obtain l1 where l1:
    "u8log_write_char (byte_of c) l = Some l1" "log_width l1 = log_width l" "log_height l1 = log_height l"
    "shows_terminal l1 (t_char ?w ?h (byte_of c) t)"
    "unat (cursor_y l1) \<le> (if byte_of c = 10 then unat (cursor_y l) + 1 else max (unat (cursor_y l)) ?h)" by blast
  obtain b d s1 where w: "u8log_WriteChar redraw (byte_of c) (l, s) = Some (l1\<lparr>is_redraw_line := b, is_redraw_all := d\<rparr>, s1)"
  proof -
    obtain s1 where s1: "(case log_cb l1 of None \<Rightarrow> Some s | Some f \<Rightarrow> redraw f l1 s) = Some s1"
    proof (cases "log_cb l1")
      case (Some f)
      then show thesis using that total by (metis option.case(2) option.exhaust)
    qed (use that in simp)
    show thesis
    proof (cases "is_redraw_line l1 \<noteq> 0 \<or> is_redraw_all l1 \<noteq> 0")
      case True
      show thesis by (rule that [of 0 0 s1]) (simp only: u8log_WriteChar_def l1(1) True s1 prod.case bind.bind_lunit if_True)
    next
      case False
      show thesis by (rule that [of 0 0 s]) (use False in \<open>simp add: u8log_WriteChar_def l1(1)\<close>)
    qed
  qed
  let ?l = "l1\<lparr>is_redraw_line := b, is_redraw_all := d\<rparr>"
  have "rows_fit ?h (unat (cursor_y ?l)) str"
    using Cons.prems(2) l1(5) rows_fit_mono by (auto split: if_splits)
  from Cons.IH [of ?l "t_char ?w ?h (byte_of c) t" s1] l1 this w show ?case by simp
qed simp

text \<open>C22: writing a text to a log is writing it on a terminal without an end, of which the log shows
  the last rows: no write leaves the buffer, whatever the text and the redrawing procedure, as long as
  the row of the cursor stays below 255.\<close>

theorem log_shows_text:
  assumes "shows_terminal l t" and "rows_fit (unat (log_height l)) (unat (cursor_y l)) (c_str str)"
    and "\<forall>f l s. redraw f l s \<noteq> None"
  shows "\<exists>l' s'. u8log_WriteString redraw str (l, s) = Some (l', s') \<and>
    shows_terminal l' (fold (\<lambda>c. t_char (unat (log_width l)) (unat (log_height l)) (byte_of c)) (c_str str) t)"
  unfolding u8log_WriteString_def by (rule write_string_terminal [OF assms])

lemma log_shows_text_witness:
  "\<exists>l l' s'. u8log_Init 4 2 (replicate 8 0) = Some l \<and>
     u8log_WriteString (\<lambda>f l s. Some s) ''12345'' (l, ()) = Some (l', s') \<and>
     shows_terminal l' (fold (\<lambda>c. t_char 4 2 (byte_of c)) ''12345'' \<lparr>t_cell = (\<lambda>_ _. 32), t_row = 0, t_col = 0, t_top = 0\<rparr>)"
proof -
  let ?t = "\<lparr>t_cell = (\<lambda>_ _. 32), t_row = 0, t_col = 0, t_top = 0\<rparr>"
  let ?l = "\<lparr>log_width = 4, log_height = 2, log_cb = None, screen_buffer = replicate 8 0, is_redraw_line_for_each_char = 0,
        line_height_offset = 0, cursor_x = 0, cursor_y = 0, redraw_line = 0, is_redraw_line = 0, is_redraw_all = 0,
        is_redraw_all_required_for_next_nl = 0\<rparr> :: u8log_t"
  have "log_ok ?l" by (simp add: log_ok_def)
  from clear_terminal [OF this] obtain l where l: "u8log_clear_screen ?l = Some l" "log_width l = 4" "log_height l = 2"
    "shows_terminal (l\<lparr>cursor_x := 0, cursor_y := 0\<rparr>) ?t" by auto
  have y: "cursor_y l = 0" "l\<lparr>cursor_x := 0, cursor_y := 0\<rparr> = l"
    using l(1) by (auto simp: u8log_clear_screen_def split: bind_splits)
  then have sh: "shows_terminal l ?t" using l(4) by simp
  have str: "c_str ''12345'' = ''12345''" by simp
  have "\<forall>c \<in> set ''12345''. byte_of c \<noteq> 10" by code_simp
  then have fit: "rows_fit (unat (log_height l)) (unat (cursor_y l)) (c_str ''12345'')"
    unfolding str l(3) y(1) by simp
  have "u8log_Init 4 2 (replicate 8 0) = Some l" using l(1) by (simp add: u8log_Init_def Let_def)
  with log_shows_text [OF sh fit, of "\<lambda>f l s. Some s" "()"] show ?thesis
    unfolding str l(2,3) by simp
qed

end
