(* ===== verification/U8g2_Strings.thy ===== *)
theory U8g2_Strings
  imports U8g2_Glyph
begin

text \<open>
  libs/u8g2/csrc: the rest of u8g2_font.c, the widths of strings and the drawing of kerned strings,
  and u8g2_kerning.c. The width of a string is what drawing it advances, with the last glyph
  counted by its own pixels.
\<close>

section \<open>Widths of strings\<close>

function all_valid_loop :: "string \<Rightarrow> u8g2 \<Rightarrow> (u8 \<times> u8g2) option" where
  "all_valid_loop str u =
     (case call_next_cb (byte_of (c_peek str)) u of
        None \<Rightarrow> None
      | Some (e, u) \<Rightarrow>
          if e = 0xffff then Some (1, u)
          else if str = [] then None
          else if e \<noteq> 0xfffe then
            (case u8g2_font_get_glyph_data u e of
               None \<Rightarrow> None
             | Some None \<Rightarrow> Some (0, u)
             | Some (Some _) \<Rightarrow> all_valid_loop (tl str) u)
          else all_valid_loop (tl str) u)"
  by pat_completeness auto
termination
  by (relation "measure (\<lambda>(str, u). length str)") auto

declare all_valid_loop.simps [simp del]

definition u8g2_is_all_valid :: "u8g2 \<Rightarrow> string \<Rightarrow> (u8 \<times> u8g2) option" where
  "u8g2_is_all_valid u str = all_valid_loop str (u8x8_utf8_init u)"

definition u8g2_IsAllValidUTF8 :: "u8g2 \<Rightarrow> string \<Rightarrow> (u8 \<times> u8g2) option" where
  "u8g2_IsAllValidUTF8 u str = u8g2_is_all_valid (u\<lparr>next_cb := Some Utf8_Next\<rparr>) str"

definition width_char :: "u16 \<Rightarrow> (u8 \<times> u8) \<times> u8g2 \<Rightarrow> ((u8 \<times> u8) \<times> u8g2) option" where
  "width_char e = (\<lambda>((w, dx), u). do {
     (dx, u) \<leftarrow> u8g2_GetGlyphWidth u e;
     Some ((w + dx, dx), u) })"

definition u8g2_string_width :: "u8g2 \<Rightarrow> string \<Rightarrow> (u8 \<times> u8g2) option" where
  "u8g2_string_width u str = do {
     let u = u\<lparr>font_decode := (font_decode u)\<lparr>glyph_width := 0\<rparr>\<rparr>;
     let u = u8x8_utf8_init u;
     ((w, dx), u) \<leftarrow> each_char call_next_cb width_char str ((0, 0), u);
     Some (if glyph_width (font_decode u) \<noteq> 0 then w - dx + glyph_width (font_decode u) + glyph_x_offset u else w, u) }"

definition u8g2_GetStrWidth :: "u8g2 \<Rightarrow> string \<Rightarrow> (u8 \<times> u8g2) option" where
  "u8g2_GetStrWidth u s = u8g2_string_width (u\<lparr>next_cb := Some Ascii_Next\<rparr>) s"

definition u8g2_GetUTF8Width :: "u8g2 \<Rightarrow> string \<Rightarrow> (u8 \<times> u8g2) option" where
  "u8g2_GetUTF8Width u str = u8g2_string_width (u\<lparr>next_cb := Some Utf8_Next\<rparr>) str"

text \<open>The variables \<open>w\<close>, \<open>ox\<close> and \<open>dx\<close> of the caller, \<^term>\<open>None\<close> before the first glyph has set them: a
  glyph the font does not have leaves them as they are, and reading them then is undefined.\<close>

type_synonym glyph_props = "(u8 \<times> u8 \<times> u8) option"

definition u8g2_GetGlyphHorizontalProperties ::
    "u8g2 \<Rightarrow> u16 \<Rightarrow> glyph_props \<Rightarrow> (glyph_props \<times> u8g2) option" where
  "u8g2_GetGlyphHorizontalProperties u requested_encoding p = do {
     glyph_data \<leftarrow> u8g2_font_get_glyph_data u requested_encoding;
     case glyph_data of
       None \<Rightarrow> Some (p, u)
     | Some glyph_data \<Rightarrow> do {
         u \<leftarrow> u8g2_font_setup_decode u glyph_data;
         let w = glyph_width (font_decode u);
         (ox, u) \<leftarrow> get_signed u (bits_per_char_x (font_info u));
         (_, u) \<leftarrow> get_signed u (bits_per_char_y (font_info u));
         (dx, u) \<leftarrow> get_signed u (bits_per_delta_x (font_info u));
         Some (Some (w, ox, dx), u) } }"

definition u8g2_GetStrX :: "u8g2 \<Rightarrow> string \<Rightarrow> (u8 \<times> u8g2) option" where
  "u8g2_GetStrX u s = do {
     (p, u) \<leftarrow> u8g2_GetGlyphHorizontalProperties u (ucast (byte_of (c_peek s))) None;
     (w, ox, dx) \<leftarrow> p;
     Some (ox, u) }"

text \<open>The next complete character, and the string behind it.\<close>

function next_encoding :: "string \<Rightarrow> u8g2 \<Rightarrow> (u16 \<times> string \<times> u8g2) option" where
  "next_encoding str u =
     (case call_next_cb (byte_of (c_peek str)) u of
        None \<Rightarrow> None
      | Some (enc, u) \<Rightarrow>
          if enc = 0xfffe then (if str = [] then None else next_encoding (tl str) u)
          else Some (enc, tl str, u))"
  by pat_completeness auto
termination
  by (relation "measure (\<lambda>(str, u). length str)") auto

declare next_encoding.simps [simp del]

lemma next_encoding_length:
  "next_encoding str u = Some (enc, str', v) \<Longrightarrow> enc \<noteq> 0xffff \<Longrightarrow> length str' < length str"
proof (induction str u rule: next_encoding.induct)
  case (1 str u)
  obtain e w where e: "call_next_cb (byte_of (c_peek str)) u = Some (e, w)"
    using 1(2) by (subst (asm) next_encoding.simps) (auto split: option.splits)
  have ne: "str \<noteq> []" if "e \<noteq> 0xffff"
  proof
    assume "str = []"
    then have "byte_of (c_peek str) = 0" by (simp add: byte_of_def)
    with e that call_next_end show False by fastforce
  qed
  show ?case
  proof (cases "e = 0xfffe")
    case True
    then have "next_encoding (tl str) w = Some (enc, str', v)"
      using 1(2) e by (subst (asm) next_encoding.simps) (auto split: if_splits)
    with 1(1) [OF e _ True] 1(3) ne True show ?thesis by fastforce
  next
    case False
    then have "enc = e" "str' = tl str" using 1(2) e by (subst (asm) next_encoding.simps, simp)+
    with ne 1(3) show ?thesis by (cases str) auto
  qed
qed

function exact_loop :: "string \<Rightarrow> u8 \<Rightarrow> glyph_props \<Rightarrow> u8g2 \<Rightarrow> (u16 \<times> u8 \<times> glyph_props \<times> u8g2) option" where
  "exact_loop str w p u =
     (case next_encoding str u of
        None \<Rightarrow> None
      | Some (enc, str, u) \<Rightarrow>
          if enc = 0xffff then Some (enc, w, p, u)
          else
            (case u8g2_GetGlyphHorizontalProperties u enc p of
               None \<Rightarrow> None
             | Some (p, u) \<Rightarrow>
                 (case p of
                    None \<Rightarrow> None
                  | Some (gw, ox, dx) \<Rightarrow> exact_loop str (w + dx) p u)))"
  by pat_completeness auto
termination
  by (relation "measure (\<lambda>(str, w, p, u). length str)") (auto dest: next_encoding_length)

declare exact_loop.simps [simp del]

definition u8g2_calculate_exact_string_width :: "u8g2 \<Rightarrow> string \<Rightarrow> (u8 \<times> u8g2) option" where
  "u8g2_calculate_exact_string_width u str = do {
     (enc, str, u) \<leftarrow> next_encoding str u;
     if enc = 0xffff then Some (0, u)
     else do {
       (p, u) \<leftarrow> u8g2_GetGlyphHorizontalProperties u enc None;
       (gw, ox, dx) \<leftarrow> p;
       (enc, w, p, u) \<leftarrow> exact_loop str (- ox) p u;
       (gw, ox, dx) \<leftarrow> p;
       Some (if enc \<noteq> ucast (byte_of (CHR '' '')) then w + gw + ox else w + dx, u) } }"

definition u8g2_GetExactStrWidth :: "u8g2 \<Rightarrow> string \<Rightarrow> (u8 \<times> u8g2) option" where
  "u8g2_GetExactStrWidth u s = u8g2_calculate_exact_string_width (u\<lparr>next_cb := Some Ascii_Next\<rparr>) s"

section \<open>Kerning\<close>

record u8g2_kerning_t =
  first_table_cnt :: u16
  second_table_cnt :: u16
  first_encoding_table :: "u16 list"
  index_to_second_table :: "u16 list"
  second_encoding_table :: "u16 list"
  kerning_values :: "u8 list"

definition entry_at :: "'e list \<Rightarrow> nat \<Rightarrow> 'e option" where
  "entry_at t i = (if i < length t then Some (t ! i) else None)"

text \<open>The position of an entry in a part of a table, or the end of that part.\<close>

function find_entry :: "u16 list \<Rightarrow> u16 \<Rightarrow> u16 \<Rightarrow> u16 \<Rightarrow> u16 option" where
  "find_entry t e i cnt =
     (if i < cnt then
        (case entry_at t (unat i) of
           None \<Rightarrow> None
         | Some x \<Rightarrow> if x = e then Some i else find_entry t e (i + 1) cnt)
      else Some i)"
  by pat_completeness auto
termination
  by (relation "measure (\<lambda>(t, e, i, cnt). unat cnt - unat i)") (use count_up(1) in auto)

declare find_entry.simps [simp del]

definition u8g2_GetKerning :: "u8g2_kerning_t option \<Rightarrow> u16 \<Rightarrow> u16 \<Rightarrow> u8 option" where
  "u8g2_GetKerning kerning e1 e2 =
     (case kerning of
        None \<Rightarrow> Some 0
      | Some kerning \<Rightarrow> do {
          let cnt = first_table_cnt kerning - 1;
          i1 \<leftarrow> find_entry (first_encoding_table kerning) e1 0 cnt;
          if i1 \<ge> cnt then Some 0
          else do {
            end \<leftarrow> entry_at (index_to_second_table kerning) (unat i1 + 1);
            start \<leftarrow> entry_at (index_to_second_table kerning) (unat i1);
            i2 \<leftarrow> find_entry (second_encoding_table kerning) e2 start end;
            if i2 \<ge> end then Some 0 else entry_at (kerning_values kerning) (unat i2) } })"

partial_function (option) kerning_loop :: "u16 list \<Rightarrow> u16 \<Rightarrow> u16 \<Rightarrow> u16 \<Rightarrow> u8 option" where
  "kerning_loop kt e1 e2 i =
     Option.bind (entry_at kt (unat i)) (\<lambda>a.
       if a = 0xffff then Some 0
       else Option.bind (if a = e1 then map_option (\<lambda>b. b = e2) (entry_at kt (unat i + 1)) else Some False) (\<lambda>hit.
         if hit then map_option ucast (entry_at kt (unat i + 2)) else kerning_loop kt e1 e2 (i + 3)))"

definition u8g2_GetKerningByTable :: "u16 list option \<Rightarrow> u16 \<Rightarrow> u16 \<Rightarrow> u8 option" where
  "u8g2_GetKerningByTable kt e1 e2 = (case kt of None \<Rightarrow> Some 0 | Some kt \<Rightarrow> kerning_loop kt e1 e2 0)"

text \<open>Kerned strings, to the right or to the left. The state of the loop is the position, the character
  before and the width so far.\<close>

definition extended_char :: "u8 \<Rightarrow> u8g2_kerning_t option \<Rightarrow> u8 \<Rightarrow> u16 \<Rightarrow> (u8 \<times> u16 \<times> u8) \<times> u8g2 \<Rightarrow>
    ((u8 \<times> u16 \<times> u8) \<times> u8g2) option" where
  "extended_char to_left kerning y e = (\<lambda>((x, e_prev, sum), u). do {
     (delta, u) \<leftarrow> u8g2_GetGlyphWidth u e;
     (k, delta, x) \<leftarrow>
       (if to_left \<noteq> 0 then do {
          k \<leftarrow> u8g2_GetKerning kerning e e_prev;
          let delta = delta - k;
          Some (k, delta, x - delta) }
        else do {
          k \<leftarrow> u8g2_GetKerning kerning e_prev e;
          let delta = delta - k;
          Some (k, delta, x) });
     (_, u) \<leftarrow> u8g2_DrawGlyph u x y e;
     let x = (if to_left \<noteq> 0 then x else x + delta - k);
     Some ((x, e, sum + delta), u) })"

definition u8g2_DrawExtendedUTF8 ::
    "u8g2 \<Rightarrow> u8 \<Rightarrow> u8 \<Rightarrow> u8 \<Rightarrow> u8g2_kerning_t option \<Rightarrow> string \<Rightarrow> (u8 \<times> u8g2) option" where
  "u8g2_DrawExtendedUTF8 u x y to_left kerning str = do {
     let u = u8x8_utf8_init (u\<lparr>next_cb := Some Utf8_Next\<rparr>);
     ((x, e_prev, sum), u) \<leftarrow> each_char call_next_cb (extended_char to_left kerning y) str ((x, 0xffff, 0), u);
     Some (sum, u) }"

definition ext_char :: "u8 \<Rightarrow> u16 list option \<Rightarrow> u8 \<Rightarrow> u16 \<Rightarrow> (u8 \<times> u16 \<times> u8) \<times> u8g2 \<Rightarrow>
    ((u8 \<times> u16 \<times> u8) \<times> u8g2) option" where
  "ext_char to_left kerning_table y e = (\<lambda>((x, e_prev, sum), u). do {
     (delta, u) \<leftarrow> u8g2_GetGlyphWidth u e;
     (delta, x) \<leftarrow>
       (if to_left \<noteq> 0 then do {
          k \<leftarrow> u8g2_GetKerningByTable kerning_table e e_prev;
          let delta = delta - k;
          Some (delta, x - delta) }
        else do {
          k \<leftarrow> u8g2_GetKerningByTable kerning_table e_prev e;
          let delta = delta - k;
          Some (delta, x) });
     let x = (if to_left \<noteq> 0 then x else x + delta);
     (_, u) \<leftarrow> u8g2_DrawGlyph u x y e;
     Some ((x, e, sum + delta), u) })"

definition u8g2_DrawExtUTF8 ::
    "u8g2 \<Rightarrow> u8 \<Rightarrow> u8 \<Rightarrow> u8 \<Rightarrow> u16 list option \<Rightarrow> string \<Rightarrow> (u8 \<times> u8g2) option" where
  "u8g2_DrawExtUTF8 u x y to_left kerning_table str = do {
     let u = u8x8_utf8_init (u\<lparr>next_cb := Some Utf8_Next\<rparr>);
     ((x, e_prev, sum), u) \<leftarrow> each_char call_next_cb (ext_char to_left kerning_table y) str ((x, 0xffff, 0), u);
     Some (sum, u) }"

section \<open>What the widths are\<close>

text \<open>Measuring changes only the decoder and the offset of the last glyph.\<close>

definition measured :: "u8g2 \<Rightarrow> u8g2 \<Rightarrow> bool" where
  "measured u v \<longleftrightarrow> (\<exists>fd ox. fd_dir fd = fd_dir (font_decode u) \<and> v = u\<lparr>font_decode := fd, glyph_x_offset := ox\<rparr>)"

lemma measured_refl: "measured u u"
  unfolding measured_def by (rule exI [of _ "font_decode u"], rule exI [of _ "glyph_x_offset u"]) simp

lemma measured_trans:
  assumes "measured u v" and "measured v w"
  shows "measured u w"
proof -
  obtain fd ox fd' ox' where "v = u\<lparr>font_decode := fd, glyph_x_offset := ox\<rparr>" "fd_dir fd = fd_dir (font_decode u)"
    "w = v\<lparr>font_decode := fd', glyph_x_offset := ox'\<rparr>" "fd_dir fd' = fd_dir (font_decode v)"
    using assms unfolding measured_def by blast
  then have "w = u\<lparr>font_decode := fd', glyph_x_offset := ox'\<rparr>" "fd_dir fd' = fd_dir (font_decode u)" by simp_all
  then show ?thesis unfolding measured_def by blast
qed

lemma measured_keeps:
  assumes "measured u v"
  shows "glyph_for v = glyph_for u" "next_cb v = next_cb u"
proof -
  obtain fd ox where v: "v = u\<lparr>font_decode := fd, glyph_x_offset := ox\<rparr>" "fd_dir fd = fd_dir (font_decode u)"
    using assms unfolding measured_def by blast
  have gd: "u8g2_font_get_glyph_data v = u8g2_font_get_glyph_data u" by (rule glyph_data_text) (simp_all add: v(1))
  show "glyph_for v = glyph_for u" unfolding glyph_for_def [abs_def] has_room_def gd by (simp add: v)
  show "next_cb v = next_cb u" by (simp add: v(1))
qed

lemma get_signed_offset:
  "get_signed (u\<lparr>glyph_x_offset := ox\<rparr>) cnt = map_option (\<lambda>(v, w). (v, w\<lparr>glyph_x_offset := ox\<rparr>)) (get_signed u cnt)"
  by (simp add: get_signed_def split: option.split bind_split)

lemma GetGlyphWidth_glyph:
  assumes "glyph_for u e (Some g)"
  shows "\<exists>v. u8g2_GetGlyphWidth u e = Some (g_delta g, v) \<and> measured u v \<and>
    glyph_width (font_decode v) = g_width g \<and> glyph_x_offset v = g_x g"
proof -
  obtain bytes ptr where g: "font u = Some bytes" "u8g2_font_get_glyph_data u e = Some (Some ptr)"
      "glyph_at (font_info u) bytes ptr g"
    using assms by (auto simp: glyph_for_def)
  obtain p0 b0 p1 b1 p2 b2 p3 b3 rest where
    s: "u8g2_font_setup_decode u ptr = Some (head_state u g p0 b0)"
      "get_signed (head_state u g p0 b0) (bits_per_char_x (font_info u)) = Some (g_x g, head_state u g p1 b1)"
      "get_signed (head_state u g p1 b1) (bits_per_char_y (font_info u)) = Some (g_y g, head_state u g p2 b2)"
      "get_signed (head_state u g p2 b2) (bits_per_delta_x (font_info u)) = Some (g_delta g, head_state u g p3 b3)"
      "b3 < 8" "bits_from bytes p3 b3 = concat (map (group_code (font_info u)) (g_groups g)) @ rest" "8 \<le> length rest"
    by (rule glyph_head [OF g(1,3)])
  let ?v = "(head_state u g p3 b3)\<lparr>glyph_x_offset := g_x g\<rparr>"
  have "u8g2_GetGlyphWidth u e = Some (g_delta g, ?v)"
    by (simp add: u8g2_GetGlyphWidth_def g(2) s(1,2,3,4) get_signed_offset)
  moreover have "measured u ?v"
    unfolding measured_def by (rule exI [of _ "font_decode (head_state u g p3 b3)"], rule exI [of _ "g_x g"]) (simp add: head_state_def)
  ultimately show ?thesis by fastforce
qed

definition last_width :: "(char \<Rightarrow> glyph option) \<Rightarrow> string \<Rightarrow> u8 \<times> u8 \<times> u8 \<Rightarrow> u8 \<times> u8 \<times> u8" where
  "last_width gl str none =
     (if str = [] then none else let g = the (gl (last str)) in (g_delta g, g_width g, g_x g))"

lemma width_loop:
  assumes "next_cb u = Some Ascii_Next" and "plain str"
    and "\<And>c. c \<in> set str \<Longrightarrow> gl c \<noteq> None \<and> glyph_for u (ucast (byte_of c)) (gl c)"
  shows "\<exists>v. each_char call_next_cb width_char str ((w, dx), u) =
      Some ((w + str_advance gl str, fst (last_width gl str (dx, gw, ox))), v) \<and> measured u v \<and>
    (glyph_width (font_decode u) = gw \<longrightarrow> glyph_x_offset u = ox \<longrightarrow>
      (glyph_width (font_decode v), glyph_x_offset v) = snd (last_width gl str (dx, gw, ox)))"
  using assms
proof (induction str arbitrary: u w dx gw ox)
  case Nil
  then show ?case using ascii_next(1) [OF Nil(1)]
    by (auto simp: each_char_end str_advance_def last_width_def intro: measured_refl)
next
  case (Cons c str)
  have c: "call_next_cb (byte_of c) u = Some (ucast (byte_of c), u)"
    by (rule ascii_next(2) [OF Cons.prems(1)]) (use Cons.prems(2) in \<open>auto simp: plain_def\<close>)
  have "gl c \<noteq> None \<and> glyph_for u (ucast (byte_of c)) (gl c)" by (rule Cons.prems(3)) simp
  then obtain g where g: "gl c = Some g" "glyph_for u (ucast (byte_of c)) (Some g)" by auto
  obtain v where v: "u8g2_GetGlyphWidth u (ucast (byte_of c)) = Some (g_delta g, v)" "measured u v"
      "glyph_width (font_decode v) = g_width g" "glyph_x_offset v = g_x g"
    using GetGlyphWidth_glyph [OF g(2)] by blast
  have step: "width_char (ucast (byte_of c)) ((w, dx), u) = Some ((w + g_delta g, g_delta g), v)"
    by (simp add: width_char_def v(1))
  note keep = measured_keeps [OF v(2)]
  have "\<exists>x. each_char call_next_cb width_char str ((w + g_delta g, g_delta g), v) =
      Some ((w + g_delta g + str_advance gl str, fst (last_width gl str (g_delta g, g_width g, g_x g))), x) \<and> measured v x \<and>
    (glyph_width (font_decode v) = g_width g \<longrightarrow> glyph_x_offset v = g_x g \<longrightarrow>
      (glyph_width (font_decode x), glyph_x_offset x) = snd (last_width gl str (g_delta g, g_width g, g_x g)))"
    using Cons.prems keep by (intro Cons.IH) (auto simp: plain_def)
  then obtain x where x: "each_char call_next_cb width_char str ((w + g_delta g, g_delta g), v) =
      Some ((w + g_delta g + str_advance gl str, fst (last_width gl str (g_delta g, g_width g, g_x g))), x)" "measured v x"
      "(glyph_width (font_decode x), glyph_x_offset x) = snd (last_width gl str (g_delta g, g_width g, g_x g))"
    using v(3,4) by blast
  have l: "last_width gl str (g_delta g, g_width g, g_x g) = last_width gl (c # str) (dx, gw, ox)"
    by (simp add: last_width_def g(1))
  have "each_char call_next_cb width_char (c # str) ((w, dx), u) =
      Some ((w + str_advance gl (c # str), fst (last_width gl (c # str) (dx, gw, ox))), x)"
    unfolding each_char_more [of call_next_cb, OF c byte_not_special] step bind.bind_lunit x(1) l
    by (simp add: str_advance_def add.assoc g(1))
  then show ?case using x(3) measured_trans [OF v(2) x(2)] unfolding l by blast
qed

text \<open>The width of a string: the advances, but the last glyph counts with its offset and its pixels.\<close>

definition str_width :: "(char \<Rightarrow> glyph option) \<Rightarrow> string \<Rightarrow> u8" where
  "str_width gl str =
     (if str = [] then 0
      else let g = the (gl (last str)) in
        if g_width g = 0 then str_advance gl str else str_advance gl (butlast str) + g_x g + g_width g)"

lemma GetStrWidth_glyphs:
  assumes "plain str" and "\<And>c. c \<in> set str \<Longrightarrow> gl c \<noteq> None \<and> glyph_for u (ucast (byte_of c)) (gl c)"
  shows "\<exists>v. u8g2_GetStrWidth u str = Some (str_width gl str, v)"
proof -
  let ?u = "u\<lparr>next_cb := Some Ascii_Next, font_decode := (font_decode u)\<lparr>glyph_width := 0\<rparr>, utf8_state := 0\<rparr>"
  have gd: "u8g2_font_get_glyph_data ?u = u8g2_font_get_glyph_data u" by (rule glyph_data_text) simp_all
  have gf: "glyph_for ?u = glyph_for u" unfolding glyph_for_def [abs_def] has_room_def gd by simp
  have "\<exists>v. each_char call_next_cb width_char str ((0, 0), ?u) =
      Some ((0 + str_advance gl str, fst (last_width gl str (0, 0, glyph_x_offset u))), v) \<and> measured ?u v \<and>
    (glyph_width (font_decode ?u) = 0 \<longrightarrow> glyph_x_offset ?u = glyph_x_offset u \<longrightarrow>
      (glyph_width (font_decode v), glyph_x_offset v) = snd (last_width gl str (0, 0, glyph_x_offset u)))"
    by (rule width_loop) (use assms gf in simp_all)
  then obtain v where v: "each_char call_next_cb width_char str ((0, 0), ?u) =
      Some ((str_advance gl str, fst (last_width gl str (0, 0, glyph_x_offset u))), v)"
      "(glyph_width (font_decode v), glyph_x_offset v) = snd (last_width gl str (0, 0, glyph_x_offset u))" by auto
  have adv: "str_advance gl str = str_advance gl (butlast str) + g_delta (the (gl (last str)))" if "str \<noteq> []"
  proof -
    have "last str \<in> set str" using that by simp
    then have "gl (last str) \<noteq> None" using assms(2) by blast
    then show ?thesis using append_butlast_last_id [OF that, symmetric]
      by (metis (no_types, lifting) str_advance_def map_append sum_list_append list.map sum_list.Cons sum_list.Nil add_0_right option.case_eq_if)
  qed
  have "u8g2_GetStrWidth u str = Some (if glyph_width (font_decode v) \<noteq> 0
      then str_advance gl str - fst (last_width gl str (0, 0, glyph_x_offset u)) + glyph_width (font_decode v) + glyph_x_offset v
      else str_advance gl str, v)"
    using v(1) by (simp add: u8g2_GetStrWidth_def u8g2_string_width_def u8x8_utf8_init_def)
  also have "\<dots> = Some (str_width gl str, v)"
    using v(2) adv by (cases "str = []") (auto simp: last_width_def str_width_def str_advance_def Let_def)
  finally show ?thesis by blast
qed

section \<open>What the kerning tables hold\<close>

text \<open>A table of triples ends with \<open>0xffff\<close>; the first triple of the pair counts.\<close>

definition kerning_table :: "(u16 \<times> u16 \<times> u16) list \<Rightarrow> u16 list" where
  "kerning_table ps = concat (map (\<lambda>(a, b, k). [a, b, k]) ps) @ [0xffff]"

fun kerning_of :: "(u16 \<times> u16 \<times> u16) list \<Rightarrow> u16 \<Rightarrow> u16 \<Rightarrow> u8" where
  "kerning_of [] e1 e2 = 0"
| "kerning_of ((a, b, k) # ps) e1 e2 = (if a = e1 \<and> b = e2 then ucast k else kerning_of ps e1 e2)"

lemma kerning_loop_table:
  assumes "\<And>a b k. (a, b, k) \<in> set ps \<Longrightarrow> a \<noteq> 0xffff" and "drop (unat i) kt = kerning_table ps" and "length kt < 2 ^ 16"
  shows "kerning_loop kt e1 e2 i = Some (kerning_of ps e1 e2)"
  using assms
proof (induction ps arbitrary: i)
  case Nil
  then have "drop (unat i) kt = [0xffff]" by (simp add: kerning_table_def)
  then have "entry_at kt (unat i) = Some 0xffff"
    by (metis drop_eq_Nil entry_at_def hd_drop_conv_nth linorder_not_less list.sel(1) not_Cons_self2)
  then show ?case by (subst kerning_loop.simps) simp
next
  case (Cons p ps)
  obtain a b k where p: "p = (a, b, k)" by (cases p)
  have d: "drop (unat i) kt = a # b # k # kerning_table ps" using Cons.prems(2) by (simp add: p kerning_table_def)
  have len: "unat i + 3 < length kt"
  proof -
    have "length (drop (unat i) kt) = 3 + length (kerning_table ps)" unfolding d by simp
    then show ?thesis by (simp add: kerning_table_def)
  qed
  have e: "entry_at kt (unat i + n) = Some ((a # b # k # kerning_table ps) ! n)" if "n < 3" for n
    using that len unfolding d [symmetric] by (simp add: entry_at_def)
  have "unat (i + 3) = unat i + 3" using len Cons.prems(3) by (simp add: unat_word_ariths)
  moreover have "drop (3 + unat i) kt = kerning_table ps" using d by (simp add: drop_drop [symmetric] del: drop_drop)
  ultimately have ih: "kerning_loop kt e1 e2 (i + 3) = Some (kerning_of ps e1 e2)"
    using Cons.prems(1,3) by (intro Cons.IH) (auto simp: add.commute)
  have "a \<noteq> 0xffff" using Cons.prems(1) p by auto
  then show ?case using e [of 0] e [of 1] e [of 2] ih by (subst kerning_loop.simps) (simp add: p)
qed

lemma GetKerningByTable_table:
  assumes "\<And>a b k. (a, b, k) \<in> set ps \<Longrightarrow> a \<noteq> 0xffff" and "length (kerning_table ps) < 2 ^ 16"
  shows "u8g2_GetKerningByTable (Some (kerning_table ps)) e1 e2 = Some (kerning_of ps e1 e2)"
  using kerning_loop_table [of ps 0 "kerning_table ps" e1 e2] assms by (simp add: u8g2_GetKerningByTable_def)

text \<open>The search in a sorted-out table, which always ends: the first match in a part, or its end.\<close>

lemma find_entry_finds:
  assumes "unat cnt \<le> length t" and "i \<le> cnt"
  shows "\<exists>j. find_entry t e i cnt = Some j \<and> i \<le> j \<and> j \<le> cnt \<and> (\<forall>n. unat i \<le> n \<and> n < unat j \<longrightarrow> t ! n \<noteq> e) \<and>
    (j < cnt \<longrightarrow> t ! unat j = e)"
  using assms
proof (induction t e i cnt rule: find_entry.induct)
  case (1 t e i cnt)
  show ?case
  proof (cases "i < cnt")
    case less: True
    then have l: "unat i < unat cnt" "unat i < length t" using 1(2) by (simp_all add: word_less_nat_alt)
    have s: "unat (i + 1) = unat i + 1" by (rule count_up(2) [OF less])
    have x: "entry_at t (unat i) = Some (t ! unat i)" using l(2) by (simp add: entry_at_def)
    show ?thesis
    proof (cases "t ! unat i = e")
      case True
      then show ?thesis using less x l by (subst find_entry.simps) (auto simp: word_le_nat_alt)
    next
      case False
      have "i + 1 \<le> cnt" using l s by (simp add: word_le_nat_alt)
      from 1(1) [OF less x False 1(2) this] obtain j where j: "find_entry t e (i + 1) cnt = Some j" "i + 1 \<le> j" "j \<le> cnt"
          "\<forall>n. unat (i + 1) \<le> n \<and> n < unat j \<longrightarrow> t ! n \<noteq> e" "j < cnt \<longrightarrow> t ! unat j = e" by blast
      have "\<forall>n. unat i \<le> n \<and> n < unat j \<longrightarrow> t ! n \<noteq> e"
        using j(4) False s by (metis Suc_eq_plus1 Suc_leI le_neq_implies_less)
      moreover have "i \<le> j" using j(2) s by (simp add: word_le_nat_alt)
      moreover have "find_entry t e i cnt = Some j" using less x False j(1) by (subst find_entry.simps) simp
      ultimately show ?thesis using j(3,5) by blast
    qed
  next
    case False
    then show ?thesis using 1(3) by (subst find_entry.simps) auto
  qed
qed

end
