(* ===== verification/U8g2_Menu.thy ===== *)
theory U8g2_Menu
  imports U8x8_Menu U8x8_Log U8g2_Strings U8g2_Shapes U8g2_Buffer
begin

text \<open>
  libs/u8g2/csrc: the user interface drawn page by page. u8g2_selection_list.c, u8g2_message.c,
  u8g2_input_value.c and u8log_u8g2.c. Each page loop draws everything and sends the buffer; the loops
  that wait for a key and the page loops are partial functions.
\<close>

section \<open>Page loops and keys\<close>

text \<open>\<open>do draw while ( u8g2_NextPage(u8g2) )\<close>; the last drawing gives the value of its variable.\<close>

partial_function (option) pages ::
    "u8g2 display_cb \<Rightarrow> (u8g2 \<Rightarrow> ('b \<times> u8g2) option) \<Rightarrow> u8g2 \<Rightarrow> ('b \<times> u8g2) option" where
  "pages display draw u =
     Option.bind (draw u) (\<lambda>(b, u).
     Option.bind (u8g2_NextPage display u) (\<lambda>(r, u). if r \<noteq> 0 then pages display draw u else Some (b, u)))"

text \<open>Waiting for a key: the step has no value for the events that are ignored.\<close>

partial_function (option) wait_key :: "u8g2 msg_cb \<Rightarrow> (u8 \<Rightarrow> 'b option) \<Rightarrow> u8g2 \<Rightarrow> ('b \<times> u8g2) option" where
  "wait_key gpio step u =
     Option.bind (u8x8_GetMenuEvent gpio u) (\<lambda>(event, u).
       case step event of None \<Rightarrow> wait_key gpio step u | Some b \<Rightarrow> Some (b, u))"

section \<open>Lines of text\<close>

abbreviation (input) "MY_BORDER_SIZE \<equiv> (1 :: u8)"

function draw_border :: "u8g2 \<Rightarrow> u8 \<Rightarrow> u8 \<Rightarrow> u8 \<Rightarrow> u8 \<Rightarrow> u8 \<Rightarrow> u8g2 option" where
  "draw_border u fx fy fw fh border_size =
     (if border_size > 0 then
        (let fx = fx - 1; fy = fy - 1; fw = fw + 2; fh = fh + 2 in
         case u8g2_DrawFrame u fx fy fw fh of
           None \<Rightarrow> None
         | Some u \<Rightarrow> draw_border u fx fy fw fh (border_size - 1))
      else Some u)"
  by pat_completeness auto
termination
  by (relation "measure (\<lambda>(u, fx, fy, fw, fh, border_size). unat border_size)")
    (auto simp: unat_minus_one unat_gt_0 word_gt_0)

declare draw_border.simps [simp del]

definition u8g2_DrawUTF8Line :: "u8g2 \<Rightarrow> u8 \<Rightarrow> u8 \<Rightarrow> u8 \<Rightarrow> string \<Rightarrow> u8 \<Rightarrow> u8 \<Rightarrow> u8g2 option" where
  "u8g2_DrawUTF8Line u x y w s border_size is_invert = do {
     let u = u8g2_SetFontDirection u 0;
     let y = y + call_calc_vref u;
     (text_w, u) \<leftarrow> u8g2_GetUTF8Width u s;
     let (d, w) = (if text_w < w then ((w - text_w) div 2, w) else (0, text_w));
     let fx = x;
     let fy = y - font_ref_ascent u;
     let fw = w;
     let fh = font_ref_ascent u - font_ref_descent u;
     let u = u8g2_SetDrawColor 1 u;
     u \<leftarrow> doif (is_invert \<noteq> 0) (\<lambda>u. u8g2_DrawBox u fx fy fw fh) u;
     u \<leftarrow> draw_border u fx fy fw fh border_size;
     let u = (if is_invert \<noteq> 0 then u8g2_SetDrawColor 0 u else u8g2_SetDrawColor 1 u);
     (_, u) \<leftarrow> u8g2_DrawUTF8 u (x + d) y s;
     Some (u8g2_SetDrawColor 1 u) }"

function text_lines :: "u8g2 \<Rightarrow> u8 \<Rightarrow> u8 \<Rightarrow> u8 \<Rightarrow> u8 \<Rightarrow> string \<Rightarrow> u8 \<Rightarrow> u8 \<Rightarrow> u8 \<Rightarrow> (u8 \<times> u8g2) option" where
  "text_lines u x y w line_height s cnt i yy =
     (if i < cnt then
        (case u8x8_GetStringLineStart i s of
           None \<Rightarrow> None
         | Some line \<Rightarrow>
             (case u8g2_DrawUTF8Line u x y w line 0 0 of
                None \<Rightarrow> None
              | Some u \<Rightarrow> text_lines u x (y + line_height) w line_height s cnt (i + 1) (yy + line_height)))
      else Some (yy, u))"
  by pat_completeness auto
termination
  by (relation "measure (\<lambda>(u, x, y, w, line_height, s, cnt, i, yy). unat cnt - unat i)") (use count_up(1) in auto)

declare text_lines.simps [simp del]

definition u8g2_DrawUTF8Lines :: "u8g2 \<Rightarrow> u8 \<Rightarrow> u8 \<Rightarrow> u8 \<Rightarrow> u8 \<Rightarrow> string option \<Rightarrow> (u8 \<times> u8g2) option" where
  "u8g2_DrawUTF8Lines u x y w line_height s =
     (let cnt = u8x8_GetStringLineCnt s
      in case s of None \<Rightarrow> Some (0, u) | Some s \<Rightarrow> text_lines u x y w line_height s cnt 0 0)"

section \<open>Selection lists\<close>

text \<open>The position \<open>yy\<close> that the code also computes is not used.\<close>

definition u8g2_draw_selection_list_line ::
    "u8sl_t \<Rightarrow> u8 \<Rightarrow> u8 \<Rightarrow> string \<Rightarrow> u8g2 \<Rightarrow> (u8 \<times> u8g2) option" where
  "u8g2_draw_selection_list_line u8sl y idx s u = do {
     let line_height = font_ref_ascent u - font_ref_descent u + MY_BORDER_SIZE;
     let (border_size, is_invert) = (if idx = current_pos u8sl then (MY_BORDER_SIZE, 1) else (0, 0));
     let s = (case u8x8_GetStringLineStart idx s of None \<Rightarrow> '''' | Some line \<Rightarrow> line);
     u \<leftarrow> u8g2_DrawUTF8Line u MY_BORDER_SIZE y (width u - 2 * MY_BORDER_SIZE) s border_size is_invert;
     Some (line_height, u) }"

function list_lines :: "u8sl_t \<Rightarrow> u8 \<Rightarrow> u8 \<Rightarrow> string \<Rightarrow> u8g2 \<Rightarrow> u8g2 option" where
  "list_lines u8sl i y s u =
     (if i < sl_visible u8sl then
        (case u8g2_draw_selection_list_line u8sl y (i + first_pos u8sl) s u of
           None \<Rightarrow> None
         | Some (n, u) \<Rightarrow> list_lines u8sl (i + 1) (y + n) s u)
      else Some u)"
  by pat_completeness auto
termination
  by (relation "measure (\<lambda>(u8sl, i, y, s, u). unat (sl_visible u8sl) - unat i)") (use count_up(1) in auto)

declare list_lines.simps [simp del]

definition u8g2_DrawSelectionList :: "u8sl_t \<Rightarrow> u8 \<Rightarrow> string \<Rightarrow> u8g2 \<Rightarrow> u8g2 option" where
  "u8g2_DrawSelectionList u8sl y s u = list_lines u8sl 0 y s u"

text \<open>The list the interface starts with; dividing by a line height of 0 is undefined.\<close>

definition selection_start :: "string option \<Rightarrow> u8 \<Rightarrow> string \<Rightarrow> u8g2 \<Rightarrow> u8sl_t option" where
  "selection_start title start_pos sl u =
     (let line_height = font_ref_ascent u - font_ref_descent u + MY_BORDER_SIZE;
          title_lines = u8x8_GetStringLineCnt title;
          start_pos = (if start_pos > 0 then start_pos - 1 else start_pos)
      in if line_height = 0 then None
         else
           let vis = (if title_lines > 0
                      then word_of_int (c_div (uint (height u) - 3) (uint line_height)) - title_lines
                      else height u div line_height);
               u8sl = \<lparr>sl_visible = vis, sl_total = u8x8_GetStringLineCnt (Some sl), first_pos = 0, current_pos = start_pos,
                 sl_x = 0, sl_y = 0\<rparr>;
               u8sl = (if current_pos u8sl \<ge> sl_total u8sl then u8sl\<lparr>current_pos := sl_total u8sl - 1\<rparr> else u8sl)
           in Some (if uint (first_pos u8sl) + uint (sl_visible u8sl) \<le> uint (current_pos u8sl)
                    then u8sl\<lparr>first_pos := current_pos u8sl - sl_visible u8sl + 1\<rparr> else u8sl))"

definition draw_selection :: "string option \<Rightarrow> string \<Rightarrow> u8sl_t \<Rightarrow> u8 \<Rightarrow> u8g2 \<Rightarrow> (unit \<times> u8g2) option" where
  "draw_selection title sl u8sl line_height u = do {
     let yy = font_ref_ascent u;
     (yy, u) \<leftarrow>
       (if u8x8_GetStringLineCnt title > 0 then do {
          (n, u) \<leftarrow> u8g2_DrawUTF8Lines u 0 yy (width u) line_height title;
          let yy = yy + n;
          u \<leftarrow> u8g2_DrawHLine u 0 (yy - line_height - font_ref_descent u + 1) (width u);
          Some (yy + 3, u) }
        else Some (yy, u));
     u \<leftarrow> u8g2_DrawSelectionList u8sl yy sl u;
     Some ((), u) }"

definition selection_key :: "u8sl_t \<Rightarrow> u8 \<Rightarrow> (u8 + u8sl_t) option" where
  "selection_key u8sl event =
     (if event = U8X8_MSG_GPIO_MENU_SELECT then Some (Inl (current_pos u8sl + 1))
      else if event = U8X8_MSG_GPIO_MENU_HOME then Some (Inl 0)
      else if event = U8X8_MSG_GPIO_MENU_NEXT \<or> event = U8X8_MSG_GPIO_MENU_DOWN then Some (Inr (u8sl_Next u8sl))
      else if event = U8X8_MSG_GPIO_MENU_PREV \<or> event = U8X8_MSG_GPIO_MENU_UP then Some (Inr (u8sl_Prev u8sl))
      else None)"

partial_function (option) selection_loop ::
    "u8g2 display_cb \<Rightarrow> u8g2 msg_cb \<Rightarrow> string option \<Rightarrow> string \<Rightarrow> u8 \<Rightarrow> u8sl_t \<Rightarrow> u8g2 \<Rightarrow> (u8 \<times> u8g2) option" where
  "selection_loop display gpio title sl line_height u8sl u =
     Option.bind (u8g2_FirstPage u) (\<lambda>u.
     Option.bind (pages display (draw_selection title sl u8sl line_height) u) (\<lambda>(_, u).
     Option.bind (wait_key gpio (selection_key u8sl) u) (\<lambda>(r, u).
       case r of Inl n \<Rightarrow> Some (n, u) | Inr u8sl \<Rightarrow> selection_loop display gpio title sl line_height u8sl u)))"

definition u8g2_UserInterfaceSelectionList ::
    "u8g2 display_cb \<Rightarrow> u8g2 msg_cb \<Rightarrow> string option \<Rightarrow> u8 \<Rightarrow> string \<Rightarrow> u8g2 \<Rightarrow> (u8 \<times> u8g2) option" where
  "u8g2_UserInterfaceSelectionList display gpio title start_pos sl u = do {
     let line_height = font_ref_ascent u - font_ref_descent u + MY_BORDER_SIZE;
     u8sl \<leftarrow> selection_start title start_pos sl u;
     let u = u8g2_SetFontPosBaseline u;
     selection_loop display gpio title sl line_height u8sl u }"

section \<open>Messages\<close>

abbreviation (input) "SPACE_BETWEEN_BUTTONS_IN_PIXEL \<equiv> (6 :: u8)"
abbreviation (input) "SPACE_BETWEEN_TEXT_AND_BUTTONS_IN_PIXEL \<equiv> (3 :: u8)"

function buttons_width :: "string \<Rightarrow> u8 \<Rightarrow> u8 \<Rightarrow> u8 \<Rightarrow> u8g2 \<Rightarrow> (u8 \<times> u8g2) option" where
  "buttons_width s cnt i w u =
     (if i < cnt then
        (case u8x8_GetStringLineStart i s of
           None \<Rightarrow> None
         | Some line \<Rightarrow>
             (case u8g2_GetUTF8Width u line of
                None \<Rightarrow> None
              | Some (n, u) \<Rightarrow> buttons_width s cnt (i + 1) (w + n) u))
      else Some (w, u))"
  by pat_completeness auto
termination
  by (relation "measure (\<lambda>(s, cnt, i, w, u). unat cnt - unat i)") (use count_up(1) in auto)

function button_boxes :: "u8 \<Rightarrow> u8 \<Rightarrow> string \<Rightarrow> u8 \<Rightarrow> u8 \<Rightarrow> u8 \<Rightarrow> u8g2 \<Rightarrow> u8g2 option" where
  "button_boxes y cursor s cnt i x u =
     (if i < cnt then
        (case u8x8_GetStringLineStart i s of
           None \<Rightarrow> None
         | Some line \<Rightarrow>
             (case u8g2_DrawUTF8Line u x y 0 line 1 (if i = cursor then 1 else 0) of
                None \<Rightarrow> None
              | Some u \<Rightarrow>
                  (case u8g2_GetUTF8Width u line of
                     None \<Rightarrow> None
                   | Some (n, u) \<Rightarrow>
                       button_boxes y cursor s cnt (i + 1) (x + n + SPACE_BETWEEN_BUTTONS_IN_PIXEL) u)))
      else Some u)"
  by pat_completeness auto
termination
  by (relation "measure (\<lambda>(y, cursor, s, cnt, i, x, u). unat cnt - unat i)") (use count_up(1) in auto)

declare buttons_width.simps [simp del] button_boxes.simps [simp del]

definition u8g2_draw_button_line :: "u8 \<Rightarrow> u8 \<Rightarrow> u8 \<Rightarrow> string option \<Rightarrow> u8g2 \<Rightarrow> (u8 \<times> u8g2) option" where
  "u8g2_draw_button_line y w cursor s u = do {
     let cnt = u8x8_GetStringLineCnt s;
     let line = (case s of None \<Rightarrow> '''' | Some line \<Rightarrow> line);
     (bw, u) \<leftarrow> buttons_width line cnt 0 0 u;
     let bw = bw + (cnt - 1) * SPACE_BETWEEN_BUTTONS_IN_PIXEL;
     let d = (if bw < w then (w - bw) div 2 else 0);
     u \<leftarrow> button_boxes y cursor line cnt 0 d u;
     Some (cnt, u) }"

definition draw_message ::
    "string option \<Rightarrow> string option \<Rightarrow> string option \<Rightarrow> string option \<Rightarrow> u8 \<Rightarrow> u8 \<Rightarrow> u8 \<Rightarrow> u8g2 \<Rightarrow> (u8 \<times> u8g2) option" where
  "draw_message title1 title2 title3 buttons y line_height cursor u = do {
     (n, u) \<leftarrow> u8g2_DrawUTF8Lines u 0 y (width u) line_height title1;
     let yy = y + n;
     (yy, u) \<leftarrow>
       (case title2 of
          None \<Rightarrow> Some (yy, u)
        | Some line \<Rightarrow> do {
            u \<leftarrow> u8g2_DrawUTF8Line u 0 yy (width u) line 0 0;
            Some (yy + line_height, u) });
     (n, u) \<leftarrow> u8g2_DrawUTF8Lines u 0 yy (width u) line_height title3;
     let yy = yy + n;
     let yy = yy + SPACE_BETWEEN_TEXT_AND_BUTTONS_IN_PIXEL;
     u8g2_draw_button_line yy (width u) cursor buttons u }"

text \<open>The keys give the result or a new position of the cursor.\<close>

definition message_key :: "u8 \<Rightarrow> u8 \<Rightarrow> u8 \<Rightarrow> (u8 + u8) option" where
  "message_key button_cnt cursor event =
     (if event = U8X8_MSG_GPIO_MENU_SELECT then Some (Inl (cursor + 1))
      else if event = U8X8_MSG_GPIO_MENU_HOME then Some (Inl 0)
      else if event = U8X8_MSG_GPIO_MENU_NEXT \<or> event = U8X8_MSG_GPIO_MENU_DOWN then
        (let cursor = cursor + 1 in Some (Inr (if cursor \<ge> button_cnt then 0 else cursor)))
      else if event = U8X8_MSG_GPIO_MENU_PREV \<or> event = U8X8_MSG_GPIO_MENU_UP then
        (let cursor = (if cursor = 0 then button_cnt else cursor) in Some (Inr (cursor - 1)))
      else None)"

partial_function (option) message_loop ::
    "u8g2 display_cb \<Rightarrow> u8g2 msg_cb \<Rightarrow> (u8 \<Rightarrow> u8g2 \<Rightarrow> (u8 \<times> u8g2) option) \<Rightarrow> u8 \<Rightarrow> u8g2 \<Rightarrow> (u8 \<times> u8g2) option" where
  "message_loop display gpio draw cursor u =
     Option.bind (u8g2_FirstPage u) (\<lambda>u.
     Option.bind (pages display (draw cursor) u) (\<lambda>(button_cnt, u).
     Option.bind (wait_key gpio (message_key button_cnt cursor) u) (\<lambda>(r, u).
       case r of Inl n \<Rightarrow> Some (n, u) | Inr cursor \<Rightarrow> message_loop display gpio draw cursor u)))"

definition u8g2_UserInterfaceMessage ::
    "u8g2 display_cb \<Rightarrow> u8g2 msg_cb \<Rightarrow> string option \<Rightarrow> string option \<Rightarrow> string option \<Rightarrow> string option \<Rightarrow> u8g2 \<Rightarrow>
       (u8 \<times> u8g2) option" where
  "u8g2_UserInterfaceMessage display gpio title1 title2 title3 buttons u =
     (let u = u8g2_SetFontDirection u 0;
          u = u8g2_SetFontPosBaseline u;
          line_height = font_ref_ascent u;
          line_height = line_height - font_ref_descent u;
          lines = 1 + u8x8_GetStringLineCnt title1;
          lines = (if title2 \<noteq> None then lines + 1 else lines);
          lines = lines + u8x8_GetStringLineCnt title3;
          pixels = lines;
          pixels = pixels * line_height;
          pixels = pixels + SPACE_BETWEEN_TEXT_AND_BUTTONS_IN_PIXEL;
          y = (if pixels < height u then (height u - pixels) div 2 else 0);
          y = y + font_ref_ascent u
      in message_loop display gpio (draw_message title1 title2 title3 buttons y line_height) 0 u)"

section \<open>Values\<close>

definition draw_input ::
    "string option \<Rightarrow> string \<Rightarrow> string \<Rightarrow> u8 \<Rightarrow> u8 \<Rightarrow> u8 \<Rightarrow> u8 \<Rightarrow> u8 \<Rightarrow> u8g2 \<Rightarrow> (unit \<times> u8g2) option" where
  "draw_input title pre post x y line_height digits local_value u = do {
     (n, u) \<leftarrow> u8g2_DrawUTF8Lines u 0 y (width u) line_height title;
     let yy = y + n;
     (n, u) \<leftarrow> u8g2_DrawUTF8 u x yy pre;
     let xx = x + n;
     bs \<leftarrow> u8x8_u8toa local_value digits;
     (n, u) \<leftarrow> u8g2_DrawUTF8 u xx yy (digits_text bs);
     let xx = xx + n;
     (_, u) \<leftarrow> u8g2_DrawUTF8 u xx yy post;
     Some ((), u) }"

text \<open>The keys end the input, with or without a new value, or change it.\<close>

definition value_key :: "u8 \<Rightarrow> u8 \<Rightarrow> u8 \<Rightarrow> u8 \<Rightarrow> ((u8 \<times> u8 option) + u8) option" where
  "value_key lo hi local_value event =
     (if event = U8X8_MSG_GPIO_MENU_SELECT then Some (Inl (1, Some local_value))
      else if event = U8X8_MSG_GPIO_MENU_HOME then Some (Inl (0, None))
      else if event = U8X8_MSG_GPIO_MENU_NEXT \<or> event = U8X8_MSG_GPIO_MENU_UP then Some (Inr (value_up lo hi local_value))
      else if event = U8X8_MSG_GPIO_MENU_PREV \<or> event = U8X8_MSG_GPIO_MENU_DOWN then Some (Inr (value_down lo hi local_value))
      else None)"

partial_function (option) value_loop ::
    "u8g2 display_cb \<Rightarrow> u8g2 msg_cb \<Rightarrow> (u8 \<Rightarrow> u8g2 \<Rightarrow> (unit \<times> u8g2) option) \<Rightarrow> u8 \<Rightarrow> u8 \<Rightarrow> u8 \<Rightarrow> u8g2 \<Rightarrow>
       ((u8 \<times> u8 option) \<times> u8g2) option" where
  "value_loop display gpio draw lo hi local_value u =
     Option.bind (u8g2_FirstPage u) (\<lambda>u.
     Option.bind (pages display (draw local_value) u) (\<lambda>(_, u).
     Option.bind (wait_key gpio (value_key lo hi local_value) u) (\<lambda>(r, u).
       case r of Inl r \<Rightarrow> Some (r, u) | Inr local_value \<Rightarrow> value_loop display gpio draw lo hi local_value u)))"

text \<open>The result and the variable the value is stored to.\<close>

definition u8g2_UserInterfaceInputValue ::
    "u8g2 display_cb \<Rightarrow> u8g2 msg_cb \<Rightarrow> string option \<Rightarrow> string \<Rightarrow> u8 \<Rightarrow> u8 \<Rightarrow> u8 \<Rightarrow> u8 \<Rightarrow> string \<Rightarrow> u8g2 \<Rightarrow>
       ((u8 \<times> u8) \<times> u8g2) option" where
  "u8g2_UserInterfaceInputValue display gpio title pre v lo hi digits post u = do {
     let u = u8g2_SetFontDirection u 0;
     let u = u8g2_SetFontPosBaseline u;
     let line_height = font_ref_ascent u;
     let line_height = line_height - font_ref_descent u;
     let lines = 1 + u8x8_GetStringLineCnt title;
     let pixels = lines * line_height;
     let y = (if pixels < height u then (height u - pixels) div 2 else 0);
     (w, u) \<leftarrow> u8g2_GetUTF8Width u pre;
     (n, u) \<leftarrow> u8g2_GetUTF8Width u ''0'';
     let w = w + n * digits;
     (n, u) \<leftarrow> u8g2_GetUTF8Width u post;
     let w = w + n;
     let x = (if w < width u then (width u - w) div 2 else 0);
     ((r, stored), u) \<leftarrow> value_loop display gpio (draw_input title pre post x y line_height digits) lo hi v u;
     Some ((r, case stored of None \<Rightarrow> v | Some value \<Rightarrow> value), u) }"

section \<open>The log\<close>

function log_chars :: "u8log_t \<Rightarrow> u8 \<Rightarrow> u8 \<Rightarrow> u8 \<Rightarrow> u8 \<Rightarrow> u8g2 \<Rightarrow> u8g2 option" where
  "log_chars l disp_x disp_y buf_x buf_y u =
     (if buf_x < log_width l then
        (case log_char l buf_x buf_y of
           None \<Rightarrow> None
         | Some c \<Rightarrow>
             (case u8g2_DrawGlyph u disp_x disp_y (ucast c) of
                None \<Rightarrow> None
              | Some (n, u) \<Rightarrow> log_chars l (disp_x + n) disp_y (buf_x + 1) buf_y u))
      else Some u)"
  by pat_completeness auto
termination
  by (relation "measure (\<lambda>(l, disp_x, disp_y, buf_x, buf_y, u). unat (log_width l) - unat buf_x)")
    (use count_up(1) in auto)

function log_text :: "u8log_t \<Rightarrow> u8 \<Rightarrow> u8 \<Rightarrow> u8 \<Rightarrow> u8g2 \<Rightarrow> u8g2 option" where
  "log_text l x disp_y buf_y u =
     (if buf_y < log_height l then
        (case log_chars l x disp_y 0 buf_y u of
           None \<Rightarrow> None
         | Some u \<Rightarrow>
             (let disp_y = disp_y + (font_ref_ascent u - font_ref_descent u);
                  disp_y = disp_y + line_height_offset l
              in log_text l x disp_y (buf_y + 1) u))
      else Some u)"
  by pat_completeness auto
termination
  by (relation "measure (\<lambda>(l, x, disp_y, buf_y, u). unat (log_height l) - unat buf_y)") (use count_up(1) in auto)

declare log_chars.simps [simp del] log_text.simps [simp del]

definition u8g2_DrawLog :: "u8 \<Rightarrow> u8 \<Rightarrow> u8log_t \<Rightarrow> u8g2 \<Rightarrow> u8g2 option" where
  "u8g2_DrawLog x y l u = log_text l x y 0 (u8g2_SetFontDirection u 0)"

definition u8log_u8g2_cb :: "u8g2 display_cb \<Rightarrow> u8log_t \<Rightarrow> u8g2 \<Rightarrow> u8g2 option" where
  "u8log_u8g2_cb display l u =
     (if is_redraw_line l \<noteq> 0 \<or> is_redraw_all l \<noteq> 0 then do {
        u \<leftarrow> u8g2_FirstPage u;
        void (pages display (\<lambda>u. map_option (Pair ()) (u8g2_DrawLog 0 (font_ref_ascent u) l u)) u) }
      else Some u)"

text \<open>The procedure a log calls to be drawn; its \<open>aux_data\<close> is the drawing state.\<close>

definition u8g2_log_redraw :: "u8g2 display_cb \<Rightarrow> u8g2 log_redraw" where
  "u8g2_log_redraw display f l u =
     (case f of U8log_U8x8_Cb \<Rightarrow> u8log_u8x8_cb display l u | U8log_U8g2_Cb \<Rightarrow> u8log_u8g2_cb display l u)"

section \<open>Where the cursor of a selection list is\<close>

text \<open>The list after some key events; events that end the loop or do nothing leave it alone.\<close>

definition after_keys :: "u8 list \<Rightarrow> u8sl_t \<Rightarrow> u8sl_t" where
  "after_keys = fold (\<lambda>event sl. case selection_key sl event of Some (Inr sl) \<Rightarrow> sl | _ \<Rightarrow> sl)"

definition forward_keys :: "u8 set" where
  "forward_keys = {U8X8_MSG_GPIO_MENU_NEXT, U8X8_MSG_GPIO_MENU_DOWN}"

definition backward_keys :: "u8 set" where
  "backward_keys = {U8X8_MSG_GPIO_MENU_PREV, U8X8_MSG_GPIO_MENU_UP}"

lemma after_keys_moves:
  "after_keys es sl = sl_keys (map (\<lambda>e. e \<in> forward_keys) (filter (\<lambda>e. e \<in> forward_keys \<union> backward_keys) es)) sl"
  by (induction es arbitrary: sl)
    (auto simp: after_keys_def sl_keys_def selection_key_def forward_keys_def backward_keys_def)

lemma count_moves:
  "count_list (map (\<lambda>e. e \<in> forward_keys) (filter (\<lambda>e. e \<in> forward_keys \<union> backward_keys) es)) True =
     length (filter (\<lambda>e. e \<in> forward_keys) es)"
  "count_list (map (\<lambda>e. e \<in> forward_keys) (filter (\<lambda>e. e \<in> forward_keys \<union> backward_keys) es)) False =
     length (filter (\<lambda>e. e \<in> backward_keys) es)"
  by (induction es) (auto simp: forward_keys_def backward_keys_def)

lemma selection_start_ok:
  assumes "selection_start title start_pos sl u = Some s" and "sl_visible s > 0" and "sl_total s > 0"
  shows "list_ok s" "sl_total s = u8x8_GetStringLineCnt (Some sl)"
    "uint (current_pos s) = min (max 0 (uint start_pos - 1)) (uint (sl_total s) - 1)"
proof -
  define p where "p = (if start_pos > 0 then start_pos - 1 else start_pos)"
  define n where "n = u8x8_GetStringLineCnt (Some sl)"
  define c where "c = (if p \<ge> n then n - 1 else p)"
  define v where "v = sl_visible s"
  have s: "s = \<lparr>sl_visible = v, sl_total = n, first_pos = (if uint v \<le> uint c then c - v + 1 else 0), current_pos = c,
      sl_x = 0, sl_y = 0\<rparr>"
    using assms(1) unfolding v_def selection_start_def Let_def p_def n_def c_def by (auto split: if_splits)
  have pos: "0 < uint n" "0 < uint v" using assms(2,3) by (simp_all add: s word_less_def)
  have p: "uint p = max 0 (uint start_pos - 1)"
    using uint_u8(2) [of start_pos] by (auto simp: p_def u8_int) (use uint_u8(1) [of start_pos] in linarith)
  have c: "uint c = min (uint p) (uint n - 1)" "uint c < uint n"
    using pos by (auto simp: c_def u8_int)
  show "sl_total s = u8x8_GetStringLineCnt (Some sl)" by (simp add: s n_def)
  show "uint (current_pos s) = min (max 0 (uint start_pos - 1)) (uint (sl_total s) - 1)" by (simp add: s c(1) p)
  show "list_ok s"
    using c(2) pos uint_u8(2) [of c] uint_u8(2) [of v] uint_u8(2) [of n] by (auto simp: s list_ok_def u8_int)
qed

text \<open>C24: whatever keys are pressed in a selection list, the cursor is the start position moved by the
  number of steps forward less the steps back, modulo the length of the list, and the drawn window
  always contains it and, if the list is longer, never shows rows behind its end.\<close>

theorem selection_cursor:
  assumes "selection_start title start_pos sl u = Some s" and "sl_visible s > 0" and "sl_total s > 0"
  shows "list_ok (after_keys es s) \<and> sl_visible (after_keys es s) = sl_visible s \<and>
    sl_total (after_keys es s) = u8x8_GetStringLineCnt (Some sl) \<and>
    uint (current_pos (after_keys es s)) =
      (min (max 0 (uint start_pos - 1)) (uint (sl_total s) - 1) + int (length (filter (\<lambda>e. e \<in> forward_keys) es)) -
        int (length (filter (\<lambda>e. e \<in> backward_keys) es))) mod uint (sl_total s)"
  using sl_keys_ok [OF selection_start_ok(1) [OF assms]] selection_start_ok(2,3) [OF assms]
  unfolding after_keys_moves by (simp only: count_moves)

lemma selection_cursor_witness:
  "\<exists>s. selection_start None 3 (''a'' @ LF # ''b'' @ LF # ''c'')
       (u8g2_zero\<lparr>height := 64, font_ref_ascent := 20, font_ref_descent := 251\<rparr>) = Some s \<and>
     current_pos (after_keys [U8X8_MSG_GPIO_MENU_NEXT, U8X8_MSG_GPIO_MENU_DOWN] s) = 1"
proof -
  let ?s = "\<lparr>sl_visible = 2, sl_total = 3, first_pos = 1, current_pos = 2, sl_x = 0, sl_y = 0\<rparr> :: u8sl_t"
  let ?u = "u8g2_zero\<lparr>height := 64, font_ref_ascent := 20, font_ref_descent := 251\<rparr>"
  have start: "selection_start None 3 (''a'' @ LF # ''b'' @ LF # ''c'') ?u = Some ?s"
    by (simp add: selection_start_def u8x8_GetStringLineCnt_def u8g2_zero_def)
  from selection_cursor [OF start, of "[U8X8_MSG_GPIO_MENU_NEXT, U8X8_MSG_GPIO_MENU_DOWN]"]
  have "uint (current_pos (after_keys [U8X8_MSG_GPIO_MENU_NEXT, U8X8_MSG_GPIO_MENU_DOWN] ?s)) = 1"
    by (simp add: forward_keys_def backward_keys_def)
  with start show ?thesis by (simp add: word_uint_eq_iff)
qed

end
