(* ===== verification/Spec2Isabelle.thy ===== *)
theory Spec2Isabelle
  imports Gps_Board Gps_Display U8g2_Pixels U8x8_Strings U8g2_Bitmap U8g2_Triangle U8g2_Menu
begin

text \<open>
  A verification development of the GPS speedometer firmware for the ESP32. The program receives
  NMEA sentences from a GPS module, computes the speed and the times of accelerations to 40, 60, 80
  and 100 km/h, and shows them on an SH1106 display on an I2C bus.

  The parts and how they interact. The GPS task (src/hw/hw_gps.c) reads lines from the UART, parses
  them with the library minmea (libs/minmea) and publishes the speed, whether the position is valid,
  and four times in global variables. The display task (src/hw/hw_display.c) reads these variables and
  draws them with the library u8g2 (libs/u8g2/csrc): text becomes lines of pixels, lines are clipped,
  rotated and painted into a buffer of tiles, the buffer is sent tile row by tile row through the
  display, command and byte procedures of u8x8, and the byte procedure of the firmware
  (src/hw/u8g2_esp32_hal.c) calls the I2C driver of the SDK.

  Theories, in the order of their imports.
    \<^item> \<open>GPS_Prelude\<close>: machine types, C strings, checked signed arithmetic, shared lemmas.
    \<^item> \<open>Minmea_Check\<close> (minmea.c: checksum and check of a sentence), \<open>Minmea_Scan\<close> (minmea_scan, each
      conversion a function on the rest of the line), \<open>Minmea_Parse\<close> (the parsers, time stamps, scaling).
    \<^item> \<open>Gps_Trigger\<close> and \<open>Gps_Task\<close> (hw_gps.c: the timers; line buffer, loop body and published variables,
      with reachability as an inductive predicate), \<open>Gps_Board\<close> (main.cpp, hw_board.c, hw_uart.c and the
      start of both tasks, as calls of the SDK; the endless loop of the GPS task).
    \<^item> \<open>U8g2_Types\<close> (the structures of u8x8.h and u8g2.h as records, the event log of the board),
      \<open>U8g2_Lines\<close> (u8g2_ll_hvline.c: the two layouts of the buffer and its pixels), \<open>U8g2_Pixels\<close> (the plain
      branch of that file, the reference of the optimised one), \<open>U8g2_Canvas\<close>
      (u8g2_setup.c, u8g2_hvline.c, u8g2_intersection.c), \<open>U8g2_Shapes\<close> (boxes, circles, ellipses, lines).
    \<^item> \<open>U8x8_Bus\<close>, \<open>U8x8_I2C\<close> (u8x8_byte.c, u8x8_gpio.c: the serial and parallel buses over pins),
      \<open>Esp32_Hal\<close> (u8g2_esp32_hal.c), \<open>U8x8_Cad\<close> (u8x8_cad.c), \<open>U8x8_Display\<close> (u8x8_display.c,
      u8x8_setup.c and the SSD1306/SH1106 driver), \<open>U8g2_Buffer\<close> (u8g2_buffer.c, u8g2_cleardisplay.c).
    \<^item> \<open>U8x8_Text\<close> (decoders, lines and numbers), \<open>U8x8_Tiles\<close> (u8x8_8x8.c, u8x8_string.c: fonts of one tile
      per character), \<open>U8x8_Strings\<close> (round trips of texts), \<open>U8g2_Font\<close> (u8g2_font.c: fonts, the glyph
      decoder, strings), \<open>U8g2_Glyph\<close> (what the decoder draws), \<open>U8g2_Strings\<close> (widths, kerning, reference
      points), \<open>U8g2_Bitmap\<close> (u8g2_bitmap.c), \<open>U8g2_Polygon\<close> (u8g2_polygon.c), \<open>U8g2_Triangle\<close>
      (what u8g2_DrawTriangle paints).
    \<^item> \<open>U8x8_Menu\<close> (u8x8_debounce.c, u8x8_selection_list.c, u8x8_message.c, u8x8_input_value.c: keys, lists,
      messages and input with tile fonts), \<open>U8x8_Log\<close> (u8log.c, u8log_u8x8.c: the terminal), \<open>U8g2_Menu\<close>
      (u8g2_selection_list.c, u8g2_message.c, u8g2_input_value.c, u8log_u8g2.c: the same page by page).
    \<^item> \<open>Gps_Display\<close> (hw_display.c, and both tasks together).

  What the lemmas show. For the sentences: which lines pass the check, that scanning and parsing are
  defined in 32-bit arithmetic and store what the fields hold, their ranges, and that a printed
  report is read back. For the GPS task: every path of
  the line reader, what is published, and invariants of all reachable states. For the drawing: the
  contract of a command is \<open>draws\<close> (or \<open>renders\<close> for text): it paints exactly the visible part of a set of
  points, wherever the rotation and the layout put them. For the buses: the interfaces \<open>i2c_bus\<close>,
  \<open>two_wire\<close> and \<open>panel\<close> are locales, interpreted on the firmware's procedures; what a receiver decodes
  from the wire are the bytes sent. Together: after a pass of the display task the panel shows the
  picture of the values read (C1), in every interleaving of the two tasks (C2). For the rest of
  the library: a key is reported exactly when it was pressed and released, the cursor of a list is
  where the keys moved it, a log shows the last rows of an endless terminal, a bitmap its bits, the edge
  of a polygon its ideal line, a triangle the points between its edges; UTF-8 texts and lines are read back as they were written.

  Undefined behaviour, loops and bounds. An operation that can leave the defined part of C (an access
  outside an object, a signed overflow, a shift too far) has an option as its result, with \<^term>\<open>None\<close>
  for it; words wrap where C's unsigned types do. Loops are structural or have a measure. Those that
  the code does not bound (the page loop, the ellipse loops, the decoder of glyphs, the search in the
  unicode part of a font or for the next edge of a polygon, waiting for a key) are partial functions
  with \<^term>\<open>None\<close> for a loop that never ends, and a theorem about the result of such a loop states that it
  ends. No fuel is used. The build is the firmware's: 8-bit coordinates, all four text directions,
  unicode fonts, run-time clipping, the optimised line procedures.

  Not modelled. The SDK (its calls are events with their results as a parameter), the C++ key-value
  wrapper ArduinoNvs, the debug build of the GPS task that makes up speeds, the floating-point conversions of
  minmea.h; of u8g2 the other controllers' drivers and their set-ups, the C++ classes, and font
  data (fonts are arguments; the examples use excerpts of the two fonts of the firmware). Time passes
  only as events, and the two tasks interleave at the reads of the shared variables, which are single
  32-bit words. Text that does not end inside its memory is outside the model of strings.
\<close>

end
